(* ===== verification/Prelude.thy ===== *)
theory Prelude
  imports Main "HOL-Library.Word" "HOL-Library.AList" "HOL-Library.Code_Target_Nat"
begin

text \<open>
  Shared material of the development: the byte and word types of the Rust sources, the
  byte-order conversions \<^verbatim>\<open>to_be_bytes\<close>, \<^verbatim>\<open>from_le_bytes\<close> and their kin, slices,
  the error kinds of \<^verbatim>\<open>std::io\<close>, and the invariant interface for step functions.
\<close>

unbundle bit_operations_syntax

named_theorems wire_simps \<open>byte-level encodings and their lengths\<close>

section \<open>Types\<close>

type_synonym u8 = "8 word"
type_synonym u16 = "16 word"
type_synonym u32 = "32 word"
type_synonym u64 = "64 word"
type_synonym u128 = "128 word"
type_synonym bytes = "u8 list"

text \<open>
  \<^verbatim>\<open>Instant\<close> and \<^verbatim>\<open>Duration\<close> are counted in nanoseconds. \<^verbatim>\<open>Instant::duration_since\<close>
  saturates at zero, as subtraction on \<^typ>\<open>nat\<close> does.
\<close>

type_synonym instant = nat
type_synonym duration = nat

definition from_millis :: "nat \<Rightarrow> duration" where
  "from_millis n = n * 1000000"

definition from_secs :: "nat \<Rightarrow> duration" where
  "from_secs n = n * 1000000000"

definition duration_since :: "instant \<Rightarrow> instant \<Rightarrow> duration" where
  "duration_since now earlier = now - earlier"

text \<open>The \<^verbatim>\<open>std::io::ErrorKind\<close>s the sources produce; messages are not modelled.\<close>

datatype io_kind =
    InvalidData | InvalidInput | UnexpectedEof | TimedOut | WouldBlock | ConnectionRefused
  | ConnectionAborted | ConnectionReset | PermissionDenied | NotFound | BrokenPipe | OtherError

text \<open>One result of \<^verbatim>\<open>Read::read\<close>: \<open>RdOk []\<close> is \<^verbatim>\<open>Ok(0)\<close>, the end of the stream.\<close>

datatype read_ev = RdOk bytes | RdErr io_kind

section \<open>Slices\<close>

definition slice :: "nat \<Rightarrow> nat \<Rightarrow> 'a list \<Rightarrow> 'a list" where
  "slice a b xs = take (b - a) (drop a xs)"

lemma length_slice [wire_simps]: "b \<le> length xs \<Longrightarrow> length (slice a b xs) = b - a"
  by (simp add: slice_def)

lemma slice_append_left [wire_simps]:
  "b \<le> length xs \<Longrightarrow> slice a b (xs @ ys) = slice a b xs"
  by (simp add: slice_def)

lemma slice_append_right:
  "length xs \<le> a \<Longrightarrow> slice a b (xs @ ys) = slice (a - length xs) (b - length xs) ys"
  by (simp add: slice_def)

lemma slice_all [wire_simps]: "length xs \<le> b \<Longrightarrow> slice 0 b xs = xs"
  by (simp add: slice_def)

lemma slice_mid [wire_simps]:
  "a = length xs \<Longrightarrow> b = length xs + length ys \<Longrightarrow> slice a b (xs @ ys @ zs) = ys"
  by (simp add: slice_def)

lemma slice_Cons [wire_simps]:
  "0 < a \<Longrightarrow> slice a b (x # xs) = slice (a - 1) (b - 1) xs"
  by (cases a) (auto simp: slice_def)

section \<open>Byte order\<close>

fun le_nat :: "bytes \<Rightarrow> nat" where
  "le_nat [] = 0"
| "le_nat (b # bs) = unat b + 256 * le_nat bs"

fun nat_le :: "nat \<Rightarrow> nat \<Rightarrow> bytes" where
  "nat_le 0 n = []"
| "nat_le (Suc k) n = word_of_nat n # nat_le k (n div 256)"

lemma length_nat_le [simp, wire_simps]: "length (nat_le k n) = k"
  by (induction k arbitrary: n) auto

lemma unat_word8_of_nat: "unat (word_of_nat n :: u8) = n mod 256"
  by (simp add: unat_of_nat)

lemma le_nat_nat_le [wire_simps]: "le_nat (nat_le k n) = n mod 256 ^ k"
proof (induction k arbitrary: n)
  case 0
  then show ?case by simp
next
  case (Suc k)
  have "le_nat (nat_le (Suc k) n) = n mod 256 + 256 * (n div 256 mod 256 ^ k)"
    using Suc by (simp add: unat_word8_of_nat)
  also have "\<dots> = n mod 256 ^ Suc k"
    by (simp add: mod_mult2_eq)
  finally show ?case .
qed

lemma unat_u8_less [simp]: "unat (b :: u8) < 256"
  using unsigned_less [of b] by simp

lemma le_nat_less: "le_nat bs < 256 ^ length bs"
proof (induction bs)
  case Nil
  then show ?case by simp
next
  case (Cons b bs)
  have "unat b < 256" by simp
  moreover have "256 * le_nat bs + 256 \<le> 256 * 256 ^ length bs"
    using Cons.IH by linarith
  ultimately have "unat b + 256 * le_nat bs < 256 * 256 ^ length bs" by linarith
  then show ?case by simp
qed

lemma nat_le_le_nat [wire_simps]: "k = length bs \<Longrightarrow> nat_le k (le_nat bs) = bs"
proof (induction bs arbitrary: k)
  case Nil
  then show ?case by simp
next
  case (Cons b bs)
  have b: "unat b < 256" by simp
  have q: "(unat b + 256 * le_nat bs) div 256 = le_nat bs"
    using b by simp
  have r: "word_of_nat (unat b + 256 * le_nat bs) = b"
    using b by (simp add: word_unat_eq_iff unat_word8_of_nat del: of_nat_add of_nat_mult)
  show ?case using Cons q r by simp
qed

definition u16_to_be :: "u16 \<Rightarrow> bytes" where
  "u16_to_be w = rev (nat_le 2 (unat w))"

definition u32_to_be :: "u32 \<Rightarrow> bytes" where
  "u32_to_be w = rev (nat_le 4 (unat w))"

definition u64_to_be :: "u64 \<Rightarrow> bytes" where
  "u64_to_be w = rev (nat_le 8 (unat w))"

definition u32_to_le :: "u32 \<Rightarrow> bytes" where
  "u32_to_le w = nat_le 4 (unat w)"

definition u64_to_le :: "u64 \<Rightarrow> bytes" where
  "u64_to_le w = nat_le 8 (unat w)"

definition u16_from_be :: "bytes \<Rightarrow> u16" where
  "u16_from_be bs = word_of_nat (le_nat (rev bs))"

definition u32_from_be :: "bytes \<Rightarrow> u32" where
  "u32_from_be bs = word_of_nat (le_nat (rev bs))"

definition u64_from_be :: "bytes \<Rightarrow> u64" where
  "u64_from_be bs = word_of_nat (le_nat (rev bs))"

definition u128_from_be :: "bytes \<Rightarrow> u128" where
  "u128_from_be bs = word_of_nat (le_nat (rev bs))"

definition u128_to_be :: "u128 \<Rightarrow> bytes" where
  "u128_to_be w = rev (nat_le 16 (unat w))"

definition u32_from_le :: "bytes \<Rightarrow> u32" where
  "u32_from_le bs = word_of_nat (le_nat bs)"

definition u64_from_le :: "bytes \<Rightarrow> u64" where
  "u64_from_le bs = word_of_nat (le_nat bs)"

lemmas byte_order_defs = u16_to_be_def u32_to_be_def u64_to_be_def u32_to_le_def u64_to_le_def
  u16_from_be_def u32_from_be_def u64_from_be_def u128_from_be_def u128_to_be_def
  u32_from_le_def u64_from_le_def

lemma length_to_bytes [simp, wire_simps]:
  "length (u16_to_be a) = 2" "length (u32_to_be b) = 4" "length (u64_to_be c) = 8"
  "length (u32_to_le b) = 4" "length (u64_to_le c) = 8" "length (u128_to_be d) = 16"
  by (simp_all add: byte_order_defs)

lemma unat_mod_len: "unat (w :: 'a::len word) mod 2 ^ LENGTH('a) = unat w"
  by (simp add: unsigned_less)

lemma from_to_bytes [simp, wire_simps]:
  "u16_from_be (u16_to_be a) = a" "u32_from_be (u32_to_be b) = b"
  "u64_from_be (u64_to_be c) = c" "u128_from_be (u128_to_be d) = d"
  "u32_from_le (u32_to_le b) = b" "u64_from_le (u64_to_le c) = c"
  using unat_mod_len [of a] unat_mod_len [of b] unat_mod_len [of c] unat_mod_len [of d]
  by (simp_all add: byte_order_defs le_nat_nat_le)

lemma to_from_be16: "length bs = 2 \<Longrightarrow> u16_to_be (u16_from_be bs) = bs"
  using le_nat_less [of "rev bs"] nat_le_le_nat [of 2 "rev bs"]
  by (simp add: byte_order_defs unat_of_nat)

lemma to_from_be128: "length bs = 16 \<Longrightarrow> u128_to_be (u128_from_be bs) = bs"
  using le_nat_less [of "rev bs"] nat_le_le_nat [of 16 "rev bs"]
  by (simp add: byte_order_defs unat_of_nat)

lemma to_from_be32: "length bs = 4 \<Longrightarrow> u32_to_be (u32_from_be bs) = bs"
  using le_nat_less [of "rev bs"] nat_le_le_nat [of 4 "rev bs"]
  by (simp add: byte_order_defs unat_of_nat)

lemma to_from_le64: "length bs = 8 \<Longrightarrow> u64_to_le (u64_from_le bs) = bs"
  using le_nat_less [of bs] nat_le_le_nat [of 8 bs]
  by (simp add: byte_order_defs unat_of_nat)

section \<open>Invariants of step functions\<close>

text \<open>
  The contract between a component that keeps a state invariant and a client that runs any
  sequence of its operations: \<open>step\<close> performs one operation. What one operation keeps, every
  run keeps.
\<close>

locale step_invariant =
  fixes init :: "'s \<Rightarrow> bool"
    and step :: "'op \<Rightarrow> 's \<Rightarrow> 's"
    and inv :: "'s \<Rightarrow> bool"
  assumes init_inv: "init s \<Longrightarrow> inv s"
    and step_inv: "inv s \<Longrightarrow> inv (step op s)"
begin

lemma run_inv: "inv s \<Longrightarrow> inv (fold step ops s)"
  by (induction ops arbitrary: s) (auto intro: step_inv)

lemma run_from_init: "init s \<Longrightarrow> inv (fold step ops s)"
  by (rule run_inv) (rule init_inv)

end

end
