(* ===== verification/Net_Addr.thy ===== *)
theory Net_Addr
  imports Prelude
begin

text \<open>
  Addresses as \<^verbatim>\<open>std::net\<close> has them, the text forms the sources parse (\<^verbatim>\<open>str::parse\<close> for
  integers and addresses, \<^verbatim>\<open>split_once\<close>, \<^verbatim>\<open>trim\<close>), and the prefix test that the
  packet filter and the peer table both use. Strings are the bytes of the source's text;
  white space is the ASCII white space of \<^verbatim>\<open>char::is_whitespace\<close>.
\<close>

section \<open>Addresses\<close>

datatype ip_addr = V4 u32 | V6 u128

datatype socket_addr = Socket_Addr (sa_ip: ip_addr) (sa_port: u16) (sa_scope: u32)

text \<open>\<^verbatim>\<open>SocketAddr::new\<close>: an IPv6 address gets scope id 0.\<close>

definition SocketAddr :: "ip_addr \<Rightarrow> u16 \<Rightarrow> socket_addr" where
  "SocketAddr ip port = Socket_Addr ip port 0"

fun is_ipv4 :: "ip_addr \<Rightarrow> bool" where
  "is_ipv4 (V4 _) = True"
| "is_ipv4 (V6 _) = False"

fun is_unspecified :: "ip_addr \<Rightarrow> bool" where
  "is_unspecified (V4 a) = (a = 0)"
| "is_unspecified (V6 a) = (a = 0)"

definition v4_new :: "u8 \<Rightarrow> u8 \<Rightarrow> u8 \<Rightarrow> u8 \<Rightarrow> ip_addr" where
  "v4_new a b c d = V4 (u32_from_be [a, b, c, d])"

definition v6_from :: "bytes \<Rightarrow> ip_addr" where
  "v6_from o16 = V6 (u128_from_be o16)"

section \<open>Prefixes\<close>

text \<open>
  \<^verbatim>\<open>MAX << (width - bits)\<close>, or 0 when \<open>bits\<close> is 0 (where the shift would overflow):
  the network mask for the clamped prefix length.
\<close>

definition prefix_mask :: "nat \<Rightarrow> 'a::len word" where
  "prefix_mask bits = (if bits = 0 then 0 else push_bit (LENGTH('a) - bits) (- 1))"

lemma bit_prefix_mask:
  assumes "bits \<le> LENGTH('a::len)"
  shows "bit (prefix_mask bits :: 'a word) i \<longleftrightarrow> LENGTH('a) - bits \<le> i \<and> i < LENGTH('a)"
  using assms by (auto simp: prefix_mask_def bit_push_bit_iff bit_not_iff bit_mask_iff)

lemma masked_eq_iff_top_bits:
  assumes "bits \<le> LENGTH('a::len)"
  shows "(a AND prefix_mask bits) = (b AND prefix_mask bits)
    \<longleftrightarrow> (\<forall>i. LENGTH('a) - bits \<le> i \<and> i < LENGTH('a) \<longrightarrow> bit (a :: 'a word) i = bit b i)"
  using assms
  by (auto simp: bit_eq_iff bit_and_iff bit_prefix_mask)

text \<open>\<^verbatim>\<open>cidr_contains\<close> of filter.rs and of magicsock.rs: the same code in both modules.\<close>

fun cidr_contains :: "ip_addr \<Rightarrow> u8 \<Rightarrow> ip_addr \<Rightarrow> bool" where
  "cidr_contains (V4 net) bits (V4 ip) =
     (let mask = prefix_mask (min (unat bits) 32) in (net AND mask) = (ip AND mask))"
| "cidr_contains (V6 net) bits (V6 ip) =
     (let mask = prefix_mask (min (unat bits) 128) in (net AND mask) = (ip AND mask))"
| "cidr_contains _ _ _ = False"

text \<open>The reference notion: the addresses agree on the leading bits of their width.\<close>

definition leading_bits_eq :: "nat \<Rightarrow> 'a::len word \<Rightarrow> 'a word \<Rightarrow> bool" where
  "leading_bits_eq n a b \<longleftrightarrow> (\<forall>i. LENGTH('a) - n \<le> i \<and> i < LENGTH('a) \<longrightarrow> bit a i = bit b i)"

fun same_prefix :: "nat \<Rightarrow> ip_addr \<Rightarrow> ip_addr \<Rightarrow> bool" where
  "same_prefix n (V4 a) (V4 b) = leading_bits_eq (min n 32) a b"
| "same_prefix n (V6 a) (V6 b) = leading_bits_eq (min n 128) a b"
| "same_prefix n _ _ = False"

lemma cidr_contains_same_prefix: "cidr_contains net bits ip = same_prefix (unat bits) net ip"
  by (cases "(net, bits, ip)" rule: cidr_contains.cases)
    (simp_all add: Let_def leading_bits_eq_def masked_eq_iff_top_bits del: min.bounded_iff)

lemma cidr_contains_zero: "is_ipv4 net = is_ipv4 ip \<Longrightarrow> cidr_contains net 0 ip"
  by (cases net; cases ip) (simp_all add: prefix_mask_def)

lemma cidr_contains_refl: "cidr_contains ip bits ip"
  by (cases ip) simp_all

lemma cidr_contains_family: "cidr_contains net bits ip \<Longrightarrow> is_ipv4 net = is_ipv4 ip"
  by (cases net; cases ip) simp_all

lemma leading_bits_eq_full: "leading_bits_eq LENGTH('a) a b \<longleftrightarrow> a = (b :: 'a::len word)"
  by (auto simp: leading_bits_eq_def intro: bit_word_eqI)

section \<open>Text\<close>

definition is_ws :: "char \<Rightarrow> bool" where
  "is_ws c = (let n = of_char c :: nat in n = 32 \<or> 9 \<le> n \<and> n \<le> 13)"

definition trim_start :: "string \<Rightarrow> string" where
  "trim_start s = dropWhile is_ws s"

definition trim :: "string \<Rightarrow> string" where
  "trim s = rev (dropWhile is_ws (rev (dropWhile is_ws s)))"

text \<open>\<^verbatim>\<open>str::split_once\<close> with a one-character pattern.\<close>

fun split_once :: "char \<Rightarrow> string \<Rightarrow> (string \<times> string) option" where
  "split_once c [] = None"
| "split_once c (x # xs) =
     (if x = c then Some ([], xs) else map_option (\<lambda>(a, b). (x # a, b)) (split_once c xs))"

fun strip_prefix :: "string \<Rightarrow> string \<Rightarrow> string option" where
  "strip_prefix [] s = Some s"
| "strip_prefix (p # ps) [] = None"
| "strip_prefix (p # ps) (x # xs) = (if p = x then strip_prefix ps xs else None)"

lemma strip_prefix_append [simp]: "strip_prefix p (p @ s) = Some s"
  by (induction p) auto

lemma strip_prefix_Some: "strip_prefix p s = Some r \<longleftrightarrow> s = p @ r"
  by (induction p s rule: strip_prefix.induct) auto

lemma split_once_SomeD: "split_once c s = Some (a, b) \<Longrightarrow> s = a @ c # b \<and> c \<notin> set a"
  by (induction s arbitrary: a) (auto split: if_splits)

lemma split_once_append [simp]: "c \<notin> set a \<Longrightarrow> split_once c (a @ c # b) = Some (a, b)"
  by (induction a) auto

lemma split_once_None: "split_once c s = None \<longleftrightarrow> c \<notin> set s"
  by (induction s) auto

definition to_digit :: "nat \<Rightarrow> char \<Rightarrow> nat option" where
  "to_digit radix c =
     (let n = of_char c :: nat;
          d = (if 48 \<le> n \<and> n \<le> 57 then n - 48
               else if 97 \<le> n \<and> n \<le> 102 then n - 87
               else if 65 \<le> n \<and> n \<le> 70 then n - 55
               else radix)
      in if d < radix then Some d else None)"

text \<open>
  \<^verbatim>\<open>str::parse\<close> for an unsigned integer type with \<open>bound\<close> values: an optional plus sign,
  at least one digit, no overflow.
\<close>

fun digits_value :: "nat \<Rightarrow> nat \<Rightarrow> nat \<Rightarrow> string \<Rightarrow> nat option" where
  "digits_value radix bound acc [] = Some acc"
| "digits_value radix bound acc (c # cs) =
     (case to_digit radix c of
        None \<Rightarrow> None
      | Some d \<Rightarrow> (if acc * radix + d < bound then digits_value radix bound (acc * radix + d) cs
                   else None))"

definition from_str_radix :: "nat \<Rightarrow> nat \<Rightarrow> string \<Rightarrow> nat option" where
  "from_str_radix radix bound s =
     (let ds = (case s of c # cs \<Rightarrow> if c = CHR ''+'' then cs else s | [] \<Rightarrow> [])
      in if ds = [] then None else digits_value radix bound 0 ds)"

definition parse_uint :: "nat \<Rightarrow> string \<Rightarrow> nat option" where
  "parse_uint bound s = from_str_radix 10 bound s"

lemma digits_value_less: "digits_value radix bound acc s = Some n \<Longrightarrow> acc < bound \<Longrightarrow> n < bound"
  by (induction radix bound acc s rule: digits_value.induct) (auto split: option.splits if_splits)

lemma parse_uint_less: "parse_uint bound s = Some n \<Longrightarrow> 0 < bound \<Longrightarrow> n < bound"
  by (auto simp: parse_uint_def from_str_radix_def Let_def dest: digits_value_less split: if_splits)

text \<open>
  The address parser of \<^verbatim>\<open>core::net\<close>: \<open>read_number\<close> reads digits up to a maximal count
  and value; an IPv4 octet has no leading zero.
\<close>

fun read_digits :: "nat \<Rightarrow> nat \<Rightarrow> nat \<Rightarrow> nat \<Rightarrow> nat \<Rightarrow> string \<Rightarrow> (nat \<times> nat \<times> string) option" where
  "read_digits radix bound maxd acc cnt [] = Some (acc, cnt, [])"
| "read_digits radix bound maxd acc cnt (c # cs) =
     (case to_digit radix c of
        None \<Rightarrow> Some (acc, cnt, c # cs)
      | Some d \<Rightarrow>
          (if acc * radix + d < bound \<and> cnt < maxd
           then read_digits radix bound maxd (acc * radix + d) (Suc cnt) cs
           else None))"

definition read_number :: "nat \<Rightarrow> nat \<Rightarrow> nat \<Rightarrow> bool \<Rightarrow> string \<Rightarrow> (nat \<times> string) option" where
  "read_number radix bound maxd allow_zero_prefix s =
     (case read_digits radix bound maxd 0 0 s of
        None \<Rightarrow> None
      | Some (v, cnt, rest) \<Rightarrow>
          (if cnt = 0 then None
           else if \<not> allow_zero_prefix \<and> hd s = CHR ''0'' \<and> 1 < cnt then None
           else Some (v, rest)))"

definition read_separator ::
    "char \<Rightarrow> nat \<Rightarrow> (string \<Rightarrow> ('a \<times> string) option) \<Rightarrow> string \<Rightarrow> ('a \<times> string) option" where
  "read_separator sep index inner s =
     (if index = 0 then inner s
      else case s of [] \<Rightarrow> None | c # cs \<Rightarrow> if c = sep then inner cs else None)"

fun read_v4_groups :: "nat \<Rightarrow> nat \<Rightarrow> string \<Rightarrow> (nat list \<times> string) option" where
  "read_v4_groups i 0 s = Some ([], s)"
| "read_v4_groups i (Suc k) s =
     (case read_separator CHR ''.'' i (read_number 10 256 3 False) s of
        None \<Rightarrow> None
      | Some (g, s') \<Rightarrow>
          map_option (\<lambda>(gs, r). (g # gs, r)) (read_v4_groups (Suc i) k s'))"

definition read_ipv4_addr :: "string \<Rightarrow> (u32 \<times> string) option" where
  "read_ipv4_addr s =
     map_option (\<lambda>(gs, r). (u32_from_be (map word_of_nat gs), r)) (read_v4_groups 0 4 s)"

function read_groups :: "nat \<Rightarrow> nat \<Rightarrow> string \<Rightarrow> u16 list \<times> bool \<times> string" where
  "read_groups i limit s =
     (if limit \<le> i then ([], False, s)
      else case (if i + 1 < limit then read_separator CHR '':'' i read_ipv4_addr s else None) of
        Some (a, s') \<Rightarrow> ([u16_from_be (slice 0 2 (u32_to_be a)), u16_from_be (slice 2 4 (u32_to_be a))], True, s')
      | None \<Rightarrow>
          (case read_separator CHR '':'' i (read_number 16 65536 4 True) s of
             None \<Rightarrow> ([], False, s)
           | Some (g, s') \<Rightarrow>
               (case read_groups (Suc i) limit s' of
                  (gs, b, s'') \<Rightarrow> (word_of_nat g # gs, b, s''))))"
  by pat_completeness auto
termination
  by (relation "measure (\<lambda>(i, limit, s). limit - i)") auto

declare read_groups.simps [simp del]

definition groups_addr :: "u16 list \<Rightarrow> u128" where
  "groups_addr gs = u128_from_be (concat (map u16_to_be gs))"

definition read_ipv6_addr :: "string \<Rightarrow> (u128 \<times> string) option" where
  "read_ipv6_addr s =
     (case read_groups 0 8 s of
        (head, head_ipv4, s') \<Rightarrow>
          (if length head = 8 then Some (groups_addr head, s')
           else if head_ipv4 then None
           else case s' of
             c1 # c2 # s'' \<Rightarrow>
               (if c1 = CHR '':'' \<and> c2 = CHR '':'' then
                  (case read_groups 0 (8 - (length head + 1)) s'' of
                     (tail, _, r) \<Rightarrow>
                       Some (groups_addr
                         (head @ replicate (8 - length tail - length head) 0 @ tail), r))
                else None)
           | _ \<Rightarrow> None))"

definition parse_ip :: "string \<Rightarrow> ip_addr option" where
  "parse_ip s =
     (case read_ipv4_addr s of
        Some (a, r) \<Rightarrow> (if r = [] then Some (V4 a) else None)
      | None \<Rightarrow>
          (case read_ipv6_addr s of
             Some (a, r) \<Rightarrow> (if r = [] then Some (V6 a) else None)
           | None \<Rightarrow> None))"

definition parse_ipv4 :: "string \<Rightarrow> u32 option" where
  "parse_ipv4 s =
     (case read_ipv4_addr s of
        Some (a, r) \<Rightarrow> (if r = [] then Some a else None)
      | None \<Rightarrow> None)"

text \<open>
  \<^verbatim>\<open>SocketAddr::from_str\<close>: \<^verbatim>\<open>a.b.c.d:port\<close> or \<^verbatim>\<open>[v6%scope]:port\<close> with an optional scope.
\<close>

definition read_given_char :: "char \<Rightarrow> string \<Rightarrow> string option" where
  "read_given_char c s = (case s of [] \<Rightarrow> None | d # r \<Rightarrow> if d = c then Some r else None)"

definition read_port :: "string \<Rightarrow> (nat \<times> string) option" where
  "read_port s = Option.bind (read_given_char CHR '':'' s) (\<lambda>r. read_number 10 65536 (length r) True r)"

definition read_scope_id :: "string \<Rightarrow> (nat \<times> string) option" where
  "read_scope_id s = Option.bind (read_given_char CHR ''%'' s) (\<lambda>r. read_number 10 (2 ^ 32) (length r) True r)"

definition read_socket_addr_v4 :: "string \<Rightarrow> (socket_addr \<times> string) option" where
  "read_socket_addr_v4 s =
     Option.bind (read_ipv4_addr s) (\<lambda>(a, s).
     Option.bind (read_port s) (\<lambda>(p, s). Some (Socket_Addr (V4 a) (word_of_nat p) 0, s)))"

definition read_socket_addr_v6 :: "string \<Rightarrow> (socket_addr \<times> string) option" where
  "read_socket_addr_v6 s =
     Option.bind (read_given_char CHR ''['' s) (\<lambda>s.
     Option.bind (read_ipv6_addr s) (\<lambda>(a, s).
       case (case read_scope_id s of Some r \<Rightarrow> r | None \<Rightarrow> (0, s)) of
         (scope, s) \<Rightarrow>
           Option.bind (read_given_char CHR '']'' s) (\<lambda>s.
           Option.bind (read_port s) (\<lambda>(p, s). Some (Socket_Addr (V6 a) (word_of_nat p) (word_of_nat scope), s)))))"

definition parse_socket_addr :: "string \<Rightarrow> socket_addr option" where
  "parse_socket_addr s =
     (case (case read_socket_addr_v4 s of Some r \<Rightarrow> Some r | None \<Rightarrow> read_socket_addr_v6 s) of
        Some (a, r) \<Rightarrow> (if r = [] then Some a else None)
      | None \<Rightarrow> None)"

section \<open>Property\<close>

text \<open>
  \<open>cidr_contains\<close> holds exactly when network and address are of one family and agree on the
  leading \<open>bits\<close> bits (at most the address width), for every prefix length that fits a byte.
\<close>

theorem cidr_contains_iff_leading_bits:
  "cidr_contains net bits ip = same_prefix (unat bits) net ip"
  by (rule cidr_contains_same_prefix)

end
