(* ===== verification/Crypto.thy ===== *)
theory Crypto
  imports Net_Addr "HOL-Library.Monad_Syntax"
begin

text \<open>
  The wrappers of crates/tsnode/src/crypto.rs, the symmetric state of noise.rs and the key
  types of keys.rs. The primitives themselves (BLAKE2s, ChaCha20-Poly1305, X25519, NaCl box,
  hex) are third-party crates: they are the fields of \<open>prims\<close> and \<open>hex_lib\<close>, which every
  operation takes as an argument. Random bytes are arguments too.
  An operation that can panic (\<^verbatim>\<open>expect\<close>, \<^verbatim>\<open>unwrap\<close>) returns an option, with \<open>None\<close> for the panic.
\<close>

record prims =
  b2s :: "bytes \<Rightarrow> bytes"
  b2s_mac16 :: "bytes \<Rightarrow> bytes \<Rightarrow> bytes"
  chacha_seal :: "bytes \<Rightarrow> bytes \<Rightarrow> bytes \<Rightarrow> bytes \<Rightarrow> bytes"
  chacha_open :: "bytes \<Rightarrow> bytes \<Rightarrow> bytes \<Rightarrow> bytes \<Rightarrow> bytes option"
  dh_mul :: "bytes \<Rightarrow> bytes \<Rightarrow> bytes"
  dh_base :: "bytes \<Rightarrow> bytes"
  salsa_seal :: "bytes \<Rightarrow> bytes \<Rightarrow> bytes \<Rightarrow> bytes \<Rightarrow> bytes"
  salsa_open :: "bytes \<Rightarrow> bytes \<Rightarrow> bytes \<Rightarrow> bytes \<Rightarrow> bytes option"

text \<open>
  What the code relies on, as the crates document it: digest and key sizes, decryption inverts
  encryption under the same key, nonce and associated data, a 16-byte tag, and the
  Diffie-Hellman law.
\<close>

definition digest_ok :: "prims \<Rightarrow> bool" where
  "digest_ok P \<longleftrightarrow> (\<forall>x. length (b2s P x) = 32) \<and> (\<forall>k x. length (b2s_mac16 P k x) = 16)"

definition aead_ok :: "prims \<Rightarrow> bool" where
  "aead_ok P \<longleftrightarrow>
     (\<forall>k n m a. length k = 32 \<longrightarrow> length n = 12 \<longrightarrow>
        chacha_open P k n (chacha_seal P k n m a) a = Some m
        \<and> length (chacha_seal P k n m a) = length m + 16)
     \<and> (\<forall>k n c a m. length k = 32 \<longrightarrow> length n = 12 \<longrightarrow>
        chacha_open P k n c a = Some m \<longrightarrow> length c = length m + 16)"

definition dh_ok :: "prims \<Rightarrow> bool" where
  "dh_ok P \<longleftrightarrow>
     (\<forall>s. length s = 32 \<longrightarrow> length (dh_base P s) = 32)
     \<and> (\<forall>s p. length s = 32 \<longrightarrow> length p = 32 \<longrightarrow> length (dh_mul P s p) = 32)
     \<and> (\<forall>a b. length a = 32 \<longrightarrow> length b = 32 \<longrightarrow>
          dh_mul P a (dh_base P b) = dh_mul P b (dh_base P a))"

definition box_ok :: "prims \<Rightarrow> bool" where
  "box_ok P \<longleftrightarrow>
     (\<forall>a b n m. length a = 32 \<longrightarrow> length b = 32 \<longrightarrow> length n = 24 \<longrightarrow>
        salsa_open P (dh_base P a) b n (salsa_seal P (dh_base P b) a n m) = Some m
        \<and> length (salsa_seal P (dh_base P b) a n m) = length m + 16)"

definition crypto_ok :: "prims \<Rightarrow> bool" where
  "crypto_ok P \<longleftrightarrow> digest_ok P \<and> aead_ok P \<and> dh_ok P \<and> box_ok P"

lemma crypto_okD:
  assumes "crypto_ok P"
  shows "digest_ok P" "aead_ok P" "dh_ok P" "box_ok P"
  using assms by (simp_all add: crypto_ok_def)

section \<open>crypto.rs\<close>

definition TAG_LEN :: nat where "TAG_LEN = 16"

datatype crypto_error = CryptoError

definition blake2s :: "prims \<Rightarrow> bytes list \<Rightarrow> bytes" where
  "blake2s P parts = b2s P (concat parts)"

definition blake2s_mac16 :: "prims \<Rightarrow> bytes \<Rightarrow> bytes list \<Rightarrow> bytes" where
  "blake2s_mac16 P key parts = b2s_mac16 P key (concat parts)"

definition hmac_blake2s :: "prims \<Rightarrow> bytes \<Rightarrow> bytes list \<Rightarrow> bytes" where
  "hmac_blake2s P key parts =
     (let k = (if 64 < length key then blake2s P [key] @ replicate 32 0
               else key @ replicate (64 - length key) 0);
          ipad = map2 (XOR) (replicate 64 0x36) k;
          opad = map2 (XOR) (replicate 64 0x5c) k;
          inner = b2s P (ipad @ concat parts)
      in blake2s P [opad, inner])"

definition hkdf :: "prims \<Rightarrow> bytes \<Rightarrow> bytes \<Rightarrow> bytes \<times> bytes \<times> bytes" where
  "hkdf P ck ikm =
     (let t0 = hmac_blake2s P ck [ikm];
          t1 = hmac_blake2s P t0 [[1]];
          t2 = hmac_blake2s P t0 [t1, [2]];
          t3 = hmac_blake2s P t0 [t2, [3]]
      in (t1, t2, t3))"

definition nonce_from_counter :: "u64 \<Rightarrow> bytes" where
  "nonce_from_counter counter = replicate 4 0 @ u64_to_le counter"

definition aead_encrypt :: "prims \<Rightarrow> bytes \<Rightarrow> u64 \<Rightarrow> bytes \<Rightarrow> bytes \<Rightarrow> bytes" where
  "aead_encrypt P key counter plaintext ad =
     chacha_seal P key (nonce_from_counter counter) plaintext ad"

definition aead_decrypt :: "prims \<Rightarrow> bytes \<Rightarrow> u64 \<Rightarrow> bytes \<Rightarrow> bytes \<Rightarrow> crypto_error + bytes" where
  "aead_decrypt P key counter ciphertext ad =
     (case chacha_open P key (nonce_from_counter counter) ciphertext ad of
        Some m \<Rightarrow> Inr m | None \<Rightarrow> Inl CryptoError)"

definition x25519 :: "prims \<Rightarrow> bytes \<Rightarrow> bytes \<Rightarrow> bytes" where
  "x25519 P secret public = dh_mul P secret public"

definition x25519_public :: "prims \<Rightarrow> bytes \<Rightarrow> bytes" where
  "x25519_public P secret = dh_base P secret"

text \<open>\<open>rnd\<close> is what \<^verbatim>\<open>random_array\<close> returned.\<close>

definition x25519_generate :: "bytes \<Rightarrow> bytes" where
  "x25519_generate rnd =
     (let k = rnd[0 := rnd ! 0 AND 248]; k = k[31 := k ! 31 AND 127] in k[31 := k ! 31 OR 64])"

definition nacl_box_seal :: "prims \<Rightarrow> bytes \<Rightarrow> bytes \<Rightarrow> bytes \<Rightarrow> bytes \<Rightarrow> bytes" where
  "nacl_box_seal P our_secret their_public nonce msg = salsa_seal P their_public our_secret nonce msg"

definition nacl_box_open ::
    "prims \<Rightarrow> bytes \<Rightarrow> bytes \<Rightarrow> bytes \<Rightarrow> bytes \<Rightarrow> crypto_error + bytes" where
  "nacl_box_open P our_secret their_public nonce sealed =
     (if length sealed < TAG_LEN then Inl CryptoError
      else case salsa_open P their_public our_secret nonce sealed of
        Some m \<Rightarrow> Inr m | None \<Rightarrow> Inl CryptoError)"

section \<open>noise.rs\<close>

record symmetric_state =
  ss_h :: bytes
  ss_ck :: bytes
  ss_k :: "bytes option"

definition ss_new :: "prims \<Rightarrow> bytes \<Rightarrow> symmetric_state" where
  "ss_new P protocol_name =
     (let h = (if length protocol_name \<le> 32
               then protocol_name @ replicate (32 - length protocol_name) 0
               else blake2s P [protocol_name])
      in \<lparr>ss_h = h, ss_ck = h, ss_k = None\<rparr>)"

definition mix_hash :: "prims \<Rightarrow> bytes \<Rightarrow> symmetric_state \<Rightarrow> symmetric_state" where
  "mix_hash P data s = s\<lparr>ss_h := blake2s P [ss_h s, data]\<rparr>"

definition mix_key :: "prims \<Rightarrow> bytes \<Rightarrow> symmetric_state \<Rightarrow> symmetric_state" where
  "mix_key P ikm s =
     (let (ck, k, _) = hkdf P (ss_ck s) ikm in s\<lparr>ss_ck := ck, ss_k := Some k\<rparr>)"

definition mix_key_and_hash :: "prims \<Rightarrow> bytes \<Rightarrow> symmetric_state \<Rightarrow> symmetric_state" where
  "mix_key_and_hash P ikm s =
     (let (ck, temp_h, k) = hkdf P (ss_ck s) ikm;
          s = s\<lparr>ss_ck := ck\<rparr>;
          s = mix_hash P temp_h s
      in s\<lparr>ss_k := Some k\<rparr>)"

definition mix_dh :: "prims \<Rightarrow> bytes \<Rightarrow> bytes \<Rightarrow> symmetric_state \<Rightarrow> symmetric_state" where
  "mix_dh P secret public s = mix_key P (x25519 P secret public) s"

definition encrypt_and_hash ::
    "prims \<Rightarrow> bytes \<Rightarrow> symmetric_state \<Rightarrow> (bytes \<times> symmetric_state) option" where
  "encrypt_and_hash P plaintext s =
     do {
       k \<leftarrow> ss_k s;
       let ct = aead_encrypt P k 0 plaintext (ss_h s);
       Some (ct, mix_hash P ct s)
     }"

definition decrypt_and_hash ::
    "prims \<Rightarrow> bytes \<Rightarrow> symmetric_state \<Rightarrow> (crypto_error + bytes \<times> symmetric_state) option" where
  "decrypt_and_hash P ciphertext s =
     do {
       k \<leftarrow> ss_k s;
       Some (case aead_decrypt P k 0 ciphertext (ss_h s) of
               Inl e \<Rightarrow> Inl e
             | Inr pt \<Rightarrow> Inr (pt, mix_hash P ciphertext s))
     }"

definition ss_split :: "prims \<Rightarrow> symmetric_state \<Rightarrow> bytes \<times> bytes" where
  "ss_split P s = (let (k1, k2, _) = hkdf P (ss_ck s) [] in (k1, k2))"

section \<open>keys.rs\<close>

record key_pair =
  kp_secret :: bytes
  kp_public :: bytes

definition kp_from_secret :: "prims \<Rightarrow> bytes \<Rightarrow> key_pair" where
  "kp_from_secret P secret = \<lparr>kp_secret = secret, kp_public = x25519_public P secret\<rparr>"

definition kp_generate :: "prims \<Rightarrow> bytes \<Rightarrow> key_pair" where
  "kp_generate P rnd = kp_from_secret P (x25519_generate rnd)"

record hex_lib =
  hex_encode :: "bytes \<Rightarrow> string"
  hex_decode :: "string \<Rightarrow> bytes option"

definition hex_ok :: "hex_lib \<Rightarrow> bool" where
  "hex_ok H \<longleftrightarrow>
     (\<forall>b. hex_decode H (hex_encode H b) = Some b)
     \<and> (\<forall>b. \<forall>c \<in> set (hex_encode H b). c \<in> set ''0123456789abcdef'')"

definition MACHINE_PUB_PREFIX :: string where "MACHINE_PUB_PREFIX = ''mkey:''"
definition NODE_PUB_PREFIX :: string where "NODE_PUB_PREFIX = ''nodekey:''"
definition DISCO_PUB_PREFIX :: string where "DISCO_PUB_PREFIX = ''discokey:''"
definition PRIV_PREFIX :: string where "PRIV_PREFIX = ''privkey:''"

definition parse_hex32 :: "hex_lib \<Rightarrow> string \<Rightarrow> bytes option" where
  "parse_hex32 H s =
     (case hex_decode H (trim s) of
        None \<Rightarrow> None
      | Some v \<Rightarrow> (if length v = 32 then Some v else None))"

definition parse_prefixed :: "hex_lib \<Rightarrow> string \<Rightarrow> string \<Rightarrow> bytes option" where
  "parse_prefixed H prefix s =
     (case strip_prefix prefix s of None \<Rightarrow> None | Some rest \<Rightarrow> parse_hex32 H rest)"

definition fmt_prefixed :: "hex_lib \<Rightarrow> string \<Rightarrow> bytes \<Rightarrow> string" where
  "fmt_prefixed H prefix key = prefix @ hex_encode H key"

definition fmt_machine_pub :: "hex_lib \<Rightarrow> bytes \<Rightarrow> string" where
  "fmt_machine_pub H key = fmt_prefixed H MACHINE_PUB_PREFIX key"

definition fmt_node_pub :: "hex_lib \<Rightarrow> bytes \<Rightarrow> string" where
  "fmt_node_pub H key = fmt_prefixed H NODE_PUB_PREFIX key"

definition fmt_disco_pub :: "hex_lib \<Rightarrow> bytes \<Rightarrow> string" where
  "fmt_disco_pub H key = fmt_prefixed H DISCO_PUB_PREFIX key"

definition secret_hex :: "hex_lib \<Rightarrow> key_pair \<Rightarrow> string" where
  "secret_hex H kp = hex_encode H (kp_secret kp)"

definition from_secret_hex :: "hex_lib \<Rightarrow> prims \<Rightarrow> string \<Rightarrow> key_pair option" where
  "from_secret_hex H P s =
     (let s = (case strip_prefix PRIV_PREFIX s of None \<Rightarrow> s | Some r \<Rightarrow> r)
      in map_option (kp_from_secret P) (parse_hex32 H s))"

definition short_key :: "hex_lib \<Rightarrow> bytes \<Rightarrow> string" where
  "short_key H key = ''['' @ hex_encode H (take 5 key) @ '']''"

section \<open>Lemmas\<close>

lemma length_blake2s [simp]: "digest_ok P \<Longrightarrow> length (blake2s P parts) = 32"
  by (simp add: blake2s_def digest_ok_def)

lemma length_mac16 [simp]: "digest_ok P \<Longrightarrow> length (blake2s_mac16 P k parts) = 16"
  by (simp add: blake2s_mac16_def digest_ok_def)

lemma length_hmac [simp]: "digest_ok P \<Longrightarrow> length (hmac_blake2s P key parts) = 32"
  by (simp add: hmac_blake2s_def Let_def)

lemma hmac_concat: "hmac_blake2s P key parts = hmac_blake2s P key [concat parts]"
  by (simp add: hmac_blake2s_def Let_def)

lemma hkdf_lengths:
  "digest_ok P \<Longrightarrow> hkdf P ck ikm = (a, b, c) \<Longrightarrow> length a = 32 \<and> length b = 32 \<and> length c = 32"
  by (auto simp: hkdf_def Let_def)

lemma length_nonce [simp]: "length (nonce_from_counter c) = 12"
  by (simp add: nonce_from_counter_def)

lemma nonce_from_counter_inj: "nonce_from_counter a = nonce_from_counter b \<Longrightarrow> a = b"
  using from_to_bytes(6) by (metis nonce_from_counter_def same_append_eq)

lemma aead_okD:
  assumes "aead_ok P" "length k = 32" "length n = 12"
  shows "chacha_open P k n (chacha_seal P k n m a) a = Some m"
    and "length (chacha_seal P k n m a) = length m + 16"
    and "chacha_open P k n c a = Some m \<Longrightarrow> length c = length m + 16"
  using assms unfolding aead_ok_def by blast+

lemma aead_roundtrip:
  "aead_ok P \<Longrightarrow> length k = 32 \<Longrightarrow> aead_decrypt P k n (aead_encrypt P k n m a) a = Inr m"
  by (simp add: aead_decrypt_def aead_encrypt_def aead_okD(1))

lemma length_aead_encrypt:
  "aead_ok P \<Longrightarrow> length k = 32 \<Longrightarrow> length (aead_encrypt P k n m a) = length m + 16"
  by (simp add: aead_encrypt_def aead_okD(2))

lemma length_aead_decrypt:
  "aead_ok P \<Longrightarrow> length k = 32 \<Longrightarrow> aead_decrypt P k n c a = Inr m \<Longrightarrow> length c = length m + 16"
  using aead_okD(3) [of P k "nonce_from_counter n" c a m]
  by (simp add: aead_decrypt_def split: option.splits)

lemma x25519_commute:
  "dh_ok P \<Longrightarrow> length a = 32 \<Longrightarrow> length b = 32 \<Longrightarrow>
     x25519 P a (x25519_public P b) = x25519 P b (x25519_public P a)"
  unfolding x25519_def x25519_public_def dh_ok_def by blast

lemma length_x25519_public [simp]:
  "dh_ok P \<Longrightarrow> length s = 32 \<Longrightarrow> length (x25519_public P s) = 32"
  unfolding x25519_public_def dh_ok_def by blast

lemma length_x25519_generate [simp]: "length (x25519_generate rnd) = length rnd"
  by (simp add: x25519_generate_def Let_def)

text \<open>The handshake state keeps a 32-byte chaining key and, once set, a 32-byte key.\<close>

definition ss_ok :: "symmetric_state \<Rightarrow> bool" where
  "ss_ok s \<longleftrightarrow> length (ss_h s) = 32 \<and> length (ss_ck s) = 32
     \<and> (case ss_k s of None \<Rightarrow> True | Some k \<Rightarrow> length k = 32)"

definition ss_keyed :: "symmetric_state \<Rightarrow> bool" where
  "ss_keyed s \<longleftrightarrow> ss_ok s \<and> ss_k s \<noteq> None"

lemma ss_ok_new: "digest_ok P \<Longrightarrow> ss_ok (ss_new P name)"
  by (simp add: ss_ok_def ss_new_def Let_def)

lemma ss_ok_mix_hash: "digest_ok P \<Longrightarrow> ss_ok s \<Longrightarrow> ss_ok (mix_hash P d s)"
  by (simp add: ss_ok_def mix_hash_def)

lemma ss_keyed_mix_hash: "digest_ok P \<Longrightarrow> ss_keyed s \<Longrightarrow> ss_keyed (mix_hash P d s)"
  by (simp add: ss_keyed_def ss_ok_mix_hash) (simp add: mix_hash_def)

lemma ss_keyed_mix_key: "digest_ok P \<Longrightarrow> ss_ok s \<Longrightarrow> ss_keyed (mix_key P i s)"
  using hkdf_lengths [of P "ss_ck s" i]
  by (auto simp: ss_keyed_def ss_ok_def mix_key_def split: prod.splits)

lemma ss_keyed_mix_dh: "digest_ok P \<Longrightarrow> ss_ok s \<Longrightarrow> ss_keyed (mix_dh P a b s)"
  by (simp add: mix_dh_def ss_keyed_mix_key)

lemma ss_keyed_mix_key_and_hash: "digest_ok P \<Longrightarrow> ss_ok s \<Longrightarrow> ss_keyed (mix_key_and_hash P i s)"
  using hkdf_lengths [of P "ss_ck s" i]
  by (auto simp: ss_keyed_def ss_ok_def mix_key_and_hash_def mix_hash_def split: prod.splits)

lemma ss_keyed_ok: "ss_keyed s \<Longrightarrow> ss_ok s"
  by (simp add: ss_keyed_def)

lemmas ss_intros = ss_ok_new ss_ok_mix_hash ss_keyed_mix_hash ss_keyed_mix_key ss_keyed_mix_dh
  ss_keyed_mix_key_and_hash ss_keyed_ok

text \<open>
  The two sides of a handshake stay in step: what one encrypts in a state, the other decrypts
  in the same state, and both end in the same state.
\<close>

lemma encrypt_and_hash_keyed:
  assumes "aead_ok P" "digest_ok P" "ss_keyed s"
  shows "\<exists>ct s'. encrypt_and_hash P pt s = Some (ct, s') \<and> length ct = length pt + 16
    \<and> ss_keyed s' \<and> decrypt_and_hash P ct s = Some (Inr (pt, s'))"
proof -
  from assms(3) obtain k where k: "ss_k s = Some k" "length k = 32"
    by (auto simp: ss_keyed_def ss_ok_def)
  show ?thesis
    using assms k ss_keyed_mix_hash [OF assms(2,3)]
    by (simp add: encrypt_and_hash_def decrypt_and_hash_def aead_roundtrip length_aead_encrypt Let_def)
qed

lemma decrypt_and_hash_keyed:
  assumes "aead_ok P" "digest_ok P" "ss_keyed s"
  shows "(\<exists>e. decrypt_and_hash P ct s = Some (Inl e))
    \<or> (\<exists>pt s'. decrypt_and_hash P ct s = Some (Inr (pt, s')) \<and> ss_keyed s'
          \<and> length ct = length pt + 16)"
proof -
  from assms(3) obtain k where k: "ss_k s = Some k" "length k = 32"
    by (auto simp: ss_keyed_def ss_ok_def)
  show ?thesis
    using k ss_keyed_mix_hash [OF assms(2,3)] length_aead_decrypt [OF assms(1) k(2)]
    by (cases "aead_decrypt P k 0 ct (ss_h s)") (auto simp: decrypt_and_hash_def)
qed

lemma mix_dh_commute:
  assumes "dh_ok P" "length a = 32" "length b = 32"
  shows "mix_dh P a (x25519_public P b) s = mix_dh P b (x25519_public P a) s"
  by (simp only: mix_dh_def x25519_commute [OF assms])

lemma ss_split_lengths:
  "digest_ok P \<Longrightarrow> ss_split P s = (a, b) \<Longrightarrow> length a = 32 \<and> length b = 32"
  using hkdf_lengths [of P "ss_ck s" "[]"] by (auto simp: ss_split_def split: prod.splits)

lemma trim_no_ws: "\<forall>c \<in> set s. \<not> is_ws c \<Longrightarrow> trim s = s"
proof -
  assume "\<forall>c \<in> set s. \<not> is_ws c"
  then have "dropWhile is_ws t = t" if "set t \<subseteq> set s" for t
    using that by (cases t) auto
  then have "dropWhile is_ws s = s" and "dropWhile is_ws (rev s) = rev s" by simp_all
  then show ?thesis by (simp add: trim_def)
qed

lemma trim_hex_encode [simp]: "hex_ok H \<Longrightarrow> trim (hex_encode H b) = hex_encode H b"
proof (rule trim_no_ws)
  assume "hex_ok H"
  moreover have "\<forall>c \<in> set ''0123456789abcdef''. \<not> is_ws c" by (simp add: is_ws_def)
  ultimately show "\<forall>c \<in> set (hex_encode H b). \<not> is_ws c" unfolding hex_ok_def by blast
qed

lemma hex_decode_encode: "hex_ok H \<Longrightarrow> hex_decode H (hex_encode H b) = Some b"
  unfolding hex_ok_def by blast

lemma parse_hex32_encode: "hex_ok H \<Longrightarrow> length k = 32 \<Longrightarrow> parse_hex32 H (hex_encode H k) = Some k"
  by (simp add: parse_hex32_def hex_decode_encode)

lemma parse_hex32_length: "parse_hex32 H s = Some k \<Longrightarrow> length k = 32"
  by (auto simp: parse_hex32_def split: option.splits if_splits)

section \<open>A concrete instance of the laws\<close>

text \<open>
  The hypotheses on the primitives can hold together: a transparent instance whose tags
  depend on key and nonce. It stands for no real cipher; the theorems quantify over every
  instance that satisfies the laws.
\<close>

definition demo_prims :: prims where
  "demo_prims =
     \<lparr>b2s = (\<lambda>x. take 32 (x @ replicate 32 0)),
      b2s_mac16 = (\<lambda>k x. take 16 (k @ x @ replicate 16 0)),
      chacha_seal = (\<lambda>k n m a. m @ take 12 n @ take 4 k),
      chacha_open = (\<lambda>k n c a.
        if 16 \<le> length c \<and> drop (length c - 16) c = take 12 n @ take 4 k
        then Some (take (length c - 16) c) else None),
      dh_mul = (\<lambda>s p. map2 (+) s p),
      dh_base = (\<lambda>s. s),
      salsa_seal = (\<lambda>pub sec n m. m @ take 16 (map2 (+) pub sec)),
      salsa_open = (\<lambda>pub sec n c.
        if 16 \<le> length c \<and> drop (length c - 16) c = take 16 (map2 (+) pub sec)
        then Some (take (length c - 16) c) else None)\<rparr>"

lemma map2_add_commute: "map2 (+) a b = map2 (+) b (a :: bytes)"
  by (induction a b rule: list_induct2') simp_all

lemma demo_prims_ok: "crypto_ok demo_prims"
proof -
  have "digest_ok demo_prims" by (auto simp: digest_ok_def demo_prims_def min_def)
  moreover have "aead_ok demo_prims" by (auto simp: aead_ok_def demo_prims_def split: if_splits)
  moreover have "dh_ok demo_prims" by (simp add: dh_ok_def demo_prims_def) (use map2_add_commute in blast)
  moreover have "box_ok demo_prims"
    unfolding box_ok_def demo_prims_def by (auto simp: map2_add_commute)
  ultimately show ?thesis by (simp add: crypto_ok_def)
qed

definition hex_digit :: "nat \<Rightarrow> char" where
  "hex_digit n = ''0123456789abcdef'' ! n"

fun hex_pairs :: "string \<Rightarrow> bytes option" where
  "hex_pairs [] = Some []"
| "hex_pairs [c] = None"
| "hex_pairs (a # b # r) =
     (case (to_digit 16 a, to_digit 16 b, hex_pairs r) of
        (Some x, Some y, Some bs) \<Rightarrow> Some (word_of_nat (16 * x + y) # bs)
      | _ \<Rightarrow> None)"

definition demo_hex :: hex_lib where
  "demo_hex = \<lparr>hex_encode = (\<lambda>b. concat (map (\<lambda>x. [hex_digit (unat x div 16), hex_digit (unat x mod 16)]) b)),
     hex_decode = hex_pairs\<rparr>"

lemma hex_digit_facts:
  "n < 16 \<Longrightarrow> to_digit 16 (hex_digit n) = Some n \<and> hex_digit n \<in> set ''0123456789abcdef''"
proof -
  have "\<forall>n \<in> set [0..<16]. to_digit 16 (hex_digit n) = Some n \<and> hex_digit n \<in> set ''0123456789abcdef''"
    by code_simp
  then show "n < 16 \<Longrightarrow> ?thesis" by simp
qed

lemma demo_hex_ok: "hex_ok demo_hex"
proof -
  define enc where "enc = (\<lambda>x :: u8. [hex_digit (unat x div 16), hex_digit (unat x mod 16)])"
  have d: "unat x div 16 < 16" "unat x mod 16 < 16" for x :: u8
    using unat_u8_less [of x] by (simp_all add: div_less_iff_less_mult)
  have "hex_pairs (concat (map enc b)) = Some b" for b
    by (induction b) (simp_all add: enc_def hex_digit_facts d)
  moreover have "set (enc x) \<subseteq> set ''0123456789abcdef''" for x
    unfolding enc_def list.set(2) [of "hex_digit (unat x div 16)"] list.set(2) [of "hex_digit (unat x mod 16)"] list.set(1)
    using hex_digit_facts [OF d(1) [of x]] hex_digit_facts [OF d(2) [of x]] by blast
  then have "\<forall>c \<in> set (concat (map enc b)). c \<in> set ''0123456789abcdef''" for b
    unfolding set_concat set_map by blast
  ultimately show ?thesis unfolding hex_ok_def demo_hex_def enc_def by simp
qed

section \<open>Properties\<close>

text \<open>
  Keys survive their text forms: a 32-byte public key printed with any prefix is read back by
  \<open>parse_prefixed\<close> with that prefix, and a key pair is rebuilt by \<open>from_secret_hex\<close> from
  \<open>secret_hex\<close>, with and without the \<^verbatim>\<open>privkey:\<close> prefix.
\<close>

theorem key_text_roundtrip:
  assumes "hex_ok H" and "length k = 32" and "length s = 32"
  shows "parse_prefixed H prefix (fmt_prefixed H prefix k) = Some k
    \<and> from_secret_hex H P (secret_hex H (kp_from_secret P s)) = Some (kp_from_secret P s)
    \<and> from_secret_hex H P (PRIV_PREFIX @ secret_hex H (kp_from_secret P s)) = Some (kp_from_secret P s)"
proof -
  have "strip_prefix PRIV_PREFIX (hex_encode H s) = None"
  proof (cases "strip_prefix PRIV_PREFIX (hex_encode H s)")
    case (Some r)
    then have "CHR ''p'' \<in> set (hex_encode H s)" by (simp add: strip_prefix_Some PRIV_PREFIX_def)
    then have "CHR ''p'' \<in> set ''0123456789abcdef''" using assms(1) unfolding hex_ok_def by blast
    then show ?thesis by simp
  qed
  then show ?thesis
    using assms parse_hex32_encode [OF assms(1)]
    by (simp add: parse_prefixed_def fmt_prefixed_def from_secret_hex_def secret_hex_def kp_from_secret_def)
qed

theorem key_text_roundtrip_witness:
  "parse_prefixed demo_hex NODE_PUB_PREFIX (fmt_prefixed demo_hex NODE_PUB_PREFIX (replicate 32 0xab))
     = Some (replicate 32 0xab)"
  using key_text_roundtrip [OF demo_hex_ok, of "replicate 32 0xab" "replicate 32 1"] by simp

end
