(* ===== verification/Replay_Window.thy ===== *)
theory Replay_Window
  imports Prelude
begin

text \<open>
  The anti-replay window of crates/tsnode/src/wireguard.rs (\<^verbatim>\<open>ReplayWindow\<close>): a ring of 32
  words of 64 bits. The specification keeps the set of counters accepted so far; the locale
  \<open>replay_guard\<close> is the contract the transport relies on, and the bitmap implements it.
\<close>

section \<open>The ring bitmap\<close>

definition REPLAY_WORDS :: nat where "REPLAY_WORDS = 32"
definition REPLAY_BITS :: nat where "REPLAY_BITS = (REPLAY_WORDS - 1) * 64"

record replay_window =
  rw_last :: u64
  rw_bitmap :: "u64 list"

definition rw_new :: replay_window where
  "rw_new = \<lparr>rw_last = 0, rw_bitmap = replicate REPLAY_WORDS 0\<rparr>"

definition rw_slot :: "u64 \<Rightarrow> nat \<times> u64" where
  "rw_slot counter =
     ((unat counter div 64) mod REPLAY_WORDS, push_bit (unat counter mod 64) 1)"

definition rw_mark :: "replay_window \<Rightarrow> u64 \<Rightarrow> replay_window" where
  "rw_mark rw counter =
     (let (word, b) = rw_slot counter
      in rw\<lparr>rw_bitmap := (rw_bitmap rw)[word := rw_bitmap rw ! word OR b]\<rparr>)"

text \<open>The \<^verbatim>\<open>while w <= counter / 64\<close> loop that clears the words the window slides over.\<close>

function clear_words :: "nat \<Rightarrow> nat \<Rightarrow> u64 list \<Rightarrow> u64 list" where
  "clear_words w hi bm =
     (if w \<le> hi then clear_words (Suc w) hi (bm[w mod REPLAY_WORDS := 0]) else bm)"
  by pat_completeness auto
termination
  by (relation "measure (\<lambda>(w, hi, bm). Suc hi - w)") auto

declare clear_words.simps [simp del]

definition check_and_update :: "replay_window \<Rightarrow> u64 \<Rightarrow> bool \<times> replay_window" where
  "check_and_update rw counter =
     (if rw_last rw < counter then
        (let bm = (if REPLAY_BITS \<le> unat (counter - rw_last rw) then replicate REPLAY_WORDS 0
                   else clear_words (unat (rw_last rw) div 64 + 1) (unat counter div 64) (rw_bitmap rw));
             rw = rw\<lparr>rw_bitmap := bm, rw_last := counter\<rparr>
         in (True, rw_mark rw counter))
      else if REPLAY_BITS \<le> unat (rw_last rw - counter) then (False, rw)
      else
        (let (word, b) = rw_slot counter
         in if rw_bitmap rw ! word AND b \<noteq> 0 then (False, rw)
            else (True, rw\<lparr>rw_bitmap := (rw_bitmap rw)[word := rw_bitmap rw ! word OR b]\<rparr>)))"

section \<open>The specification: the set of counters accepted\<close>

definition seen_check :: "nat \<times> nat set \<Rightarrow> nat \<Rightarrow> bool \<times> nat \<times> nat set" where
  "seen_check = (\<lambda>(last, S) c.
     if last < c then (True, c, insert c S)
     else if REPLAY_BITS \<le> last - c \<or> c \<in> S then (False, last, S)
     else (True, last, insert c S))"

fun seen_run :: "nat \<times> nat set \<Rightarrow> nat list \<Rightarrow> bool list" where
  "seen_run a [] = []"
| "seen_run a (c # cs) = (case seen_check a c of (b, a') \<Rightarrow> b # seen_run a' cs)"

text \<open>The counters a run accepts, given its decisions.\<close>

definition accepted :: "bool list \<Rightarrow> 'a list \<Rightarrow> 'a list" where
  "accepted bs cs = map snd (filter fst (zip bs cs))"

lemma accepted_Cons [simp]:
  "accepted (b # bs) (c # cs) = (if b then c # accepted bs cs else accepted bs cs)"
  by (simp add: accepted_def)

lemma accepted_Nil [simp]: "accepted bs [] = []"
  by (simp add: accepted_def)

lemma accepted_map: "accepted bs (map f cs) = map f (accepted bs cs)"
  by (induction bs cs rule: list_induct2') (simp_all add: accepted_def)

lemma seen_run_accepted:
  "distinct (accepted (seen_run (L, S) cs) cs)
   \<and> set (accepted (seen_run (L, S) cs) cs) \<inter> S = {}" if "\<forall>c \<in> S. c \<le> L"
  using that
proof (induction cs arbitrary: L S)
  case Nil
  then show ?case by simp
next
  case (Cons c cs)
  obtain b L' S' where sc: "seen_check (L, S) c = (b, L', S')"
    by (cases "seen_check (L, S) c") auto
  have bound: "\<forall>c \<in> S'. c \<le> L'"
    using sc Cons.prems by (auto simp: seen_check_def split: if_splits)
  have S': "S' = (if b then insert c S else S)" and "b \<longrightarrow> c \<notin> S"
    using sc Cons.prems by (auto simp: seen_check_def split: if_splits)
  then show ?case using Cons.IH [OF bound] sc by auto
qed

section \<open>The contract\<close>

text \<open>The decisions of a window on a sequence of received counters.\<close>

fun check_run :: "('w \<Rightarrow> u64 \<Rightarrow> bool \<times> 'w) \<Rightarrow> 'w \<Rightarrow> u64 list \<Rightarrow> bool list" where
  "check_run check w [] = []"
| "check_run check w (c # cs) = (case check w c of (b, w') \<Rightarrow> b # check_run check w' cs)"

locale replay_guard =
  fixes fresh :: 'w
    and check :: "'w \<Rightarrow> u64 \<Rightarrow> bool \<times> 'w"
    and rep :: "'w \<Rightarrow> nat \<times> nat set \<Rightarrow> bool"
  assumes rep_fresh: "rep fresh (0, {})"
    and rep_check: "rep w a \<Longrightarrow> check w c = (b, w') \<Longrightarrow>
      \<exists>a'. seen_check a (unat c) = (b, a') \<and> rep w' a'"
begin

lemma check_run_refines: "rep w a \<Longrightarrow> check_run check w cs = seen_run a (map unat cs)"
proof (induction cs arbitrary: w a)
  case Nil
  then show ?case by simp
next
  case (Cons c cs)
  obtain b w' where bw: "check w c = (b, w')" by (cases "check w c") auto
  then obtain a' where "seen_check a (unat c) = (b, a')" and "rep w' a'"
    using rep_check [OF Cons.prems] by blast
  then show ?case using bw Cons.IH [of w' a'] by simp
qed

lemma fresh_run: "check_run check fresh cs = seen_run (0, {}) (map unat cs)"
  by (rule check_run_refines) (rule rep_fresh)

lemma no_double_accept: "distinct (accepted (check_run check fresh cs) cs)"
proof -
  have "distinct (map unat (accepted (check_run check fresh cs) cs))"
    unfolding fresh_run accepted_map [symmetric]
    using seen_run_accepted [of "{}" 0 "map unat cs"] by simp
  then show ?thesis by (simp add: distinct_map)
qed

end

section \<open>The bitmap implements the contract\<close>

definition slot_bit :: "u64 list \<Rightarrow> nat \<Rightarrow> bool" where
  "slot_bit bm c \<longleftrightarrow> bit (bm ! (c div 64 mod REPLAY_WORDS)) (c mod 64)"

definition rw_rep :: "replay_window \<Rightarrow> nat \<times> nat set \<Rightarrow> bool" where
  "rw_rep rw = (\<lambda>(L, S).
     unat (rw_last rw) = L \<and> length (rw_bitmap rw) = REPLAY_WORDS
     \<and> (\<forall>c \<in> S. c \<le> L)
     \<and> (\<forall>c. c \<le> L \<and> L - c < REPLAY_BITS \<longrightarrow> (slot_bit (rw_bitmap rw) c \<longleftrightarrow> c \<in> S))
     \<and> (\<forall>c. L < c \<and> c div 64 = L div 64 \<longrightarrow> \<not> slot_bit (rw_bitmap rw) c))"

lemmas replay_consts = REPLAY_WORDS_def REPLAY_BITS_def

lemma rw_repD:
  assumes "rw_rep rw (L, S)"
  shows "unat (rw_last rw) = L" and "length (rw_bitmap rw) = REPLAY_WORDS" and "\<forall>c \<in> S. c \<le> L"
    and "c \<le> L \<Longrightarrow> L - c < REPLAY_BITS \<Longrightarrow> slot_bit (rw_bitmap rw) c \<longleftrightarrow> c \<in> S"
    and "L < c \<Longrightarrow> c div 64 = L div 64 \<Longrightarrow> \<not> slot_bit (rw_bitmap rw) c"
  using assms by (simp_all add: rw_rep_def)

lemma rw_rep_new: "rw_rep rw_new (0, {})"
  by (auto simp: rw_rep_def rw_new_def slot_bit_def replay_consts)

lemma length_clear_words [simp]: "length (clear_words w hi bm) = length bm"
  by (induction w hi bm rule: clear_words.induct) (subst clear_words.simps, simp)

lemma nth_clear_words:
  "i < length bm \<Longrightarrow> length bm = REPLAY_WORDS \<Longrightarrow>
   clear_words w hi bm ! i =
     (if \<exists>v. w \<le> v \<and> v \<le> hi \<and> v mod REPLAY_WORDS = i then 0 else bm ! i)"
proof (induction w hi bm rule: clear_words.induct)
  case (1 w hi bm)
  show ?case
  proof (cases "w \<le> hi")
    case True
    have "clear_words w hi bm ! i = clear_words (Suc w) hi (bm[w mod REPLAY_WORDS := 0]) ! i"
      by (subst clear_words.simps) (simp add: True)
    also have "\<dots> = (if \<exists>v. Suc w \<le> v \<and> v \<le> hi \<and> v mod REPLAY_WORDS = i then 0
        else bm[w mod REPLAY_WORDS := 0] ! i)"
      using 1 True by simp
    also have "\<dots> = (if \<exists>v. w \<le> v \<and> v \<le> hi \<and> v mod REPLAY_WORDS = i then 0 else bm ! i)"
    proof (cases "w mod REPLAY_WORDS = i")
      case True
      have w: "w \<le> hi" by fact
      show ?thesis using True w "1.prems" by auto
    next
      case False
      then have "(\<exists>v. Suc w \<le> v \<and> v \<le> hi \<and> v mod REPLAY_WORDS = i) \<longleftrightarrow>
          (\<exists>v. w \<le> v \<and> v \<le> hi \<and> v mod REPLAY_WORDS = i)"
        by (metis Suc_le_eq Suc_leD le_neq_implies_less)
      then show ?thesis using False by auto
    qed
    finally show ?thesis .
  next
    case False
    then show ?thesis by (subst clear_words.simps) auto
  qed
qed

lemma block_offset_eq:
  "y < 64 \<Longrightarrow> y' < 64 \<Longrightarrow> (64 * x + y = 64 * x' + y') = (x = x' \<and> y = y')" for x y :: nat
proof (intro iffI conjI)
  assume y: "y < 64" "y' < 64" and eq: "64 * x + y = 64 * x' + y'"
  have "(64 * x + y) div 64 = (64 * x' + y') div 64" using eq by simp
  then show "x = x'" using y by simp
  with eq show "y = y'" by simp
qed simp

lemma mod_eq_close: "a mod m = b mod m \<Longrightarrow> a \<le> b \<Longrightarrow> b - a < m \<Longrightarrow> a = b" for a b m :: nat
proof -
  assume eq: "a mod m = b mod m" and "a \<le> b" "b - a < m"
  then have "m dvd b - a" using mod_eq_dvd_iff_nat [of a b m] by simp
  with \<open>b - a < m\<close> have "b - a = 0" by (meson nat_dvd_not_less gr0I)
  with \<open>a \<le> b\<close> show "a = b" by simp
qed

lemma slot_bit_mark:
  assumes "length bm = REPLAY_WORDS"
  shows "slot_bit (bm[unat c div 64 mod REPLAY_WORDS :=
      bm ! (unat c div 64 mod REPLAY_WORDS) OR push_bit (unat c mod 64) 1]) d
    \<longleftrightarrow> slot_bit bm d \<or> d mod (64 * REPLAY_WORDS) = unat (c :: u64) mod (64 * REPLAY_WORDS)"
proof -
  have eq: "d mod (64 * REPLAY_WORDS) = unat c mod (64 * REPLAY_WORDS) \<longleftrightarrow>
      d div 64 mod REPLAY_WORDS = unat c div 64 mod REPLAY_WORDS \<and> d mod 64 = unat c mod 64"
    unfolding mod_mult2_eq by (rule block_offset_eq) simp_all
  have b: "bit (push_bit (unat c mod 64) 1 :: u64) i \<longleftrightarrow> i = unat c mod 64" if "i < 64" for i
    using that by (auto simp: bit_exp_iff)
  show ?thesis
    unfolding slot_bit_def eq using assms b [of "d mod 64"]
    by (auto simp: nth_list_update bit_or_iff replay_consts)
qed

lemma slot_bit_clear:
  assumes "length bm = REPLAY_WORDS"
  shows "slot_bit (clear_words lo hi bm) d \<longleftrightarrow>
    slot_bit bm d \<and> \<not> (\<exists>v. lo \<le> v \<and> v \<le> hi \<and> v mod REPLAY_WORDS = d div 64 mod REPLAY_WORDS)"
  using assms nth_clear_words [of "d div 64 mod REPLAY_WORDS" bm lo hi]
  by (auto simp: slot_bit_def replay_consts)

text \<open>After sliding to \<open>c\<close> and before marking it, the bitmap holds exactly the seen counters.\<close>

lemma slide_keeps:
  assumes rep: "rw_rep rw (L, S)" and "L < c" "c - L < REPLAY_BITS"
    and d: "d \<le> c \<and> c - d < REPLAY_BITS \<or> c < d \<and> d div 64 = c div 64"
  shows "slot_bit (clear_words (L div 64 + 1) (c div 64) (rw_bitmap rw)) d \<longleftrightarrow> d \<in> S"
proof -
  note len = rw_repD(2) [OF rep] and S = rw_repD(3) [OF rep]
    and low = rw_repD(4) [OF rep] and high = rw_repD(5) [OF rep]
  show ?thesis
  proof (cases "d \<le> L")
    case True
    then have near: "L - d < REPLAY_BITS" and block: "c div 64 - d div 64 < REPLAY_WORDS"
      using assms(2) d by (auto simp: replay_consts)
    have "\<not> (L div 64 + 1 \<le> v \<and> v \<le> c div 64 \<and> v mod REPLAY_WORDS = d div 64 mod REPLAY_WORDS)" for v
    proof
      assume v: "L div 64 + 1 \<le> v \<and> v \<le> c div 64 \<and> v mod REPLAY_WORDS = d div 64 mod REPLAY_WORDS"
      have "d div 64 \<le> L div 64" using True by (rule div_le_mono)
      with v block have "d div 64 \<le> v" and "v - d div 64 < REPLAY_WORDS" by linarith+
      with v have "d div 64 = v" by (intro mod_eq_close [of "d div 64" REPLAY_WORDS v]) simp_all
      with v \<open>d div 64 \<le> L div 64\<close> show False by simp
    qed
    then show ?thesis using slot_bit_clear [OF len] low [OF True near] by blast
  next
    case False
    then have "d \<notin> S" using S by auto
    moreover have "\<not> slot_bit (clear_words (L div 64 + 1) (c div 64) (rw_bitmap rw)) d"
    proof (cases "d div 64 = L div 64")
      case True
      then show ?thesis using slot_bit_clear [OF len] high [of d] False by simp
    next
      case neq: False
      have "L div 64 \<le> d div 64" using False by (intro div_le_mono) simp
      moreover have "d div 64 \<le> c div 64" using d by (auto intro: div_le_mono)
      ultimately show ?thesis using slot_bit_clear [OF len] neq by force
    qed
    ultimately show ?thesis by simp
  qed
qed

lemma rw_rep_mark:
  assumes "length bm = REPLAY_WORDS" and "L = unat c" and "\<forall>d \<in> S. d \<le> L"
    and "\<And>d. d \<le> L \<and> L - d < REPLAY_BITS \<or> L < d \<and> d div 64 = L div 64 \<Longrightarrow> slot_bit bm d \<longleftrightarrow> d \<in> S"
  shows "rw_rep (rw_mark \<lparr>rw_last = c, rw_bitmap = bm\<rparr> c) (L, insert L S)"
proof -
  have same: "d mod (64 * REPLAY_WORDS) = L mod (64 * REPLAY_WORDS) \<longleftrightarrow> d = L"
    if "d \<le> L \<and> L - d < REPLAY_BITS \<or> L < d \<and> d div 64 = L div 64" for d
  proof
    assume eq: "d mod (64 * REPLAY_WORDS) = L mod (64 * REPLAY_WORDS)"
    show "d = L"
    proof (cases "d \<le> L")
      case True
      then show ?thesis using that eq by (intro mod_eq_close [OF eq]) (auto simp: replay_consts)
    next
      case False
      then have "d - L < 64" using that by auto
      then show ?thesis using False by (intro mod_eq_close [OF eq [symmetric], symmetric]) (auto simp: replay_consts)
    qed
  qed simp
  have mark: "rw_bitmap (rw_mark \<lparr>rw_last = c, rw_bitmap = bm\<rparr> c) =
      bm[unat c div 64 mod REPLAY_WORDS := bm ! (unat c div 64 mod REPLAY_WORDS) OR push_bit (unat c mod 64) 1]"
    and last: "rw_last (rw_mark \<lparr>rw_last = c, rw_bitmap = bm\<rparr> c) = c"
    by (simp_all add: rw_mark_def rw_slot_def)
  show ?thesis
    unfolding rw_rep_def mark last
    using assms slot_bit_mark [OF assms(1), of c] same by (auto simp: assms(2))
qed

lemma rw_eta: "rw\<lparr>rw_bitmap := bm, rw_last := c\<rparr> = \<lparr>rw_last = c, rw_bitmap = bm\<rparr>"
  by (cases rw) simp

lemma check_and_update_refines:
  assumes rep: "rw_rep rw (L, S)" and chk: "check_and_update rw c = (b, rw')"
  shows "\<exists>a'. seen_check (L, S) (unat c) = (b, a') \<and> rw_rep rw' a'"
proof -
  note L = rw_repD(1) [OF rep] and len = rw_repD(2) [OF rep] and S = rw_repD(3) [OF rep]
  have lt: "rw_last rw < c \<longleftrightarrow> L < unat c" using L by (simp add: word_less_nat_alt)
  show ?thesis
  proof (cases "L < unat c")
    case True
    have diff: "unat (c - rw_last rw) = unat c - L"
      using True L by (simp add: unat_sub word_le_nat_alt)
    let ?bm = "if REPLAY_BITS \<le> unat c - L then replicate REPLAY_WORDS 0
      else clear_words (L div 64 + 1) (unat c div 64) (rw_bitmap rw)"
    have "rw_rep (rw_mark \<lparr>rw_last = c, rw_bitmap = ?bm\<rparr> c) (unat c, insert (unat c) S)"
    proof (rule rw_rep_mark)
      show "length ?bm = REPLAY_WORDS" using len by simp
      show "\<forall>d \<in> S. d \<le> unat c" using S True by auto
      show "slot_bit ?bm d \<longleftrightarrow> d \<in> S"
        if d: "d \<le> unat c \<and> unat c - d < REPLAY_BITS \<or> unat c < d \<and> d div 64 = unat c div 64" for d
      proof (cases "REPLAY_BITS \<le> unat c - L")
        case True
        then have "d \<notin> S" using d S \<open>L < unat c\<close> by (auto dest!: bspec)
        then show ?thesis using True by (simp add: slot_bit_def replay_consts)
      next
        case False
        then show ?thesis using slide_keeps [OF rep \<open>L < unat c\<close> _ d] by simp
      qed
    qed simp
    moreover have "b" and "rw' = rw_mark \<lparr>rw_last = c, rw_bitmap = ?bm\<rparr> c"
      using chk True by (auto simp: check_and_update_def lt diff Let_def rw_eta L)
    ultimately show ?thesis using True by (simp add: seen_check_def)
  next
    case False
    have diff: "unat (rw_last rw - c) = L - unat c"
      using False L by (simp add: unat_sub word_le_nat_alt)
    show ?thesis
    proof (cases "REPLAY_BITS \<le> L - unat c")
      case True
      then show ?thesis
        using False chk rep by (auto simp: check_and_update_def seen_check_def lt diff)
    next
      case near: False
      let ?w = "unat c div 64 mod REPLAY_WORDS" and ?b = "push_bit (unat c mod 64) 1 :: u64"
      have bit: "rw_bitmap rw ! ?w AND ?b \<noteq> 0 \<longleftrightarrow> slot_bit (rw_bitmap rw) (unat c)"
        by (simp add: slot_bit_def bit_iff_and_push_bit_not_eq_0)
      then have seen: "rw_bitmap rw ! ?w AND ?b \<noteq> 0 \<longleftrightarrow> unat c \<in> S"
        using rep False near by (auto simp: rw_rep_def)
      show ?thesis
      proof (cases "unat c \<in> S")
        case True
        then show ?thesis
          using False near chk rep seen
          by (auto simp: check_and_update_def seen_check_def lt diff rw_slot_def)
      next
        case new: False
        have same: "d mod (64 * REPLAY_WORDS) = unat c mod (64 * REPLAY_WORDS) \<longleftrightarrow> d = unat c"
          if "d \<le> L \<and> L - d < REPLAY_BITS \<or> L < d \<and> d div 64 = L div 64" for d
        proof
          assume eq: "d mod (64 * REPLAY_WORDS) = unat c mod (64 * REPLAY_WORDS)"
          have "d - L < 64" using that by auto
          then have "d - unat c < 64 * REPLAY_WORDS" and "unat c - d < 64 * REPLAY_WORDS"
            using that False near unfolding replay_consts by linarith+
          then show "d = unat c"
            using mod_eq_close [OF eq] mod_eq_close [OF eq [symmetric]] by (cases "d \<le> unat c") simp_all
        qed simp
        have "rw_rep (rw\<lparr>rw_bitmap := (rw_bitmap rw)[?w := rw_bitmap rw ! ?w OR ?b]\<rparr>) (L, insert (unat c) S)"
          using rep False same slot_bit_mark [OF len, of c] by (auto simp: rw_rep_def)
        then show ?thesis
          using False near chk seen new
          by (auto simp: check_and_update_def seen_check_def lt diff rw_slot_def)
      qed
    qed
  qed
qed

interpretation rw: replay_guard rw_new check_and_update rw_rep
proof
  show "rw_rep rw_new (0, {})" by (rule rw_rep_new)
next
  fix w a c b w'
  assume "rw_rep w a" and "check_and_update w c = (b, w')"
  then show "\<exists>a'. seen_check a (unat c) = (b, a') \<and> rw_rep w' a'"
    using check_and_update_refines [of w "fst a" "snd a"] by simp
qed

section \<open>Properties\<close>

text \<open>
  C6: on every sequence of counters, the ring bitmap takes exactly the decisions of the
  specification that remembers every accepted counter: a counter above the highest one is
  accepted, one that is 1984 or more behind is rejected, and any other is accepted once.
\<close>

theorem replay_window_refines_seen_set:
  "check_run check_and_update rw_new cs = seen_run (0, {}) (map unat cs)"
  by (rule rw.fresh_run)

text \<open>
  No counter is accepted twice, whatever the order, the repetitions and the jumps of the
  received sequence.
\<close>

theorem replay_window_no_double_accept:
  "distinct (accepted (check_run check_and_update rw_new cs) cs)"
  by (rule rw.no_double_accept)

end
