(* ===== verification/WireGuard.thy ===== *)
theory WireGuard
  imports Crypto Replay_Window
begin

text \<open>
  The per-peer WireGuard tunnel of crates/tsnode/src/wireguard.rs: handshake initiator and
  responder, transport, queueing and timers. Each operation of \<^verbatim>\<open>Tunn\<close> takes the tunnel and
  returns the new one. Random draws and the wall-clock timestamp of an operation are its
  \<open>wg_env\<close>. \<open>None\<close> is a panic of the source; errors are the left values of a sum.
\<close>

section \<open>Constants and types\<close>

definition CONSTRUCTION :: bytes where
  "CONSTRUCTION = map of_char ''Noise_IKpsk2_25519_ChaChaPoly_BLAKE2s''"
definition IDENTIFIER :: bytes where
  "IDENTIFIER = map of_char ''WireGuard v1 zx2c4 Jason@zx2c4.com''"
definition LABEL_MAC1 :: bytes where "LABEL_MAC1 = map of_char ''mac1----''"

definition MSG_INITIATION :: u8 where "MSG_INITIATION = 1"
definition MSG_RESPONSE :: u8 where "MSG_RESPONSE = 2"
definition MSG_COOKIE_REPLY :: u8 where "MSG_COOKIE_REPLY = 3"
definition MSG_TRANSPORT :: u8 where "MSG_TRANSPORT = 4"
definition INITIATION_LEN :: nat where "INITIATION_LEN = 148"
definition RESPONSE_LEN :: nat where "RESPONSE_LEN = 92"
definition TRANSPORT_HEADER_LEN :: nat where "TRANSPORT_HEADER_LEN = 16"

definition REKEY_AFTER_TIME :: duration where "REKEY_AFTER_TIME = from_secs 120"
definition REJECT_AFTER_TIME :: duration where "REJECT_AFTER_TIME = from_secs 180"
definition REKEY_TIMEOUT :: duration where "REKEY_TIMEOUT = from_secs 5"
definition KEEPALIVE_TIMEOUT :: duration where "KEEPALIVE_TIMEOUT = from_secs 10"
definition REKEY_AFTER_MESSAGES :: u64 where "REKEY_AFTER_MESSAGES = push_bit 60 1"
definition MAX_HANDSHAKE_ATTEMPTS :: nat where "MAX_HANDSHAKE_ATTEMPTS = 18"

lemmas wg_consts = MSG_INITIATION_def MSG_RESPONSE_def MSG_COOKIE_REPLY_def MSG_TRANSPORT_def
  INITIATION_LEN_def RESPONSE_LEN_def TRANSPORT_HEADER_LEN_def TAG_LEN_def

datatype wg_error =
  BadLength | BadType | BadMac | BadReceiver | AuthFailed | NoSession | Replay | UnknownPeer

record session =
  s_local_index :: u32
  s_remote_index :: u32
  s_send_key :: bytes
  s_recv_key :: bytes
  s_send_counter :: u64
  s_replay :: replay_window
  s_created :: instant
  s_is_initiator :: bool
  s_confirmed :: bool

record pending_initiation =
  pi_local_index :: u32
  pi_ephemeral_secret :: bytes
  pi_state :: symmetric_state
  pi_sent_at :: instant
  pi_attempts :: nat

record consumed_initiation =
  ci_peer_public :: bytes
  ci_remote_index :: u32
  ci_remote_ephemeral :: bytes
  ci_state :: symmetric_state
  ci_timestamp :: bytes

record tunn =
  tn_local :: key_pair
  tn_peer_public :: bytes
  tn_mac1_key_peer :: bytes
  tn_mac1_key_local :: bytes
  tn_pending :: "pending_initiation option"
  tn_current :: "session option"
  tn_previous :: "session option"
  tn_last_initiation_ts :: bytes
  tn_last_sent :: "instant option"
  tn_last_received :: "instant option"
  tn_need_keepalive :: bool
  tn_queued :: "bytes list"

text \<open>
  What one operation draws from outside: 32 random bytes for an ephemeral key, 4 for an index,
  and the result of \<open>tai64n_now\<close>.
\<close>

record wg_env =
  we_rnd_key :: bytes
  we_rnd_index :: bytes
  we_tai64n :: bytes

text \<open>
  \<open>tai64n_now\<close> of the system clock (whole seconds and nanoseconds since the epoch) and the
  offset \<^verbatim>\<open>WALL_CLOCK_OFFSET_SECS\<close>.
\<close>

definition tai64n_now :: "u64 \<Rightarrow> u32 \<Rightarrow> int \<Rightarrow> bytes" where
  "tai64n_now as_secs subsec_nanos offset =
     (let secs = sint as_secs + offset;
          tai = (word_of_int (max secs 0) :: u64) + 0x400000000000000a
      in u64_to_be tai @ u32_to_be subsec_nanos)"

text \<open>\<^verbatim>\<open>Ord\<close> on byte arrays is lexicographic.\<close>

fun bytes_le :: "bytes \<Rightarrow> bytes \<Rightarrow> bool" where
  "bytes_le [] _ = True"
| "bytes_le (_ # _) [] = False"
| "bytes_le (a # as) (b # bs) = (a < b \<or> a = b \<and> bytes_le as bs)"

section \<open>Handshake\<close>

definition mac1_key :: "prims \<Rightarrow> bytes \<Rightarrow> bytes" where
  "mac1_key P public = blake2s P [LABEL_MAC1, public]"

definition consume_initiation ::
    "prims \<Rightarrow> key_pair \<Rightarrow> bytes \<Rightarrow> (wg_error + consumed_initiation) option" where
  "consume_initiation P local msg =
     (if length msg \<noteq> INITIATION_LEN then Some (Inl BadLength)
      else if msg ! 0 \<noteq> MSG_INITIATION then Some (Inl BadType)
      else if blake2s_mac16 P (mac1_key P (kp_public local)) [slice 0 116 msg] \<noteq> slice 116 132 msg
        then Some (Inl BadMac)
      else
        let remote_index = u32_from_le (slice 4 8 msg);
            remote_ephemeral = slice 8 40 msg;
            s = ss_new P CONSTRUCTION;
            s = mix_hash P IDENTIFIER s;
            s = mix_hash P (kp_public local) s;
            s = mix_key P remote_ephemeral s;
            s = mix_hash P remote_ephemeral s;
            s = mix_dh P (kp_secret local) remote_ephemeral s
        in do {
          r \<leftarrow> decrypt_and_hash P (slice 40 88 msg) s;
          case r of
            Inl _ \<Rightarrow> Some (Inl AuthFailed)
          | Inr (peer_public, s) \<Rightarrow>
              (if length peer_public \<noteq> 32 then None
               else
                 let s = mix_dh P (kp_secret local) peer_public s
                 in do {
                   r \<leftarrow> decrypt_and_hash P (slice 88 116 msg) s;
                   case r of
                     Inl _ \<Rightarrow> Some (Inl AuthFailed)
                   | Inr (timestamp, s) \<Rightarrow>
                       (if length timestamp \<noteq> 12 then None
                        else Some (Inr \<lparr>ci_peer_public = peer_public,
                               ci_remote_index = remote_index,
                               ci_remote_ephemeral = remote_ephemeral,
                               ci_state = s, ci_timestamp = timestamp\<rparr>))
                 })
        })"

definition tunn_new :: "prims \<Rightarrow> key_pair \<Rightarrow> bytes \<Rightarrow> tunn" where
  "tunn_new P local peer_public =
     \<lparr>tn_local = local, tn_peer_public = peer_public,
      tn_mac1_key_peer = mac1_key P peer_public,
      tn_mac1_key_local = mac1_key P (kp_public local),
      tn_pending = None, tn_current = None, tn_previous = None,
      tn_last_initiation_ts = replicate 12 0, tn_last_sent = None, tn_last_received = None,
      tn_need_keepalive = False, tn_queued = []\<rparr>"

definition local_indices :: "tunn \<Rightarrow> u32 list" where
  "local_indices t =
     (case tn_pending t of None \<Rightarrow> [] | Some p \<Rightarrow> [pi_local_index p])
     @ (case tn_current t of None \<Rightarrow> [] | Some s \<Rightarrow> [s_local_index s])
     @ (case tn_previous t of None \<Rightarrow> [] | Some s \<Rightarrow> [s_local_index s])"

definition has_session :: "tunn \<Rightarrow> bool" where
  "has_session t \<longleftrightarrow> tn_current t \<noteq> None"

definition new_initiation :: "prims \<Rightarrow> wg_env \<Rightarrow> instant \<Rightarrow> tunn \<Rightarrow> (bytes \<times> tunn) option" where
  "new_initiation P env now t =
     (let s = ss_new P CONSTRUCTION;
          s = mix_hash P IDENTIFIER s;
          s = mix_hash P (tn_peer_public t) s;
          e = x25519_generate (we_rnd_key env);
          e_pub = x25519_public P e;
          s = mix_key P e_pub s;
          s = mix_hash P e_pub s;
          s = mix_dh P e (tn_peer_public t) s
      in do {
        (enc_static, s) \<leftarrow> encrypt_and_hash P (kp_public (tn_local t)) s;
        let s = mix_dh P (kp_secret (tn_local t)) (tn_peer_public t) s;
        (enc_ts, s) \<leftarrow> encrypt_and_hash P (we_tai64n env) s;
        let local_index = u32_from_le (we_rnd_index env);
        let msg = [MSG_INITIATION, 0, 0, 0] @ u32_to_le local_index @ e_pub @ enc_static @ enc_ts;
        let mac1 = blake2s_mac16 P (tn_mac1_key_peer t) [msg];
        let attempts = (case tn_pending t of None \<Rightarrow> 1 | Some p \<Rightarrow> pi_attempts p + 1);
        Some (msg @ mac1 @ replicate 16 0,
              t\<lparr>tn_pending := Some \<lparr>pi_local_index = local_index, pi_ephemeral_secret = e,
                 pi_state = s, pi_sent_at = now, pi_attempts = attempts\<rparr>\<rparr>)
      })"

definition initiate_if_needed ::
    "prims \<Rightarrow> wg_env \<Rightarrow> instant \<Rightarrow> tunn \<Rightarrow> (bytes option \<times> tunn) option" where
  "initiate_if_needed P env now t =
     (if tn_current t \<noteq> None then Some (None, t)
      else
        let fresh = map_option (\<lambda>(m, t). (Some m, t)) (new_initiation P env now t)
        in case tn_pending t of
             None \<Rightarrow> fresh
           | Some p \<Rightarrow>
               (if duration_since now (pi_sent_at p) < REKEY_TIMEOUT then Some (None, t)
                else if MAX_HANDSHAKE_ATTEMPTS \<le> pi_attempts p then
                  Some (None, t\<lparr>tn_pending := None, tn_queued := []\<rparr>)
                else fresh))"

section \<open>Transport\<close>

definition wg_queue :: "bytes \<Rightarrow> tunn \<Rightarrow> tunn" where
  "wg_queue pkt t =
     (let q = (if 8 \<le> length (tn_queued t) then tl (tn_queued t) else tn_queued t)
      in t\<lparr>tn_queued := q @ [pkt]\<rparr>)"

definition wg_seal :: "prims \<Rightarrow> session \<Rightarrow> bytes \<Rightarrow> bytes \<times> session" where
  "wg_seal P s plaintext =
     (let padded_len = (length plaintext + 15) div 16 * 16;
          padded = plaintext @ replicate (padded_len - length plaintext) 0;
          ct = aead_encrypt P (s_send_key s) (s_send_counter s) padded [];
          msg = [MSG_TRANSPORT, 0, 0, 0] @ u32_to_le (s_remote_index s)
                @ u64_to_le (s_send_counter s) @ ct
      in (msg, s\<lparr>s_send_counter := s_send_counter s + 1\<rparr>))"

definition encapsulate ::
    "prims \<Rightarrow> wg_env \<Rightarrow> bytes \<Rightarrow> instant \<Rightarrow> tunn \<Rightarrow> (bytes list \<times> tunn) option" where
  "encapsulate P env ip_packet now t =
     (let queue_and_initiate = (\<lambda>t. do {
            (m, t) \<leftarrow> initiate_if_needed P env now (wg_queue ip_packet t);
            Some (case m of None \<Rightarrow> [] | Some init \<Rightarrow> [init], t)
          })
      in case tn_current t of
           Some s \<Rightarrow>
             (if REJECT_AFTER_TIME \<le> duration_since now (s_created s)
              then queue_and_initiate (t\<lparr>tn_current := None\<rparr>)
              else
                let (m, s) = wg_seal P s ip_packet;
                    t = t\<lparr>tn_current := Some s, tn_last_sent := Some now, tn_need_keepalive := False\<rparr>
                in if s_is_initiator s
                      \<and> (REKEY_AFTER_TIME \<le> duration_since now (s_created s)
                         \<or> REKEY_AFTER_MESSAGES \<le> s_send_counter s)
                      \<and> tn_pending t = None
                   then do { (init, t) \<leftarrow> new_initiation P env now t; Some ([m, init], t) }
                   else Some ([m], t))
         | None \<Rightarrow> queue_and_initiate t)"

fun seal_all :: "prims \<Rightarrow> session \<Rightarrow> bytes list \<Rightarrow> bytes list \<times> session" where
  "seal_all P s [] = ([], s)"
| "seal_all P s (p # ps) =
     (let (m, s) = wg_seal P s p; (ms, s) = seal_all P s ps in (m # ms, s))"

definition flush_queue :: "prims \<Rightarrow> instant \<Rightarrow> tunn \<Rightarrow> bytes list \<times> tunn" where
  "flush_queue P now t =
     (let queued = tn_queued t; t = t\<lparr>tn_queued := []\<rparr>
      in case tn_current t of
           None \<Rightarrow> ([], t)
         | Some s \<Rightarrow>
             (let (out, s) = seal_all P s queued; t = t\<lparr>tn_current := Some s\<rparr>
              in (out, if out \<noteq> [] then t\<lparr>tn_last_sent := Some now\<rparr> else t)))"

definition consume_response ::
    "prims \<Rightarrow> bytes \<Rightarrow> instant \<Rightarrow> tunn \<Rightarrow> ((wg_error + bytes list) \<times> tunn) option" where
  "consume_response P msg now t =
     (if length msg \<noteq> RESPONSE_LEN then Some (Inl BadLength, t)
      else if msg ! 0 \<noteq> MSG_RESPONSE then Some (Inl BadType, t)
      else if blake2s_mac16 P (tn_mac1_key_local t) [slice 0 60 msg] \<noteq> slice 60 76 msg
        then Some (Inl BadMac, t)
      else
        let remote_index = u32_from_le (slice 4 8 msg);
            receiver = u32_from_le (slice 8 12 msg)
        in case tn_pending t of
             None \<Rightarrow> Some (Inl BadReceiver, t)
           | Some pending \<Rightarrow>
               (if pi_local_index pending \<noteq> receiver then Some (Inl BadReceiver, t)
                else
                  let t = t\<lparr>tn_pending := None\<rparr>;
                      re = slice 12 44 msg;
                      s = pi_state pending;
                      s = mix_hash P re s;
                      s = mix_key P re s;
                      s = mix_dh P (pi_ephemeral_secret pending) re s;
                      s = mix_dh P (kp_secret (tn_local t)) re s;
                      s = mix_key_and_hash P (replicate 32 0) s
                  in do {
                    r \<leftarrow> decrypt_and_hash P (slice 44 60 msg) s;
                    case r of
                      Inl _ \<Rightarrow> Some (Inl AuthFailed, t\<lparr>tn_pending := Some pending\<rparr>)
                    | Inr (_, s) \<Rightarrow>
                        (let (send_key, recv_key) = ss_split P s;
                             session = \<lparr>s_local_index = pi_local_index pending,
                               s_remote_index = remote_index, s_send_key = send_key,
                               s_recv_key = recv_key, s_send_counter = 0, s_replay = rw_new,
                               s_created = now, s_is_initiator = True, s_confirmed = True\<rparr>;
                             t = t\<lparr>tn_previous := tn_current t, tn_current := Some session\<rparr>;
                             (out, t) = flush_queue P now t
                         in Some (Inr out, t))
                  }))"

definition accept_initiation ::
    "prims \<Rightarrow> wg_env \<Rightarrow> consumed_initiation \<Rightarrow> instant \<Rightarrow> tunn
      \<Rightarrow> ((wg_error + bytes) \<times> tunn) option" where
  "accept_initiation P env ci now t =
     (if ci_peer_public ci \<noteq> tn_peer_public t then Some (Inl UnknownPeer, t)
      else if bytes_le (ci_timestamp ci) (tn_last_initiation_ts t) then Some (Inl Replay, t)
      else
        let t = t\<lparr>tn_last_initiation_ts := ci_timestamp ci\<rparr>;
            s = ci_state ci;
            local_index = u32_from_le (we_rnd_index env);
            e = x25519_generate (we_rnd_key env);
            e_pub = x25519_public P e;
            s = mix_hash P e_pub s;
            s = mix_key P e_pub s;
            s = mix_dh P e (ci_remote_ephemeral ci) s;
            s = mix_dh P e (tn_peer_public t) s;
            s = mix_key_and_hash P (replicate 32 0) s
        in do {
          (empty, s) \<leftarrow> encrypt_and_hash P [] s;
          let msg = [MSG_RESPONSE, 0, 0, 0] @ u32_to_le local_index
                    @ u32_to_le (ci_remote_index ci) @ e_pub @ empty;
          let mac1 = blake2s_mac16 P (tn_mac1_key_peer t) [msg];
          let (initiator_send, responder_send) = ss_split P s;
          let session = \<lparr>s_local_index = local_index, s_remote_index = ci_remote_index ci,
               s_send_key = responder_send, s_recv_key = initiator_send, s_send_counter = 0,
               s_replay = rw_new, s_created = now, s_is_initiator = False,
               s_confirmed = False\<rparr>;
          Some (Inr (msg @ mac1 @ replicate 16 0),
                t\<lparr>tn_previous := tn_current t, tn_current := Some session, tn_pending := None\<rparr>)
        })"

text \<open>Length of an IP packet according to its header, used to strip the padding.\<close>

definition ip_packet_len :: "bytes \<Rightarrow> nat option" where
  "ip_packet_len pkt =
     (case pkt of
        [] \<Rightarrow> None
      | b0 # _ \<Rightarrow>
          (if drop_bit 4 b0 = 4 \<and> 20 \<le> length pkt
             then Some (unat (u16_from_be [pkt ! 2, pkt ! 3]))
           else if drop_bit 4 b0 = 6 \<and> 40 \<le> length pkt
             then Some (40 + unat (u16_from_be [pkt ! 4, pkt ! 5]))
           else None))"

text \<open>Which session a received index names: the current one first, then the previous one.\<close>

datatype slot = Current | Previous

definition find_slot :: "tunn \<Rightarrow> u32 \<Rightarrow> (session \<times> slot) option" where
  "find_slot t receiver =
     (case tn_current t of
        Some s \<Rightarrow>
          (if s_local_index s = receiver then Some (s, Current)
           else case tn_previous t of
             Some s \<Rightarrow> (if s_local_index s = receiver then Some (s, Previous) else None)
           | None \<Rightarrow> None)
      | None \<Rightarrow>
          (case tn_previous t of
             Some s \<Rightarrow> (if s_local_index s = receiver then Some (s, Previous) else None)
           | None \<Rightarrow> None))"

fun put_slot :: "slot \<Rightarrow> session \<Rightarrow> tunn \<Rightarrow> tunn" where
  "put_slot Current s t = t\<lparr>tn_current := Some s\<rparr>"
| "put_slot Previous s t = t\<lparr>tn_previous := Some s\<rparr>"

definition consume_transport ::
    "prims \<Rightarrow> bytes \<Rightarrow> instant \<Rightarrow> tunn \<Rightarrow> (wg_error + bytes option) \<times> tunn" where
  "consume_transport P msg now t =
     (if length msg < TRANSPORT_HEADER_LEN + TAG_LEN then (Inl BadLength, t)
      else if msg ! 0 \<noteq> MSG_TRANSPORT then (Inl BadType, t)
      else
        let receiver = u32_from_le (slice 4 8 msg);
            counter = u64_from_le (slice 8 16 msg)
        in case find_slot t receiver of
             None \<Rightarrow> (Inl NoSession, t)
           | Some (s, which) \<Rightarrow>
               (if REJECT_AFTER_TIME \<le> duration_since now (s_created s) then (Inl NoSession, t)
                else case aead_decrypt P (s_recv_key s) counter (drop 16 msg) [] of
                  Inl _ \<Rightarrow> (Inl AuthFailed, t)
                | Inr pt \<Rightarrow>
                    (case check_and_update (s_replay s) counter of
                       (False, rw) \<Rightarrow> (Inl Replay, put_slot which (s\<lparr>s_replay := rw\<rparr>) t)
                     | (True, rw) \<Rightarrow>
                         (let t = put_slot which (s\<lparr>s_replay := rw, s_confirmed := True\<rparr>) t;
                              t = t\<lparr>tn_last_received := Some now\<rparr>;
                              t = (if which = Current then t\<lparr>tn_previous := None\<rparr> else t)
                          in if pt = [] then (Inr None, t)
                             else
                               let len = min (case ip_packet_len pt of None \<Rightarrow> length pt | Some l \<Rightarrow> l)
                                           (length pt)
                               in (Inr (Some (take len pt)), t\<lparr>tn_need_keepalive := True\<rparr>)))))"

section \<open>Timers\<close>

definition expire :: "instant \<Rightarrow> session option \<Rightarrow> session option" where
  "expire now so =
     (case so of
        None \<Rightarrow> None
      | Some s \<Rightarrow> (if REJECT_AFTER_TIME \<le> duration_since now (s_created s) then None else Some s))"

definition send_keepalive :: "prims \<Rightarrow> instant \<Rightarrow> bytes list \<Rightarrow> tunn \<Rightarrow> bytes list \<times> tunn" where
  "send_keepalive P now out t =
     (if tn_need_keepalive t then
        (case (tn_last_received t, tn_current t) of
           (Some rx, Some s) \<Rightarrow>
             (let long_ago = (case tn_last_sent t of
                    None \<Rightarrow> True | Some ts \<Rightarrow> KEEPALIVE_TIMEOUT \<le> duration_since now ts)
              in if duration_since now rx < KEEPALIVE_TIMEOUT * 2 \<and> long_ago then
                   (let (ka, s) = wg_seal P s []
                    in (out @ [ka], t\<lparr>tn_current := Some s, tn_last_sent := Some now,
                                      tn_need_keepalive := False\<rparr>))
                 else (out, t))
         | _ \<Rightarrow> (out, t))
      else (out, t))"

definition wg_tick :: "prims \<Rightarrow> wg_env \<Rightarrow> instant \<Rightarrow> tunn \<Rightarrow> (bytes list \<times> tunn) option" where
  "wg_tick P env now t =
     (let t = t\<lparr>tn_current := expire now (tn_current t)\<rparr>;
          t = t\<lparr>tn_previous := expire now (tn_previous t)\<rparr>
      in do {
        (m, t) \<leftarrow> (if tn_pending t \<noteq> None \<or> tn_queued t \<noteq> [] \<and> tn_current t = None
                    then initiate_if_needed P env now t else Some (None, t));
        Some (send_keepalive P now (case m of None \<Rightarrow> [] | Some init \<Rightarrow> [init]) t)
      })"

definition tunn_reset :: "tunn \<Rightarrow> tunn" where
  "tunn_reset t = t\<lparr>tn_pending := None, tn_current := None, tn_previous := None, tn_queued := []\<rparr>"

section \<open>Message classification\<close>

definition message_type :: "bytes \<Rightarrow> u8 option" where
  "message_type pkt =
     (if length pkt < 4 \<or> pkt ! 1 \<noteq> 0 \<or> pkt ! 2 \<noteq> 0 \<or> pkt ! 3 \<noteq> 0 then None
      else if pkt ! 0 = MSG_INITIATION \<and> length pkt = INITIATION_LEN then Some MSG_INITIATION
      else if pkt ! 0 = MSG_RESPONSE \<and> length pkt = RESPONSE_LEN then Some MSG_RESPONSE
      else if pkt ! 0 = MSG_COOKIE_REPLY \<and> length pkt = 64 then Some MSG_COOKIE_REPLY
      else if pkt ! 0 = MSG_TRANSPORT \<and> TRANSPORT_HEADER_LEN + TAG_LEN \<le> length pkt
        then Some MSG_TRANSPORT
      else None)"

definition receiver_index :: "bytes \<Rightarrow> u32 option" where
  "receiver_index pkt =
     (case message_type pkt of
        None \<Rightarrow> None
      | Some ty \<Rightarrow>
          (if ty = MSG_RESPONSE then Some (u32_from_le (slice 8 12 pkt))
           else if ty = MSG_TRANSPORT \<or> ty = MSG_COOKIE_REPLY then Some (u32_from_le (slice 4 8 pkt))
           else None))"

end
