(* ===== verification/WireGuard_Handshake.thy ===== *)
theory WireGuard_Handshake
  imports WireGuard
begin

text \<open>
  The WireGuard handshake of wireguard.rs: an initiation built by one tunnel is accepted by the
  other, and after the response both sides hold the same pair of transport keys and each
  other's indices. Stated for the functions of the source, with the cryptographic primitives as
  a parameter and their documented laws as hypotheses.
\<close>

definition wg_env_ok :: "wg_env \<Rightarrow> bool" where
  "wg_env_ok env \<longleftrightarrow> length (we_rnd_key env) = 32 \<and> length (we_rnd_index env) = 4
     \<and> length (we_tai64n env) = 12"

text \<open>A tunnel between the key pair of \<open>si\<close> (local) and the public key of \<open>sr\<close>.\<close>

definition tunn_between :: "prims \<Rightarrow> bytes \<Rightarrow> bytes \<Rightarrow> tunn \<Rightarrow> bool" where
  "tunn_between P si sr t \<longleftrightarrow> length si = 32 \<and> length sr = 32
     \<and> tn_local t = kp_from_secret P si \<and> tn_peer_public t = x25519_public P sr
     \<and> tn_mac1_key_peer t = mac1_key P (tn_peer_public t)
     \<and> tn_mac1_key_local t = mac1_key P (kp_public (tn_local t))"

lemma tunn_between_new:
  "length si = 32 \<Longrightarrow> length sr = 32 \<Longrightarrow>
   tunn_between P si sr (tunn_new P (kp_from_secret P si) (x25519_public P sr))"
  by (simp add: tunn_between_def tunn_new_def)

section \<open>Message layout\<close>

lemma initiation_layout:
  assumes "length i = 4" "length e = 32" "length c = 48" "length d = 28" "length m = 16"
    and "msg = [b, 0, 0, 0] @ i @ e @ c @ d"
  shows "length (msg @ m @ replicate 16 0) = 148" "(msg @ m @ replicate 16 0) ! 0 = b"
    "slice 0 116 (msg @ m @ replicate 16 0) = msg"
    "slice 116 132 (msg @ m @ replicate 16 0) = m"
    "slice 4 8 (msg @ m @ replicate 16 0) = i" "slice 8 40 (msg @ m @ replicate 16 0) = e"
    "slice 40 88 (msg @ m @ replicate 16 0) = c" "slice 88 116 (msg @ m @ replicate 16 0) = d"
  using assms by (simp_all add: slice_def)

lemma response_layout:
  assumes "length i = 4" "length j = 4" "length e = 32" "length c = 16" "length m = 16"
    and "msg = [b, 0, 0, 0] @ i @ j @ e @ c"
  shows "length (msg @ m @ replicate 16 0) = 92" "(msg @ m @ replicate 16 0) ! 0 = b"
    "slice 0 60 (msg @ m @ replicate 16 0) = msg"
    "slice 60 76 (msg @ m @ replicate 16 0) = m"
    "slice 4 8 (msg @ m @ replicate 16 0) = i" "slice 8 12 (msg @ m @ replicate 16 0) = j"
    "slice 12 44 (msg @ m @ replicate 16 0) = e" "slice 44 60 (msg @ m @ replicate 16 0) = c"
  using assms by (simp_all add: slice_def)

section \<open>Initiation\<close>

text \<open>What an initiator holds after sending is what the responder derives on receipt.\<close>

definition initiation_matches ::
    "prims \<Rightarrow> bytes \<Rightarrow> bytes \<Rightarrow> pending_initiation \<Rightarrow> consumed_initiation \<Rightarrow> bool" where
  "initiation_matches P si ts p ci \<longleftrightarrow>
     ci_peer_public ci = x25519_public P si \<and> ci_remote_index ci = pi_local_index p
     \<and> ci_remote_ephemeral ci = x25519_public P (pi_ephemeral_secret p)
     \<and> length (pi_ephemeral_secret p) = 32
     \<and> ci_state ci = pi_state p \<and> ss_keyed (pi_state p) \<and> ci_timestamp ci = ts"

lemma initiation_agreement:
  assumes ok: "crypto_ok P" and env: "wg_env_ok env" and t: "tunn_between P si sr t"
  shows "\<exists>msg p ci. new_initiation P env now t = Some (msg, t\<lparr>tn_pending := Some p\<rparr>)
    \<and> consume_initiation P (kp_from_secret P sr) msg = Some (Inr ci)
    \<and> initiation_matches P si (we_tai64n env) p ci
    \<and> pi_local_index p = u32_from_le (we_rnd_index env) \<and> length msg = 148
    \<and> msg ! 0 = MSG_INITIATION"
proof -
  note ok' = crypto_okD [OF ok]
  have len: "length si = 32" "length sr = 32" and local: "tn_local t = kp_from_secret P si"
    and peer: "tn_peer_public t = x25519_public P sr"
    and mac: "tn_mac1_key_peer t = mac1_key P (x25519_public P sr)"
    using t by (auto simp: tunn_between_def)
  let ?e = "x25519_generate (we_rnd_key env)"
  have e: "length ?e = 32" using env by (simp add: wg_env_ok_def)
  let ?ep = "x25519_public P ?e" and ?rp = "x25519_public P sr" and ?ip = "x25519_public P si"
  define s0 where "s0 = mix_hash P ?ep (mix_key P ?ep (mix_hash P ?rp
    (mix_hash P IDENTIFIER (ss_new P CONSTRUCTION))))"
  have s0: "ss_keyed s0" unfolding s0_def using ok' by (intro ss_intros)
  then have "ss_keyed (mix_dh P ?e ?rp s0)" using ok' by (intro ss_intros)
  then obtain c1 s1 where c1: "encrypt_and_hash P ?ip (mix_dh P ?e ?rp s0) = Some (c1, s1)"
      "length c1 = length ?ip + 16" "ss_keyed s1"
      "decrypt_and_hash P c1 (mix_dh P ?e ?rp s0) = Some (Inr (?ip, s1))"
    using encrypt_and_hash_keyed [OF ok'(2,1)] by blast
  then have "ss_keyed (mix_dh P si ?rp s1)" using ok' by (intro ss_intros)
  then obtain c2 s2 where c2: "encrypt_and_hash P (we_tai64n env) (mix_dh P si ?rp s1) = Some (c2, s2)"
      "length c2 = length (we_tai64n env) + 16" "ss_keyed s2"
      "decrypt_and_hash P c2 (mix_dh P si ?rp s1) = Some (Inr (we_tai64n env, s2))"
    using encrypt_and_hash_keyed [OF ok'(2,1)] by blast
  let ?i = "u32_to_le (u32_from_le (we_rnd_index env))"
  define msg where "msg = [MSG_INITIATION, 0, 0, 0] @ ?i @ ?ep @ c1 @ c2"
  define m where "m = blake2s_mac16 P (mac1_key P ?rp) [msg]"
  have lens: "length ?i = 4" "length ?ep = 32" "length c1 = 48" "length c2 = 28" "length m = 16"
      "length ?ip = 32" "length (we_tai64n env) = 12"
    using c1(2) c2(2) env e len ok' by (simp_all add: m_def wg_env_ok_def)
  note lay = initiation_layout [OF lens(1-5) msg_def]
  define p where "p = \<lparr>pi_local_index = u32_from_le (we_rnd_index env), pi_ephemeral_secret = ?e,
    pi_state = s2, pi_sent_at = now,
    pi_attempts = (case tn_pending t of None \<Rightarrow> 1 | Some p \<Rightarrow> pi_attempts p + 1)\<rparr>"
  have new: "new_initiation P env now t = Some (msg @ m @ replicate 16 0, t\<lparr>tn_pending := Some p\<rparr>)"
    using c1(1) c2(1) unfolding s0_def
    by (simp add: new_initiation_def peer local mac kp_from_secret_def msg_def m_def p_def Let_def)
  define ci where "ci = \<lparr>ci_peer_public = ?ip, ci_remote_index = u32_from_le ?i,
    ci_remote_ephemeral = ?ep, ci_state = s2, ci_timestamp = we_tai64n env\<rparr>"
  have dh: "mix_dh P sr ?ep s0 = mix_dh P ?e ?rp s0" "mix_dh P sr ?ip s1 = mix_dh P si ?rp s1"
    using mix_dh_commute [OF ok'(3)] e len by metis+
  have con: "consume_initiation P (kp_from_secret P sr) (msg @ m @ replicate 16 0) = Some (Inr ci)"
    using c1(4) c2(4) lens lay dh unfolding s0_def
    by (simp add: consume_initiation_def INITIATION_LEN_def kp_from_secret_def m_def [symmetric] ci_def Let_def)
  have "initiation_matches P si (we_tai64n env) p ci"
    using c2(3) e by (simp add: initiation_matches_def p_def ci_def)
  then show ?thesis using new con lay by (auto simp: p_def)
qed

section \<open>Response\<close>

text \<open>The two ends of one session: what one encrypts with, the other decrypts with.\<close>

definition sessions_match :: "session \<Rightarrow> session \<Rightarrow> bool" where
  "sessions_match a b \<longleftrightarrow>
     s_send_key a = s_recv_key b \<and> s_recv_key a = s_send_key b
     \<and> s_remote_index a = s_local_index b \<and> s_remote_index b = s_local_index a
     \<and> length (s_send_key a) = 32 \<and> length (s_recv_key a) = 32
     \<and> s_is_initiator a \<noteq> s_is_initiator b"

lemma seal_all_session:
  "snd (seal_all P s ps) = s\<lparr>s_send_counter := s_send_counter s + word_of_nat (length ps)\<rparr>"
  by (induction ps arbitrary: s) (simp_all add: wg_seal_def Let_def case_prod_beta add.assoc)

lemma length_seal_all: "length (fst (seal_all P s ps)) = length ps"
  by (induction ps arbitrary: s) (simp_all add: Let_def case_prod_beta)

lemma flush_queue_current:
  assumes "tn_current t = Some s"
  shows "\<exists>out t'. flush_queue P now t = (out, t') \<and> out = fst (seal_all P s (tn_queued t))
    \<and> tn_current t' = Some (s\<lparr>s_send_counter := s_send_counter s + word_of_nat (length (tn_queued t))\<rparr>)
    \<and> tn_previous t' = tn_previous t \<and> tn_pending t' = tn_pending t \<and> tn_queued t' = []
    \<and> tn_last_initiation_ts t' = tn_last_initiation_ts t"
  using assms seal_all_session [of P s "tn_queued t"]
  by (auto simp: flush_queue_def Let_def split: prod.splits)

lemma response_agreement:
  assumes ok: "crypto_ok P" and env: "wg_env_ok env"
    and ta: "tunn_between P si sr ta" and tb: "tunn_between P sr si tb"
    and pend: "tn_pending ta = Some p" and ini: "initiation_matches P si ts p ci"
    and new: "\<not> bytes_le ts (tn_last_initiation_ts tb)"
  shows "\<exists>resp sb out ta' sa.
      accept_initiation P env ci now tb = Some (Inr resp, tb\<lparr>tn_last_initiation_ts := ts,
        tn_previous := tn_current tb, tn_current := Some sb, tn_pending := None\<rparr>)
    \<and> consume_response P resp now' ta = Some (Inr out, ta')
    \<and> tn_current ta' = Some sa \<and> tn_previous ta' = tn_current ta \<and> tn_pending ta' = None
    \<and> tn_queued ta' = [] \<and> length out = length (tn_queued ta)
    \<and> sessions_match sa sb \<and> s_is_initiator sa \<and> s_created sa = now' \<and> s_created sb = now
    \<and> s_replay sa = rw_new \<and> s_replay sb = rw_new
    \<and> s_send_counter sb = 0 \<and> s_send_counter sa = word_of_nat (length (tn_queued ta))
    \<and> s_local_index sa = pi_local_index p \<and> s_local_index sb = u32_from_le (we_rnd_index env)"
proof -
  note ok' = crypto_okD [OF ok]
  have len: "length si = 32" "length sr = 32" using ta by (auto simp: tunn_between_def)
  have ci: "ci_peer_public ci = x25519_public P si" "ci_remote_index ci = pi_local_index p"
      "ci_remote_ephemeral ci = x25519_public P (pi_ephemeral_secret p)"
      "length (pi_ephemeral_secret p) = 32" "ci_state ci = pi_state p" "ss_keyed (pi_state p)"
      "ci_timestamp ci = ts"
    using ini by (auto simp: initiation_matches_def)
  let ?e = "x25519_generate (we_rnd_key env)" and ?i = "u32_to_le (u32_from_le (we_rnd_index env))"
  have e: "length ?e = 32" using env by (simp add: wg_env_ok_def)
  let ?ep = "x25519_public P ?e" and ?ip = "x25519_public P si"
  let ?j = "u32_to_le (pi_local_index p)" and ?es = "pi_ephemeral_secret p"
  define s0 where "s0 = mix_key P ?ep (mix_hash P ?ep (pi_state p))"
  define s1 where "s1 = mix_key_and_hash P (replicate 32 0)
    (mix_dh P ?e ?ip (mix_dh P ?e (x25519_public P ?es) s0))"
  have "ss_keyed s1" unfolding s1_def s0_def using ok' ci(6) by (intro ss_intros)
  then obtain c s2 where c: "encrypt_and_hash P [] s1 = Some (c, s2)" "length c = 16"
      "decrypt_and_hash P c s1 = Some (Inr ([], s2))"
    using encrypt_and_hash_keyed [OF ok'(2,1), of s1 "[]"] by auto
  obtain k1 k2 where k: "ss_split P s2 = (k1, k2)" by (cases "ss_split P s2")
  have kl: "length k1 = 32" "length k2 = 32" using ss_split_lengths [OF ok'(1) k] by simp_all
  define msg where "msg = [MSG_RESPONSE, 0, 0, 0] @ ?i @ ?j @ ?ep @ c"
  define m where "m = blake2s_mac16 P (mac1_key P ?ip) [msg]"
  have lens: "length ?i = 4" "length ?j = 4" "length ?ep = 32" "length c = 16" "length m = 16"
    using c(2) e ok' by (simp_all add: m_def)
  note lay = response_layout [OF lens msg_def]
  define sb where "sb = \<lparr>s_local_index = u32_from_le (we_rnd_index env),
    s_remote_index = pi_local_index p, s_send_key = k2, s_recv_key = k1, s_send_counter = 0,
    s_replay = rw_new, s_created = now, s_is_initiator = False, s_confirmed = False\<rparr>"
  have acc: "accept_initiation P env ci now tb =
      Some (Inr (msg @ m @ replicate 16 0), tb\<lparr>tn_last_initiation_ts := ts,
        tn_previous := tn_current tb, tn_current := Some sb, tn_pending := None\<rparr>)"
    using tb new c(1) k unfolding s1_def s0_def
    by (simp add: accept_initiation_def tunn_between_def ci msg_def m_def sb_def Let_def)
  have dh: "mix_dh P si ?ep (mix_dh P ?es ?ep s0) = mix_dh P ?e ?ip (mix_dh P ?e (x25519_public P ?es) s0)"
    using mix_dh_commute [OF ok'(3)] e len ci(4) by metis
  define sa where "sa = \<lparr>s_local_index = pi_local_index p,
    s_remote_index = u32_from_le (we_rnd_index env), s_send_key = k1, s_recv_key = k2,
    s_send_counter = 0, s_replay = rw_new, s_created = now', s_is_initiator = True,
    s_confirmed = True\<rparr>"
  let ?ta = "ta\<lparr>tn_pending := None, tn_previous := tn_current ta, tn_current := Some sa\<rparr>"
  obtain out ta' where fl: "flush_queue P now' ?ta = (out, ta')"
      "out = fst (seal_all P sa (tn_queued ta))"
      "tn_current ta' = Some (sa\<lparr>s_send_counter := word_of_nat (length (tn_queued ta))\<rparr>)"
      "tn_previous ta' = tn_current ta" "tn_pending ta' = None" "tn_queued ta' = []"
    using flush_queue_current [of ?ta sa P now'] by (auto simp: sa_def)
  have con: "consume_response P (msg @ m @ replicate 16 0) now' ta = Some (Inr out, ta')"
    using ta pend lay c(3) k dh fl(1) unfolding s1_def s0_def
    by (simp add: consume_response_def RESPONSE_LEN_def tunn_between_def kp_from_secret_def
        m_def [symmetric] sa_def Let_def)
  have "length out = length (tn_queued ta)" by (simp add: fl(2) length_seal_all)
  moreover have "sessions_match (sa\<lparr>s_send_counter := word_of_nat (length (tn_queued ta))\<rparr>) sb"
    using kl by (simp add: sessions_match_def sa_def sb_def)
  ultimately show ?thesis using acc con fl(3-6) by (auto simp: sa_def sb_def)
qed

section \<open>Properties\<close>

text \<open>
  C1: a complete handshake. The initiator's initiation is consumed by the responder, who learns
  the initiator's public key and timestamp; when the timestamp is newer than the last accepted
  one the response is accepted by the initiator, and both sides end with one session in which
  the sending key of each is the receiving key of the other and the indices name each other.
  No step panics, and the packets the initiator had queued are flushed on the new session.
\<close>

theorem handshake_establishes_matching_sessions:
  assumes "crypto_ok P" and "wg_env_ok enva" and "wg_env_ok envb"
    and "tunn_between P si sr ta" and "tunn_between P sr si tb"
    and "\<not> bytes_le (we_tai64n enva) (tn_last_initiation_ts tb)"
  shows "\<exists>msg ta1 ci resp tb1 out ta2 sa sb.
      new_initiation P enva t0 ta = Some (msg, ta1)
    \<and> consume_initiation P (kp_from_secret P sr) msg = Some (Inr ci)
    \<and> ci_peer_public ci = x25519_public P si \<and> ci_timestamp ci = we_tai64n enva
    \<and> accept_initiation P envb ci t1 tb = Some (Inr resp, tb1)
    \<and> consume_response P resp t2 ta1 = Some (Inr out, ta2)
    \<and> tn_current ta2 = Some sa \<and> tn_current tb1 = Some sb \<and> sessions_match sa sb
    \<and> tn_previous ta2 = tn_current ta \<and> tn_previous tb1 = tn_current tb
    \<and> length out = length (tn_queued ta) \<and> tn_queued ta2 = []"
proof -
  obtain msg p ci where m: "new_initiation P enva t0 ta = Some (msg, ta\<lparr>tn_pending := Some p\<rparr>)"
      "consume_initiation P (kp_from_secret P sr) msg = Some (Inr ci)"
      "initiation_matches P si (we_tai64n enva) p ci"
    using initiation_agreement [OF assms(1,2,4), of t0] by blast
  have ta: "tunn_between P si sr (ta\<lparr>tn_pending := Some p\<rparr>)"
    using assms(4) by (simp add: tunn_between_def)
  show ?thesis
    using m response_agreement [OF assms(1,3) ta assms(5) _ m(3) assms(6), of t1 t2]
    by (auto simp: initiation_matches_def)
qed

text \<open>Concrete random draws and clock for the witnesses.\<close>

definition demo_env :: wg_env where
  "demo_env = \<lparr>we_rnd_key = replicate 32 7, we_rnd_index = [1, 2, 3, 4],
     we_tai64n = tai64n_now 1700000000 5 0\<rparr>"

lemma demo_env_ok: "wg_env_ok demo_env"
  by (simp add: wg_env_ok_def demo_env_def tai64n_now_def Let_def)

definition demo_tunn :: "bytes \<Rightarrow> bytes \<Rightarrow> tunn" where
  "demo_tunn si sr = tunn_new demo_prims (kp_from_secret demo_prims si) (x25519_public demo_prims sr)"

lemma demo_tunn_between:
  "tunn_between demo_prims (replicate 32 a) (replicate 32 b) (demo_tunn (replicate 32 a) (replicate 32 b))"
  by (simp add: demo_tunn_def tunn_between_new)

lemma demo_ts_fresh: "\<not> bytes_le (we_tai64n demo_env) (tn_last_initiation_ts (demo_tunn a b))"
  by (simp add: demo_env_def demo_tunn_def tunn_new_def) code_simp

theorem handshake_establishes_matching_sessions_witness:
  "\<exists>msg ta1 ci resp tb1 out ta2 sa sb.
      new_initiation demo_prims demo_env 0 (demo_tunn (replicate 32 1) (replicate 32 2)) = Some (msg, ta1)
    \<and> consume_initiation demo_prims (kp_from_secret demo_prims (replicate 32 2)) msg = Some (Inr ci)
    \<and> accept_initiation demo_prims demo_env ci 0 (demo_tunn (replicate 32 2) (replicate 32 1)) = Some (Inr resp, tb1)
    \<and> consume_response demo_prims resp 0 ta1 = Some (Inr out, ta2)
    \<and> tn_current ta2 = Some sa \<and> tn_current tb1 = Some sb \<and> sessions_match sa sb"
  using handshake_establishes_matching_sessions [OF demo_prims_ok demo_env_ok demo_env_ok
      demo_tunn_between [of 1 2] demo_tunn_between [of 2 1] demo_ts_fresh, of 0 0 0]
  by blast

end
