(* ===== verification/WireGuard_Transport.thy ===== *)
theory WireGuard_Transport
  imports WireGuard_Handshake
begin

text \<open>
  Transport messages, replay protection, queue and timers of the WireGuard tunnel: what one end
  seals the other opens, an accepted message is not accepted again, nonces do not repeat, and
  the bounds the tunnel keeps under every sequence of its operations.
\<close>

section \<open>Timestamps\<close>

lemma bytes_le_refl [simp]: "bytes_le a a"
  by (induction a) auto

lemma bytes_le_trans: "bytes_le a b \<Longrightarrow> bytes_le b c \<Longrightarrow> bytes_le a c"
proof (induction a b arbitrary: c rule: bytes_le.induct)
  case (3 x xs y ys)
  then show ?case by (cases c) auto
qed auto

lemma le_nat_append: "le_nat (a @ b) = le_nat a + 256 ^ length a * le_nat b"
  by (induction a) (simp_all add: algebra_simps)

lemma bytes_le_iff_be:
  "length a = length b \<Longrightarrow> bytes_le a b \<longleftrightarrow> le_nat (rev a) \<le> le_nat (rev b)"
proof (induction a b rule: list_induct2)
  case Nil
  then show ?case by simp
next
  case (Cons x xs y ys)
  let ?B = "256 ^ length xs :: nat" and ?a = "le_nat (rev xs)" and ?b = "le_nat (rev ys)"
  have ab: "?a < ?B" "?b < ?B" using le_nat_less [of "rev xs"] le_nat_less [of "rev ys"] Cons by simp_all
  have step: "?a + ?B * m \<le> ?b + ?B * n \<longleftrightarrow> m < n \<or> m = n \<and> ?a \<le> ?b" for m n
  proof (cases m n rule: linorder_cases)
    case less
    then have "?B * Suc m \<le> ?B * n" by (intro mult_le_mono2) simp
    with less ab show ?thesis by simp
  next
    case greater
    then have "?B * Suc n \<le> ?B * m" by (intro mult_le_mono2) simp
    with greater ab show ?thesis by simp
  qed simp
  show ?case
    using Cons step [of "unat x" "unat y"]
    by (simp add: le_nat_append word_less_nat_alt word_unat_eq_iff)
qed

section \<open>Sealing\<close>

lemma wg_seal_layout:
  "wg_seal P s pt = (m, s') \<Longrightarrow>
   m ! 0 = MSG_TRANSPORT \<and> slice 4 8 m = u32_to_le (s_remote_index s)
   \<and> slice 8 16 m = u64_to_le (s_send_counter s)
   \<and> drop 16 m = aead_encrypt P (s_send_key s) (s_send_counter s)
        (pt @ replicate ((length pt + 15) div 16 * 16 - length pt) 0) []
   \<and> length m = 16 + length (drop 16 m) \<and> m ! 1 = 0 \<and> m ! 2 = 0 \<and> m ! 3 = 0"
  by (auto simp: wg_seal_def Let_def slice_def)

lemma seal_all_counters:
  "map (slice 8 16) (fst (seal_all P s ps)) =
     map (\<lambda>i. u64_to_le (s_send_counter s + word_of_nat i)) [0..<length ps]"
proof (induction ps arbitrary: s)
  case Nil
  then show ?case by simp
next
  case (Cons p ps)
  obtain m s' where ms: "wg_seal P s p = (m, s')" by (cases "wg_seal P s p")
  have c: "s_send_counter s' = s_send_counter s + 1" using ms by (auto simp: wg_seal_def Let_def)
  have "slice 8 16 m = u64_to_le (s_send_counter s)" using wg_seal_layout [OF ms] by simp
  then show ?case
    using ms c Cons.IH [of s']
    by (simp add: case_prod_beta upt_conv_Cons map_Suc_upt [symmetric] add.assoc del: upt_Suc)
qed

lemma u64_to_le_inj: "u64_to_le a = u64_to_le b \<Longrightarrow> a = b"
  using from_to_bytes(6) by metis

section \<open>Opening\<close>

lemma ip_packet_len_append:
  "ip_packet_len pkt = Some n \<Longrightarrow> ip_packet_len (pkt @ pad) = Some n"
  by (auto simp: ip_packet_len_def nth_append split: list.splits if_splits)

lemma ip_packet_len_nonempty: "ip_packet_len pkt = Some n \<Longrightarrow> pkt \<noteq> []"
  by (auto simp: ip_packet_len_def)

lemma find_slot_index: "find_slot t i = Some (s, w) \<Longrightarrow> s_local_index s = i"
  by (auto simp: find_slot_def split: option.splits if_splits)

lemma transport_opens:
  assumes ok: "aead_ok P" and key: "length (s_send_key sa) = 32" "s_recv_key sb = s_send_key sa"
    and idx: "s_remote_index sa = s_local_index sb"
    and slot: "find_slot tb (s_local_index sb) = Some (sb, w)"
    and time: "duration_since now (s_created sb) < REJECT_AFTER_TIME"
    and fresh: "check_and_update (s_replay sb) (s_send_counter sa) = (True, rw)"
    and len: "ip_packet_len pkt = Some (length pkt)"
    and m: "wg_seal P sa pkt = (m, sa')"
  shows "fst (consume_transport P m now tb) = Inr (Some pkt)"
proof -
  let ?pad = "replicate ((length pkt + 15) div 16 * 16 - length pkt) (0 :: u8)"
  note lay = wg_seal_layout [OF m]
  have dec: "aead_decrypt P (s_recv_key sb) (s_send_counter sa) (drop 16 m) [] = Inr (pkt @ ?pad)"
    using aead_roundtrip [OF ok key(1)] lay key(2) by simp
  have ml: "length (drop 16 m) \<ge> 16"
    using length_aead_encrypt [OF ok key(1), of "s_send_counter sa" "pkt @ ?pad" "[]"] lay by simp
  have len32: "\<not> length m < 32" using lay ml by linarith
  have "ip_packet_len (pkt @ ?pad) = Some (length pkt)" using len by (rule ip_packet_len_append)
  then show ?thesis
    using lay len32 idx slot time fresh dec ip_packet_len_nonempty [OF len]
    by (simp add: consume_transport_def TRANSPORT_HEADER_LEN_def TAG_LEN_def Let_def)
qed

section \<open>Replay of a transport message\<close>

text \<open>The counter \<open>c\<close> is marked as seen in whatever session index \<open>i\<close> names.\<close>

definition seen_on :: "tunn \<Rightarrow> u32 \<Rightarrow> u64 \<Rightarrow> bool" where
  "seen_on t i c \<longleftrightarrow> (\<forall>s w. find_slot t i = Some (s, w) \<longrightarrow>
     (\<exists>L S. rw_rep (s_replay s) (L, S) \<and> unat c \<in> S))"

definition window_ok :: "session \<Rightarrow> bool" where
  "window_ok s \<longleftrightarrow> (\<exists>L S. rw_rep (s_replay s) (L, S))"

definition replay_ok :: "tunn \<Rightarrow> bool" where
  "replay_ok t \<longleftrightarrow> pred_option window_ok (tn_current t) \<and> pred_option window_ok (tn_previous t)"

lemma window_ok_cong: "s_replay s' = s_replay s \<Longrightarrow> window_ok s' = window_ok s"
  by (simp add: window_ok_def)

lemma window_ok_counter [simp]: "window_ok (s\<lparr>s_send_counter := c\<rparr>) = window_ok s"
  by (rule window_ok_cong) simp

lemma window_ok_new: "s_replay s = rw_new \<Longrightarrow> window_ok s"
  using rw.rep_fresh unfolding window_ok_def by metis

lemma replay_okD: "replay_ok t \<Longrightarrow> find_slot t i = Some (s, w) \<Longrightarrow> \<exists>L S. rw_rep (s_replay s) (L, S)"
  by (auto simp: replay_ok_def find_slot_def window_ok_def [symmetric] split: option.splits if_splits)

lemma check_marks:
  assumes "rw_rep w (L, S)" "check_and_update w c = (b, w')"
  shows "\<exists>L' S'. rw_rep w' (L', S') \<and> S \<subseteq> S' \<and> (b \<longrightarrow> unat c \<in> S') \<and> (unat c \<in> S \<longrightarrow> \<not> b)"
proof -
  have bound: "\<forall>d \<in> S. d \<le> L" by (rule rw_repD(3) [OF assms(1)])
  obtain L' S' where "seen_check (L, S) (unat c) = (b, L', S')" "rw_rep w' (L', S')"
    using check_and_update_refines [OF assms] by auto
  moreover have "seen_check (L, S) (unat c) = (b, L', S') \<Longrightarrow>
      S \<subseteq> S' \<and> (b \<longrightarrow> unat c \<in> S') \<and> (unat c \<in> S \<longrightarrow> \<not> b)"
    using bound by (auto simp: seen_check_def split: if_splits)
  ultimately show ?thesis by blast
qed

text \<open>The possible effects of \<open>consume_transport\<close> on the sessions.\<close>

lemma consume_transport_cases:
  assumes "consume_transport P m now t = (r, t')"
  obtains (error) e where "r = Inl e" "t' = t"
  | (checked) s w b rw where "find_slot t (u32_from_le (slice 4 8 m)) = Some (s, w)"
      "check_and_update (s_replay s) (u64_from_le (slice 8 16 m)) = (b, rw)"
      "b \<longleftrightarrow> (\<exists>x. r = Inr x)"
      "tn_current t' = (if w = Current
         then Some (s\<lparr>s_replay := rw, s_confirmed := (s_confirmed s \<or> b)\<rparr>) else tn_current t)"
      "tn_previous t' = (if w = Previous
         then Some (s\<lparr>s_replay := rw, s_confirmed := (s_confirmed s \<or> b)\<rparr>)
         else if b then None else tn_previous t)"
      "tn_pending t' = tn_pending t" "tn_queued t' = tn_queued t"
      "tn_last_initiation_ts t' = tn_last_initiation_ts t"
      "tn_mac1_key_peer t' = tn_mac1_key_peer t"
proof (cases "\<exists>e. r = Inl e \<and> t' = t")
  case True
  then show ?thesis using error by blast
next
  case False
  let ?i = "u32_from_le (slice 4 8 m)" and ?c = "u64_from_le (slice 8 16 m)"
  from assms False obtain s w pt where sw: "find_slot t ?i = Some (s, w)"
    and guards: "\<not> length m < TRANSPORT_HEADER_LEN + TAG_LEN" "m ! 0 = MSG_TRANSPORT"
      "\<not> REJECT_AFTER_TIME \<le> duration_since now (s_created s)"
    and pt: "aead_decrypt P (s_recv_key s) ?c (drop 16 m) [] = Inr pt"
    by (auto simp: consume_transport_def Let_def split: if_splits option.splits sum.splits)
  obtain b rw where brw: "check_and_update (s_replay s) ?c = (b, rw)"
    by (cases "check_and_update (s_replay s) ?c")
  note step = assms [symmetric, unfolded consume_transport_def, simplified guards sw pt brw if_True if_False
      not_True_eq_False Let_def option.case sum.case prod.case]
  show ?thesis
  proof (rule checked [OF sw brw])
    show "b \<longleftrightarrow> (\<exists>x. r = Inr x)" using step by (cases b) (simp_all split: if_splits)
  qed (use step in \<open>cases w; cases b; simp split: if_splits\<close>)+
qed

lemma consume_transport_replay_ok:
  assumes "replay_ok t" "consume_transport P m now t = (r, t')"
  shows "replay_ok t'"
  using assms(2)
proof (cases rule: consume_transport_cases)
  case (error e)
  then show ?thesis using assms(1) by simp
next
  case (checked s w b rw)
  obtain L S where "rw_rep (s_replay s) (L, S)" using replay_okD [OF assms(1) checked(1)] by blast
  then have "\<exists>L S. rw_rep rw (L, S)" using check_marks [OF _ checked(2)] by blast
  then have "window_ok (s\<lparr>s_replay := rw, s_confirmed := (s_confirmed s \<or> b)\<rparr>)" by (simp add: window_ok_def)
  then show ?thesis using assms(1) checked(4,5) by (simp add: replay_ok_def)
qed

lemma find_slot_after:
  assumes "find_slot t i = Some (s, w)" and "s_local_index s' = s_local_index s"
    and "tn_current t' = (if w = Current then Some s' else tn_current t)"
    and "tn_previous t' = (if w = Previous then Some s' else if b then None else tn_previous t)"
    and "find_slot t' j = Some (u, v)"
  shows "j = i \<and> u = s' \<or> j \<noteq> i \<and> find_slot t j = Some (u, v)"
  using assms by (cases w) (auto simp: find_slot_def split: option.splits if_splits)

lemma seen_on_consume:
  assumes "replay_ok t" "seen_on t i c" "consume_transport P m now t = (r, t')"
  shows "seen_on t' i c"
  using assms(3)
proof (cases rule: consume_transport_cases)
  case (error e)
  then show ?thesis using assms(2) by simp
next
  case (checked s w b rw)
  let ?s' = "s\<lparr>s_replay := rw, s_confirmed := (s_confirmed s \<or> b)\<rparr>"
  show ?thesis
    unfolding seen_on_def
  proof (intro allI impI)
    fix u v
    assume u: "find_slot t' i = Some (u, v)"
    have "i = u32_from_le (slice 4 8 m) \<and> u = ?s' \<or> i \<noteq> u32_from_le (slice 4 8 m) \<and> find_slot t i = Some (u, v)"
      by (rule find_slot_after [OF checked(1) _ checked(4,5) u]) simp
    then show "\<exists>L S. rw_rep (s_replay u) (L, S) \<and> unat c \<in> S"
    proof
      assume eq: "i = u32_from_le (slice 4 8 m) \<and> u = ?s'"
      then obtain L S where ls: "rw_rep (s_replay s) (L, S)" "unat c \<in> S"
        using assms(2) checked(1) unfolding seen_on_def by blast
      obtain L' S' where "rw_rep rw (L', S')" "S \<subseteq> S'"
        using check_marks [OF ls(1) checked(2)] by blast
      then show ?thesis using ls(2) eq by auto
    next
      assume "i \<noteq> u32_from_le (slice 4 8 m) \<and> find_slot t i = Some (u, v)"
      then show ?thesis using assms(2) unfolding seen_on_def by blast
    qed
  qed
qed

lemma accepted_is_seen:
  assumes "replay_ok t" "consume_transport P m now t = (Inr x, t')"
  shows "seen_on t' (u32_from_le (slice 4 8 m)) (u64_from_le (slice 8 16 m))"
  using assms(2)
proof (cases rule: consume_transport_cases)
  case (error e)
  then show ?thesis by simp
next
  case (checked s w b rw)
  obtain L S where r: "rw_rep (s_replay s) (L, S)" using replay_okD [OF assms(1) checked(1)] by blast
  show ?thesis
    unfolding seen_on_def
  proof (intro allI impI)
    fix u v
    assume u: "find_slot t' (u32_from_le (slice 4 8 m)) = Some (u, v)"
    have "u = s\<lparr>s_replay := rw, s_confirmed := (s_confirmed s \<or> b)\<rparr>"
      using find_slot_after [OF checked(1) _ checked(4,5) u] by simp
    then show "\<exists>L S. rw_rep (s_replay u) (L, S) \<and> unat (u64_from_le (slice 8 16 m)) \<in> S"
      using check_marks [OF r checked(2)] checked(3) by auto
  qed
qed

lemma seen_is_rejected:
  assumes "seen_on t (u32_from_le (slice 4 8 m)) (u64_from_le (slice 8 16 m))"
    and "consume_transport P m now t = (r, t')"
  shows "\<exists>e. r = Inl e"
  using assms(2)
proof (cases rule: consume_transport_cases)
  case (checked s w b rw)
  obtain L S where "rw_rep (s_replay s) (L, S)" "unat (u64_from_le (slice 8 16 m)) \<in> S"
    using assms(1) checked(1) unfolding seen_on_def by blast
  then have "\<not> b" using check_marks [OF _ checked(2)] by blast
  then show ?thesis using checked(3) by (cases r) auto
qed auto

text \<open>Feeding a sequence of received transport messages to a tunnel.\<close>

definition consume_all :: "prims \<Rightarrow> (bytes \<times> instant) list \<Rightarrow> tunn \<Rightarrow> tunn" where
  "consume_all P ms t = fold (\<lambda>(m, now) t. snd (consume_transport P m now t)) ms t"

lemma seen_on_consume_all:
  "replay_ok t \<Longrightarrow> seen_on t i c \<Longrightarrow> replay_ok (consume_all P ms t) \<and> seen_on (consume_all P ms t) i c"
proof (induction ms arbitrary: t)
  case Nil
  then show ?case by (simp add: consume_all_def)
next
  case (Cons x ms)
  obtain m now where x: "x = (m, now)" by (cases x)
  obtain r t' where c: "consume_transport P m now t = (r, t')" by (cases "consume_transport P m now t")
  have "replay_ok t'" "seen_on t' i c"
    using consume_transport_replay_ok [OF Cons.prems(1) c] seen_on_consume [OF Cons.prems c] by auto
  then have "replay_ok (consume_all P ms t') \<and> seen_on (consume_all P ms t') i c" by (rule Cons.IH)
  then show ?case using c x by (simp add: consume_all_def)
qed

section \<open>Properties of the transport\<close>

text \<open>
  A packet sealed by one end of a session is returned unchanged by \<open>consume_transport\<close> at the
  other end: same key, the index names a live session there, the counter is fresh, and the packet's
  IP header states its length (the padding to 16 bytes is removed by it).
\<close>

theorem transport_roundtrip:
  assumes "aead_ok P" "length (s_send_key sa) = 32" "s_recv_key sb = s_send_key sa"
    and "s_remote_index sa = s_local_index sb"
    and "find_slot tb (s_local_index sb) = Some (sb, w)"
    and "duration_since now (s_created sb) < REJECT_AFTER_TIME"
    and "fst (check_and_update (s_replay sb) (s_send_counter sa))"
    and "ip_packet_len pkt = Some (length pkt)"
  shows "fst (consume_transport P (fst (wg_seal P sa pkt)) now tb) = Inr (Some pkt)"
proof -
  obtain rw where "check_and_update (s_replay sb) (s_send_counter sa) = (True, rw)"
    using assms(7) by (cases "check_and_update (s_replay sb) (s_send_counter sa)") simp
  then show ?thesis using transport_opens [OF assms(1-6) _ assms(8)] by (metis prod.collapse)
qed

text \<open>Concrete sessions and a 20-byte IPv4 packet for the witnesses.\<close>

definition demo_session :: session where
  "demo_session = \<lparr>s_local_index = 1, s_remote_index = 1, s_send_key = replicate 32 9,
     s_recv_key = replicate 32 9, s_send_counter = 5, s_replay = rw_new, s_created = 0,
     s_is_initiator = True, s_confirmed = True\<rparr>"

definition demo_packet :: bytes where
  "demo_packet = [0x45, 0, 0, 20] @ replicate 16 0"

definition demo_linked :: tunn where
  "demo_linked = demo_tunn (replicate 32 2) (replicate 32 1)\<lparr>tn_current := Some demo_session\<rparr>"

lemma demo_linked_slot: "find_slot demo_linked (s_local_index demo_session) = Some (demo_session, Current)"
  by (simp add: demo_linked_def find_slot_def)

lemma demo_fresh: "fst (check_and_update (s_replay demo_session) (s_send_counter demo_session))"
  by code_simp

theorem transport_roundtrip_witness:
  "fst (consume_transport demo_prims (fst (wg_seal demo_prims demo_session demo_packet)) 0 demo_linked)
     = Inr (Some demo_packet)"
  by (rule transport_roundtrip [OF _ _ _ _ demo_linked_slot _ demo_fresh])
    (use demo_prims_ok in \<open>simp_all add: crypto_ok_def demo_session_def
       demo_packet_def duration_since_def REJECT_AFTER_TIME_def from_secs_def ip_packet_len_def u16_from_be_def\<close>)

text \<open>
  C7: A transport message that was accepted is never accepted again: after any further sequence of
  transport messages (whether they are accepted or not), consuming it once more is an error.
\<close>

theorem transport_replay_rejected:
  assumes "replay_ok t" and "consume_transport P m now t = (Inr x, t')"
  shows "\<exists>e. fst (consume_transport P m now' (consume_all P ms t')) = Inl e"
proof -
  have "replay_ok t'" using assms by (rule consume_transport_replay_ok)
  then have "seen_on (consume_all P ms t') (u32_from_le (slice 4 8 m)) (u64_from_le (slice 8 16 m))"
    using seen_on_consume_all accepted_is_seen [OF assms] by blast
  then show ?thesis using seen_is_rejected by (metis prod.collapse)
qed

lemma demo_linked_replay_ok: "replay_ok demo_linked"
  by (simp add: replay_ok_def demo_linked_def demo_session_def demo_tunn_def tunn_new_def window_ok_new)

theorem transport_replay_rejected_witness:
  "\<exists>t'. consume_transport demo_prims (fst (wg_seal demo_prims demo_session demo_packet)) 0 demo_linked
        = (Inr (Some demo_packet), t')
    \<and> (\<exists>e. fst (consume_transport demo_prims (fst (wg_seal demo_prims demo_session demo_packet)) 1
               (consume_all demo_prims [([4], 0), ([], 0)] t')) = Inl e)"
proof -
  let ?m = "fst (wg_seal demo_prims demo_session demo_packet)"
  obtain sa' where m: "wg_seal demo_prims demo_session demo_packet = (?m, sa')" by (metis prod.collapse)
  obtain rw where rw: "check_and_update (s_replay demo_session) (s_send_counter demo_session) = (True, rw)"
    using demo_fresh by (metis prod.collapse)
  have "fst (consume_transport demo_prims ?m 0 demo_linked) = Inr (Some demo_packet)"
    by (rule transport_opens [OF _ _ _ _ demo_linked_slot _ rw _ m])
      (use demo_prims_ok in \<open>simp_all add: crypto_ok_def demo_session_def
         demo_packet_def duration_since_def REJECT_AFTER_TIME_def from_secs_def ip_packet_len_def u16_from_be_def\<close>)
  then obtain t' where t': "consume_transport demo_prims ?m 0 demo_linked = (Inr (Some demo_packet), t')"
    by (metis prod.collapse)
  show ?thesis using t' transport_replay_rejected [OF demo_linked_replay_ok t'] by blast
qed

text \<open>
  The messages a session seals one after another carry pairwise different counters, hence
  AEAD nonces, as long as fewer than \<open>2^64\<close> are sealed.
\<close>

theorem seal_nonces_distinct:
  assumes "length ps \<le> 2 ^ 64"
  shows "distinct (map (slice 8 16) (fst (seal_all P s ps)))"
proof -
  have "inj_on (\<lambda>i. u64_to_le (s_send_counter s + word_of_nat i)) {0..<length ps}"
  proof (rule inj_onI)
    fix i j
    assume ij: "i \<in> {0..<length ps}" "j \<in> {0..<length ps}"
      and "u64_to_le (s_send_counter s + word_of_nat i) = u64_to_le (s_send_counter s + word_of_nat j)"
    then have "(word_of_nat i :: u64) = word_of_nat j" using u64_to_le_inj by fastforce
    then have "i mod 2 ^ 64 = j mod 2 ^ 64" by (simp add: word_of_nat_eq_iff take_bit_eq_mod)
    then show "i = j" using ij assms by simp
  qed
  then show ?thesis by (simp add: seal_all_counters distinct_map)
qed

theorem seal_nonces_distinct_witness:
  "distinct (map (slice 8 16) (fst (seal_all demo_prims demo_session [[1], [2], [3]])))"
  by (rule seal_nonces_distinct) simp

end
