(* ===== verification/WireGuard_Ops.thy ===== *)
theory WireGuard_Ops
  imports WireGuard_Transport
begin

text \<open>
  The tunnel of crates/tsnode/src/wireguard.rs under arbitrary sequences of its operations: one
  \<open>wg_op\<close> is a call of a method of \<^verbatim>\<open>Tunn\<close> with its arguments, \<open>wg_step\<close> its effect on the
  state, and the invariant and the monotonicity of the initiation timestamp hold of every run.
\<close>

section \<open>Operations as steps\<close>

datatype wg_op =
    Encapsulate wg_env bytes instant
  | InitiateIfNeeded wg_env instant
  | ConsumeResponse bytes instant
  | AcceptInitiation wg_env consumed_initiation instant
  | ConsumeTransport bytes instant
  | Tick wg_env instant
  | Reset

text \<open>The state after a call; a panicking call leaves the state as it was.\<close>

definition after_call :: "tunn \<Rightarrow> ('a \<times> tunn) option \<Rightarrow> tunn" where
  "after_call t r = (case r of None \<Rightarrow> t | Some (_, t') \<Rightarrow> t')"

fun wg_step :: "prims \<Rightarrow> wg_op \<Rightarrow> tunn \<Rightarrow> tunn" where
  "wg_step P (Encapsulate env pkt now) t = after_call t (encapsulate P env pkt now t)"
| "wg_step P (InitiateIfNeeded env now) t = after_call t (initiate_if_needed P env now t)"
| "wg_step P (ConsumeResponse msg now) t = after_call t (consume_response P msg now t)"
| "wg_step P (AcceptInitiation env ci now) t = after_call t (accept_initiation P env ci now t)"
| "wg_step P (ConsumeTransport msg now) t = snd (consume_transport P msg now t)"
| "wg_step P (Tick env now) t = after_call t (wg_tick P env now t)"
| "wg_step P Reset t = tunn_reset t"

section \<open>Shape of the tunnel after an operation\<close>

text \<open>
  The invariant: at most 8 packets queued, at most 18 handshake attempts counted, and both
  replay windows represent a set of accepted counters.
\<close>

definition pending_ok :: "tunn \<Rightarrow> bool" where
  "pending_ok t \<longleftrightarrow>
     pred_option (\<lambda>p. 1 \<le> pi_attempts p \<and> pi_attempts p \<le> MAX_HANDSHAKE_ATTEMPTS) (tn_pending t)"

definition tunn_inv :: "tunn \<Rightarrow> bool" where
  "tunn_inv t \<longleftrightarrow> length (tn_queued t) \<le> 8 \<and> pending_ok t \<and> replay_ok t"

text \<open>What every operation keeps: the peer, the local key, and the timestamp order.\<close>

definition tunn_frame :: "tunn \<Rightarrow> tunn \<Rightarrow> bool" where
  "tunn_frame t t' \<longleftrightarrow> tn_peer_public t' = tn_peer_public t \<and> tn_local t' = tn_local t
     \<and> tn_mac1_key_peer t' = tn_mac1_key_peer t \<and> tn_mac1_key_local t' = tn_mac1_key_local t
     \<and> bytes_le (tn_last_initiation_ts t) (tn_last_initiation_ts t')"

lemma tunn_frame_refl [simp]: "tunn_frame t t"
  by (simp add: tunn_frame_def)

lemma tunn_frame_trans: "tunn_frame a b \<Longrightarrow> tunn_frame b c \<Longrightarrow> tunn_frame a c"
  by (auto simp: tunn_frame_def intro: bytes_le_trans)

lemma bytes_le_total: "bytes_le a b \<or> bytes_le b a"
  by (induction a b rule: bytes_le.induct) auto

lemma new_initiation_effect:
  "new_initiation P env now t = Some (m, t') \<Longrightarrow>
   \<exists>p. t' = t\<lparr>tn_pending := Some p\<rparr>
     \<and> pi_attempts p = (case tn_pending t of None \<Rightarrow> 1 | Some q \<Rightarrow> pi_attempts q + 1) \<and> pi_sent_at p = now"
  unfolding new_initiation_def Let_def
  by (cases "tn_pending t") (clarsimp split: bind_splits, (intro exI conjI, rule refl, simp_all))+

lemma initiate_if_needed_effect:
  assumes "initiate_if_needed P env now t = Some (m, t')"
  shows "\<exists>po q. t' = t\<lparr>tn_pending := po, tn_queued := q\<rparr> \<and> (q = tn_queued t \<or> q = [])
     \<and> (pending_ok t \<longrightarrow> pending_ok t')"
proof (cases "t' = t")
  case True
  then show ?thesis by (intro exI [of _ "tn_pending t"] exI [of _ "tn_queued t"]) simp
next
  case False
  have fresh: "map_option (\<lambda>(m, t). (Some m, t)) (new_initiation P env now t) = Some (m, t') \<Longrightarrow>
      \<exists>p. t' = t\<lparr>tn_pending := Some p\<rparr>
       \<and> pi_attempts p = (case tn_pending t of None \<Rightarrow> 1 | Some q \<Rightarrow> pi_attempts q + 1)"
    using new_initiation_effect by fastforce
  have eta: "t\<lparr>tn_pending := x, tn_queued := tn_queued t\<rparr> = t\<lparr>tn_pending := x\<rparr>" for x by (cases t) simp
  show ?thesis
  proof (cases "tn_pending t")
    case None
    with assms False fresh obtain p where "t' = t\<lparr>tn_pending := Some p\<rparr>" "pi_attempts p = 1"
      by (auto simp: initiate_if_needed_def Let_def split: if_splits)
    then show ?thesis
      by (intro exI [of _ "Some p"] exI [of _ "tn_queued t"])
        (simp add: eta pending_ok_def MAX_HANDSHAKE_ATTEMPTS_def)
  next
    case (Some q)
    show ?thesis
    proof (cases "MAX_HANDSHAKE_ATTEMPTS \<le> pi_attempts q")
      case True
      then have "t' = t\<lparr>tn_pending := None, tn_queued := []\<rparr>"
        using assms False Some by (auto simp: initiate_if_needed_def Let_def split: if_splits)
      then show ?thesis by (auto simp: pending_ok_def)
    next
      case less: False
      with assms False fresh Some obtain p where "t' = t\<lparr>tn_pending := Some p\<rparr>" "pi_attempts p = pi_attempts q + 1"
        by (auto simp: initiate_if_needed_def Let_def split: if_splits)
      then show ?thesis using less
        by (intro exI [of _ "Some p"] exI [of _ "tn_queued t"]) (auto simp: eta pending_ok_def)
    qed
  qed
qed

lemma wg_queue_frame [simp]:
  "tn_peer_public (wg_queue p t) = tn_peer_public t" "tn_local (wg_queue p t) = tn_local t"
  "tn_mac1_key_peer (wg_queue p t) = tn_mac1_key_peer t"
  "tn_mac1_key_local (wg_queue p t) = tn_mac1_key_local t"
  "tn_last_initiation_ts (wg_queue p t) = tn_last_initiation_ts t"
  "tn_pending (wg_queue p t) = tn_pending t" "tn_current (wg_queue p t) = tn_current t"
  "tn_previous (wg_queue p t) = tn_previous t"
  by (simp_all add: wg_queue_def)

lemma wg_queue_bound: "length (tn_queued t) \<le> 8 \<Longrightarrow> length (tn_queued (wg_queue p t)) \<le> 8"
  by (auto simp: wg_queue_def)

lemma queue_and_initiate_effect:
  assumes "initiate_if_needed P env now (wg_queue pkt t) = Some (m, t')"
  shows "tunn_frame t t' \<and> (tunn_inv t \<longrightarrow> tunn_inv t')"
proof -
  obtain po q where t': "t' = (wg_queue pkt t)\<lparr>tn_pending := po, tn_queued := q\<rparr>"
    and q: "q = tn_queued (wg_queue pkt t) \<or> q = []"
    and p: "pending_ok (wg_queue pkt t) \<longrightarrow> pending_ok t'"
    using initiate_if_needed_effect [OF assms] by blast
  have "tunn_frame t t'" using t' by (simp add: tunn_frame_def)
  moreover have "tunn_inv t'" if "tunn_inv t"
  proof -
    have "pending_ok t'" using p that by (simp add: tunn_inv_def pending_ok_def)
    then show ?thesis using that q wg_queue_bound [of t pkt] t' by (auto simp: tunn_inv_def replay_ok_def)
  qed
  ultimately show ?thesis by blast
qed

lemma tunn_drop_current: "tunn_frame t (t\<lparr>tn_current := None\<rparr>)" "tunn_inv t \<Longrightarrow> tunn_inv (t\<lparr>tn_current := None\<rparr>)"
  by (simp_all add: tunn_frame_def tunn_inv_def pending_ok_def replay_ok_def)

lemma encapsulate_effect:
  assumes "encapsulate P env pkt now t = Some (out, t')"
  shows "tunn_frame t t'" and "tunn_inv t \<Longrightarrow> tunn_inv t'"
proof -
  have "tunn_frame t t' \<and> (tunn_inv t \<longrightarrow> tunn_inv t')"
  proof (cases "\<exists>s. tn_current t = Some s \<and> \<not> REJECT_AFTER_TIME \<le> duration_since now (s_created s)")
    case False
    then obtain m u where u: "u = t \<or> u = t\<lparr>tn_current := None\<rparr>"
      and i: "initiate_if_needed P env now (wg_queue pkt u) = Some (m, t')"
      using assms by (auto simp: encapsulate_def Let_def split: option.splits bind_splits)
    show ?thesis
      using queue_and_initiate_effect [OF i] u tunn_drop_current [of t] tunn_frame_trans by blast
  next
    case True
    then obtain s where s: "tn_current t = Some s" "\<not> REJECT_AFTER_TIME \<le> duration_since now (s_created s)" by blast
    define s' where "s' = snd (wg_seal P s pkt)"
    define t1 where "t1 = t\<lparr>tn_current := Some s', tn_last_sent := Some now, tn_need_keepalive := False\<rparr>"
    have rep: "s_replay s' = s_replay s" by (simp add: s'_def wg_seal_def Let_def)
    have t1: "tunn_frame t t1" "tunn_inv t \<longrightarrow> tunn_inv t1"
      using s window_ok_cong [OF rep] by (auto simp: tunn_frame_def tunn_inv_def t1_def pending_ok_def replay_ok_def)
    have "t' = t1 \<or> tn_pending t1 = None \<and> (\<exists>i. new_initiation P env now t1 = Some (i, t'))"
      using assms s by (auto simp: encapsulate_def Let_def case_prod_beta s'_def t1_def split: bind_splits if_splits)
    then have "t' = t1 \<or> (\<exists>p. t' = t1\<lparr>tn_pending := Some p\<rparr> \<and> pi_attempts p = 1)"
      using new_initiation_effect by fastforce
    then show ?thesis using t1
      by (auto simp: tunn_frame_def tunn_inv_def pending_ok_def replay_ok_def MAX_HANDSHAKE_ATTEMPTS_def)
  qed
  then show "tunn_frame t t'" "tunn_inv t \<Longrightarrow> tunn_inv t'" by blast+
qed

lemma flush_queue_effect:
  "flush_queue P now t = (out, t') \<Longrightarrow>
   tunn_frame t t' \<and> tn_pending t' = tn_pending t \<and> tn_previous t' = tn_previous t \<and> tn_queued t' = []
   \<and> pred_option window_ok (tn_current t') = pred_option window_ok (tn_current t)"
  by (auto simp: flush_queue_def Let_def tunn_frame_def case_prod_beta seal_all_session
      split: option.splits if_splits)

lemma consume_response_effect:
  assumes "consume_response P msg now t = Some (r, t')"
  shows "tunn_frame t t'" and "tunn_inv t \<Longrightarrow> tunn_inv t'"
proof -
  have flush: "tunn_frame t t' \<and> (tunn_inv t \<longrightarrow> tunn_inv t')"
    if s: "s_replay s = rw_new"
      and f: "flush_queue P now (t\<lparr>tn_pending := None, tn_previous := tn_current t, tn_current := Some s\<rparr>) = (out, t')"
    for s out
    using flush_queue_effect [OF f] window_ok_new [OF s]
    by (simp add: tunn_frame_def tunn_inv_def pending_ok_def replay_ok_def)
  have eta: "tn_pending t = Some p \<Longrightarrow> t\<lparr>tn_pending := Some p\<rparr> = t" for p by (cases t) simp
  have "tunn_frame t t' \<and> (tunn_inv t \<longrightarrow> tunn_inv t')"
  proof (cases "t' = t")
    case False
    then obtain i ss s out where
      s: "s = \<lparr>s_local_index = i, s_remote_index = u32_from_le (slice 4 8 msg),
            s_send_key = fst (ss_split P ss), s_recv_key = snd (ss_split P ss), s_send_counter = 0,
            s_replay = rw_new, s_created = now, s_is_initiator = True, s_confirmed = True\<rparr>"
      and "out = fst (flush_queue P now (t\<lparr>tn_pending := None, tn_previous := tn_current t, tn_current := Some s\<rparr>))"
      and "t' = snd (flush_queue P now (t\<lparr>tn_pending := None, tn_previous := tn_current t, tn_current := Some s\<rparr>))"
      using assms
      by (auto simp: consume_response_def Let_def eta case_prod_beta
          split: if_splits option.splits bind_splits sum.splits)
    then have "s_replay s = rw_new"
      "flush_queue P now (t\<lparr>tn_pending := None, tn_previous := tn_current t, tn_current := Some s\<rparr>) = (out, t')"
      by simp_all
    then show ?thesis by (rule flush)
  qed simp
  then show "tunn_frame t t'" "tunn_inv t \<Longrightarrow> tunn_inv t'" by blast+
qed

lemma accept_initiation_effect:
  assumes "accept_initiation P env ci now t = Some (r, t')"
  shows "tunn_frame t t'" and "tunn_inv t \<Longrightarrow> tunn_inv t'"
    and "\<exists>x. r = Inr x \<Longrightarrow> tn_last_initiation_ts t' = ci_timestamp ci \<and> ci_peer_public ci = tn_peer_public t"
proof -
  have "t' = t \<and> (\<exists>e. r = Inl e) \<or> ci_peer_public ci = tn_peer_public t
    \<and> \<not> bytes_le (ci_timestamp ci) (tn_last_initiation_ts t)
    \<and> tn_last_initiation_ts t' = ci_timestamp ci \<and> tn_previous t' = tn_current t
    \<and> pred_option window_ok (tn_current t') \<and> tn_pending t' = None \<and> tn_queued t' = tn_queued t
    \<and> tn_peer_public t' = tn_peer_public t \<and> tn_local t' = tn_local t
    \<and> tn_mac1_key_peer t' = tn_mac1_key_peer t \<and> tn_mac1_key_local t' = tn_mac1_key_local t"
    using assms
    by (auto simp: accept_initiation_def Let_def case_prod_beta window_ok_new split: if_splits bind_splits)
  then show "tunn_frame t t'" "tunn_inv t \<Longrightarrow> tunn_inv t'"
    "\<exists>x. r = Inr x \<Longrightarrow> tn_last_initiation_ts t' = ci_timestamp ci \<and> ci_peer_public ci = tn_peer_public t"
    using bytes_le_total [of "ci_timestamp ci" "tn_last_initiation_ts t"]
    by (auto simp: tunn_frame_def tunn_inv_def pending_ok_def replay_ok_def)
qed

lemma put_slot_frame [simp]:
  "tn_peer_public (put_slot w s t) = tn_peer_public t" "tn_local (put_slot w s t) = tn_local t"
  "tn_mac1_key_peer (put_slot w s t) = tn_mac1_key_peer t"
  "tn_mac1_key_local (put_slot w s t) = tn_mac1_key_local t"
  "tn_last_initiation_ts (put_slot w s t) = tn_last_initiation_ts t"
  by (cases w; simp)+

lemma consume_transport_frame:
  "consume_transport P m now t = (r, t') \<Longrightarrow> tunn_frame t t'"
  by (cases "find_slot t (u32_from_le (slice 4 8 m))")
    (auto simp: consume_transport_def Let_def tunn_frame_def
      split: if_splits sum.splits prod.splits bool.splits)

lemma consume_transport_inv:
  assumes "tunn_inv t" "consume_transport P m now t = (r, t')"
  shows "tunn_inv t'"
proof -
  have "replay_ok t'" using assms consume_transport_replay_ok by (auto simp: tunn_inv_def)
  moreover have "tn_pending t' = tn_pending t \<and> tn_queued t' = tn_queued t"
    using assms(2) by (cases rule: consume_transport_cases) simp_all
  ultimately show ?thesis using assms(1) by (simp add: tunn_inv_def pending_ok_def)
qed

lemma expire_window: "pred_option window_ok so \<Longrightarrow> pred_option window_ok (expire now so)"
  by (cases so) (simp_all add: expire_def)

lemma wg_seal_session: "snd (wg_seal P s p) = s\<lparr>s_send_counter := s_send_counter s + 1\<rparr>"
  by (simp add: wg_seal_def Let_def)

lemma send_keepalive_effect:
  assumes "send_keepalive P now out t = (out', t')"
  shows "tunn_frame t t'" "tunn_inv t \<Longrightarrow> tunn_inv t'" "tn_pending t' = tn_pending t"
    "\<forall>m \<in> set out'. m \<in> set out \<or> m ! 0 = MSG_TRANSPORT"
proof -
  have "t' = t \<and> out' = out \<or> (\<exists>s. tn_current t = Some s \<and> out' = out @ [fst (wg_seal P s [])] \<and>
      t' = t\<lparr>tn_current := Some (snd (wg_seal P s [])), tn_last_sent := Some now, tn_need_keepalive := False\<rparr>)"
    using assms by (cases "tn_current t"; cases "tn_last_received t")
      (simp_all add: send_keepalive_def Let_def case_prod_beta split: if_splits option.splits)
  moreover have "fst (wg_seal P s []) ! 0 = MSG_TRANSPORT" for s
    using wg_seal_layout by (metis prod.collapse)
  ultimately show "tunn_frame t t'" "tunn_inv t \<Longrightarrow> tunn_inv t'" "tn_pending t' = tn_pending t"
    "\<forall>m \<in> set out'. m \<in> set out \<or> m ! 0 = MSG_TRANSPORT"
    by (auto simp: tunn_frame_def tunn_inv_def replay_ok_def pending_ok_def wg_seal_session)
qed

lemma initiate_step:
  assumes "initiate_if_needed P env now t = Some (m, t')"
  shows "tunn_frame t t'" and "tunn_inv t \<Longrightarrow> tunn_inv t'"
  using initiate_if_needed_effect [OF assms] by (auto simp: tunn_frame_def tunn_inv_def replay_ok_def)

lemma wg_tick_effect:
  assumes "wg_tick P env now t = Some (out, t')"
  shows "tunn_frame t t'" and "tunn_inv t \<Longrightarrow> tunn_inv t'"
proof -
  define t1 where "t1 = t\<lparr>tn_current := expire now (tn_current t), tn_previous := expire now (tn_previous t)\<rparr>"
  have t1: "tunn_frame t t1" "tunn_inv t \<longrightarrow> tunn_inv t1"
    using expire_window by (simp_all add: t1_def tunn_frame_def tunn_inv_def pending_ok_def replay_ok_def)
  define call where "call = (if tn_pending t1 \<noteq> None \<or> tn_queued t1 \<noteq> [] \<and> tn_current t1 = None
    then initiate_if_needed P env now t1 else Some (None, t1))"
  have "wg_tick P env now t = call \<bind> (\<lambda>(m, t). Some (send_keepalive P now
      (case m of None \<Rightarrow> [] | Some init \<Rightarrow> [init]) t))"
    by (simp add: wg_tick_def call_def t1_def Let_def)
  then obtain m t2 where "call = Some (m, t2)"
    and t': "send_keepalive P now (case m of None \<Rightarrow> [] | Some init \<Rightarrow> [init]) t2 = (out, t')"
    using assms by (cases call) auto
  then have t2: "t2 = t1 \<or> initiate_if_needed P env now t1 = Some (m, t2)"
    by (auto simp: call_def split: if_splits)
  have "tunn_frame t1 t2 \<and> (tunn_inv t1 \<longrightarrow> tunn_inv t2)" using t2 initiate_step by auto
  moreover have "tunn_frame t2 t' \<and> (tunn_inv t2 \<longrightarrow> tunn_inv t')"
    using send_keepalive_effect [OF t'] by blast
  ultimately show "tunn_frame t t'" "tunn_inv t \<Longrightarrow> tunn_inv t'" using t1 tunn_frame_trans by blast+
qed

lemma tunn_reset_effect: "tunn_frame t (tunn_reset t)" "tunn_inv (tunn_reset t)"
  by (simp_all add: tunn_reset_def tunn_frame_def tunn_inv_def pending_ok_def replay_ok_def)

lemma after_call_cases:
  "Q t \<Longrightarrow> (\<And>a t'. r = Some (a, t') \<Longrightarrow> Q t') \<Longrightarrow> Q (after_call t r)"
  by (auto simp: after_call_def split: option.splits)

lemma wg_step_frame: "tunn_frame t (wg_step P op t)"
proof (cases op)
  case (ConsumeTransport m now)
  obtain r t' where "consume_transport P m now t = (r, t')" by (cases "consume_transport P m now t")
  then show ?thesis using ConsumeTransport consume_transport_frame by simp
next
  case (Encapsulate e p n)
  then show ?thesis by simp (rule after_call_cases [where Q = "tunn_frame t"], simp, erule encapsulate_effect(1))
next
  case (InitiateIfNeeded e n)
  then show ?thesis by simp (rule after_call_cases [where Q = "tunn_frame t"], simp, erule initiate_step(1))
next
  case (ConsumeResponse m n)
  then show ?thesis by simp (rule after_call_cases [where Q = "tunn_frame t"], simp, erule consume_response_effect(1))
next
  case (AcceptInitiation e c n)
  then show ?thesis by simp (rule after_call_cases [where Q = "tunn_frame t"], simp, erule accept_initiation_effect(1))
next
  case (Tick e n)
  then show ?thesis by simp (rule after_call_cases [where Q = "tunn_frame t"], simp, erule wg_tick_effect(1))
next
  case Reset
  then show ?thesis by (simp add: tunn_reset_effect)
qed

lemma wg_step_inv: "tunn_inv (wg_step P op t)" if "tunn_inv t"
proof (cases op)
  case (ConsumeTransport m now)
  obtain r t' where "consume_transport P m now t = (r, t')" by (cases "consume_transport P m now t")
  then show ?thesis using that ConsumeTransport consume_transport_inv by simp
next
  case (Encapsulate e p n)
  then show ?thesis by simp (rule after_call_cases [where Q = tunn_inv, OF that], erule encapsulate_effect(2), rule that)
next
  case (InitiateIfNeeded e n)
  then show ?thesis by simp (rule after_call_cases [where Q = tunn_inv, OF that], erule initiate_step(2), rule that)
next
  case (ConsumeResponse m n)
  then show ?thesis by simp (rule after_call_cases [where Q = tunn_inv, OF that], erule consume_response_effect(2), rule that)
next
  case (AcceptInitiation e c n)
  then show ?thesis by simp (rule after_call_cases [where Q = tunn_inv, OF that], erule accept_initiation_effect(2), rule that)
next
  case (Tick e n)
  then show ?thesis by simp (rule after_call_cases [where Q = tunn_inv, OF that], erule wg_tick_effect(2), rule that)
next
  case Reset
  then show ?thesis by (simp add: tunn_reset_effect)
qed

lemma tunn_new_inv: "tunn_inv (tunn_new P local peer)"
  by (simp add: tunn_inv_def tunn_new_def pending_ok_def replay_ok_def)

lemma wg_run_frame: "tunn_frame t (fold (wg_step P) ops t)"
  by (induction ops arbitrary: t) (auto intro: tunn_frame_trans wg_step_frame)

section \<open>Properties of runs\<close>

interpretation wg: step_invariant "\<lambda>t. \<exists>local peer. t = tunn_new P local peer" "wg_step P" tunn_inv for P
  by unfold_locales (auto simp: tunn_new_inv wg_step_inv)

text \<open>
  C20: Under every sequence of operations on a new tunnel, at most 8 packets are queued, the
  handshake attempt counter stays between 1 and 18, and the replay windows of the current and of
  the previous session represent a set of accepted counters.
\<close>

theorem tunn_run_invariant: "tunn_inv (fold (wg_step P) ops (tunn_new P local peer))"
  by (rule wg.run_from_init) blast

text \<open>
  C8: Once a tunnel has accepted a handshake initiation, no sequence of operations, a session
  reset included, makes it accept that initiation a second time: the timestamp it records never goes
  back, and the guard answers \<open>Replay\<close> without touching the state.
\<close>

theorem initiation_replay_rejected:
  assumes "accept_initiation P env ci now t = Some (Inr resp, t')"
  shows "accept_initiation P env' ci now' (fold (wg_step P) ops t') = Some (Inl Replay, fold (wg_step P) ops t')"
proof -
  have a: "tn_last_initiation_ts t' = ci_timestamp ci" "ci_peer_public ci = tn_peer_public t"
    using accept_initiation_effect(3) [OF assms] by auto
  have "tunn_frame t t'" by (rule accept_initiation_effect(1) [OF assms])
  moreover have "tunn_frame t' (fold (wg_step P) ops t')" by (rule wg_run_frame)
  ultimately show ?thesis using a by (auto simp: accept_initiation_def tunn_frame_def)
qed

definition demo_ci :: consumed_initiation where
  "demo_ci = \<lparr>ci_peer_public = tn_peer_public (demo_tunn (replicate 32 2) (replicate 32 1)),
     ci_remote_index = 1, ci_remote_ephemeral = replicate 32 3, ci_state = ss_new demo_prims CONSTRUCTION,
     ci_timestamp = we_tai64n demo_env\<rparr>"

lemma demo_ci_accepted:
  "\<exists>resp t'. accept_initiation demo_prims demo_env demo_ci 0 (demo_tunn (replicate 32 2) (replicate 32 1))
     = Some (Inr resp, t')"
proof -
  have "case accept_initiation demo_prims demo_env demo_ci 0 (demo_tunn (replicate 32 2) (replicate 32 1)) of
      Some (Inr _, _) \<Rightarrow> True | _ \<Rightarrow> False"
    by code_simp
  then show ?thesis by (auto split: option.splits prod.splits sum.splits)
qed

theorem initiation_replay_rejected_witness:
  "\<exists>resp t'. accept_initiation demo_prims demo_env demo_ci 0 (demo_tunn (replicate 32 2) (replicate 32 1))
       = Some (Inr resp, t')
    \<and> accept_initiation demo_prims demo_env demo_ci 9 (tunn_reset t') = Some (Inl Replay, tunn_reset t')"
  using demo_ci_accepted initiation_replay_rejected [where ops = "[Reset]" and env' = demo_env and now' = 9]
  by fastforce

text \<open>
  While a session is live, a handshake initiation that was sent to replace it (rekeying) is not
  retransmitted: neither \<open>wg_tick\<close> nor \<open>encapsulate\<close> emits anything but transport messages, and
  the pending initiation stays as it is, however long ago it was sent.
\<close>

theorem rekey_initiation_not_retransmitted:
  assumes "tn_current t = Some s" "duration_since now (s_created s) < REJECT_AFTER_TIME"
    and "tn_pending t = Some p"
  shows "(\<exists>out t'. wg_tick P env now t = Some (out, t') \<and> tn_pending t' = Some p
           \<and> (\<forall>m \<in> set out. m ! 0 = MSG_TRANSPORT))
    \<and> (\<exists>m t'. encapsulate P env pkt now t = Some ([m], t') \<and> tn_pending t' = Some p
           \<and> m ! 0 = MSG_TRANSPORT)"
proof
  let ?t = "t\<lparr>tn_current := expire now (tn_current t), tn_previous := expire now (tn_previous t)\<rparr>"
  obtain out t' where k: "send_keepalive P now [] ?t = (out, t')" by (cases "send_keepalive P now [] ?t")
  have "wg_tick P env now t = Some (out, t')"
    using assms k by (simp add: wg_tick_def initiate_if_needed_def expire_def)
  then show "\<exists>out t'. wg_tick P env now t = Some (out, t') \<and> tn_pending t' = Some p
           \<and> (\<forall>m \<in> set out. m ! 0 = MSG_TRANSPORT)"
    using send_keepalive_effect(3,4) [OF k] assms(3) by simp
next
  have "fst (wg_seal P s pkt) ! 0 = MSG_TRANSPORT" using wg_seal_layout by (metis prod.collapse)
  then show "\<exists>m t'. encapsulate P env pkt now t = Some ([m], t') \<and> tn_pending t' = Some p \<and> m ! 0 = MSG_TRANSPORT"
    using assms by (simp add: encapsulate_def case_prod_beta Let_def)
qed

definition demo_rekeying :: tunn where
  "demo_rekeying = demo_linked\<lparr>tn_pending := Some \<lparr>pi_local_index = 5, pi_ephemeral_secret = replicate 32 1,
     pi_state = ss_new demo_prims CONSTRUCTION, pi_sent_at = from_secs 121, pi_attempts = 1\<rparr>\<rparr>"

theorem rekey_initiation_not_retransmitted_witness:
  "\<exists>out t'. wg_tick demo_prims demo_env (from_secs 170) demo_rekeying = Some (out, t')
     \<and> tn_pending t' = tn_pending demo_rekeying \<and> (\<forall>m \<in> set out. m ! 0 = MSG_TRANSPORT)"
  using rekey_initiation_not_retransmitted [of demo_rekeying demo_session "from_secs 170" _ demo_prims demo_env]
  by (simp add: demo_rekeying_def demo_linked_def demo_session_def duration_since_def from_secs_def REJECT_AFTER_TIME_def)

end
