(* ===== verification/Packet_Filter.thy ===== *)
theory Packet_Filter
  imports Net_Addr
begin

text \<open>
  The packet filter of crates/tsnode/src/filter.rs and the rule types of types.rs it is
  compiled from: IP sets, rules, the extraction of a packet's filter tuple and the decision.
\<close>

section \<open>Rules as control sends them (types.rs)\<close>

record port_range =
  pr_first :: u16
  pr_last :: u16

record net_port_range =
  np_ip :: string
  np_ports :: port_range

text \<open>\<open>ip_proto\<close> holds \<^verbatim>\<open>i32\<close> values.\<close>

record filter_rule =
  src_ips :: "string list"
  dst_ports :: "net_port_range list"
  ip_proto :: "int list"

section \<open>IP sets\<close>

definition PROTO_ICMP :: u8 where "PROTO_ICMP = 1"
definition PROTO_TCP :: u8 where "PROTO_TCP = 6"
definition PROTO_UDP :: u8 where "PROTO_UDP = 17"
definition PROTO_ICMPV6 :: u8 where "PROTO_ICMPV6 = 58"

lemmas proto_defs = PROTO_ICMP_def PROTO_TCP_def PROTO_UDP_def PROTO_ICMPV6_def

datatype ip_set = IpAny | IpCidr ip_addr u8 | IpRange ip_addr ip_addr

definition ip_set_parse :: "string \<Rightarrow> ip_set option" where
  "ip_set_parse s0 =
     (let s = trim s0 in
      if s = ''*'' then Some IpAny
      else case split_once CHR ''-'' s of
        Some (a, b) \<Rightarrow>
          (case (parse_ip a, parse_ip b) of
             (Some a, Some b) \<Rightarrow> (if is_ipv4 a \<noteq> is_ipv4 b then None else Some (IpRange a b))
           | _ \<Rightarrow> None)
      | None \<Rightarrow>
          (case split_once CHR ''/'' s of
             Some (ip, bits) \<Rightarrow>
               (case parse_ip ip of
                  None \<Rightarrow> None
                | Some ip \<Rightarrow>
                    (case parse_uint 256 bits of
                       None \<Rightarrow> None
                     | Some bits \<Rightarrow>
                         (if bits > (if is_ipv4 ip then 32 else 128) then None
                          else Some (IpCidr ip (word_of_nat bits)))))
           | None \<Rightarrow>
               (case parse_ip s of
                  None \<Rightarrow> None
                | Some ip \<Rightarrow> Some (IpCidr ip (if is_ipv4 ip then 32 else 128)))))"

fun ip_set_contains :: "ip_set \<Rightarrow> ip_addr \<Rightarrow> bool" where
  "ip_set_contains IpAny ip = True"
| "ip_set_contains (IpCidr net bits) ip = cidr_contains net bits ip"
| "ip_set_contains (IpRange (V4 a) (V4 b)) (V4 ip) = (a \<le> ip \<and> ip \<le> b)"
| "ip_set_contains (IpRange (V6 a) (V6 b)) (V6 ip) = (a \<le> ip \<and> ip \<le> b)"
| "ip_set_contains (IpRange _ _) _ = False"

section \<open>Compiled rules\<close>

record rule =
  srcs :: "ip_set list"
  dsts :: "(ip_set \<times> u16 \<times> u16) list"
  protos :: "u8 list"

definition proto_allowed :: "rule \<Rightarrow> u8 \<Rightarrow> bool" where
  "proto_allowed r proto =
     (if protos r = [] then proto \<in> {PROTO_TCP, PROTO_UDP, PROTO_ICMP, PROTO_ICMPV6}
      else proto \<in> set (protos r))"

type_synonym filter_t = "rule list"

record tuple =
  t_proto :: u8
  t_src :: ip_addr
  t_dst :: ip_addr
  t_dst_port :: u16
  tcp_established :: bool

definition u8_try_from :: "int \<Rightarrow> u8 option" where
  "u8_try_from i = (if 0 \<le> i \<and> i < 256 then Some (word_of_int i) else None)"

definition compile_rule :: "filter_rule \<Rightarrow> rule" where
  "compile_rule r =
     \<lparr>srcs = List.map_filter ip_set_parse (src_ips r),
      dsts = List.map_filter
        (\<lambda>d. case ip_set_parse (np_ip d) of
               None \<Rightarrow> None
             | Some s \<Rightarrow> Some (s, pr_first (np_ports d), pr_last (np_ports d))) (dst_ports r),
      protos = List.map_filter u8_try_from (ip_proto r)\<rparr>"

definition filter_compile :: "filter_rule list \<Rightarrow> filter_t" where
  "filter_compile rules = map compile_rule rules"

definition filter_default :: filter_t where
  "filter_default = []"

definition allow_all :: filter_t where
  "allow_all = [\<lparr>srcs = [IpAny], dsts = [(IpAny, 0, 65535)], protos = []\<rparr>]"

definition dst_hit :: "tuple \<Rightarrow> ip_set \<times> u16 \<times> u16 \<Rightarrow> bool" where
  "dst_hit t = (\<lambda>(s, first, last).
     let port_matters = t_proto t \<in> {PROTO_TCP, PROTO_UDP}
     in ip_set_contains s (t_dst t)
        \<and> (\<not> port_matters \<or> first \<le> t_dst_port t \<and> t_dst_port t \<le> last))"

text \<open>The loop over the rules: \<^verbatim>\<open>continue\<close> is the next iteration, a hit returns at once.\<close>

fun rules_loop :: "rule list \<Rightarrow> tuple \<Rightarrow> bool" where
  "rules_loop [] t = False"
| "rules_loop (r # rs) t =
     (if \<not> proto_allowed r (t_proto t) then rules_loop rs t
      else if \<not> list_ex (\<lambda>s. ip_set_contains s (t_src t)) (srcs r) then rules_loop rs t
      else if list_ex (dst_hit t) (dsts r) then True
      else rules_loop rs t)"

definition allows_tuple :: "filter_t \<Rightarrow> tuple \<Rightarrow> bool" where
  "allows_tuple f t =
     (if t_proto t = PROTO_TCP \<and> tcp_established t then True else rules_loop f t)"

section \<open>Packets\<close>

text \<open>The first match of \<open>parse_tuple\<close>: protocol, addresses and transport payload.\<close>

definition parse_ip_header :: "bytes \<Rightarrow> (u8 \<times> ip_addr \<times> ip_addr \<times> bytes) option" where
  "parse_ip_header p =
     (case p of
        [] \<Rightarrow> None
      | b0 # _ \<Rightarrow>
          (let v = drop_bit 4 b0 in
           if v = 4 then
             (if length p < 20 then None
              else let ihl = unat (b0 AND 0x0f) * 4 in
                if ihl < 20 \<or> length p < ihl then None
                else let frag_offset = u16_from_be [p ! 6, p ! 7] AND 0x1fff in
                  if frag_offset \<noteq> 0 then None
                  else Some (p ! 9, v4_new (p ! 12) (p ! 13) (p ! 14) (p ! 15),
                             v4_new (p ! 16) (p ! 17) (p ! 18) (p ! 19), drop ihl p))
           else if v = 6 then
             (if length p < 40 then None
              else Some (p ! 6, v6_from (slice 8 24 p), v6_from (slice 24 40 p), drop 40 p))
           else None))"

definition parse_ports :: "u8 \<Rightarrow> bytes \<Rightarrow> (u16 \<times> bool) option" where
  "parse_ports proto l4 =
     (if proto = PROTO_TCP then
        (if length l4 < 14 then None
         else let flags = l4 ! 13 in Some (u16_from_be [l4 ! 2, l4 ! 3], flags AND 0x02 = 0))
      else if proto = PROTO_UDP then
        (if length l4 < 8 then None else Some (u16_from_be [l4 ! 2, l4 ! 3], False))
      else Some (0, False))"

definition parse_tuple :: "bytes \<Rightarrow> tuple option" where
  "parse_tuple p =
     (case parse_ip_header p of
        None \<Rightarrow> None
      | Some (proto, src, dst, l4) \<Rightarrow>
          (case parse_ports proto l4 of
             None \<Rightarrow> None
           | Some (dst_port, est) \<Rightarrow>
               Some \<lparr>t_proto = proto, t_src = src, t_dst = dst, t_dst_port = dst_port,
                     tcp_established = est\<rparr>))"

definition filter_allows :: "filter_t \<Rightarrow> bytes \<Rightarrow> bool" where
  "filter_allows f ip_pkt =
     (case parse_tuple ip_pkt of Some t \<Rightarrow> allows_tuple f t | None \<Rightarrow> False)"

section \<open>What the filter decides\<close>

text \<open>One rule admits a tuple: protocol, some source set, some destination set with its ports.\<close>

definition rule_admits :: "rule \<Rightarrow> tuple \<Rightarrow> bool" where
  "rule_admits r t \<longleftrightarrow>
     proto_allowed r (t_proto t)
     \<and> (\<exists>s \<in> set (srcs r). ip_set_contains s (t_src t))
     \<and> (\<exists>(s, first, last) \<in> set (dsts r). ip_set_contains s (t_dst t)
          \<and> (t_proto t \<in> {PROTO_TCP, PROTO_UDP} \<longrightarrow> t_dst_port t \<in> {first..last}))"

lemma dst_hit_iff:
  "list_ex (dst_hit t) ds \<longleftrightarrow> (\<exists>(s, first, last) \<in> set ds. ip_set_contains s (t_dst t)
     \<and> (t_proto t \<in> {PROTO_TCP, PROTO_UDP} \<longrightarrow> t_dst_port t \<in> {first..last}))"
  unfolding list_ex_iff
  by (intro bex_cong refl) (auto simp: dst_hit_def Let_def split: prod.splits)

lemma rule_admits_code:
  "rule_admits r t \<longleftrightarrow> proto_allowed r (t_proto t)
     \<and> list_ex (\<lambda>s. ip_set_contains s (t_src t)) (srcs r) \<and> list_ex (dst_hit t) (dsts r)"
  unfolding rule_admits_def dst_hit_iff by (simp only: list_ex_iff)

lemma rules_loop_iff: "rules_loop rs t \<longleftrightarrow> (\<exists>r \<in> set rs. rule_admits r t)"
  by (induction rs) (simp_all add: rule_admits_code)

lemma allows_tuple_iff:
  "allows_tuple f t \<longleftrightarrow>
     t_proto t = PROTO_TCP \<and> tcp_established t \<or> (\<exists>r \<in> set f. rule_admits r t)"
  by (auto simp: allows_tuple_def rules_loop_iff)

lemma allows_tuple_mono: "set f \<subseteq> set g \<Longrightarrow> allows_tuple f t \<Longrightarrow> allows_tuple g t"
  by (auto simp: allows_tuple_iff)

lemma set_map_filter: "set (List.map_filter f xs) = {y. \<exists>x \<in> set xs. f x = Some y}"
  by (induction xs) (auto simp: List.map_filter_simps split: option.splits)

lemma map_filter_Nil_iff: "List.map_filter f xs = [] \<longleftrightarrow> (\<forall>x \<in> set xs. f x = None)"
  by (induction xs) (auto simp: List.map_filter_simps split: option.splits)

text \<open>
  What a rule of the control server grants once it is compiled. A rule that lists only values that are no protocol number is compiled
  to one that lists none, so it falls back to the default protocols.
\<close>

definition granted :: "filter_rule \<Rightarrow> tuple \<Rightarrow> bool" where
  "granted r t \<longleftrightarrow>
     (if \<forall>p \<in> set (ip_proto r). u8_try_from p = None
      then t_proto t \<in> {PROTO_TCP, PROTO_UDP, PROTO_ICMP, PROTO_ICMPV6}
      else uint (t_proto t) \<in> set (ip_proto r))
     \<and> (\<exists>txt \<in> set (src_ips r). \<exists>s. ip_set_parse txt = Some s \<and> ip_set_contains s (t_src t))
     \<and> (\<exists>d \<in> set (dst_ports r). \<exists>s. ip_set_parse (np_ip d) = Some s
          \<and> ip_set_contains s (t_dst t)
          \<and> (t_proto t \<in> {PROTO_TCP, PROTO_UDP}
             \<longrightarrow> t_dst_port t \<in> {pr_first (np_ports d)..pr_last (np_ports d)}))"

lemma u8_try_from_Some: "u8_try_from i = Some b \<longleftrightarrow> i = uint b"
  using unsigned_less [of b, where 'a = int]
  by (auto simp: u8_try_from_def uint_word_of_int split: if_splits)

lemma proto_allowed_compile:
  "proto_allowed (compile_rule r) p \<longleftrightarrow>
     (if \<forall>p \<in> set (ip_proto r). u8_try_from p = None
      then p \<in> {PROTO_TCP, PROTO_UDP, PROTO_ICMP, PROTO_ICMPV6}
      else uint p \<in> set (ip_proto r))"
proof -
  have "set (protos (compile_rule r)) = {b. uint b \<in> set (ip_proto r)}"
    by (auto simp: compile_rule_def set_map_filter u8_try_from_Some)
  moreover have "protos (compile_rule r) = [] \<longleftrightarrow> (\<forall>p \<in> set (ip_proto r). u8_try_from p = None)"
    by (simp add: compile_rule_def map_filter_Nil_iff)
  ultimately show ?thesis by (simp add: proto_allowed_def)
qed

lemma rule_admits_compile: "rule_admits (compile_rule r) t \<longleftrightarrow> granted r t"
proof -
  have s: "(\<exists>s \<in> set (srcs (compile_rule r)). ip_set_contains s (t_src t)) \<longleftrightarrow>
     (\<exists>txt \<in> set (src_ips r). \<exists>s. ip_set_parse txt = Some s \<and> ip_set_contains s (t_src t))"
    by (auto simp: compile_rule_def set_map_filter)
  have d: "(\<exists>(s, first, last) \<in> set (dsts (compile_rule r)). ip_set_contains s (t_dst t)
          \<and> (t_proto t \<in> {PROTO_TCP, PROTO_UDP} \<longrightarrow> t_dst_port t \<in> {first..last})) \<longleftrightarrow>
     (\<exists>d \<in> set (dst_ports r). \<exists>s. ip_set_parse (np_ip d) = Some s
          \<and> ip_set_contains s (t_dst t)
          \<and> (t_proto t \<in> {PROTO_TCP, PROTO_UDP}
             \<longrightarrow> t_dst_port t \<in> {pr_first (np_ports d)..pr_last (np_ports d)}))"
    by (force simp: compile_rule_def set_map_filter split: option.splits)
  show ?thesis unfolding rule_admits_def granted_def proto_allowed_compile s d ..
qed

section \<open>The decision on a parsed packet\<close>

lemma filter_allows_iff:
  "filter_allows (filter_compile rules) p \<longleftrightarrow>
     (\<exists>t. parse_tuple p = Some t
        \<and> (t_proto t = PROTO_TCP \<and> tcp_established t \<or> (\<exists>r \<in> set rules. granted r t)))"
proof (cases "parse_tuple p")
  case None
  then show ?thesis by (simp add: filter_allows_def)
next
  case (Some t)
  have "(\<exists>c \<in> set (filter_compile rules). rule_admits c t) \<longleftrightarrow> (\<exists>r \<in> set rules. granted r t)"
    unfolding filter_compile_def set_map bex_simps(7) rule_admits_compile ..
  then show ?thesis using Some unfolding filter_allows_def allows_tuple_iff by simp
qed

section \<open>Packets by their fields\<close>

text \<open>
  The layout of the packets the filter decides on, as the protocols define it, independent of how the code reads it: what the
  transport header says, and the header in front of it. An IPv4 packet has up to 40 bytes of options and is not a later
  fragment; an IPv6 packet has no extension headers.
\<close>

datatype transport = TcpSegment u16 bool | UdpDatagram u16 | OtherTransport

inductive transport_header :: "u8 \<Rightarrow> bytes \<Rightarrow> transport \<Rightarrow> bool" where
  tcp: "length seq_ack = 8 \<Longrightarrow>
    transport_header PROTO_TCP ([s1, s2, d1, d2] @ seq_ack @ [off, flags] @ rest) (TcpSegment (u16_from_be [d1, d2]) (bit flags 1))"
| udp: "length len_sum = 4 \<Longrightarrow> transport_header PROTO_UDP ([s1, s2, d1, d2] @ len_sum @ data) (UdpDatagram (u16_from_be [d1, d2]))"
| other: "proto \<notin> {PROTO_TCP, PROTO_UDP} \<Longrightarrow> transport_header proto data OtherTransport"

record packet_fields =
  pk_proto :: u8
  pk_src :: ip_addr
  pk_dst :: ip_addr
  pk_transport :: transport

definition EXTENSION_HEADERS :: "u8 list" where
  "EXTENSION_HEADERS = [0, 43, 44, 50, 51, 60, 135, 139, 140]"

inductive ip_packet :: "bytes \<Rightarrow> packet_fields \<Rightarrow> bool" where
  v4: "length options = 4 * n \<Longrightarrow> n \<le> 10 \<Longrightarrow> flags AND 0x1f = 0 \<Longrightarrow> transport_header proto l4 t \<Longrightarrow>
    ip_packet ([0x45 + word_of_nat n, tos, l1, l2, i1, i2, flags, 0, ttl, proto, c1, c2, s1, s2, s3, s4, d1, d2, d3, d4] @ options @ l4)
      \<lparr>pk_proto = proto, pk_src = v4_new s1 s2 s3 s4, pk_dst = v4_new d1 d2 d3 d4, pk_transport = t\<rparr>"
| v6: "cls < 16 \<Longrightarrow> length flow = 3 \<Longrightarrow> length src = 16 \<Longrightarrow> length dst = 16 \<Longrightarrow> proto \<notin> set EXTENSION_HEADERS \<Longrightarrow> transport_header proto l4 t \<Longrightarrow>
    ip_packet ([0x60 + cls] @ flow @ [l1, l2, proto, hops] @ src @ dst @ l4)
      \<lparr>pk_proto = proto, pk_src = v6_from src, pk_dst = v6_from dst, pk_transport = t\<rparr>"

definition has_extension_header :: "bytes \<Rightarrow> bool" where
  "has_extension_header p \<longleftrightarrow> 40 \<le> length p \<and> drop_bit 4 (p ! 0) = 6 \<and> p ! 6 \<in> set EXTENSION_HEADERS"

text \<open>What a rule of the control server grants, in terms of the fields.\<close>

fun in_set :: "ip_set \<Rightarrow> ip_addr \<Rightarrow> bool" where
  "in_set IpAny ip \<longleftrightarrow> True"
| "in_set (IpCidr net bits) ip \<longleftrightarrow> same_prefix (unat bits) net ip"
| "in_set (IpRange (V4 a) (V4 b)) (V4 ip) \<longleftrightarrow> ip \<in> {a..b}"
| "in_set (IpRange (V6 a) (V6 b)) (V6 ip) \<longleftrightarrow> ip \<in> {a..b}"
| "in_set (IpRange _ _) _ \<longleftrightarrow> False"

fun port_in :: "transport \<Rightarrow> port_range \<Rightarrow> bool" where
  "port_in (TcpSegment port _) r \<longleftrightarrow> port \<in> {pr_first r..pr_last r}"
| "port_in (UdpDatagram port) r \<longleftrightarrow> port \<in> {pr_first r..pr_last r}"
| "port_in OtherTransport r \<longleftrightarrow> True"

definition rule_grants :: "filter_rule \<Rightarrow> packet_fields \<Rightarrow> bool" where
  "rule_grants r k \<longleftrightarrow>
     uint (pk_proto k) \<in> (if ip_proto r = [] then {6, 17, 1, 58} else set (ip_proto r))
     \<and> (\<exists>txt \<in> set (src_ips r). \<exists>s. ip_set_parse txt = Some s \<and> in_set s (pk_src k))
     \<and> (\<exists>d \<in> set (dst_ports r). \<exists>s. ip_set_parse (np_ip d) = Some s \<and> in_set s (pk_dst k) \<and> port_in (pk_transport k) (np_ports d))"

text \<open>A rule lists no protocol, or among those it lists is a protocol number.\<close>

definition names_protocols :: "filter_rule \<Rightarrow> bool" where
  "names_protocols r \<longleftrightarrow> ip_proto r = [] \<or> list_ex (\<lambda>p. 0 \<le> p \<and> p < 256) (ip_proto r)"

fun tuple_of :: "packet_fields \<Rightarrow> tuple" where
  "tuple_of k = \<lparr>t_proto = pk_proto k, t_src = pk_src k, t_dst = pk_dst k,
     t_dst_port = (case pk_transport k of TcpSegment p _ \<Rightarrow> p | UdpDatagram p \<Rightarrow> p | OtherTransport \<Rightarrow> 0),
     tcp_established = (case pk_transport k of TcpSegment _ syn \<Rightarrow> \<not> syn | _ \<Rightarrow> False)\<rparr>"

lemma in_set_contains: "ip_set_contains s ip = in_set s ip"
  by (cases "(s, ip)" rule: in_set.cases) (simp_all add: cidr_contains_same_prefix)

lemma syn_bit: "(flags :: u8) AND 2 = 0 \<longleftrightarrow> \<not> bit flags 1"
  using and_exp_eq_0_iff_not_bit [of flags 1] by simp

lemma parse_ports_transport:
  "transport_header proto l4 t \<Longrightarrow> parse_ports proto l4
     = Some (case t of TcpSegment p _ \<Rightarrow> p | UdpDatagram p \<Rightarrow> p | OtherTransport \<Rightarrow> 0, case t of TcpSegment _ syn \<Rightarrow> \<not> syn | _ \<Rightarrow> False)"
  by (induction rule: transport_header.induct) (auto simp: parse_ports_def syn_bit nth_append proto_defs)

lemma take_drop_chain: "xs = take a xs @ take b (drop a xs) @ drop (a + b) xs"
  by (metis append_take_drop_id drop_drop add.commute)

lemma four_bytes: "length xs = 4 \<Longrightarrow> \<exists>a b c d. xs = [a, b, c, d]"
  by (auto simp: numeral_eq_Suc length_Suc_conv)

lemma transport_parsed:
  assumes "parse_ports proto l4 = Some x"
  shows "\<exists>t. transport_header proto l4 t"
proof -
  consider "proto = PROTO_TCP" "14 \<le> length l4" | "proto = PROTO_UDP" "8 \<le> length l4" | "proto \<notin> {PROTO_TCP, PROTO_UDP}"
    using assms by (auto simp: parse_ports_def split: if_splits)
  then show ?thesis
  proof cases
    case 1
    have l: "l4 = take 4 l4 @ take 8 (drop 4 l4) @ take 2 (drop 12 l4) @ drop 14 l4"
      using take_drop_chain [of l4 4 8] take_drop_chain [of "drop 12 l4" 0 2] by simp
    have n: "length (take 4 l4) = 4" "length (take 8 (drop 4 l4)) = 8" "length (take 2 (drop 12 l4)) = 2" using 1(2) by simp_all
    obtain s1 s2 d1 d2 where p: "take 4 l4 = [s1, s2, d1, d2]" using four_bytes [OF n(1)] by blast
    obtain off flags where f: "take 2 (drop 12 l4) = [off, flags]"
      using n(3) by (auto simp only: numeral_2_eq_2 length_Suc_conv length_0_conv)
    have "l4 = [s1, s2, d1, d2] @ take 8 (drop 4 l4) @ [off, flags] @ drop 14 l4" using l unfolding p f .
    then show ?thesis using transport_header.tcp [OF n(2)] 1(1) by metis
  next
    case 2
    have l: "l4 = take 4 l4 @ take 4 (drop 4 l4) @ drop 8 l4" using take_drop_chain [of l4 4 4] by simp
    have n: "length (take 4 l4) = 4" "length (take 4 (drop 4 l4)) = 4" using 2(2) by simp_all
    obtain s1 s2 d1 d2 where p: "take 4 l4 = [s1, s2, d1, d2]" using four_bytes [OF n(1)] by blast
    have "l4 = [s1, s2, d1, d2] @ take 4 (drop 4 l4) @ drop 8 l4" using l unfolding p .
    then show ?thesis using transport_header.udp [OF n(2)] 2(1) by metis
  next
    case 3
    then show ?thesis using transport_header.other by blast
  qed
qed

lemma version_nibble:
  assumes "n \<le> 10"
  shows "drop_bit 4 (0x45 + word_of_nat n :: u8) = 4" "unat ((0x45 + word_of_nat n :: u8) AND 0x0f) = 5 + n"
proof -
  have "n \<in> set [0..<11]" using assms by simp
  then have "drop_bit 4 (0x45 + word_of_nat n :: u8) = 4 \<and> unat ((0x45 + word_of_nat n :: u8) AND 0x0f) = 5 + n"
    by (simp add: upt_rec) (elim disjE; hypsubst; code_simp)
  then show "drop_bit 4 (0x45 + word_of_nat n :: u8) = 4" "unat ((0x45 + word_of_nat n :: u8) AND 0x0f) = 5 + n" by simp_all
qed

lemma frag_zero: "u16_from_be [a, b] AND 0x1fff = 0 \<longleftrightarrow> a AND 0x1f = 0 \<and> b = 0"
proof -
  have m: "(0x1fff :: u16) = mask 13" "(0x1f :: u8) = mask 5" by (simp_all add: mask_eq_exp_minus_1)
  have ab: "unat a < 256" "unat b < 256" using unsigned_less [of a] unsigned_less [of b] by simp_all
  have lt: "unat b + 256 * unat a < 65536" using ab by linarith
  have "unat (u16_from_be [a, b]) = 256 * unat a + unat b"
    unfolding u16_from_be_def by (subst unat_of_nat) (simp add: mod_less [OF lt])
  then have "unat (u16_from_be [a, b] AND 0x1fff) = (256 * unat a + unat b) mod 8192"
    unfolding m take_bit_eq_mask [symmetric] by (simp add: unsigned_take_bit_eq take_bit_nat_def)
  moreover have "unat (a AND 0x1f) = unat a mod 32"
    unfolding m take_bit_eq_mask [symmetric] by (simp add: unsigned_take_bit_eq take_bit_nat_def)
  moreover have "(256 * unat a + unat b) mod 8192 = 256 * (unat a mod 32) + unat b"
  proof -
    have "256 * unat a + unat b = 8192 * (unat a div 32) + (256 * (unat a mod 32) + unat b)"
      using div_mult_mod_eq [of "unat a" 32] by linarith
    moreover have "256 * (unat a mod 32) + unat b < 8192" using ab(2) mod_less_divisor [of 32 "unat a"] by linarith
    ultimately show ?thesis by (metis mod_mult_self4 mod_less)
  qed
  ultimately show ?thesis by (metis add_is_0 mult_is_0 unsigned_eq_0_iff zero_neq_numeral)
qed

lemma high_nibble: "unat (drop_bit 4 b) = unat b div 16" for b :: u8
  using unsigned_less [of b] by (simp add: unsigned_drop_bit_eq drop_bit_nat_def take_bit_nat_def)

lemma low_nibble: "unat (b AND 0x0f) = unat b mod 16" for b :: u8
proof -
  have m: "(0x0f :: u8) = mask 4" by (simp add: mask_eq_exp_minus_1)
  show ?thesis unfolding m take_bit_eq_mask [symmetric] by (simp add: unsigned_take_bit_eq take_bit_nat_def)
qed

lemma version_6: "cls < 16 \<Longrightarrow> drop_bit 4 (0x60 + cls :: u8) = 6"
proof -
  assume "cls < 16"
  then have "unat cls < 16" by (simp add: word_less_nat_alt)
  then have "unat (drop_bit 4 (0x60 + cls)) = unat (6 :: u8)" by (simp add: high_nibble unat_word_ariths)
  then show ?thesis by (simp only: word_unat_eq_iff)
qed

lemma packet_parsed: "ip_packet p k \<Longrightarrow> parse_tuple p = Some (tuple_of k)"
proof (induction rule: ip_packet.induct)
  case (v4 options n flags proto l4 t tos l1 l2 i1 i2 ttl c1 c2 s1 s2 s3 s4 d1 d2 d3 d4)
  let ?h = "[0x45 + word_of_nat n, tos, l1, l2, i1, i2, flags, 0, ttl, proto, c1, c2, s1, s2, s3, s4, d1, d2, d3, d4]"
  have "drop (4 * (5 + n)) (h @ options @ l4) = l4" if "length h = 20" for h using v4(1) that by simp
  from this [of ?h] have "drop (4 * (5 + n)) (?h @ options @ l4) = l4" by simp
  moreover have "u16_from_be [flags, 0] AND 0x1fff = 0" using v4(3) frag_zero by blast
  ultimately have "parse_ip_header (?h @ options @ l4) = Some (proto, v4_new s1 s2 s3 s4, v4_new d1 d2 d3 d4, l4)"
    using version_nibble [OF v4(2)] v4(1) by (simp add: parse_ip_header_def Let_def mult.commute)
  then show ?case using parse_ports_transport [OF v4(4)] by (simp add: parse_tuple_def)
next
  case (v6 cls flow src dst proto l4 t l1 l2 hops)
  let ?p = "[0x60 + cls] @ flow @ [l1, l2, proto, hops] @ src @ dst @ l4"
  note version_6 [OF v6(1)]
  moreover obtain f1 f2 f3 where "flow = [f1, f2, f3]" using v6(2) by (auto simp: numeral_eq_Suc length_Suc_conv)
  ultimately have "parse_ip_header ?p = Some (proto, v6_from src, v6_from dst, l4)"
    using v6(3,4) by (simp add: parse_ip_header_def Let_def slice_def)
  then show ?case using parse_ports_transport [OF v6(6)] by (simp add: parse_tuple_def)
qed

lemma take_nths: "n \<le> length p \<Longrightarrow> take n p = map ((!) p) [0..<n]"
  by (rule nth_equalityI) simp_all

lemma twenty_bytes:
  assumes "20 \<le> length (p :: bytes)"
  shows "p = [p ! 0, p ! 1, p ! 2, p ! 3, p ! 4, p ! 5, p ! 6, p ! 7, p ! 8, p ! 9, p ! 10, p ! 11, p ! 12, p ! 13, p ! 14, p ! 15,
     p ! 16, p ! 17, p ! 18, p ! 19] @ drop 20 p"
proof -
  have "[0..<20] = [0, 1, 2, 3, 4, 5, 6, 7, 8, 9, 10, 11, 12, 13, 14, 15, 16, 17, 18, 19 :: nat]" by code_simp
  then show ?thesis using take_nths [OF assms] append_take_drop_id [of 20 p] by (simp only: list.map)
qed

lemma eight_bytes:
  assumes "8 \<le> length (p :: bytes)"
  shows "p = [p ! 0, p ! 1, p ! 2, p ! 3, p ! 4, p ! 5, p ! 6, p ! 7] @ drop 8 p"
proof -
  have "[0..<8] = [0, 1, 2, 3, 4, 5, 6, 7 :: nat]" by code_simp
  then show ?thesis using take_nths [OF assms] append_take_drop_id [of 8 p] by (simp only: list.map)
qed

lemma packet_of_v4:
  assumes "parse_tuple p = Some x" "drop_bit 4 (p ! 0) = 4"
  shows "\<exists>k. ip_packet p k"
proof -
  define n where "n = unat (p ! 0 AND 0x0f) - 5"
  have p: "20 \<le> length p" "20 \<le> unat (p ! 0 AND 0x0f) * 4" "unat (p ! 0 AND 0x0f) * 4 \<le> length p" "u16_from_be [p ! 6, p ! 7] AND 0x1fff = 0"
    and l4: "parse_ports (p ! 9) (drop (unat (p ! 0 AND 0x0f) * 4) p) \<noteq> None"
    using assms by (auto simp: parse_tuple_def parse_ip_header_def Let_def split: list.splits option.splits if_splits)
  have low: "unat (p ! 0 AND 0x0f) = 5 + n" using p(2) by (simp add: n_def)
  have n: "n \<le> 10" using low low_nibble [of "p ! 0"] by linarith
  have "unat (drop_bit 4 (p ! 0)) = 4" using assms(2) by simp
  then have "unat (p ! 0) = 0x45 + n" using low div_mult_mod_eq [of "unat (p ! 0)" 16] unfolding high_nibble low_nibble by linarith
  then have p0: "p ! 0 = 0x45 + word_of_nat n" using n by (simp add: word_unat_eq_iff unat_word_ariths unat_of_nat)
  have "unat (p ! 0 AND 0x0f) * 4 = 20 + 4 * n" using low by simp
  then obtain t where t: "transport_header (p ! 9) (drop (20 + 4 * n) p) t" using l4 transport_parsed by (metis option.exhaust)
  have opt: "length (take (4 * n) (drop 20 p)) = 4 * n" using p(1,3) low by simp
  have f: "p ! 6 AND 0x1f = 0" "p ! 7 = 0" using p(4) frag_zero by blast+
  have "p = [0x45 + word_of_nat n, p ! 1, p ! 2, p ! 3, p ! 4, p ! 5, p ! 6, 0, p ! 8, p ! 9, p ! 10, p ! 11, p ! 12, p ! 13, p ! 14, p ! 15,
     p ! 16, p ! 17, p ! 18, p ! 19] @ take (4 * n) (drop 20 p) @ drop (20 + 4 * n) p"
    using twenty_bytes [OF p(1)] append_take_drop_id [of "4 * n" "drop 20 p"] unfolding p0 f(2) by (simp add: add.commute)
  then show ?thesis using ip_packet.v4 [OF opt n f(1) t] by metis
qed

lemma packet_of_v6:
  assumes "parse_tuple p = Some x" "drop_bit 4 (p ! 0) = 6" "\<not> has_extension_header p"
  shows "\<exists>k. ip_packet p k"
proof -
  have p: "40 \<le> length p" and l4: "parse_ports (p ! 6) (drop 40 p) \<noteq> None"
    using assms(1,2) by (auto simp: parse_tuple_def parse_ip_header_def Let_def split: list.splits option.splits if_splits)
  have ext: "p ! 6 \<notin> set EXTENSION_HEADERS" using assms(2,3) p by (simp add: has_extension_header_def)
  obtain t where t: "transport_header (p ! 6) (drop 40 p) t" using l4 transport_parsed by blast
  have "unat (drop_bit 4 (p ! 0)) = 6" using assms(2) by simp
  then have c: "0x60 \<le> unat (p ! 0)" "unat (p ! 0) < 0x70" unfolding high_nibble by linarith+
  then have cls: "p ! 0 - 0x60 < 16" by (simp add: word_less_nat_alt unat_sub word_le_nat_alt)
  have "p = [0x60 + (p ! 0 - 0x60)] @ [p ! 1, p ! 2, p ! 3] @ [p ! 4, p ! 5, p ! 6, p ! 7] @ take 16 (drop 8 p) @ take 16 (drop 24 p) @ drop 40 p"
    using eight_bytes [of p] take_drop_chain [of "drop 8 p" 16 16] p by simp
  moreover have "length [p ! 1, p ! 2, p ! 3] = 3" "length (take 16 (drop 8 p)) = 16" "length (take 16 (drop 24 p)) = 16" using p by simp_all
  ultimately show ?thesis using ip_packet.v6 [OF cls _ _ _ ext t] by metis
qed

lemma parsed_iff:
  assumes "\<not> has_extension_header p"
  shows "parse_tuple p = Some t \<longleftrightarrow> (\<exists>k. ip_packet p k \<and> tuple_of k = t)"
proof
  assume t: "parse_tuple p = Some t"
  then have "drop_bit 4 (p ! 0) = 4 \<or> drop_bit 4 (p ! 0) = 6"
    by (auto simp: parse_tuple_def parse_ip_header_def Let_def split: list.splits option.splits if_splits)
  then show "\<exists>k. ip_packet p k \<and> tuple_of k = t"
    using packet_of_v4 [OF t] packet_of_v6 [OF t] assms packet_parsed t by fastforce
qed (use packet_parsed in blast)

lemma transport_proto: "transport_header proto l4 t \<Longrightarrow>
    (proto \<in> {PROTO_TCP, PROTO_UDP} \<longleftrightarrow> t \<noteq> OtherTransport) \<and> (proto = PROTO_TCP \<longleftrightarrow> (\<exists>p s. t = TcpSegment p s))"
  by (induction rule: transport_header.induct) (auto simp: proto_defs)

lemma packet_transport: "ip_packet p k \<Longrightarrow> \<exists>l4. transport_header (pk_proto k) l4 (pk_transport k)"
  by (induction rule: ip_packet.induct) auto

lemma granted_grants:
  assumes "names_protocols r" "ip_packet p k"
  shows "granted r (tuple_of k) \<longleftrightarrow> rule_grants r k"
proof -
  obtain l4 where l4: "transport_header (pk_proto k) l4 (pk_transport k)" using packet_transport [OF assms(2)] by blast
  have "pk_proto k \<in> {PROTO_TCP, PROTO_UDP, PROTO_ICMP, PROTO_ICMPV6} \<longleftrightarrow> uint (pk_proto k) \<in> {6, 17, 1, 58}"
    by (auto simp: proto_defs word_uint_eq_iff)
  moreover have "(\<forall>p \<in> set (ip_proto r). u8_try_from p = None) \<longleftrightarrow> ip_proto r = []"
    using assms(1) by (auto simp: names_protocols_def u8_try_from_def list_ex_iff)
  moreover have "(pk_proto k \<in> {PROTO_TCP, PROTO_UDP} \<longrightarrow> t_dst_port (tuple_of k) \<in> {pr_first r..pr_last r}) \<longleftrightarrow> port_in (pk_transport k) r" for r
    using transport_proto [OF l4] by (cases "pk_transport k") auto
  ultimately show ?thesis by (simp add: granted_def rule_grants_def in_set_contains del: tuple_of.simps) simp
qed


text \<open>A TCP SYN from 100.64.0.1 to port 2300 of 100.64.0.9, and a rule that grants it.\<close>

definition demo_syn :: bytes where
  "demo_syn = [0x45, 0, 0, 40, 0, 0, 0, 0, 64, 6, 0, 0, 100, 64, 0, 1, 100, 64, 0, 9,
     0, 99, 8, 252, 0, 0, 0, 0, 0, 0, 0, 0, 80, 2, 0, 0, 0, 0, 0, 0]"

definition demo_rule :: filter_rule where
  "demo_rule = \<lparr>src_ips = [''100.64.0.0/10''], dst_ports = [\<lparr>np_ip = ''100.64.0.9'', np_ports = \<lparr>pr_first = 2300, pr_last = 2300\<rparr>\<rparr>], ip_proto = [6]\<rparr>"


text \<open>
  A packet that passes any filter is a complete header: IPv4 with a header length within the
  packet and fragment offset zero, or IPv6 of at least 40 bytes; nothing truncated is let through.
\<close>

theorem allowed_packet_shape:
  assumes "filter_allows f p"
  shows "(drop_bit 4 (p ! 0) = 4 \<and> 20 \<le> unat (p ! 0 AND 0x0f) * 4 \<and> unat (p ! 0 AND 0x0f) * 4 \<le> length p
            \<and> u16_from_be [p ! 6, p ! 7] AND 0x1fff = 0)
    \<or> (drop_bit 4 (p ! 0) = 6 \<and> 40 \<le> length p)"
proof -
  obtain x where "parse_ip_header p = Some x"
    using assms by (auto simp: filter_allows_def parse_tuple_def split: option.splits)
  then show ?thesis
    by (cases p) (auto simp: parse_ip_header_def Let_def split: if_splits)
qed

theorem allowed_packet_shape_witness:
  "filter_allows allow_all demo_syn
   \<and> ((drop_bit 4 (demo_syn ! 0) = 4 \<and> 20 \<le> unat (demo_syn ! 0 AND 0x0f) * 4
         \<and> unat (demo_syn ! 0 AND 0x0f) * 4 \<le> length demo_syn
         \<and> u16_from_be [demo_syn ! 6, demo_syn ! 7] AND 0x1fff = 0)
      \<or> (drop_bit 4 (demo_syn ! 0) = 6 \<and> 40 \<le> length demo_syn))"
proof -
  have "filter_allows allow_all demo_syn" by code_simp
  then show ?thesis using allowed_packet_shape by blast
qed

text \<open>
  A rule that names protocols, all of them outside 0..255, is compiled to a rule with no
  protocols, which the filter reads as the default set: the rule then admits TCP, UDP and ICMP.
\<close>

theorem out_of_range_protocols_widen:
  assumes "ip_proto r \<noteq> []" and "\<forall>p \<in> set (ip_proto r). p < 0 \<or> 255 < p"
  shows "proto_allowed (compile_rule r) PROTO_TCP \<and> proto_allowed (compile_rule r) PROTO_UDP
    \<and> proto_allowed (compile_rule r) PROTO_ICMP \<and> proto_allowed (compile_rule r) PROTO_ICMPV6"
proof -
  have "\<forall>p \<in> set (ip_proto r). u8_try_from p = None" using assms(2) by (auto simp: u8_try_from_def)
  then show ?thesis unfolding proto_allowed_compile by simp
qed

theorem out_of_range_protocols_widen_witness:
  "proto_allowed (compile_rule \<lparr>src_ips = [''*''], dst_ports = [], ip_proto = [256]\<rparr>) PROTO_UDP"
  using out_of_range_protocols_widen [of "\<lparr>src_ips = [''*''], dst_ports = [], ip_proto = [256]\<rparr>"] by simp

end
