(* ===== verification/Stun.thy ===== *)
theory Stun
  imports Net_Addr
begin

text \<open>
  STUN binding requests and responses (crates/tsnode/src/stun.rs): the request builder with
  its CRC-32 fingerprint, and the response parser with its attribute loop.
\<close>

definition MAGIC_COOKIE :: bytes where "MAGIC_COOKIE = [0x21, 0x12, 0xa4, 0x42]"
definition ATTR_MAPPED_ADDRESS :: u16 where "ATTR_MAPPED_ADDRESS = 0x0001"
definition ATTR_XOR_MAPPED_ADDRESS :: u16 where "ATTR_XOR_MAPPED_ADDRESS = 0x0020"
definition ATTR_XOR_MAPPED_ADDRESS_ALT :: u16 where "ATTR_XOR_MAPPED_ADDRESS_ALT = 0x8020"
definition ATTR_SOFTWARE :: u16 where "ATTR_SOFTWARE = 0x8022"
definition ATTR_FINGERPRINT :: u16 where "ATTR_FINGERPRINT = 0x8028"
definition STUN_HEADER_LEN :: nat where "STUN_HEADER_LEN = 20"
definition SOFTWARE :: bytes where "SOFTWARE = [0x74, 0x73, 0x6e, 0x6f, 0x64, 0x65]"

lemmas stun_consts = MAGIC_COOKIE_def ATTR_MAPPED_ADDRESS_def ATTR_XOR_MAPPED_ADDRESS_def
  ATTR_XOR_MAPPED_ADDRESS_ALT_def ATTR_SOFTWARE_def ATTR_FINGERPRINT_def STUN_HEADER_LEN_def
  SOFTWARE_def

section \<open>CRC-32\<close>

definition crc32_bit :: "u32 \<Rightarrow> u32" where
  "crc32_bit crc = (let mask = NOT (crc AND 1) + 1 in drop_bit 1 crc XOR (0xedb88320 AND mask))"

definition crc32_byte :: "u8 \<Rightarrow> u32 \<Rightarrow> u32" where
  "crc32_byte b crc = (crc32_bit ^^ 8) (crc XOR ucast b)"

definition crc32 :: "bytes \<Rightarrow> u32" where
  "crc32 data = NOT (fold crc32_byte data 0xffffffff)"

section \<open>Requests\<close>

definition pad4 :: "nat \<Rightarrow> nat" where
  "pad4 n = (n + 3) div 4 * 4"

definition stun_request :: "bytes \<Rightarrow> bytes" where
  "stun_request txid =
     (let software_padded = pad4 (length SOFTWARE);
          attrs_len = 4 + software_padded + 8;
          b = [0x00, 0x01] @ u16_to_be (word_of_nat attrs_len) @ MAGIC_COOKIE @ txid
              @ u16_to_be ATTR_SOFTWARE @ u16_to_be (word_of_nat (length SOFTWARE)) @ SOFTWARE;
          b = b @ replicate (STUN_HEADER_LEN + 4 + software_padded - length b) 0;
          fp = crc32 b XOR 0x5354554e
      in b @ u16_to_be ATTR_FINGERPRINT @ u16_to_be 4 @ u32_to_be fp)"

definition is_stun :: "bytes \<Rightarrow> bool" where
  "is_stun b \<longleftrightarrow> STUN_HEADER_LEN \<le> length b \<and> slice 4 8 b = MAGIC_COOKIE \<and> b ! 0 AND 0xc0 = 0"

section \<open>Responses\<close>

definition xor_bytes :: "bytes \<Rightarrow> bytes \<Rightarrow> bytes" where
  "xor_bytes a b = map2 (XOR) a b"

definition parse_mapped :: "bytes \<Rightarrow> bytes option \<Rightarrow> socket_addr option" where
  "parse_mapped v xtx =
     (if length v < 4 then None
      else
        let family = v ! 1;
            port0 = u16_from_be [v ! 2, v ! 3];
            port = (if xtx \<noteq> None then port0 XOR u16_from_be [MAGIC_COOKIE ! 0, MAGIC_COOKIE ! 1]
                    else port0)
        in if family = 0x01 \<and> 8 \<le> length v then
             (let o4 = slice 4 8 v;
                  o4 = (if xtx \<noteq> None then xor_bytes o4 MAGIC_COOKIE else o4)
              in Some (SocketAddr (V4 (u32_from_be o4)) port))
           else if family = 0x02 \<and> 20 \<le> length v then
             (let o16 = slice 4 20 v;
                  o16 = (case xtx of None \<Rightarrow> o16 | Some tx \<Rightarrow> xor_bytes o16 (MAGIC_COOKIE @ tx))
              in Some (SocketAddr (V6 (u128_from_be o16)) port))
           else None)"

text \<open>The attribute loop of \<open>parse_response\<close>: the value found, the fallback, or \<open>None\<close>.\<close>

function stun_attrs :: "bytes \<Rightarrow> bytes \<Rightarrow> socket_addr option \<Rightarrow> socket_addr option" where
  "stun_attrs txid attrs fallback =
     (if length attrs < 4 then fallback
      else
        let t = u16_from_be [attrs ! 0, attrs ! 1];
            l = unat (u16_from_be [attrs ! 2, attrs ! 3])
        in if length attrs < 4 + l then None
           else
             let v = slice 4 (4 + l) attrs;
                 rest = drop (min (4 + pad4 l) (length attrs)) attrs
             in if t = ATTR_XOR_MAPPED_ADDRESS \<or> t = ATTR_XOR_MAPPED_ADDRESS_ALT then
                  (case parse_mapped v (Some txid) of
                     Some a \<Rightarrow> Some a
                   | None \<Rightarrow> stun_attrs txid rest fallback)
                else if t = ATTR_MAPPED_ADDRESS then stun_attrs txid rest (parse_mapped v None)
                else stun_attrs txid rest fallback)"
  by pat_completeness auto
termination
  by (relation "measure (\<lambda>(txid, attrs, fb). length attrs)") auto

declare stun_attrs.simps [simp del]

definition parse_response :: "bytes \<Rightarrow> (bytes \<times> socket_addr) option" where
  "parse_response b =
     (if \<not> is_stun b \<or> b ! 0 \<noteq> 0x01 \<or> b ! 1 \<noteq> 0x01 then None
      else
        let txid = slice 8 20 b;
            attrs_len = unat (u16_from_be [b ! 2, b ! 3]);
            attrs = drop STUN_HEADER_LEN b
        in if length attrs < attrs_len then None
           else map_option (\<lambda>a. (txid, a)) (stun_attrs txid (take attrs_len attrs) None))"

section \<open>Responses as RFC 5389 builds them\<close>

definition stun_attr :: "u16 \<times> bytes \<Rightarrow> bytes" where
  "stun_attr = (\<lambda>(t, v). u16_to_be t @ u16_to_be (word_of_nat (length v)) @ v
     @ replicate (pad4 (length v) - length v) 0)"

fun xor_mapped_value :: "bytes \<Rightarrow> socket_addr \<Rightarrow> bytes" where
  "xor_mapped_value txid (Socket_Addr (V4 a) port _) =
     [0, 1] @ u16_to_be (port XOR 0x2112) @ xor_bytes (u32_to_be a) MAGIC_COOKIE"
| "xor_mapped_value txid (Socket_Addr (V6 a) port _) =
     [0, 2] @ u16_to_be (port XOR 0x2112) @ xor_bytes (u128_to_be a) (MAGIC_COOKIE @ txid)"

definition stun_success :: "bytes \<Rightarrow> (u16 \<times> bytes) list \<Rightarrow> bytes" where
  "stun_success txid attrs =
     (let body = concat (map stun_attr attrs)
      in [0x01, 0x01] @ u16_to_be (word_of_nat (length body)) @ MAGIC_COOKIE @ txid @ body)"

section \<open>Lemmas\<close>

lemma pad4_ge: "n \<le> pad4 n"
  unfolding pad4_def by arith

lemma length_xor_bytes [wire_simps]: "length (xor_bytes a b) = min (length a) (length b)"
  by (simp add: xor_bytes_def)

lemma xor_bytes_involution: "length a \<le> length b \<Longrightarrow> xor_bytes (xor_bytes a b) b = a"
proof (induction a b rule: list_induct2')
  case (4 x xs y ys)
  then show ?case by (simp add: xor_bytes_def xor.assoc)
qed (simp_all add: xor_bytes_def)

lemma u16_be_pair [simp]: "u16_from_be [u16_to_be w ! 0, u16_to_be w ! Suc 0] = w"
proof -
  have "[u16_to_be w ! 0, u16_to_be w ! Suc 0] = u16_to_be w"
    by (rule nth_equalityI) (auto simp: less_Suc_eq numeral_2_eq_2)
  then show ?thesis by simp
qed

lemma u16_to_be_pair: "\<exists>x y. u16_to_be w = [x, y]"
  by (simp add: u16_to_be_def numeral_2_eq_2)

lemma drop_4_Cons: "drop (4 + n) (a # b # c # d # xs) = drop n xs"
  by (simp add: numeral_eq_Suc)

lemma length_stun_attr: "length (stun_attr (t, v)) = 4 + pad4 (length v)"
  using pad4_ge [of "length v"] by (simp add: stun_attr_def)

lemma cookie16: "u16_from_be [MAGIC_COOKIE ! 0, MAGIC_COOKIE ! 1] = 0x2112"
  by (simp add: MAGIC_COOKIE_def u16_from_be_def)

lemma parse_mapped_xor:
  assumes "length txid = 12" and "sa_scope a = 0"
  shows "parse_mapped (xor_mapped_value txid a) (Some txid) = Some a"
proof (cases a)
  case (Socket_Addr ip port scope)
  have port: "u16_from_be [u16_to_be (port XOR 0x2112) ! 0, u16_to_be (port XOR 0x2112) ! Suc 0]
      XOR u16_from_be [MAGIC_COOKIE ! 0, MAGIC_COOKIE ! 1] = port"
    using cookie16 by (simp add: xor.assoc)
  obtain p q where pq: "u16_to_be (port XOR 0x2112) = [p, q]" using u16_to_be_pair by blast
  show ?thesis
  proof (cases ip)
    case (V4 x)
    have "xor_bytes (xor_bytes (u32_to_be x) MAGIC_COOKIE) MAGIC_COOKIE = u32_to_be x"
      by (rule xor_bytes_involution) (simp add: MAGIC_COOKIE_def)
    then show ?thesis
      using V4 Socket_Addr assms port pq
      by (simp add: parse_mapped_def SocketAddr_def slice_Cons slice_all length_xor_bytes MAGIC_COOKIE_def)
  next
    case (V6 x)
    have "xor_bytes (xor_bytes (u128_to_be x) (MAGIC_COOKIE @ txid)) (MAGIC_COOKIE @ txid) = u128_to_be x"
      using assms by (intro xor_bytes_involution) (simp add: MAGIC_COOKIE_def)
    then show ?thesis
      using V6 Socket_Addr assms port pq
      by (simp add: parse_mapped_def SocketAddr_def slice_Cons slice_all length_xor_bytes MAGIC_COOKIE_def)
  qed
qed

text \<open>One turn of the loop on a well-formed attribute.\<close>

lemma stun_attrs_step:
  assumes "length v < 65536"
  shows "stun_attrs txid (stun_attr (t, v) @ rest) fb =
     (if t = ATTR_XOR_MAPPED_ADDRESS \<or> t = ATTR_XOR_MAPPED_ADDRESS_ALT then
        (case parse_mapped v (Some txid) of
           Some a \<Rightarrow> Some a
         | None \<Rightarrow> stun_attrs txid rest fb)
      else if t = ATTR_MAPPED_ADDRESS then stun_attrs txid rest (parse_mapped v None)
      else stun_attrs txid rest fb)"
proof -
  obtain a b where ab: "u16_to_be t = [a, b]" using u16_to_be_pair by blast
  obtain c d where cd: "u16_to_be (word_of_nat (length v)) = [c, d]" using u16_to_be_pair by blast
  let ?pad = "replicate (pad4 (length v) - length v) (0 :: u8)"
  have attr: "stun_attr (t, v) @ rest = a # b # c # d # v @ ?pad @ rest"
    by (simp add: stun_attr_def ab cd)
  have t: "u16_from_be [a, b] = t" using from_to_bytes(1) [of t] ab by simp
  have l: "u16_from_be [c, d] = word_of_nat (length v)"
    using from_to_bytes(1) [of "word_of_nat (length v)"] cd by simp
  have ul: "unat (word_of_nat (length v) :: u16) = length v"
    using assms by (simp add: unat_of_nat)
  have v: "slice 4 (4 + length v) (a # b # c # d # v @ ?pad @ rest) = v"
    by (simp add: slice_def)
  have "drop (min (4 + pad4 (length v)) (length (a # b # c # d # v @ ?pad @ rest)))
      (a # b # c # d # v @ ?pad @ rest) = rest"
    using pad4_ge [of "length v"] by (simp add: min_def drop_4_Cons)
  then show ?thesis
    unfolding attr
    by (subst stun_attrs.simps) (simp add: t l ul v Let_def del: drop_append min_def)
qed

lemma stun_attrs_skip:
  assumes "\<forall>(t, v) \<in> set pre. length v < 65536
      \<and> t \<noteq> ATTR_XOR_MAPPED_ADDRESS \<and> t \<noteq> ATTR_XOR_MAPPED_ADDRESS_ALT"
  shows "\<exists>fb'. stun_attrs txid (concat (map stun_attr pre) @ rest) fb = stun_attrs txid rest fb'"
  using assms
proof (induction pre arbitrary: fb)
  case Nil
  then show ?case by auto
next
  case (Cons x pre)
  obtain t v where x: "x = (t, v)" by (cases x)
  have "stun_attrs txid (concat (map stun_attr (x # pre)) @ rest) fb =
      stun_attrs txid (concat (map stun_attr pre) @ rest)
        (if t = ATTR_MAPPED_ADDRESS then parse_mapped v None else fb)"
    using Cons.prems stun_attrs_step [of v txid t "concat (map stun_attr pre) @ rest" fb]
    by (simp add: x)
  then show ?case using Cons.IH [of "if t = ATTR_MAPPED_ADDRESS then parse_mapped v None else fb"]
      Cons.prems by auto
qed

lemma parse_response_success:
  assumes "length txid = 12" and "length (concat (map stun_attr attrs)) < 65536"
  shows "parse_response (stun_success txid attrs) =
    map_option (\<lambda>a. (txid, a)) (stun_attrs txid (concat (map stun_attr attrs)) None)"
proof -
  let ?body = "concat (map stun_attr attrs)"
  obtain c d where cd: "u16_to_be (word_of_nat (length ?body)) = [c, d]" using u16_to_be_pair by blast
  have l: "unat (u16_from_be [c, d]) = length ?body"
    using from_to_bytes(1) [of "word_of_nat (length ?body)"] cd assms(2) by (simp add: unat_of_nat)
  have msg: "stun_success txid attrs = 1 # 1 # c # d # MAGIC_COOKIE @ txid @ ?body"
    by (simp add: stun_success_def Let_def cd)
  have tx: "slice 8 20 (1 # 1 # c # d # MAGIC_COOKIE @ txid @ ?body) = txid"
    using assms(1) by (simp add: slice_def MAGIC_COOKIE_def)
  have body: "drop 20 (1 # 1 # c # d # MAGIC_COOKIE @ txid @ ?body) = ?body"
    using assms(1) by (simp add: MAGIC_COOKIE_def)
  have stun: "is_stun (1 # 1 # c # d # MAGIC_COOKIE @ txid @ ?body)"
    using assms(1) by (simp add: is_stun_def STUN_HEADER_LEN_def MAGIC_COOKIE_def slice_def)
  show ?thesis
    unfolding parse_response_def msg using stun tx body l
    by (simp add: Let_def STUN_HEADER_LEN_def del: length_concat)
qed

text \<open>Branch-free and branching CRC agree.\<close>

definition crc32_bit_ref :: "u32 \<Rightarrow> u32" where
  "crc32_bit_ref crc = (if odd crc then drop_bit 1 crc XOR 0xedb88320 else drop_bit 1 crc)"

definition crc32_ref :: "bytes \<Rightarrow> u32" where
  "crc32_ref data = NOT (fold (\<lambda>b crc. (crc32_bit_ref ^^ 8) (crc XOR ucast b)) data 0xffffffff)"

lemma crc32_bit_eq_ref: "crc32_bit crc = crc32_bit_ref crc"
  by (cases "odd crc") (simp_all add: crc32_bit_def crc32_bit_ref_def and_one_eq odd_iff_mod_2_eq_one)

section \<open>Properties\<close>

text \<open>
  C36: A binding success response whose attributes are well formed and contain an
  XOR-MAPPED-ADDRESS (standard or alternative type) for an address is parsed to the transaction id
  and exactly that address, whatever other attributes stand before (MAPPED-ADDRESS included) or
  after it.
\<close>

theorem stun_xor_mapped_roundtrip:
  assumes "length txid = 12" and "sa_scope a = 0"
    and "t = ATTR_XOR_MAPPED_ADDRESS \<or> t = ATTR_XOR_MAPPED_ADDRESS_ALT"
    and "\<forall>(u, v) \<in> set pre. length v < 65536
      \<and> u \<noteq> ATTR_XOR_MAPPED_ADDRESS \<and> u \<noteq> ATTR_XOR_MAPPED_ADDRESS_ALT"
    and "length (concat (map stun_attr (pre @ (t, xor_mapped_value txid a) # post))) < 65536"
  shows "parse_response (stun_success txid (pre @ (t, xor_mapped_value txid a) # post)) = Some (txid, a)"
proof -
  let ?v = "xor_mapped_value txid a"
  have lv: "length ?v < 65536" using assms(1)
    by (cases "(txid, a)" rule: xor_mapped_value.cases) (simp_all add: length_xor_bytes)
  obtain fb where "stun_attrs txid (concat (map stun_attr pre) @ stun_attr (t, ?v) @ concat (map stun_attr post)) None
      = stun_attrs txid (stun_attr (t, ?v) @ concat (map stun_attr post)) fb"
    using stun_attrs_skip [OF assms(4)] by blast
  also have "\<dots> = Some a"
    using assms(3) parse_mapped_xor [OF assms(1,2)] by (simp add: stun_attrs_step [OF lv])
  finally show ?thesis
    using parse_response_success [OF assms(1,5)] by simp
qed

theorem stun_xor_mapped_roundtrip_witness:
  "parse_response (stun_success (replicate 12 7)
     ([(ATTR_SOFTWARE, SOFTWARE)] @ (ATTR_XOR_MAPPED_ADDRESS,
        xor_mapped_value (replicate 12 7) (SocketAddr (V4 0x01020304) 41641)) # []))
   = Some (replicate 12 7, SocketAddr (V4 0x01020304) 41641)"
proof (rule stun_xor_mapped_roundtrip)
  show "length (concat (map stun_attr ([(ATTR_SOFTWARE, SOFTWARE)] @ (ATTR_XOR_MAPPED_ADDRESS,
        xor_mapped_value (replicate 12 7) (SocketAddr (V4 0x01020304) 41641)) # []))) < 65536"
    by code_simp
qed (simp_all add: SocketAddr_def stun_consts)

text \<open>
  The branch-free, bit-by-bit CRC of the request fingerprint equals the reference CRC-32
  (reflected polynomial 0xedb88320, conditional exclusive-or, initial and final complement).
\<close>

theorem crc32_equals_reference: "crc32 data = crc32_ref data"
proof -
  have "crc32_bit = crc32_bit_ref" by (rule ext) (rule crc32_bit_eq_ref)
  then have "crc32_byte = (\<lambda>b crc. (crc32_bit_ref ^^ 8) (crc XOR ucast b))"
    by (intro ext) (simp add: crc32_byte_def)
  then show ?thesis by (simp add: crc32_def crc32_ref_def)
qed

text \<open>
  A binding request is a 40-byte STUN message that carries the transaction id, declares exactly
  the 20 attribute bytes that follow its header, and ends with the fingerprint of what precedes it.
\<close>

theorem stun_request_shape:
  assumes "length txid = 12"
  shows "is_stun (stun_request txid) \<and> length (stun_request txid) = 40
    \<and> slice 8 20 (stun_request txid) = txid
    \<and> unat (u16_from_be (slice 2 4 (stun_request txid))) = length (drop STUN_HEADER_LEN (stun_request txid))
    \<and> drop 36 (stun_request txid) = u32_to_be (crc32 (take 32 (stun_request txid)) XOR 0x5354554e)"
proof -
  define hd where "hd = [0x00, 0x01] @ u16_to_be 20 @ MAGIC_COOKIE @ txid
      @ u16_to_be ATTR_SOFTWARE @ u16_to_be 6 @ SOFTWARE @ [0, 0]"
  have hd: "length hd = 32" using assms by (simp add: hd_def MAGIC_COOKIE_def SOFTWARE_def)
  have rep: "replicate 2 (0 :: u8) = [0, 0]" by (simp add: numeral_2_eq_2)
  have req: "stun_request txid = hd @ u16_to_be ATTR_FINGERPRINT @ u16_to_be 4 @ u32_to_be (crc32 hd XOR 0x5354554e)"
    using assms by (simp add: stun_request_def hd_def Let_def pad4_def SOFTWARE_def MAGIC_COOKIE_def
        STUN_HEADER_LEN_def rep)
  have u: "\<exists>x y. u16_to_be 20 = [x, y] \<and> u16_from_be [x, y] = 20" using u16_to_be_pair from_to_bytes(1) by metis
  then obtain x y where xy: "u16_to_be 20 = [x, y]" "u16_from_be [x, y] = 20" by blast
  have l: "length (stun_request txid) = 40" by (simp add: req hd)
  have "is_stun (stun_request txid)"
    unfolding is_stun_def using l by (simp add: STUN_HEADER_LEN_def) (simp add: req hd_def MAGIC_COOKIE_def xy slice_def)
  moreover have "slice 8 20 (stun_request txid) = txid"
    using assms by (simp add: req hd_def MAGIC_COOKIE_def xy slice_def)
  moreover have "slice 2 4 (stun_request txid) = [x, y]"
    by (simp add: req hd_def xy slice_def)
  moreover have "take 32 (stun_request txid) = hd" by (simp add: req hd)
  moreover have "drop 36 (stun_request txid) = u32_to_be (crc32 hd XOR 0x5354554e)"
    using hd by (simp add: req)
  ultimately show ?thesis using l xy(2) by (simp add: STUN_HEADER_LEN_def)
qed

theorem stun_request_shape_witness:
  "is_stun (stun_request (replicate 12 3)) \<and> length (stun_request (replicate 12 3)) = 40"
  using stun_request_shape [of "replicate 12 3"] by simp

end
