(* ===== verification/Disco.thy ===== *)
theory Disco
  imports Net_Addr Crypto
begin

text \<open>
  The disco NAT-traversal messages of crates/tsnode/src/disco.rs: ping, pong and call-me-maybe,
  their wire form, and the sealed packet between two disco keys. \<open>nonce\<close> is what
  \<^verbatim>\<open>random_array\<close> returned.
\<close>

section \<open>Messages\<close>

definition DISCO_MAGIC :: bytes where "DISCO_MAGIC = [0x54, 0x53, 0xf0, 0x9f, 0x92, 0xac]"
definition KEY_LEN :: nat where "KEY_LEN = 32"
definition NONCE_LEN :: nat where "NONCE_LEN = 24"
definition DISCO_HEADER_LEN :: nat where "DISCO_HEADER_LEN = length DISCO_MAGIC + KEY_LEN + NONCE_LEN"

definition TYPE_PING :: u8 where "TYPE_PING = 1"
definition TYPE_PONG :: u8 where "TYPE_PONG = 2"
definition TYPE_CALL_ME_MAYBE :: u8 where "TYPE_CALL_ME_MAYBE = 3"
definition DISCO_VERSION :: u8 where "DISCO_VERSION = 0"

lemmas disco_consts = DISCO_MAGIC_def KEY_LEN_def NONCE_LEN_def DISCO_HEADER_LEN_def
  TYPE_PING_def TYPE_PONG_def TYPE_CALL_ME_MAYBE_def DISCO_VERSION_def

datatype message =
    Ping bytes "bytes option"
  | Pong bytes socket_addr
  | CallMeMaybe "socket_addr list"

text \<open>\<^verbatim>\<open>to_ipv6_mapped\<close> and \<^verbatim>\<open>to_ipv4_mapped\<close> of \<^verbatim>\<open>std::net\<close> on octets.\<close>

definition v4_mapped_prefix :: bytes where
  "v4_mapped_prefix = replicate 10 0 @ [0xff, 0xff]"

definition to_ipv4_mapped :: "u128 \<Rightarrow> u32 option" where
  "to_ipv4_mapped a =
     (let o16 = u128_to_be a
      in if take 12 o16 = v4_mapped_prefix then Some (u32_from_be (drop 12 o16)) else None)"

fun ip16 :: "ip_addr \<Rightarrow> bytes" where
  "ip16 (V4 a) = v4_mapped_prefix @ u32_to_be a"
| "ip16 (V6 a) = u128_to_be a"

definition from_ip16 :: "bytes \<Rightarrow> ip_addr" where
  "from_ip16 b =
     (let v6 = u128_from_be b
      in case to_ipv4_mapped v6 of Some v4 \<Rightarrow> V4 v4 | None \<Rightarrow> V6 v6)"

definition ep_bytes :: "socket_addr \<Rightarrow> bytes" where
  "ep_bytes ep = ip16 (sa_ip ep) @ u16_to_be (sa_port ep)"

fun marshal :: "message \<Rightarrow> bytes" where
  "marshal (Ping txid node_key) =
     [TYPE_PING, DISCO_VERSION] @ txid @ (case node_key of None \<Rightarrow> [] | Some k \<Rightarrow> k)"
| "marshal (Pong txid src) = [TYPE_PONG, DISCO_VERSION] @ txid @ ep_bytes src"
| "marshal (CallMeMaybe endpoints) =
     [TYPE_CALL_ME_MAYBE, DISCO_VERSION] @ concat (map ep_bytes endpoints)"

text \<open>The first component of \<^verbatim>\<open>as_chunks\<close>: the whole chunks.\<close>

function as_chunks :: "nat \<Rightarrow> 'a list \<Rightarrow> 'a list list" where
  "as_chunks n xs = (if n = 0 \<or> length xs < n then [] else take n xs # as_chunks n (drop n xs))"
  by pat_completeness auto
termination
  by (relation "measure (\<lambda>(n, xs). length xs)") auto

declare as_chunks.simps [simp del]

definition ep_from :: "bytes \<Rightarrow> socket_addr" where
  "ep_from c = SocketAddr (from_ip16 (take 16 c)) (u16_from_be [c ! 16, c ! 17])"

definition disco_parse :: "bytes \<Rightarrow> message option" where
  "disco_parse p =
     (if length p < 2 then None
      else
        let t = p ! 0; ver = p ! 1; d = drop 2 p
        in if ver \<noteq> DISCO_VERSION then None
           else if t = TYPE_PING then
             (if length d < 12 then None
              else
                let txid = take 12 d;
                    node_key =
                      (if 12 + 32 \<le> length d then
                         (let k = slice 12 44 d in if k = replicate 32 0 then None else Some k)
                       else None)
                in Some (Ping txid node_key))
           else if t = TYPE_PONG then
             (if length d < 12 + 18 then None
              else
                let txid = take 12 d;
                    ip = from_ip16 (slice 12 28 d);
                    port = u16_from_be [d ! 28, d ! 29]
                in Some (Pong txid (SocketAddr ip port)))
           else if t = TYPE_CALL_ME_MAYBE then
             (if d = [] \<or> length d mod 18 \<noteq> 0 then None
              else Some (CallMeMaybe (map ep_from (as_chunks 18 d))))
           else None)"

section \<open>Sealed packets\<close>

definition is_disco :: "bytes \<Rightarrow> bool" where
  "is_disco p \<longleftrightarrow> DISCO_HEADER_LEN \<le> length p \<and> take (length DISCO_MAGIC) p = DISCO_MAGIC"

definition sender_key :: "bytes \<Rightarrow> bytes option" where
  "sender_key p =
     (if \<not> is_disco p then None
      else Some (slice (length DISCO_MAGIC) (length DISCO_MAGIC + KEY_LEN) p))"

definition disco_seal :: "prims \<Rightarrow> bytes \<Rightarrow> key_pair \<Rightarrow> bytes \<Rightarrow> message \<Rightarrow> bytes" where
  "disco_seal P nonce our_disco their_disco_pub msg =
     (let sealed = nacl_box_seal P (kp_secret our_disco) their_disco_pub nonce (marshal msg)
      in DISCO_MAGIC @ kp_public our_disco @ nonce @ sealed)"

definition disco_open :: "prims \<Rightarrow> key_pair \<Rightarrow> bytes \<Rightarrow> bytes \<Rightarrow> crypto_error + message" where
  "disco_open P our_disco sender_disco_pub p =
     (if \<not> is_disco p then Inl CryptoError
      else
        let nonce = slice (length DISCO_MAGIC + KEY_LEN) DISCO_HEADER_LEN p
        in case nacl_box_open P (kp_secret our_disco) sender_disco_pub nonce (drop DISCO_HEADER_LEN p) of
             Inl e \<Rightarrow> Inl e
           | Inr pt \<Rightarrow> (case disco_parse pt of Some m \<Rightarrow> Inr m | None \<Rightarrow> Inl CryptoError))"

definition unspecified_v4 :: socket_addr where
  "unspecified_v4 = SocketAddr (V4 0) 0"

section \<open>Lemmas\<close>

lemma length_ip16 [simp]: "length (ip16 ip) = 16"
  by (cases ip) (simp_all add: v4_mapped_prefix_def)

lemma length_ep_bytes [simp]: "length (ep_bytes ep) = 18"
  by (simp add: ep_bytes_def)

text \<open>
  The addresses a socket can report: scope 0 and not an IPv4-mapped IPv6 address (those are
  read back as IPv4).
\<close>

definition plain_addr :: "socket_addr \<Rightarrow> bool" where
  "plain_addr a \<longleftrightarrow> sa_scope a = 0
     \<and> (case sa_ip a of V4 _ \<Rightarrow> True | V6 x \<Rightarrow> to_ipv4_mapped x = None)"

fun msg_ok :: "message \<Rightarrow> bool" where
  "msg_ok (Ping txid k) \<longleftrightarrow> length txid = 12
     \<and> (case k of None \<Rightarrow> True | Some k \<Rightarrow> length k = 32 \<and> k \<noteq> replicate 32 0)"
| "msg_ok (Pong txid src) \<longleftrightarrow> length txid = 12 \<and> plain_addr src"
| "msg_ok (CallMeMaybe eps) \<longleftrightarrow> eps \<noteq> [] \<and> list_all plain_addr eps"

lemma from_ip16_ip16:
  assumes "case ip of V4 _ \<Rightarrow> True | V6 x \<Rightarrow> to_ipv4_mapped x = None"
  shows "from_ip16 (ip16 ip) = ip"
proof (cases ip)
  case (V4 a)
  have "length (v4_mapped_prefix @ u32_to_be a) = 16" by (simp add: v4_mapped_prefix_def)
  then have "to_ipv4_mapped (u128_from_be (v4_mapped_prefix @ u32_to_be a)) = Some a"
    unfolding to_ipv4_mapped_def to_from_be128
    by (simp add: to_from_be128 v4_mapped_prefix_def Let_def)
  then show ?thesis by (simp add: from_ip16_def V4)
next
  case (V6 x)
  then show ?thesis using assms by (simp add: from_ip16_def)
qed

lemma ep_from_bytes: "plain_addr ep \<Longrightarrow> ep_from (ep_bytes ep) = ep"
proof (cases ep)
  case (Socket_Addr ip port scope)
  assume ok: "plain_addr ep"
  have "[ep_bytes ep ! 16, ep_bytes ep ! 17] = u16_to_be port"
    by (rule nth_equalityI) (auto simp: Socket_Addr ep_bytes_def nth_append less_Suc_eq numeral_2_eq_2)
  then show ?thesis
    using ok from_ip16_ip16 [of ip]
    by (simp add: ep_from_def Socket_Addr plain_addr_def SocketAddr_def) (simp add: ep_bytes_def)
qed

lemma as_chunks_concat:
  "list_all (\<lambda>c. length c = n) cs \<Longrightarrow> 0 < n \<Longrightarrow> as_chunks n (concat cs) = cs"
  by (induction cs) (simp_all add: as_chunks.simps)

lemma as_chunks_eps: "as_chunks 18 (concat (map ep_bytes eps)) = map ep_bytes eps"
  by (rule as_chunks_concat) (simp_all add: list_all_iff)

lemma map_ep_from_bytes: "list_all plain_addr eps \<Longrightarrow> map ep_from (map ep_bytes eps) = eps"
  by (induction eps) (simp_all add: ep_from_bytes)

lemma length_eps: "length (concat (map ep_bytes eps)) = 18 * length eps"
  by (induction eps) simp_all

lemma disco_parse_marshal: "msg_ok m \<Longrightarrow> disco_parse (marshal m) = Some m"
proof (cases m)
  case (Ping txid k)
  assume "msg_ok m"
  then show ?thesis using Ping
    by (cases k) (simp_all add: disco_parse_def disco_consts Let_def slice_def)
next
  case (Pong txid src)
  assume ok: "msg_ok m"
  have "ep_from (ep_bytes src) = src" using ok Pong by (simp add: ep_from_bytes)
  then have "SocketAddr (from_ip16 (slice 12 28 (txid @ ep_bytes src)))
      (u16_from_be [(txid @ ep_bytes src) ! 28, (txid @ ep_bytes src) ! 29]) = src"
    using ok Pong by (simp add: ep_from_def slice_def nth_append)
  then show ?thesis using ok Pong by (simp add: disco_parse_def disco_consts Let_def)
next
  case (CallMeMaybe eps)
  assume ok: "msg_ok m"
  moreover have "concat (map ep_bytes eps) \<noteq> []"
    using length_eps [of eps] ok CallMeMaybe by (metis length_0_conv mult_is_0 msg_ok.simps(3) zero_neq_numeral)
  ultimately show ?thesis using CallMeMaybe length_eps [of eps]
    by (simp add: disco_parse_def disco_consts as_chunks_eps map_ep_from_bytes del: map_map concat_eq_Nil_conv length_concat)
qed

lemma plain_addr_from: "plain_addr (SocketAddr (from_ip16 b) port)"
  by (auto simp: plain_addr_def SocketAddr_def from_ip16_def Let_def split: option.splits)

lemma disco_parse_ok: "disco_parse p = Some m \<Longrightarrow> msg_ok m"
proof -
  have "length d mod 18 = 0 \<Longrightarrow> d \<noteq> [] \<Longrightarrow> as_chunks 18 d \<noteq> []" for d :: bytes
    by (subst as_chunks.simps) (auto simp: mod_eq_0_iff_dvd dest: dvd_imp_le)
  moreover have "list_all plain_addr (map ep_from cs)" for cs
    by (simp add: list_all_iff ep_from_def plain_addr_from)
  ultimately show "disco_parse p = Some m \<Longrightarrow> ?thesis"
    by (auto simp: disco_parse_def Let_def plain_addr_from length_slice split: if_splits)
qed

section \<open>Properties\<close>

text \<open>
  C27: Every well-formed disco message is read back from its wire form: transaction id, node key,
  source address and every call-me-maybe endpoint in order. The messages the parser returns are
  well formed, so what was received can be sent on unchanged.
\<close>

theorem disco_message_roundtrip:
  "(msg_ok m \<longrightarrow> disco_parse (marshal m) = Some m) \<and> (disco_parse p = Some m' \<longrightarrow> msg_ok m')"
  using disco_parse_marshal disco_parse_ok by blast

theorem disco_message_roundtrip_witness:
  "disco_parse (marshal (Pong (replicate 12 5) (SocketAddr (V4 0x0a000001) 41641)))
     = Some (Pong (replicate 12 5) (SocketAddr (V4 0x0a000001) 41641))"
  using disco_message_roundtrip [of "Pong (replicate 12 5) (SocketAddr (V4 0x0a000001) 41641)" "[]"]
  by (simp add: plain_addr_def SocketAddr_def)

text \<open>
  A disco packet sealed to a peer names its sender and is opened by that peer to the message
  that was sealed.
\<close>

theorem disco_seal_open:
  assumes "box_ok P" and "dh_ok P" and "length sa = 32" and "length sb = 32" and "length nonce = 24"
    and "msg_ok m"
  shows "sender_key (disco_seal P nonce (kp_from_secret P sa) (x25519_public P sb) m) = Some (x25519_public P sa)
    \<and> disco_open P (kp_from_secret P sb) (x25519_public P sa)
        (disco_seal P nonce (kp_from_secret P sa) (x25519_public P sb) m) = Inr m"
proof -
  let ?pk = "x25519_public P sa" and ?ct = "salsa_seal P (dh_base P sb) sa nonce (marshal m)"
  define p where "p = disco_seal P nonce (kp_from_secret P sa) (x25519_public P sb) m"
  have p: "p = DISCO_MAGIC @ ?pk @ nonce @ ?ct"
    by (simp add: p_def disco_seal_def kp_from_secret_def nacl_box_seal_def x25519_public_def)
  have pk: "length ?pk = 32" using assms by simp
  have ct: "salsa_open P (dh_base P sa) sb nonce ?ct = Some (marshal m)" "length ?ct = length (marshal m) + 16"
    using assms unfolding box_ok_def by blast+
  have cst: "length DISCO_MAGIC = 6" "DISCO_HEADER_LEN = 62" "KEY_LEN = 32"
    by (simp_all add: disco_consts)
  have layout: "is_disco p" "slice 38 62 p = nonce" "drop 62 p = ?ct" "slice 6 38 p = ?pk"
    using pk assms(5) by (simp_all add: p is_disco_def slice_def cst)
  have "sender_key p = Some ?pk" using layout by (simp add: sender_key_def cst)
  moreover have "disco_open P (kp_from_secret P sb) ?pk p = Inr m"
    using layout ct disco_parse_marshal [OF assms(6)]
    by (simp add: disco_open_def nacl_box_open_def kp_from_secret_def x25519_public_def cst TAG_LEN_def)
  ultimately show ?thesis unfolding p_def ..
qed

theorem disco_seal_open_witness:
  "disco_open demo_prims (kp_from_secret demo_prims (replicate 32 2)) (x25519_public demo_prims (replicate 32 1))
     (disco_seal demo_prims (replicate 24 9) (kp_from_secret demo_prims (replicate 32 1))
        (x25519_public demo_prims (replicate 32 2)) (Ping (replicate 12 5) None))
   = Inr (Ping (replicate 12 5) None)"
  using disco_seal_open [OF crypto_okD(4) crypto_okD(3), OF demo_prims_ok demo_prims_ok,
      of "replicate 32 1" "replicate 32 2" "replicate 24 9" "Ping (replicate 12 5) None"]
  by simp

end
