(* ===== verification/Conn.thy ===== *)
theory Conn
  imports Net_Addr
begin

text \<open>
  Byte streams as the sources use them (crates/tsnode/src/net.rs, \<^verbatim>\<open>Conn\<close>): a blocking
  \<^verbatim>\<open>read\<close> into a buffer of given size and \<^verbatim>\<open>write_all\<close>. Trait objects behind
  \<^verbatim>\<open>Conn\<close> are supplied by the platform, so a connection is the sequence of results its reads
  will return and the bytes written to it. The locale \<open>byte_source\<close> is what the protocol code
  relies on: reads deliver the pending bytes in order, in pieces of any size.
\<close>

section \<open>Connections\<close>

record conn =
  cn_in :: "read_ev list"
  cn_out :: bytes
  cn_werr :: "io_kind option"

text \<open>
  A read returns at most \<open>cap\<close> bytes of the next piece; the end of the stream persists; when
  nothing more arrives the read times out.
\<close>

definition conn_read :: "nat \<Rightarrow> conn \<Rightarrow> (io_kind + bytes) \<times> conn" where
  "conn_read cap c =
     (case cn_in c of
        [] \<Rightarrow> (Inl TimedOut, c)
      | RdErr k # r \<Rightarrow> (Inl k, c\<lparr>cn_in := r\<rparr>)
      | RdOk b # r \<Rightarrow>
          (if b = [] then (Inr [], c)
           else if length b \<le> cap then (Inr b, c\<lparr>cn_in := r\<rparr>)
           else (Inr (take cap b), c\<lparr>cn_in := RdOk (drop cap b) # r\<rparr>)))"

definition conn_write_all :: "bytes \<Rightarrow> conn \<Rightarrow> (io_kind + unit) \<times> conn" where
  "conn_write_all b c =
     (case cn_werr c of
        Some k \<Rightarrow> (Inl k, c)
      | None \<Rightarrow> (Inr (), c\<lparr>cn_out := cn_out c @ b\<rparr>))"

text \<open>
  \<^verbatim>\<open>Read::read_exact\<close> of the standard library over a reader \<open>rd\<close>: reads until \<open>n\<close> bytes are there;
  on an error what was read so far is gone.
\<close>

function read_exact :: "(nat \<Rightarrow> 's \<Rightarrow> (io_kind + bytes) \<times> 's) \<Rightarrow> nat \<Rightarrow> 's \<Rightarrow> (io_kind + bytes) \<times> 's" where
  "read_exact rd n s =
     (if n = 0 then (Inr [], s)
      else case rd n s of
        (Inl e, s) \<Rightarrow> (Inl e, s)
      | (Inr b, s) \<Rightarrow>
          (if b = [] then (Inl UnexpectedEof, s)
           else case read_exact rd (n - length b) s of
             (Inl e, s) \<Rightarrow> (Inl e, s)
           | (Inr r, s) \<Rightarrow> (Inr (b @ r), s)))"
  by pat_completeness auto
termination
  by (relation "measure (\<lambda>(rd, n, s). n)") (auto simp flip: length_greater_0_conv)

declare read_exact.simps [simp del]

definition is_timeout :: "io_kind \<Rightarrow> bool" where
  "is_timeout k \<longleftrightarrow> k = WouldBlock \<or> k = TimedOut"

text \<open>
  \<^verbatim>\<open>connect_tcp\<close>: the resolved addresses, IPv4 first (a stable sort), tried in turn until
  one connects; \<open>connect\<close> is the platform's \<^verbatim>\<open>TcpStream::connect_timeout\<close>.
\<close>

fun connect_loop :: "(socket_addr \<Rightarrow> io_kind + 'c) \<Rightarrow> io_kind \<Rightarrow> socket_addr list \<Rightarrow> io_kind + 'c" where
  "connect_loop connect last_e [] = Inl last_e"
| "connect_loop connect last_e (a # as) =
     (case connect a of Inr s \<Rightarrow> Inr s | Inl e \<Rightarrow> connect_loop connect e as)"

definition connect_tcp ::
    "(string \<Rightarrow> u16 \<Rightarrow> io_kind + socket_addr list) \<Rightarrow> (socket_addr \<Rightarrow> io_kind + 'c)
      \<Rightarrow> string \<Rightarrow> u16 \<Rightarrow> io_kind + 'c" where
  "connect_tcp resolve connect host port =
     (case resolve host port of
        Inl e \<Rightarrow> Inl e
      | Inr addrs \<Rightarrow>
          connect_loop connect NotFound
            (sort_key (\<lambda>a. if is_ipv4 (sa_ip a) then 0 else (1 :: nat)) addrs))"

section \<open>Sources of bytes\<close>

locale byte_source =
  fixes rd :: "nat \<Rightarrow> 's \<Rightarrow> (io_kind + bytes) \<times> 's"
    and pending :: "'s \<Rightarrow> bytes"
    and clean :: "'s \<Rightarrow> bool"
  assumes read_some: "clean s \<Longrightarrow> pending s \<noteq> [] \<Longrightarrow> 0 < cap \<Longrightarrow>
    \<exists>b s'. rd cap s = (Inr b, s') \<and> b \<noteq> [] \<and> length b \<le> cap
      \<and> pending s = b @ pending s' \<and> clean s'"
begin

lemma read_exact_reads:
  assumes "clean s" "n \<le> length (pending s)"
  shows "\<exists>s'. read_exact rd n s = (Inr (take n (pending s)), s') \<and> pending s' = drop n (pending s) \<and> clean s'"
  using assms
proof (induction n arbitrary: s rule: less_induct)
  case (less n)
  show ?case
  proof (cases "n = 0")
    case True
    then show ?thesis using less.prems by (simp add: read_exact.simps)
  next
    case False
    then have "pending s \<noteq> []" using less.prems(2) by auto
    then obtain b s1 where b: "rd n s = (Inr b, s1)" "b \<noteq> []" "length b \<le> n" "pending s = b @ pending s1" "clean s1"
      using read_some [OF less.prems(1), of n] False by auto
    have "n - length b < n" "n - length b \<le> length (pending s1)" using False b(2) less.prems(2) b(4) by simp_all
    then obtain s2 where "read_exact rd (n - length b) s1 = (Inr (take (n - length b) (pending s1)), s2)"
        "pending s2 = drop (n - length b) (pending s1)" "clean s2"
      using less.IH [of "n - length b" s1] b(5) by blast
    then show ?thesis using False b by (subst read_exact.simps) simp
  qed
qed

end

fun ev_bytes :: "read_ev \<Rightarrow> bytes" where
  "ev_bytes (RdOk b) = b"
| "ev_bytes (RdErr k) = []"

fun ev_clean :: "read_ev \<Rightarrow> bool" where
  "ev_clean (RdOk b) \<longleftrightarrow> b \<noteq> []"
| "ev_clean (RdErr k) \<longleftrightarrow> False"

definition conn_pending :: "conn \<Rightarrow> bytes" where
  "conn_pending c = concat (map ev_bytes (cn_in c))"

definition conn_clean :: "conn \<Rightarrow> bool" where
  "conn_clean c \<longleftrightarrow> list_all ev_clean (cn_in c)"

lemma conn_read_some:
  assumes "conn_clean c" "conn_pending c \<noteq> []" "0 < cap"
  shows "\<exists>b c'. conn_read cap c = (Inr b, c') \<and> b \<noteq> [] \<and> length b \<le> cap
      \<and> conn_pending c = b @ conn_pending c' \<and> conn_clean c'"
proof (cases "cn_in c")
  case Nil
  then show ?thesis using assms by (simp add: conn_pending_def)
next
  case (Cons e r)
  then show ?thesis using assms
    by (cases e) (auto simp: conn_pending_def conn_clean_def conn_read_def)
qed

interpretation cs: byte_source conn_read conn_pending conn_clean
  by unfold_locales (rule conn_read_some)

text \<open>The connection made of given pieces.\<close>

definition conn_of :: "bytes list \<Rightarrow> conn" where
  "conn_of cs = \<lparr>cn_in = map RdOk cs, cn_out = [], cn_werr = None\<rparr>"

lemma conn_of_pending: "conn_pending (conn_of cs) = concat cs"
  by (simp add: conn_pending_def conn_of_def comp_def)

lemma conn_of_clean: "[] \<notin> set cs \<Longrightarrow> conn_clean (conn_of cs)"
  by (auto simp: conn_clean_def conn_of_def list_all_iff)

text \<open>Reading uses up the pieces: the measure that ends the read loops.\<close>

definition conn_size :: "conn \<Rightarrow> nat" where
  "conn_size c = sum_list (map (\<lambda>e. Suc (length (ev_bytes e))) (cn_in c))"

lemma conn_read_size:
  assumes "conn_read cap c = (Inr b, c')" "b \<noteq> []"
  shows "conn_size c' < conn_size c"
  using assms
  by (cases "cn_in c"; cases "hd (cn_in c)")
    (auto simp: conn_read_def conn_size_def split: read_ev.splits if_splits)

end
