(* ===== verification/Http1.thy ===== *)
theory Http1
  imports Conn "HOL-Library.Sublist"
begin

text \<open>
  The HTTP/1.1 helpers of crates/tsnode/src/http1.rs. A reader is a function \<open>rd\<close> of the size of
  the buffer and its state, as \<^verbatim>\<open>Read::read\<close> is; every loop is total for every reader. Text
  is the list of its bytes; \<open>um\<close> is the number of values of \<^verbatim>\<open>usize\<close> on the target
  (\<open>2^32\<close> on the ESP32, \<open>2^64\<close> on hosts). \<open>None\<close> is a panic.
\<close>

section \<open>Text\<close>

definition str_bytes :: "string \<Rightarrow> bytes" where
  "str_bytes s = map of_char s"

definition bytes_str :: "bytes \<Rightarrow> string" where
  "bytes_str b = map (\<lambda>x. char_of (unat x)) b"

lemma bytes_str_bytes [simp]: "bytes_str (str_bytes s) = s"
proof (induction s)
  case (Cons c s)
  have "(of_char c :: u8) = of_nat (of_char c)" by (simp add: of_char_def)
  moreover have "(of_char c :: nat) < 256" by (cases c) simp
  ultimately have "unat (of_char c :: u8) = of_char c" by (simp only: unat_of_nat) simp
  then show ?case using Cons by (simp add: bytes_str_def str_bytes_def)
qed (simp add: bytes_str_def str_bytes_def)

lemma length_bytes_str [simp]: "length (bytes_str b) = length b" "length (str_bytes s) = length s"
  by (simp_all add: bytes_str_def str_bytes_def)

text \<open>\<^verbatim>\<open>str::from_utf8\<close> succeeds on these byte strings.\<close>

definition is_cont :: "u8 \<Rightarrow> bool" where
  "is_cont b \<longleftrightarrow> 0x80 \<le> b \<and> b \<le> 0xbf"

fun valid_utf8 :: "bytes \<Rightarrow> bool" where
  "valid_utf8 [] = True"
| "valid_utf8 (b0 # r) =
     (if b0 < 0x80 then valid_utf8 r
      else if 0xc2 \<le> b0 \<and> b0 \<le> 0xdf then
        (case r of b1 # r' \<Rightarrow> is_cont b1 \<and> valid_utf8 r' | _ \<Rightarrow> False)
      else if 0xe0 \<le> b0 \<and> b0 \<le> 0xef then
        (case r of
           b1 # b2 # r' \<Rightarrow>
             (if b0 = 0xe0 then 0xa0 \<le> b1 \<and> b1 \<le> 0xbf
              else if b0 = 0xed then 0x80 \<le> b1 \<and> b1 \<le> 0x9f else is_cont b1)
             \<and> is_cont b2 \<and> valid_utf8 r'
         | _ \<Rightarrow> False)
      else if 0xf0 \<le> b0 \<and> b0 \<le> 0xf4 then
        (case r of
           b1 # b2 # b3 # r' \<Rightarrow>
             (if b0 = 0xf0 then 0x90 \<le> b1 \<and> b1 \<le> 0xbf
              else if b0 = 0xf4 then 0x80 \<le> b1 \<and> b1 \<le> 0x8f else is_cont b1)
             \<and> is_cont b2 \<and> is_cont b3 \<and> valid_utf8 r'
         | _ \<Rightarrow> False)
      else False)"

lemma valid_utf8_ascii: "list_all (\<lambda>b. b < 0x80) bs \<Longrightarrow> valid_utf8 bs"
  by (induction bs) simp_all

text \<open>
  \<^verbatim>\<open>String::from_utf8_lossy\<close>: each maximal piece of an invalid sequence becomes U+FFFD.
  \<open>utf8_step\<close> says whether the text starts with a character, and how long that character or
  invalid piece is.
\<close>

fun utf8_step :: "bytes \<Rightarrow> bool \<times> nat" where
  "utf8_step [] = (True, 1)"
| "utf8_step (b0 # r) =
     (let b1 = (if r = [] then 0 else r ! 0);
          b2 = (if length r < 2 then 0 else r ! 1);
          b3 = (if length r < 3 then 0 else r ! 2)
      in if b0 < 0x80 then (True, 1)
         else if 0xc2 \<le> b0 \<and> b0 \<le> 0xdf then (if is_cont b1 then (True, 2) else (False, 1))
         else if 0xe0 \<le> b0 \<and> b0 \<le> 0xef then
           (if \<not> (if b0 = 0xe0 then 0xa0 \<le> b1 \<and> b1 \<le> 0xbf
                 else if b0 = 0xed then 0x80 \<le> b1 \<and> b1 \<le> 0x9f else is_cont b1) then (False, 1)
            else if is_cont b2 then (True, 3) else (False, 2))
         else if 0xf0 \<le> b0 \<and> b0 \<le> 0xf4 then
           (if \<not> (if b0 = 0xf0 then 0x90 \<le> b1 \<and> b1 \<le> 0xbf
                 else if b0 = 0xf4 then 0x80 \<le> b1 \<and> b1 \<le> 0x8f else is_cont b1) then (False, 1)
            else if \<not> is_cont b2 then (False, 2)
            else if is_cont b3 then (True, 4) else (False, 3))
         else (False, 1))"

function from_utf8_lossy :: "bytes \<Rightarrow> string" where
  "from_utf8_lossy b =
     (if b = [] then []
      else (case utf8_step b of
              (valid, n) \<Rightarrow>
                (if valid then bytes_str (take n b) else bytes_str [0xef, 0xbf, 0xbd])
                @ from_utf8_lossy (drop (max n 1) b)))"
  by pat_completeness auto
termination
  by (relation "measure length") auto

declare from_utf8_lossy.simps [simp del]

definition to_ascii_lowercase :: "char \<Rightarrow> char" where
  "to_ascii_lowercase c =
     (let n = of_char c :: nat in if 65 \<le> n \<and> n \<le> 90 then char_of (n + 32) else c)"

definition eq_ignore_ascii_case :: "string \<Rightarrow> string \<Rightarrow> bool" where
  "eq_ignore_ascii_case a b \<longleftrightarrow> map to_ascii_lowercase a = map to_ascii_lowercase b"

text \<open>\<^verbatim>\<open>windows(n).position(|w| w == pat)\<close> for a pattern of length \<open>n\<close>.\<close>

fun find_sub :: "'a list \<Rightarrow> 'a list \<Rightarrow> nat option" where
  "find_sub w [] = None"
| "find_sub w (x # xs) =
     (if take (length w) (x # xs) = w then Some 0 else map_option Suc (find_sub w xs))"

definition CR :: u8 where "CR = 13"
definition LF :: u8 where "LF = 10"
definition CRLF :: bytes where "CRLF = [CR, LF]"

text \<open>\<^verbatim>\<open>split("\r\n")\<close>: always at least one piece.\<close>

fun split_crlf :: "string \<Rightarrow> string list" where
  "split_crlf [] = [[]]"
| "split_crlf [a] = [[a]]"
| "split_crlf (a # b # r) =
     (if a = CHR 0x0D \<and> b = CHR 0x0A then [] # split_crlf r
      else case split_crlf (b # r) of [] \<Rightarrow> [[a]] | l # ls \<Rightarrow> (a # l) # ls)"

fun split_by :: "(char \<Rightarrow> bool) \<Rightarrow> string \<Rightarrow> string list" where
  "split_by p [] = [[]]"
| "split_by p (c # cs) =
     (if p c then [] # split_by p cs
      else case split_by p cs of [] \<Rightarrow> [[c]] | l # ls \<Rightarrow> (c # l) # ls)"

definition split_whitespace :: "string \<Rightarrow> string list" where
  "split_whitespace s = filter (\<lambda>w. w \<noteq> []) (split_by is_ws s)"

section \<open>Response heads\<close>

record response_head =
  rh_status :: nat
  rh_headers :: "(string \<times> string) list"
  rh_leftover :: bytes

definition rh_header :: "string \<Rightarrow> response_head \<Rightarrow> string option" where
  "rh_header name h =
     map_option snd (find (\<lambda>(k, v). eq_ignore_ascii_case k name) (rh_headers h))"

definition find_head_end :: "bytes \<Rightarrow> nat option" where
  "find_head_end buf = find_sub (CRLF @ CRLF) buf"

definition header_line :: "string \<Rightarrow> (string \<times> string) option" where
  "header_line line =
     map_option (\<lambda>(k, v). (trim k, trim v)) (split_once CHR '':'' line)"

definition parse_head :: "bytes \<Rightarrow> io_kind + (nat \<times> (string \<times> string) list)" where
  "parse_head hd_bytes =
     (if \<not> valid_utf8 hd_bytes then Inl InvalidData
      else
        let lines = split_crlf (bytes_str hd_bytes);
            words = split_whitespace (hd lines)
        in case (if 1 < length words then parse_uint 65536 (words ! 1) else None) of
             None \<Rightarrow> Inl InvalidData
           | Some status \<Rightarrow> Inr (status, List.map_filter header_line (tl lines)))"

text \<open>The read loop: the buffer and where its head ends.\<close>

function head_loop ::
    "(nat \<Rightarrow> 's \<Rightarrow> (io_kind + bytes) \<times> 's) \<Rightarrow> bytes \<Rightarrow> 's \<Rightarrow> (io_kind + bytes \<times> nat) \<times> 's" where
  "head_loop rd buf s =
     (case rd 256 s of
        (Inl e, s) \<Rightarrow> (Inl e, s)
      | (Inr b, s) \<Rightarrow>
          (if b = [] then (Inl UnexpectedEof, s)
           else
             let buf = buf @ b
             in case find_head_end buf of
                  Some pos \<Rightarrow> (Inr (buf, pos), s)
                | None \<Rightarrow>
                    (if 16 * 1024 < length buf then (Inl InvalidData, s)
                     else head_loop rd buf s)))"
  by pat_completeness auto
termination
  by (relation "measure (\<lambda>(rd, buf, s). Suc (16 * 1024) - length buf)") (auto simp flip: length_greater_0_conv)

declare head_loop.simps [simp del]

definition read_response_head ::
    "(nat \<Rightarrow> 's \<Rightarrow> (io_kind + bytes) \<times> 's) \<Rightarrow> 's \<Rightarrow> (io_kind + response_head) \<times> 's" where
  "read_response_head rd s =
     (case head_loop rd [] s of
        (Inl e, s) \<Rightarrow> (Inl e, s)
      | (Inr (buf, end), s) \<Rightarrow>
          (case parse_head (take end buf) of
             Inl e \<Rightarrow> (Inl e, s)
           | Inr (status, headers) \<Rightarrow>
               (Inr \<lparr>rh_status = status, rh_headers = headers, rh_leftover = drop (end + 4) buf\<rparr>, s)))"

section \<open>Bodies\<close>

function dechunk_loop :: "nat \<Rightarrow> bytes \<Rightarrow> nat \<Rightarrow> bytes \<Rightarrow> (io_kind + bytes) option" where
  "dechunk_loop um raw pos out =
     (if length raw < pos then None
      else case find_sub CRLF (drop pos raw) of
        None \<Rightarrow> Some (Inl InvalidData)
      | Some line_end \<Rightarrow>
          (let line = slice pos (pos + line_end) raw;
               size_str = (if valid_utf8 line then bytes_str line else [])
           in case from_str_radix 16 um (trim (hd (split_by (\<lambda>c. c = CHR '';'') size_str))) of
                None \<Rightarrow> Some (Inl InvalidData)
              | Some sz \<Rightarrow>
                  (let pos = pos + line_end + 2
                   in if sz = 0 then Some (Inr out)
                      else if um \<le> pos + sz then None
                      else if length raw < pos + sz then Some (Inl InvalidData)
                      else dechunk_loop um raw (pos + sz + 2) (out @ slice pos (pos + sz) raw))))"
  by pat_completeness auto
termination
  by (relation "measure (\<lambda>(um, raw, pos, out). Suc (length raw) - pos)") auto

declare dechunk_loop.simps [simp del]

definition dechunk :: "nat \<Rightarrow> bytes \<Rightarrow> (io_kind + bytes) option" where
  "dechunk um raw = dechunk_loop um raw 0 []"

function length_loop ::
    "(nat \<Rightarrow> 's \<Rightarrow> (io_kind + bytes) \<times> 's) \<Rightarrow> nat \<Rightarrow> bytes \<Rightarrow> 's \<Rightarrow> (io_kind + bytes) \<times> 's" where
  "length_loop rd len body s =
     (if length body < len then
        (case rd 1024 s of
           (Inl e, s) \<Rightarrow> (Inl e, s)
         | (Inr b, s) \<Rightarrow>
             (if b = [] then (Inr body, s) else length_loop rd len (body @ b) s))
      else (Inr body, s))"
  by pat_completeness auto
termination
  by (relation "measure (\<lambda>(rd, len, body, s). len - length body)") (auto simp flip: length_greater_0_conv)

declare length_loop.simps [simp del]

definition ends_with :: "bytes \<Rightarrow> bytes \<Rightarrow> bool" where
  "ends_with raw suf \<longleftrightarrow> length suf \<le> length raw \<and> drop (length raw - length suf) raw = suf"

text \<open>The two loops that read until the end of the stream, the chunked one also until the last chunk.\<close>

function eof_loop ::
    "(bytes \<Rightarrow> bool) \<Rightarrow> (nat \<Rightarrow> 's \<Rightarrow> (io_kind + bytes) \<times> 's) \<Rightarrow> nat \<Rightarrow> bytes \<Rightarrow> 's
      \<Rightarrow> (io_kind + bytes) \<times> 's" where
  "eof_loop stop rd mx body s =
     (case rd 1024 s of
        (Inl e, s) \<Rightarrow> (Inl e, s)
      | (Inr b, s) \<Rightarrow>
          (if b = [] then (Inr body, s)
           else
             let body = body @ b
             in if mx < length body then (Inl InvalidData, s)
                else if stop body then (Inr body, s)
                else eof_loop stop rd mx body s))"
  by pat_completeness auto
termination
  by (relation "measure (\<lambda>(stop, rd, mx, body, s). Suc mx - length body)") (auto simp flip: length_greater_0_conv)

declare eof_loop.simps [simp del]

definition read_body ::
    "nat \<Rightarrow> (nat \<Rightarrow> 's \<Rightarrow> (io_kind + bytes) \<times> 's) \<Rightarrow> response_head \<Rightarrow> nat \<Rightarrow> 's
      \<Rightarrow> ((io_kind + bytes) \<times> 's) option" where
  "read_body um rd head mx s =
     (let body = rh_leftover head
      in case Option.bind (rh_header ''content-length'' head) (parse_uint um) of
           Some len \<Rightarrow>
             (if mx < len then Some (Inl InvalidData, s)
              else case length_loop rd len body s of
                (Inl e, s) \<Rightarrow> Some (Inl e, s)
              | (Inr body, s) \<Rightarrow> Some (Inr (take len body), s))
         | None \<Rightarrow>
             (if (case rh_header ''transfer-encoding'' head of
                    None \<Rightarrow> False | Some v \<Rightarrow> eq_ignore_ascii_case v ''chunked'')
              then
                (case eof_loop (\<lambda>raw. ends_with raw (str_bytes ''0'' @ CRLF @ CRLF)) rd mx body s of
                   (Inl e, s) \<Rightarrow> Some (Inl e, s)
                 | (Inr raw, s) \<Rightarrow> map_option (\<lambda>r. (r, s)) (dechunk um raw))
              else Some (eof_loop (\<lambda>_. False) rd mx body s)))"

section \<open>Requests\<close>

text \<open>\<^verbatim>\<open>to_string\<close> of a natural number, and of a signed one.\<close>

function dec_string :: "nat \<Rightarrow> string" where
  "dec_string n =
     (if n < 10 then [char_of (48 + n)] else dec_string (n div 10) @ [char_of (48 + n mod 10)])"
  by pat_completeness auto
termination
  by (relation "measure id") auto

declare dec_string.simps [simp del]

definition i32_string :: "int \<Rightarrow> string" where
  "i32_string r = (if r < 0 then ''-'' @ dec_string (nat (- r)) else dec_string (nat r))"

lemma digits_value_append:
  "digits_value 10 bound acc (ds @ [c]) = (case digits_value 10 bound acc ds of None \<Rightarrow> None | Some v \<Rightarrow> digits_value 10 bound v [c])"
  by (induction ds arbitrary: acc) (auto split: option.split)

lemma to_digit_char: "n < 10 \<Longrightarrow> to_digit 10 (char_of (48 + n)) = Some n"
  by (simp add: to_digit_def Let_def)

lemma dec_string_digits: "n < bound \<Longrightarrow> digits_value 10 bound 0 (dec_string n) = Some n"
proof (induction n rule: dec_string.induct)
  case (1 n)
  show ?case
  proof (cases "n < 10")
    case True
    then show ?thesis using 1(2) by (subst dec_string.simps) (simp add: to_digit_char)
  next
    case False
    have "n div 10 < bound" using 1(2) by (meson div_le_dividend le_less_trans)
    then have "digits_value 10 bound 0 (dec_string (n div 10)) = Some (n div 10)" using 1(1) False by blast
    moreover have "n div 10 * 10 + n mod 10 = n" by simp
    ultimately show ?thesis using False 1(2)
      by (subst dec_string.simps) (simp add: digits_value_append to_digit_char)
  qed
qed

lemma dec_string_chars: "c \<in> set (dec_string n) \<Longrightarrow> 48 \<le> (of_char c :: nat) \<and> (of_char c :: nat) \<le> 57"
proof (induction n rule: dec_string.induct)
  case (1 n)
  have "n mod 10 < 10" by simp
  then show ?case using 1 by (subst (asm) (2) dec_string.simps) (auto split: if_splits)
qed

lemma dec_string_no:
  "CHR '':'' \<notin> set (dec_string n)" "CHR ''/'' \<notin> set (dec_string n)" "CHR '']'' \<notin> set (dec_string n)" "dec_string n \<noteq> []"
  using dec_string_chars [of "CHR '':''" n] dec_string_chars [of "CHR ''/''" n] dec_string_chars [of "CHR '']''" n]
  by (auto simp: dec_string.simps [of n])

lemma parse_uint_dec: "n < bound \<Longrightarrow> parse_uint bound (dec_string n) = Some n"
proof -
  assume "n < bound"
  then have d: "digits_value 10 bound 0 (dec_string n) = Some n" by (rule dec_string_digits)
  obtain c cs where c: "dec_string n = c # cs" using dec_string_no(4) by (cases "dec_string n") auto
  have "c \<noteq> CHR ''+''" using dec_string_chars [of c n] c by auto
  then show ?thesis using d c by (simp add: parse_uint_def from_str_radix_def Let_def)
qed

definition crlf_text :: string where "crlf_text = [CHR 0x0D, CHR 0x0A]"

definition request_text :: "string \<Rightarrow> string \<Rightarrow> string \<Rightarrow> (string \<times> string) list \<Rightarrow> string" where
  "request_text method path host extra_headers =
     method @ '' '' @ path @ '' HTTP/1.1'' @ crlf_text @ ''Host: '' @ host @ crlf_text
     @ ''User-Agent: tsnode/0.1'' @ crlf_text
     @ concat (map (\<lambda>(k, v). k @ '': '' @ v @ crlf_text) extra_headers) @ crlf_text"

definition write_request ::
    "string \<Rightarrow> string \<Rightarrow> string \<Rightarrow> (string \<times> string) list \<Rightarrow> conn \<Rightarrow> (io_kind + unit) \<times> conn" where
  "write_request method path host extra_headers c =
     conn_write_all (str_bytes (request_text method path host extra_headers)) c"

text \<open>\<^verbatim>\<open>get\<close> on one connection used for reading and writing.\<close>

definition http_get :: "nat \<Rightarrow> string \<Rightarrow> string \<Rightarrow> conn \<Rightarrow> ((io_kind + nat \<times> bytes) \<times> conn) option" where
  "http_get um host path c =
     (case write_request ''GET'' path host [(''Connection'', ''close''), (''Accept'', ''*/*'')] c of
        (Inl e, c) \<Rightarrow> Some (Inl e, c)
      | (Inr _, c) \<Rightarrow>
          (case read_response_head conn_read c of
             (Inl e, c) \<Rightarrow> Some (Inl e, c)
           | (Inr head, c) \<Rightarrow>
               map_option (\<lambda>(r, c). (case r of Inl e \<Rightarrow> Inl e | Inr body \<Rightarrow> Inr (rh_status head, body), c))
                 (read_body um conn_read head (256 * 1024) c)))"

section \<open>Lemmas\<close>

lemma find_sub_bound: "find_sub w xs = Some i \<Longrightarrow> i + length w \<le> length xs"
proof (induction xs arbitrary: i)
  case (Cons x xs)
  then show ?case by (auto split: if_splits dest: arg_cong [where f = length])
qed simp

lemma find_sub_take: "find_sub w xs = Some i \<Longrightarrow> take (length w) (drop i xs) = w"
  by (induction xs arbitrary: i) (auto split: if_splits)

lemma find_sub_append: "find_sub w xs = Some i \<Longrightarrow> find_sub w (xs @ ys) = Some i"
proof (induction xs arbitrary: i)
  case (Cons x xs)
  have "length w \<le> length (x # xs)" using find_sub_bound [OF Cons.prems] by simp
  then have "take (length w) ((x # xs) @ ys) = take (length w) (x # xs)" by (simp only: take_append) simp
  then show ?case using Cons by (auto split: if_splits)
qed simp

lemma find_sub_incomplete:
  "find_sub w (p @ q) = Some i \<Longrightarrow> length p < i + length w \<Longrightarrow> find_sub w p = None"
  using find_sub_append [of w p _ q] find_sub_bound [of w p] by (cases "find_sub w p") fastforce+

lemma find_crlf: "CR \<notin> set t \<Longrightarrow> find_sub CRLF (t @ CRLF @ z) = Some (length t)"
proof (induction t)
  case Nil
  then show ?case by (simp add: CRLF_def)
next
  case (Cons x t)
  then show ?case by (auto simp: CRLF_def)
qed

lemma length_CRLF [simp]: "length CRLF = 2"
  by (simp add: CRLF_def)

text \<open>Reading a response head: the pieces in which it arrives do not matter.\<close>

context byte_source
begin

lemma head_loop_reads:
  assumes h: "find_head_end (h @ CRLF @ CRLF) = Some (length h)" and len: "length h + 4 \<le> 16 * 1024"
    and "clean s" "buf @ pending s = h @ CRLF @ CRLF @ rest" "length buf < length h + 4"
  shows "\<exists>buf' s'. head_loop rd buf s = (Inr (buf', length h), s') \<and> length h + 4 \<le> length buf'
    \<and> buf' @ pending s' = h @ CRLF @ CRLF @ rest \<and> clean s'"
  using assms(3-5)
proof (induction "length h + 4 - length buf" arbitrary: buf s rule: less_induct)
  case less
  have fnd: "find_head_end (h @ CRLF @ CRLF @ rest) = Some (length h)"
    using find_sub_append [OF h [unfolded find_head_end_def], of rest] by (simp add: find_head_end_def)
  have "pending s \<noteq> []" using less.prems(2,3) by (auto simp: CRLF_def)
  then obtain b s' where b: "rd 256 s = (Inr b, s')" "b \<noteq> []" "pending s = b @ pending s'" "clean s'"
    using read_some [OF less.prems(1), of 256] by auto
  have eq: "(buf @ b) @ pending s' = h @ CRLF @ CRLF @ rest" using less.prems(2) b(3) by simp
  show ?case
  proof (cases "length (buf @ b) < length h + 4")
    case True
    have "find_head_end (buf @ b) = None"
      unfolding find_head_end_def
      by (rule find_sub_incomplete [of _ _ "pending s'"])
        (use fnd eq True in \<open>simp_all add: find_head_end_def\<close>)
    then have step: "head_loop rd buf s = head_loop rd (buf @ b) s'"
      using b(1,2) True len by (subst head_loop.simps) (simp add: Let_def)
    have "length h + 4 - length (buf @ b) < length h + 4 - length buf"
      using b(2) less.prems(3) by (simp flip: length_greater_0_conv)
    then show ?thesis unfolding step by (rule less.hyps [OF _ b(4) eq True])
  next
    case False
    moreover have "prefix (buf @ b) (h @ CRLF @ CRLF @ rest)" using eq by (metis prefixI)
    ultimately have "prefix (h @ CRLF @ CRLF) (buf @ b)"
      using prefix_length_prefix [of "h @ CRLF @ CRLF" "h @ CRLF @ CRLF @ rest" "buf @ b"] by simp
    then obtain r where r: "buf @ b = (h @ CRLF @ CRLF) @ r" by (auto simp: prefix_def)
    have "find_head_end (buf @ b) = Some (length h)"
      unfolding r find_head_end_def by (rule find_sub_append) (use h in \<open>simp add: find_head_end_def\<close>)
    then have "head_loop rd buf s = (Inr (buf @ b, length h), s')"
      using b(1,2) by (subst head_loop.simps) (simp add: Let_def)
    then show ?thesis using False eq b(4) by auto
  qed
qed

lemma response_head_reads:
  assumes "find_head_end (h @ CRLF @ CRLF) = Some (length h)" "length h + 4 \<le> 16 * 1024"
    and "parse_head h = Inr (status, headers)"
    and "clean s" "pending s = h @ CRLF @ CRLF @ rest"
  shows "\<exists>lo s'. read_response_head rd s
        = (Inr \<lparr>rh_status = status, rh_headers = headers, rh_leftover = lo\<rparr>, s')
      \<and> lo @ pending s' = rest \<and> clean s'"
proof -
  obtain buf s' where l: "head_loop rd [] s = (Inr (buf, length h), s')" "length h + 4 \<le> length buf"
      "buf @ pending s' = h @ CRLF @ CRLF @ rest" "clean s'"
    using head_loop_reads [OF assms(1,2,4), of "[]" rest] assms(5) by auto
  have "take (length h) buf = h" using arg_cong [OF l(3), of "take (length h)"] l(2) by simp
  moreover have "drop (length h + 4) buf @ pending s' = rest"
    using arg_cong [OF l(3), of "drop (length h + 4)"] l(2) by (simp add: CRLF_def)
  ultimately show ?thesis using l(1,4) assms(3) by (simp add: read_response_head_def)
qed

end

section \<open>Properties\<close>

text \<open>A chunk on the wire: the line with its size (and extensions), and the data.\<close>

definition chunk_bytes :: "string \<times> bytes \<Rightarrow> bytes" where
  "chunk_bytes = (\<lambda>(line, data). str_bytes line @ CRLF @ data @ CRLF)"

definition chunk_ok :: "nat \<Rightarrow> string \<times> bytes \<Rightarrow> bool" where
  "chunk_ok um = (\<lambda>(line, data). data \<noteq> [] \<and> CR \<notin> set (str_bytes line) \<and> valid_utf8 (str_bytes line)
     \<and> from_str_radix 16 um (trim (hd (split_by (\<lambda>c. c = CHR '';'') line))) = Some (length data))"

lemma dechunk_step:
  assumes "chunk_ok um (line, data)" "length (pre @ str_bytes line @ CRLF @ data) < um"
  shows "dechunk_loop um (pre @ str_bytes line @ CRLF @ data @ z) (length pre) out =
    dechunk_loop um (pre @ str_bytes line @ CRLF @ data @ z) (length (pre @ str_bytes line @ CRLF @ data) + 2) (out @ data)"
proof -
  let ?raw = "pre @ str_bytes line @ CRLF @ data @ z"
  have ok: "CR \<notin> set (str_bytes line)" "valid_utf8 (str_bytes line)" "data \<noteq> []"
    "from_str_radix 16 um (trim (hd (split_by (\<lambda>c. c = CHR '';'') line))) = Some (length data)"
    using assms(1) by (simp_all add: chunk_ok_def)
  have l: "find_sub CRLF (drop (length pre) ?raw) = Some (length line)"
    using find_crlf [OF ok(1), of "data @ z"] by simp
  have "slice (length pre) (length pre + length line) ?raw = str_bytes line"
    and "slice (length pre + length line + 2) (length pre + length line + 2 + length data) ?raw = data"
    by (simp_all add: slice_def CRLF_def)
  then show ?thesis
    using assms(2) ok l
    by (subst dechunk_loop.simps) (simp add: Let_def add.assoc)
qed

lemma dechunk_last:
  assumes "0 < um"
  shows "dechunk_loop um (pre @ str_bytes ''0'' @ CRLF @ z) (length pre) out = Some (Inr out)"
proof -
  have "find_sub CRLF (drop (length pre) (pre @ str_bytes ''0'' @ CRLF @ z)) = Some 1"
    using find_crlf [of "str_bytes ''0''" z] by (simp add: str_bytes_def CR_def)
  moreover have "slice (length pre) (length pre + 1) (pre @ str_bytes ''0'' @ CRLF @ z) = str_bytes ''0''"
    by (simp add: slice_def str_bytes_def)
  moreover have "from_str_radix 16 um (trim (hd (split_by (\<lambda>c. c = CHR '';'') ''0''))) = Some 0"
    using assms by (simp add: from_str_radix_def trim_def is_ws_def to_digit_def)
  moreover have "valid_utf8 (str_bytes ''0'')" by (simp add: str_bytes_def)
  ultimately show ?thesis by (subst dechunk_loop.simps) (simp add: Let_def)
qed

lemma dechunk_chunks:
  assumes "list_all (chunk_ok um) cs" "length (pre @ concat (map chunk_bytes cs)) < um"
  shows "dechunk_loop um (pre @ concat (map chunk_bytes cs) @ str_bytes ''0'' @ CRLF @ z) (length pre) out
    = Some (Inr (out @ concat (map snd cs)))"
  using assms
proof (induction cs arbitrary: pre out)
  case Nil
  then show ?case using dechunk_last [of um pre z out] by simp
next
  case (Cons c cs)
  obtain line data where c: "c = (line, data)" by (cases c)
  let ?rest = "concat (map chunk_bytes cs) @ str_bytes ''0'' @ CRLF @ z"
  let ?pre = "pre @ chunk_bytes c"
  have "dechunk_loop um (pre @ str_bytes line @ CRLF @ data @ (CRLF @ ?rest)) (length pre) out =
      dechunk_loop um (pre @ str_bytes line @ CRLF @ data @ (CRLF @ ?rest)) (length (pre @ str_bytes line @ CRLF @ data) + 2) (out @ data)"
    by (rule dechunk_step) (use Cons.prems c in \<open>simp_all add: chunk_bytes_def\<close>)
  also have "\<dots> = dechunk_loop um (?pre @ ?rest) (length ?pre) (out @ data)"
    by (simp add: c chunk_bytes_def)
  also have "\<dots> = Some (Inr ((out @ data) @ concat (map snd cs)))"
    by (rule Cons.IH) (use Cons.prems in simp_all)
  finally show ?case by (simp add: c chunk_bytes_def)
qed

text \<open>
  De-chunking returns the data of the chunks in order: for every list of chunks, each with a
  size line (hexadecimal, extensions and surrounding blanks allowed) that states its length,
  closed by the zero chunk, whatever follows it.
\<close>

theorem dechunk_roundtrip:
  assumes "list_all (chunk_ok um) cs" and "length (concat (map chunk_bytes cs)) < um"
  shows "dechunk um (concat (map chunk_bytes cs) @ str_bytes ''0'' @ CRLF @ z)
    = Some (Inr (concat (map snd cs)))"
  using dechunk_chunks [of um cs "[]" z "[]"] assms by (simp add: dechunk_def)

definition demo_chunk :: "string \<times> bytes" where
  "demo_chunk = (''5;x=1'', str_bytes ''hello'')"

lemma demo_chunk_ok: "chunk_ok (2 ^ 32) demo_chunk"
  by code_simp

theorem dechunk_roundtrip_witness:
  "dechunk (2 ^ 32) (concat (map chunk_bytes [demo_chunk]) @ str_bytes ''0'' @ CRLF @ CRLF)
     = Some (Inr (str_bytes ''hello''))"
  using dechunk_roundtrip [of "2 ^ 32" "[demo_chunk]" CRLF] demo_chunk_ok
  by (simp add: demo_chunk_def chunk_bytes_def)

text \<open>
  A body that ends right after the data of a chunk, without the line end that closes the chunk,
  makes \<open>dechunk\<close> panic: the position moves two bytes past the end and the next slice is out of
  range. A peer that closes the connection there crashes the reader instead of causing an error.
\<close>

theorem dechunk_panics_on_missing_line_end:
  assumes "chunk_ok um (line, data)" and "length (str_bytes line @ CRLF @ data) < um"
  shows "dechunk um (str_bytes line @ CRLF @ data) = None"
proof -
  have "dechunk um (str_bytes line @ CRLF @ data) =
    dechunk_loop um (str_bytes line @ CRLF @ data) (length (str_bytes line @ CRLF @ data) + 2) data"
    using dechunk_step [of um line data "[]" "[]" "[]"] assms by (simp add: dechunk_def)
  then show ?thesis by (simp add: dechunk_loop.simps)
qed

theorem dechunk_panics_on_missing_line_end_witness:
  "dechunk (2 ^ 32) (str_bytes ''5;x=1'' @ CRLF @ str_bytes ''hello'') = None"
  by (rule dechunk_panics_on_missing_line_end) (use demo_chunk_ok in \<open>simp_all add: demo_chunk_def\<close>)

text \<open>
  A response head is read completely and no byte after it is lost, however the connection cuts
  the stream into pieces: status and headers are those of the head, and the bytes read past it
  together with the bytes still to come are exactly what followed the head.
\<close>

theorem read_response_head_complete:
  assumes "find_head_end (h @ CRLF @ CRLF) = Some (length h)" and "length h + 4 \<le> 16 * 1024"
    and "parse_head h = Inr (status, headers)"
    and "[] \<notin> set pieces" and "concat pieces = h @ CRLF @ CRLF @ rest"
  shows "\<exists>lo c. read_response_head conn_read (conn_of pieces)
        = (Inr \<lparr>rh_status = status, rh_headers = headers, rh_leftover = lo\<rparr>, c)
      \<and> lo @ conn_pending c = rest"
  using cs.response_head_reads [OF assms(1-3) conn_of_clean [OF assms(4)]] assms(5)
  by (simp add: conn_of_pending) blast

definition demo_head :: bytes where
  "demo_head = str_bytes ''HTTP/1.1 101 Switching Protocols'' @ CRLF @ str_bytes ''Upgrade: DERP''"

theorem read_response_head_complete_witness:
  "\<exists>lo c. read_response_head conn_read (conn_of [take 40 demo_head, drop 40 demo_head @ CRLF, CRLF @ [7]])
        = (Inr \<lparr>rh_status = 101, rh_headers = [(''Upgrade'', ''DERP'')], rh_leftover = lo\<rparr>, c)
      \<and> lo @ conn_pending c = [7]"
proof (rule read_response_head_complete)
  show "find_head_end (demo_head @ CRLF @ CRLF) = Some (length demo_head)" by code_simp
  show "parse_head demo_head = Inr (101, [(''Upgrade'', ''DERP'')])" by code_simp
  show "length demo_head + 4 \<le> 16 * 1024" by code_simp
  show "[] \<notin> set [take 40 demo_head, drop 40 demo_head @ CRLF, CRLF @ [7]]" by code_simp
  show "concat [take 40 demo_head, drop 40 demo_head @ CRLF, CRLF @ [7]] = demo_head @ CRLF @ CRLF @ [7]"
    by (simp flip: append_assoc)
qed

end
