(* ===== verification/Framing.thy ===== *)
theory Framing
  imports Prelude "HOL-Library.Sublist"
begin

text \<open>
  Length-prefixed framing over a byte stream, the contract shared by the DERP client, the
  HTTP/2 client and the map stream: each keeps an input buffer, takes a whole frame from its
  front when one is there, and otherwise reads another chunk. The locale states what the
  codec promises; the client lemma is that the frames read back do not depend on how the
  transport cut the stream into chunks.
\<close>

text \<open>
  \<open>pull dec buf cs\<close> is the read loop: try to take a frame, else append the next chunk. The
  answer is the frame with the remaining buffer and chunks, \<open>Inr None\<close> when the chunks run
  out first, or the codec's error.
\<close>

fun pull :: "(bytes \<Rightarrow> 'e + ('f \<times> bytes) option) \<Rightarrow> bytes \<Rightarrow> bytes list
    \<Rightarrow> 'e + ('f \<times> bytes \<times> bytes list) option" where
  "pull dec buf [] =
     (case dec buf of
        Inl e \<Rightarrow> Inl e
      | Inr (Some (f, r)) \<Rightarrow> Inr (Some (f, r, []))
      | Inr None \<Rightarrow> Inr None)"
| "pull dec buf (c # cs) =
     (case dec buf of
        Inl e \<Rightarrow> Inl e
      | Inr (Some (f, r)) \<Rightarrow> Inr (Some (f, r, c # cs))
      | Inr None \<Rightarrow> pull dec (buf @ c) cs)"

fun pulls :: "(bytes \<Rightarrow> 'e + ('f \<times> bytes) option) \<Rightarrow> nat \<Rightarrow> bytes \<Rightarrow> bytes list
    \<Rightarrow> 'e + ('f list \<times> bytes) option" where
  "pulls dec 0 buf cs = Inr (Some ([], buf @ concat cs))"
| "pulls dec (Suc n) buf cs =
     (case pull dec buf cs of
        Inl e \<Rightarrow> Inl e
      | Inr None \<Rightarrow> Inr None
      | Inr (Some (f, buf', cs')) \<Rightarrow>
          (case pulls dec n buf' cs' of
             Inl e \<Rightarrow> Inl e
           | Inr None \<Rightarrow> Inr None
           | Inr (Some (fs, r)) \<Rightarrow> Inr (Some (f # fs, r))))"

locale frame_codec =
  fixes ok :: "'f \<Rightarrow> bool"
    and enc :: "'f \<Rightarrow> bytes"
    and dec :: "bytes \<Rightarrow> 'e + ('f \<times> bytes) option"
  assumes dec_enc: "ok f \<Longrightarrow> dec (enc f @ rest) = Inr (Some (f, rest))"
    and dec_short: "ok f \<Longrightarrow> strict_prefix p (enc f) \<Longrightarrow> dec p = Inr None"
begin

text \<open>On a prefix of the stream the codec either returns the next frame or asks for more.\<close>

lemma dec_stream:
  assumes "ok f" and "buf @ z = enc f @ rest"
  obtains (frame) r where "dec buf = Inr (Some (f, r))" "r @ z = rest"
  | (more) "dec buf = Inr None" "z \<noteq> []"
proof (cases "prefix (enc f) buf")
  case True
  then obtain r where r: "buf = enc f @ r" by (auto simp: prefix_def)
  then show ?thesis using dec_enc [OF assms(1), of r] assms(2) frame by simp
next
  case False
  have "prefix buf (enc f @ rest)" using assms(2) [symmetric] by (auto simp: prefix_def)
  then have "prefix buf (enc f)"
    using False prefix_same_cases [of buf "enc f @ rest" "enc f"] by auto
  then have "strict_prefix buf (enc f)" using False by (auto simp: strict_prefix_def)
  then have "dec buf = Inr None" by (rule dec_short [OF assms(1)])
  moreover have "z \<noteq> []" using False assms(2) by auto
  ultimately show ?thesis by (rule more)
qed

lemma pull_frame:
  assumes "ok f" and "buf @ concat cs = enc f @ rest"
  shows "\<exists>buf' cs'. pull dec buf cs = Inr (Some (f, buf', cs')) \<and> buf' @ concat cs' = rest"
  using assms(2)
proof (induction cs arbitrary: buf)
  case Nil
  then have "dec buf = Inr (Some (f, rest))" using dec_enc [OF assms(1)] by simp
  then show ?case by simp
next
  case (Cons c cs)
  from assms(1) Cons.prems show ?case
  proof (cases rule: dec_stream)
    case (frame r)
    then show ?thesis by simp
  next
    case more
    then have "pull dec buf (c # cs) = pull dec (buf @ c) cs" by simp
    moreover have "(buf @ c) @ concat cs = enc f @ rest" using Cons.prems by simp
    ultimately show ?thesis using Cons.IH [of "buf @ c"] by simp
  qed
qed

lemma pulls_frames:
  assumes "list_all ok fs" and "buf @ concat cs = concat (map enc fs) @ rest"
  shows "pulls dec (length fs) buf cs = Inr (Some (fs, rest))"
  using assms
proof (induction fs arbitrary: buf cs)
  case Nil
  then show ?case by simp
next
  case (Cons f fs)
  from Cons.prems obtain buf' cs' where
    p: "pull dec buf cs = Inr (Some (f, buf', cs'))"
    and r: "buf' @ concat cs' = concat (map enc fs) @ rest"
    using pull_frame [of f buf cs "concat (map enc fs) @ rest"] by auto
  have "pulls dec (length fs) buf' cs' = Inr (Some (fs, rest))"
    using Cons.IH [OF _ r] Cons.prems(1) by simp
  with p show ?case by simp
qed

end

end
