(* ===== verification/Control_Types.thy ===== *)
theory Control_Types
  imports Complex_Main Packet_Filter
begin

text \<open>
  The messages exchanged with the control plane (crates/tsnode/src/types.rs) as records with the
  source's fields; their JSON form is \<^verbatim>\<open>serde\<close>'s. A \<^verbatim>\<open>HashMap\<close> is an association list
  with distinct keys; \<^verbatim>\<open>i32\<close> and \<^verbatim>\<open>i64\<close> fields are integers, which no code
  here computes with.
\<close>

definition CAPABILITY_VERSION :: nat where "CAPABILITY_VERSION = 106"
definition ZERO_TIME :: string where "ZERO_TIME = ''0001-01-01T00:00:00Z''"

record net_info =
  ni_preferred_derp :: int
  ni_working_udp :: "bool option"
  ni_working_ipv6 :: "bool option"
  ni_link_type :: string
  ni_derp_latency :: "(string \<times> real) list"

record hostinfo =
  hi_ipn_version :: string
  hi_os :: string
  hi_os_version :: string
  hi_distro :: string
  hi_device_model :: string
  hi_hostname :: string
  hi_go_arch :: string
  hi_machine :: string
  hi_userspace :: bool
  hi_net_info :: "net_info option"

record register_request =
  rq_version :: nat
  rq_node_key :: string
  rq_old_node_key :: string
  rq_auth :: "string option"
  rq_expiry :: string
  rq_followup :: string
  rq_hostinfo :: hostinfo
  rq_ephemeral :: bool

record user_profile =
  up_id :: int
  up_login_name :: string
  up_display_name :: string

record register_response =
  rr_login :: user_profile
  rr_node_key_expired :: bool
  rr_machine_authorized :: bool
  rr_auth_url :: string
  rr_error :: string

record map_request =
  mq_version :: nat
  mq_compress :: string
  mq_keep_alive :: bool
  mq_node_key :: string
  mq_disco_key :: string
  mq_stream :: bool
  mq_hostinfo :: hostinfo
  mq_endpoints :: "string list"
  mq_omit_peers :: bool
  mq_read_only :: bool

record node =
  nd_id :: int
  nd_stable_id :: string
  nd_name :: string
  nd_user :: int
  nd_key :: string
  nd_key_expiry :: string
  nd_machine :: string
  nd_disco_key :: string
  nd_addresses :: "string list"
  nd_allowed_ips :: "string list"
  nd_endpoints :: "string list"
  nd_derp :: string
  nd_home_derp :: int
  nd_hostinfo :: hostinfo
  nd_online :: "bool option"
  nd_machine_authorized :: bool

record peer_change =
  pc_node_id :: int
  pc_derp_region :: int
  pc_endpoints :: "string list option"
  pc_key :: "string option"
  pc_disco_key :: "string option"
  pc_online :: "bool option"
  pc_key_expiry :: "string option"

record derp_node =
  dn_name :: string
  dn_region_id :: int
  dn_host_name :: string
  dn_cert_name :: string
  dn_ipv4 :: string
  dn_ipv6 :: string
  dn_stun_port :: int
  dn_stun_only :: bool
  dn_derp_port :: int
  dn_insecure_for_tests :: bool
  dn_can_port80 :: bool

record derp_region =
  dr_region_id :: int
  dr_region_code :: string
  dr_region_name :: string
  dr_avoid :: bool
  dr_nodes :: "derp_node list"

record derp_map =
  dm_regions :: "(string \<times> derp_region) list"
  dm_omit_default_regions :: bool

record ping_request =
  pq_url :: string
  pq_log :: bool
  pq_types :: string
  pq_ip :: string

record map_response =
  mr_map_session_handle :: string
  mr_seq :: int
  mr_keep_alive :: bool
  mr_ping_request :: "ping_request option"
  mr_node :: "node option"
  mr_derp_map :: "derp_map option"
  mr_peers :: "node list option"
  mr_peers_changed :: "node list option"
  mr_peers_removed :: "int list option"
  mr_peers_changed_patch :: "peer_change list option"
  mr_packet_filter :: "filter_rule list option"
  mr_packet_filters :: "(string \<times> filter_rule list option) list option"
  mr_online_change :: "(string \<times> bool) list option"
  mr_dns_domains :: "string list option"
  mr_domain :: string
  mr_user_profiles :: "user_profile list option"
  mr_health :: "string list option"
  mr_control_time :: "string option"

text \<open>\<^verbatim>\<open>str::parse::<i32>\<close>: an optional sign, digits, no overflow.\<close>

definition parse_i32 :: "string \<Rightarrow> int option" where
  "parse_i32 s =
     (case s of
        CHR ''-'' # ds \<Rightarrow>
          (if ds = [] then None else map_option (\<lambda>n. - int n) (digits_value 10 (2 ^ 31 + 1) 0 ds))
      | _ \<Rightarrow> map_option int (parse_uint (2 ^ 31) s))"

text \<open>\<^verbatim>\<open>rsplit(':').next()\<close>: what follows the last colon, or the whole text.\<close>

definition after_last_colon :: "string \<Rightarrow> string" where
  "after_last_colon s = rev (takeWhile (\<lambda>c. c \<noteq> CHR '':'') (rev s))"

definition home_derp_region :: "node \<Rightarrow> int option" where
  "home_derp_region n =
     (if nd_home_derp n \<noteq> 0 then Some (nd_home_derp n)
      else case parse_i32 (after_last_colon (nd_derp n)) of
        Some r \<Rightarrow> (if r \<noteq> 0 then Some r else None)
      | None \<Rightarrow> None)"

lemma home_derp_region_nonzero: "home_derp_region n = Some r \<Longrightarrow> r \<noteq> 0"
  by (auto simp: home_derp_region_def split: if_splits option.splits)

end
