(* ===== verification/Derp.thy ===== *)
theory Derp
  imports Framing Http1 Crypto Control_Types Disco
begin

text \<open>
  The DERP relay client of crates/tsnode/src/derp.rs: the connection handshake, frames, and the
  dispatch of received frames. \<open>clk i\<close> is the i-th reading of \<^verbatim>\<open>Instant::now()\<close> of a call;
  random draws are arguments; the dialer is a parameter.
\<close>

section \<open>Frames\<close>

definition DERP_MAGIC :: bytes where
  "DERP_MAGIC = [0x44, 0x45, 0x52, 0x50, 0xf0, 0x9f, 0x94, 0x91]"
definition MAX_PACKET :: nat where "MAX_PACKET = 65536"
definition FRAME_HEADER_LEN :: nat where "FRAME_HEADER_LEN = 5"

definition FRAME_SERVER_KEY :: u8 where "FRAME_SERVER_KEY = 0x01"
definition FRAME_CLIENT_INFO :: u8 where "FRAME_CLIENT_INFO = 0x02"
definition FRAME_SERVER_INFO :: u8 where "FRAME_SERVER_INFO = 0x03"
definition FRAME_SEND_PACKET :: u8 where "FRAME_SEND_PACKET = 0x04"
definition FRAME_RECV_PACKET :: u8 where "FRAME_RECV_PACKET = 0x05"
definition FRAME_KEEP_ALIVE :: u8 where "FRAME_KEEP_ALIVE = 0x06"
definition FRAME_NOTE_PREFERRED :: u8 where "FRAME_NOTE_PREFERRED = 0x07"
definition FRAME_PEER_GONE :: u8 where "FRAME_PEER_GONE = 0x08"
definition FRAME_PEER_PRESENT :: u8 where "FRAME_PEER_PRESENT = 0x09"
definition FRAME_PING :: u8 where "FRAME_PING = 0x12"
definition FRAME_PONG :: u8 where "FRAME_PONG = 0x13"
definition FRAME_HEALTH :: u8 where "FRAME_HEALTH = 0x14"
definition FRAME_RESTARTING :: u8 where "FRAME_RESTARTING = 0x15"

lemmas frame_types = FRAME_SERVER_KEY_def FRAME_CLIENT_INFO_def FRAME_SERVER_INFO_def
  FRAME_SEND_PACKET_def FRAME_RECV_PACKET_def FRAME_KEEP_ALIVE_def FRAME_NOTE_PREFERRED_def
  FRAME_PEER_GONE_def FRAME_PEER_PRESENT_def FRAME_PING_def FRAME_PONG_def FRAME_HEALTH_def
  FRAME_RESTARTING_def

datatype derp_event =
    EvPacket bytes bytes
  | EvPeerGone bytes
  | EvHealth string
  | EvRestarting
  | EvPong bytes

record derp_client =
  dc_conn :: conn
  dc_inbuf :: bytes
  dc_region_id :: int
  dc_server_key :: bytes
  dc_last_activity :: instant
  dc_last_ping_sent :: "instant option"

definition frame_bytes :: "u8 \<times> bytes \<Rightarrow> bytes" where
  "frame_bytes = (\<lambda>(t, payload). [t] @ u32_to_be (word_of_nat (length payload)) @ payload)"

definition write_frame :: "u8 \<Rightarrow> bytes \<Rightarrow> derp_client \<Rightarrow> (io_kind + unit) \<times> derp_client" where
  "write_frame t payload d =
     (case conn_write_all (frame_bytes (t, payload)) (dc_conn d) of
        (r, c) \<Rightarrow> (r, d\<lparr>dc_conn := c\<rparr>))"

definition send_packet :: "bytes \<Rightarrow> bytes \<Rightarrow> derp_client \<Rightarrow> (io_kind + unit) \<times> derp_client" where
  "send_packet dst pkt d =
     (if MAX_PACKET < length pkt then (Inl InvalidInput, d)
      else write_frame FRAME_SEND_PACKET (dst @ pkt) d)"

definition note_preferred :: "bool \<Rightarrow> derp_client \<Rightarrow> (io_kind + unit) \<times> derp_client" where
  "note_preferred preferred d = write_frame FRAME_NOTE_PREFERRED [if preferred then 1 else 0] d"

definition derp_ping :: "bytes \<Rightarrow> instant \<Rightarrow> derp_client \<Rightarrow> (io_kind + bytes) \<times> derp_client" where
  "derp_ping rnd now d =
     (case write_frame FRAME_PING rnd d of
        (Inl e, d) \<Rightarrow> (Inl e, d)
      | (Inr _, d) \<Rightarrow> (Inr rnd, d\<lparr>dc_last_ping_sent := Some now\<rparr>))"

definition fill :: "derp_client \<Rightarrow> (io_kind + bool) \<times> derp_client" where
  "fill d =
     (case conn_read 4096 (dc_conn d) of
        (Inr b, c) \<Rightarrow>
          (if b = [] then (Inl UnexpectedEof, d\<lparr>dc_conn := c\<rparr>)
           else (Inr True, d\<lparr>dc_conn := c, dc_inbuf := dc_inbuf d @ b\<rparr>))
      | (Inl e, c) \<Rightarrow>
          (if is_timeout e then (Inr False, d\<lparr>dc_conn := c\<rparr>) else (Inl e, d\<lparr>dc_conn := c\<rparr>)))"

text \<open>\<open>take_frame\<close> on the buffer: the frame and what is left after \<^verbatim>\<open>drain\<close>.\<close>

definition take_frame :: "bytes \<Rightarrow> io_kind + ((u8 \<times> bytes) \<times> bytes) option" where
  "take_frame inbuf =
     (if length inbuf < FRAME_HEADER_LEN then Inr None
      else
        let t = inbuf ! 0;
            len = unat (u32_from_be [inbuf ! 1, inbuf ! 2, inbuf ! 3, inbuf ! 4])
        in if MAX_PACKET + KEY_LEN + 64 < len then Inl InvalidData
           else if length inbuf < FRAME_HEADER_LEN + len then Inr None
           else Inr (Some ((t, slice FRAME_HEADER_LEN (FRAME_HEADER_LEN + len) inbuf),
                           drop (FRAME_HEADER_LEN + len) inbuf)))"

lemma fill_size: "fill d = (Inr True, d') \<Longrightarrow> conn_size (dc_conn d') < conn_size (dc_conn d)"
  using conn_read_size
  by (auto simp: fill_def split: prod.splits sum.splits if_splits)

function read_frame_loop ::
    "(nat \<Rightarrow> instant) \<Rightarrow> instant \<Rightarrow> nat \<Rightarrow> derp_client
      \<Rightarrow> (io_kind + (u8 \<times> bytes) option) \<times> derp_client" where
  "read_frame_loop clk deadline i d =
     (case take_frame (dc_inbuf d) of
        Inl e \<Rightarrow> (Inl e, d)
      | Inr (Some (f, rest)) \<Rightarrow> (Inr (Some f), d\<lparr>dc_inbuf := rest\<rparr>)
      | Inr None \<Rightarrow>
          (if deadline \<le> clk i then (Inr None, d)
           else case fill d of
             (Inl e, d) \<Rightarrow> (Inl e, d)
           | (Inr got, d) \<Rightarrow>
               (if got then read_frame_loop clk deadline (Suc i) d else (Inr None, d))))"
  by pat_completeness auto
termination
proof (relation "measure (\<lambda>(clk, deadline, i, d). conn_size (dc_conn d))")
  show "wf (measure (\<lambda>(clk, deadline, i, d). conn_size (dc_conn d)))" by simp
qed (auto dest!: sym [of _ "fill _"] intro: fill_size)

declare read_frame_loop.simps [simp del]

definition read_frame ::
    "(nat \<Rightarrow> instant) \<Rightarrow> duration \<Rightarrow> derp_client
      \<Rightarrow> (io_kind + (u8 \<times> bytes) option) \<times> derp_client" where
  "read_frame clk timeout d = read_frame_loop clk (clk 0 + timeout) 1 d"

section \<open>Receiving\<close>

definition derp_recv ::
    "(nat \<Rightarrow> instant) \<Rightarrow> duration \<Rightarrow> instant \<Rightarrow> derp_client
      \<Rightarrow> (io_kind + derp_event option) \<times> derp_client" where
  "derp_recv clk timeout now d =
     (case read_frame clk timeout d of
        (Inl e, d) \<Rightarrow> (Inl e, d)
      | (Inr None, d) \<Rightarrow> (Inr None, d)
      | (Inr (Some (t, payload)), d) \<Rightarrow>
          (let d = d\<lparr>dc_last_activity := now\<rparr>
           in if t = FRAME_RECV_PACKET then
                (if length payload < KEY_LEN then (Inl InvalidData, d)
                 else (Inr (Some (EvPacket (take KEY_LEN payload) (drop KEY_LEN payload))), d))
              else if t = FRAME_KEEP_ALIVE then (Inr None, d)
              else if t = FRAME_PING then
                (if length payload = 8 then
                   (case write_frame FRAME_PONG payload d of
                      (Inl e, d) \<Rightarrow> (Inl e, d)
                    | (Inr _, d) \<Rightarrow> (Inr None, d))
                 else (Inr None, d))
              else if t = FRAME_PONG then
                (Inr (Some (EvPong (if length payload = 8 then payload else replicate 8 0))), d)
              else if t = FRAME_PEER_GONE then
                (if KEY_LEN \<le> length payload then (Inr (Some (EvPeerGone (take KEY_LEN payload))), d)
                 else (Inr None, d))
              else if t = FRAME_PEER_PRESENT then (Inr None, d)
              else if t = FRAME_HEALTH then (Inr (Some (EvHealth (from_utf8_lossy payload))), d)
              else if t = FRAME_RESTARTING then (Inr (Some EvRestarting), d)
              else (Inr None, d)))"

section \<open>Connecting\<close>

text \<open>\<open>PrefixReader\<close>: an in-memory prefix, then the connection.\<close>

definition prefix_read :: "nat \<Rightarrow> bytes \<times> conn \<Rightarrow> (io_kind + bytes) \<times> bytes \<times> conn" where
  "prefix_read cap = (\<lambda>(cursor, c).
     if take cap cursor \<noteq> [] then (Inr (take cap cursor), drop cap cursor, c)
     else case conn_read cap c of (r, c) \<Rightarrow> (r, cursor, c))"

text \<open>The dialer of the platform.\<close>

record dialer =
  dial_tcp :: "string \<Rightarrow> u16 \<Rightarrow> io_kind + conn"
  dial_tls :: "string \<Rightarrow> ip_addr option \<Rightarrow> u16 \<Rightarrow> io_kind + conn"
  ip_to_string :: "ip_addr \<Rightarrow> string"

definition derp_dial :: "dialer \<Rightarrow> derp_node \<Rightarrow> io_kind + conn" where
  "derp_dial D node =
     (let port = (if 0 < dn_derp_port node then word_of_int (dn_derp_port node) else 443);
          addr = parse_ip (dn_ipv4 node);
          host = dn_host_name node
      in if dn_insecure_for_tests node
         then dial_tcp D (case addr of Some a \<Rightarrow> ip_to_string D a | None \<Rightarrow> host) port
         else dial_tls D host addr port)"

text \<open>After the request: an optional HTTP head, whose leftover bytes start the buffer.\<close>

definition derp_upgrade :: "derp_client \<Rightarrow> (io_kind + unit) \<times> derp_client" where
  "derp_upgrade d =
     (case fill d of
        (Inl e, d) \<Rightarrow> (Inl e, d)
      | (Inr _, d) \<Rightarrow>
          (if take 5 (dc_inbuf d) = str_bytes ''HTTP/'' then
             (case read_response_head prefix_read (dc_inbuf d, dc_conn d) of
                (Inl e, _, c) \<Rightarrow> (Inl e, d\<lparr>dc_conn := c, dc_inbuf := []\<rparr>)
              | (Inr head, _, c) \<Rightarrow>
                  (if rh_status head \<noteq> 101 then (Inl ConnectionRefused, d\<lparr>dc_conn := c, dc_inbuf := []\<rparr>)
                   else (Inr (), d\<lparr>dc_conn := c, dc_inbuf := rh_leftover head\<rparr>)))
           else (Inr (), d)))"

definition CLIENT_INFO :: bytes where
  "CLIENT_INFO = str_bytes (CHR 0x7B # [CHR 0x22] @ ''version'' @ [CHR 0x22] @ '':2'' @ [CHR 0x7D])"

text \<open>
  The key exchange: server key, client info, server info. \<open>clk1\<close> and \<open>clk2\<close> are the clocks of
  the two reads, \<open>nonce\<close> the random nonce.
\<close>

definition derp_handshake ::
    "prims \<Rightarrow> (nat \<Rightarrow> instant) \<Rightarrow> (nat \<Rightarrow> instant) \<Rightarrow> bytes \<Rightarrow> instant \<Rightarrow> key_pair
      \<Rightarrow> derp_client \<Rightarrow> (io_kind + unit) \<times> derp_client" where
  "derp_handshake P clk1 clk2 nonce now node_key d =
     (case read_frame clk1 (from_secs 15) d of
        (Inl e, d) \<Rightarrow> (Inl e, d)
      | (Inr None, d) \<Rightarrow> (Inl TimedOut, d)
      | (Inr (Some (t, payload)), d) \<Rightarrow>
          (if t \<noteq> FRAME_SERVER_KEY \<or> length payload < length DERP_MAGIC + KEY_LEN
              \<or> take (length DERP_MAGIC) payload \<noteq> DERP_MAGIC
           then (Inl InvalidData, d)
           else
             let d = d\<lparr>dc_server_key := slice (length DERP_MAGIC) (length DERP_MAGIC + KEY_LEN) payload\<rparr>;
                 sealed = nacl_box_seal P (kp_secret node_key) (dc_server_key d) nonce CLIENT_INFO;
                 body = kp_public node_key @ nonce @ sealed
             in case write_frame FRAME_CLIENT_INFO body d of
                  (Inl e, d) \<Rightarrow> (Inl e, d)
                | (Inr _, d) \<Rightarrow>
                    (case read_frame clk2 (from_secs 15) d of
                       (Inl e, d) \<Rightarrow> (Inl e, d)
                     | (Inr None, d) \<Rightarrow> (Inl TimedOut, d)
                     | (Inr (Some (t, payload)), d) \<Rightarrow>
                         (if t \<noteq> FRAME_SERVER_INFO \<or> length payload < NONCE_LEN
                          then (Inl InvalidData, d)
                          else case nacl_box_open P (kp_secret node_key) (dc_server_key d)
                                      (take NONCE_LEN payload) (drop NONCE_LEN payload) of
                            Inl _ \<Rightarrow> (Inl PermissionDenied, d)
                          | Inr info \<Rightarrow> (Inr (), d\<lparr>dc_last_activity := now\<rparr>)))))"

definition derp_connect ::
    "prims \<Rightarrow> dialer \<Rightarrow> derp_node \<Rightarrow> int \<Rightarrow> key_pair \<Rightarrow> instant \<Rightarrow> (nat \<Rightarrow> instant)
      \<Rightarrow> (nat \<Rightarrow> instant) \<Rightarrow> bytes \<Rightarrow> instant \<Rightarrow> io_kind + derp_client" where
  "derp_connect P D node region_id node_key t0 clk1 clk2 nonce now =
     (case derp_dial D node of
        Inl e \<Rightarrow> Inl e
      | Inr c \<Rightarrow>
          (case write_request ''GET'' ''/derp'' (dn_host_name node)
                  [(''Upgrade'', ''DERP''), (''Connection'', ''Upgrade''), (''Derp-Fast-Start'', ''1'')] c of
             (Inl e, _) \<Rightarrow> Inl e
           | (Inr _, c) \<Rightarrow>
               (case derp_upgrade \<lparr>dc_conn = c, dc_inbuf = [], dc_region_id = region_id,
                       dc_server_key = replicate 32 0, dc_last_activity = t0, dc_last_ping_sent = None\<rparr> of
                  (Inl e, _) \<Rightarrow> Inl e
                | (Inr _, d) \<Rightarrow>
                    (case derp_handshake P clk1 clk2 nonce now node_key d of
                       (Inl e, _) \<Rightarrow> Inl e
                     | (Inr _, d) \<Rightarrow> Inr d))))"

section \<open>The frame codec\<close>

definition frame_ok :: "u8 \<times> bytes \<Rightarrow> bool" where
  "frame_ok f \<longleftrightarrow> length (snd f) \<le> MAX_PACKET + KEY_LEN + 64"

lemma length_4_cases: "length xs = 4 \<Longrightarrow> \<exists>a b c d. xs = [a, b, c, d]"
  by (auto simp: numeral_eq_Suc length_Suc_conv)

lemma be32_bytes: "\<exists>a b c d. u32_to_be w = [a, b, c, d]"
  by (rule length_4_cases) simp

lemma drop_5_Cons: "drop (5 + n) (t # a # b # c # d # xs) = drop n xs"
  by (simp add: numeral_eq_Suc)

lemma frame_length: "frame_ok (t, p) \<Longrightarrow> unat (word_of_nat (length p) :: u32) = length p"
  by (simp add: frame_ok_def unat_of_nat MAX_PACKET_def KEY_LEN_def)

lemma take_frame_enc:
  assumes "frame_ok f"
  shows "take_frame (frame_bytes f @ rest) = Inr (Some (f, rest))"
proof -
  obtain t p where f: "f = (t, p)" by (cases f)
  obtain a b c d where w: "u32_to_be (word_of_nat (length p)) = [a, b, c, d]" using be32_bytes by blast
  have "u32_from_be [a, b, c, d] = word_of_nat (length p)"
    using from_to_bytes(2) [of "word_of_nat (length p)"] w by simp
  then show ?thesis
    using assms frame_length [of t p]
    by (simp add: take_frame_def frame_bytes_def f w FRAME_HEADER_LEN_def frame_ok_def slice_def drop_5_Cons)
qed

lemma take_frame_short:
  assumes "frame_ok f" and "strict_prefix q (frame_bytes f)"
  shows "take_frame q = Inr None"
proof (cases "length q < 5")
  case True
  then show ?thesis by (simp add: take_frame_def FRAME_HEADER_LEN_def)
next
  case False
  obtain t p where f: "f = (t, p)" by (cases f)
  obtain a b c d where w: "u32_to_be (word_of_nat (length p)) = [a, b, c, d]" using be32_bytes by blast
  have len: "u32_from_be [a, b, c, d] = word_of_nat (length p)"
    using from_to_bytes(2) [of "word_of_nat (length p)"] w by simp
  obtain z where z: "t # a # b # c # d # p = q @ z" and "z \<noteq> []"
    using assms(2) unfolding f frame_bytes_def by (auto simp: w strict_prefix_def prefix_def)
  have "5 + length p = length q + length z" using arg_cong [OF z, of length] by simp
  then have "length q < 5 + length p" using \<open>z \<noteq> []\<close> by (simp flip: length_greater_0_conv)
  moreover have "\<And>i. i < 5 \<Longrightarrow> q ! i = (t # a # b # c # d # p) ! i"
    using False z by (simp add: nth_append)
  ultimately show ?thesis
    using False assms(1) len frame_length [of t p]
    by (simp add: take_frame_def FRAME_HEADER_LEN_def f frame_ok_def)
qed

interpretation df: frame_codec frame_ok frame_bytes take_frame
  by unfold_locales (simp_all add: take_frame_enc take_frame_short)

section \<open>The read loop\<close>

text \<open>What is still to be consumed: the buffer and the bytes the connection will deliver.\<close>

definition stream :: "derp_client \<Rightarrow> bytes" where
  "stream d = dc_inbuf d @ conn_pending (dc_conn d)"

definition same_client :: "derp_client \<Rightarrow> derp_client \<Rightarrow> bool" where
  "same_client d d' \<longleftrightarrow> dc_region_id d' = dc_region_id d \<and> dc_server_key d' = dc_server_key d
     \<and> dc_last_activity d' = dc_last_activity d \<and> dc_last_ping_sent d' = dc_last_ping_sent d
     \<and> cn_out (dc_conn d') = cn_out (dc_conn d) \<and> cn_werr (dc_conn d') = cn_werr (dc_conn d)"

lemma conn_read_out: "conn_read n c = (r, c') \<Longrightarrow> cn_out c' = cn_out c \<and> cn_werr c' = cn_werr c"
  by (auto simp: conn_read_def split: list.splits read_ev.splits if_splits)

lemma fill_reads:
  assumes "conn_clean (dc_conn d)" "conn_pending (dc_conn d) \<noteq> []"
  shows "\<exists>d'. fill d = (Inr True, d') \<and> conn_clean (dc_conn d') \<and> stream d' = stream d \<and> same_client d d'"
proof -
  obtain b c where b: "conn_read 4096 (dc_conn d) = (Inr b, c)" "b \<noteq> []"
      "conn_pending (dc_conn d) = b @ conn_pending c" "conn_clean c"
    using cs.read_some [OF assms, of 4096] by auto
  then show ?thesis
    using conn_read_out [OF b(1)] by (simp add: fill_def stream_def same_client_def)
qed

lemma read_frame_loop_reads:
  assumes "frame_ok f" and "\<And>i. clk i < deadline"
    and "conn_clean (dc_conn d)" "stream d = frame_bytes f @ rest"
  shows "\<exists>d'. read_frame_loop clk deadline i d = (Inr (Some f), d') \<and> conn_clean (dc_conn d')
    \<and> stream d' = rest \<and> same_client d d'"
  using assms(3,4)
proof (induction "conn_size (dc_conn d)" arbitrary: d i rule: less_induct)
  case less
  from assms(1) less.prems(2) [unfolded stream_def] show ?case
  proof (cases rule: df.dec_stream)
    case (frame r)
    then show ?thesis using less.prems(1)
      by (subst read_frame_loop.simps) (simp add: stream_def same_client_def)
  next
    case more
    obtain d1 where d1: "fill d = (Inr True, d1)" "conn_clean (dc_conn d1)" "stream d1 = stream d" "same_client d d1"
      using fill_reads [OF less.prems(1) more(2)] by blast
    obtain d' where "read_frame_loop clk deadline (Suc i) d1 = (Inr (Some f), d')" "conn_clean (dc_conn d')"
        "stream d' = rest" "same_client d1 d'"
      using less.hyps [OF fill_size [OF d1(1)] d1(2), of "Suc i"] d1(3) less.prems(2) by auto
    then show ?thesis using more(1) d1 assms(2) [of i]
      by (subst read_frame_loop.simps) (auto simp: same_client_def not_le)
  qed
qed

lemma read_frame_reads:
  assumes "frame_ok f" and "\<And>i. clk (Suc i) < clk 0 + timeout"
    and "conn_clean (dc_conn d)" "stream d = frame_bytes f @ rest"
  shows "\<exists>d'. read_frame clk timeout d = (Inr (Some f), d') \<and> conn_clean (dc_conn d')
    \<and> stream d' = rest \<and> same_client d d'"
proof -
  have shift: "read_frame_loop (\<lambda>i. clk (Suc i)) dl i e = read_frame_loop clk dl (Suc i) e" for dl i e
    by (induction "\<lambda>i. clk (Suc i)" dl i e rule: read_frame_loop.induct)
      (subst (1 2) read_frame_loop.simps, auto split: sum.splits option.splits prod.splits)
  show ?thesis
    using read_frame_loop_reads [of f "\<lambda>i. clk (Suc i)" "clk 0 + timeout" d rest 0] assms
    by (simp add: read_frame_def shift)
qed

lemma write_frame_ok:
  "cn_werr (dc_conn d) = None \<Longrightarrow> write_frame t p d =
     (Inr (), d\<lparr>dc_conn := (dc_conn d)\<lparr>cn_out := cn_out (dc_conn d) @ frame_bytes (t, p)\<rparr>\<rparr>)"
  by (simp add: write_frame_def conn_write_all_def)

lemma conn_out_irrelevant [simp]:
  "conn_pending (c\<lparr>cn_out := x\<rparr>) = conn_pending c" "conn_clean (c\<lparr>cn_out := x\<rparr>) = conn_clean c"
  by (simp_all add: conn_pending_def conn_clean_def)

section \<open>Properties\<close>

text \<open>
  The frames a server writes are read back one by one, whole and in order, however the
  connection cuts the stream into pieces: \<open>pulls\<close> applies the client's \<open>take_frame\<close> to the pieces.
\<close>

theorem derp_frames_chunk_independent:
  assumes "list_all frame_ok fs" and "concat pieces = concat (map frame_bytes fs) @ rest"
  shows "pulls take_frame (length fs) [] pieces = Inr (Some (fs, rest))"
  by (rule df.pulls_frames) (use assms in simp_all)

definition demo_frames :: "(u8 \<times> bytes) list" where
  "demo_frames = [(0x12, [9]), (0x06, [])]"

theorem derp_frames_chunk_independent_witness:
  "pulls take_frame (length demo_frames) [] [[0x12, 0, 0], [0, 1, 9, 0x06, 0], [0, 0, 0, 5]]
     = Inr (Some (demo_frames, [5]))"
proof (rule derp_frames_chunk_independent)
  show "list_all frame_ok demo_frames" by (simp add: demo_frames_def frame_ok_def)
  show "concat [[0x12, 0, 0], [0, 1, 9, 0x06, 0], [0, 0, 0, 5]] = concat (map frame_bytes demo_frames) @ [5]"
    by code_simp
qed

text \<open>
  When the stream starts with a received-packet frame, \<open>derp_recv\<close> returns the sender's key and
  the packet, leaves the rest of the stream untouched, and only the activity time changes.
\<close>

theorem derp_recv_packet:
  assumes "length src = 32" and "length data \<le> MAX_PACKET + 64"
    and "\<And>i. clk (Suc i) < clk 0 + timeout" and "conn_clean (dc_conn d)"
    and "stream d = frame_bytes (FRAME_RECV_PACKET, src @ data) @ rest"
  shows "\<exists>d'. derp_recv clk timeout now d = (Inr (Some (EvPacket src data)), d')
    \<and> stream d' = rest \<and> conn_clean (dc_conn d') \<and> dc_last_activity d' = now
    \<and> cn_out (dc_conn d') = cn_out (dc_conn d)"
proof -
  have "frame_ok (FRAME_RECV_PACKET, src @ data)" using assms(1,2) by (simp add: frame_ok_def KEY_LEN_def)
  then obtain d' where "read_frame clk timeout d = (Inr (Some (FRAME_RECV_PACKET, src @ data)), d')"
      "conn_clean (dc_conn d')" "stream d' = rest" "same_client d d'"
    using read_frame_reads [OF _ assms(3-5)] by blast
  then show ?thesis using assms(1)
    by (simp add: derp_recv_def KEY_LEN_def stream_def same_client_def)
qed

definition demo_derp :: "bytes list \<Rightarrow> derp_client" where
  "demo_derp pieces = \<lparr>dc_conn = conn_of pieces, dc_inbuf = [], dc_region_id = 1,
     dc_server_key = replicate 32 0, dc_last_activity = 0, dc_last_ping_sent = None\<rparr>"

lemma demo_derp_simps [simp]:
  "[] \<notin> set pieces \<Longrightarrow> conn_clean (dc_conn (demo_derp pieces))"
  "stream (demo_derp pieces) = concat pieces" "cn_werr (dc_conn (demo_derp pieces)) = None"
  by (simp_all add: demo_derp_def stream_def conn_of_clean conn_of_pending) (simp add: conn_of_def)

theorem derp_recv_packet_witness:
  "\<exists>d'. derp_recv (\<lambda>_. 0) 1 7 (demo_derp [frame_bytes (FRAME_RECV_PACKET, replicate 32 4 @ [1, 2]), [8]])
       = (Inr (Some (EvPacket (replicate 32 4) [1, 2])), d')
    \<and> stream d' = [8] \<and> conn_clean (dc_conn d') \<and> dc_last_activity d' = 7
    \<and> cn_out (dc_conn d') = cn_out (dc_conn (demo_derp
        [frame_bytes (FRAME_RECV_PACKET, replicate 32 4 @ [1, 2]), [8]]))"
  by (rule derp_recv_packet) (simp_all add: frame_bytes_def MAX_PACKET_def)

text \<open>
  A ping of the server is answered by a pong with the same eight bytes and is not reported to
  the caller.
\<close>

theorem derp_ping_answered:
  assumes "length payload = 8" and "\<And>i. clk (Suc i) < clk 0 + timeout"
    and "conn_clean (dc_conn d)" and "cn_werr (dc_conn d) = None"
    and "stream d = frame_bytes (FRAME_PING, payload) @ rest"
  shows "\<exists>d'. derp_recv clk timeout now d = (Inr None, d') \<and> stream d' = rest
    \<and> cn_out (dc_conn d') = cn_out (dc_conn d) @ frame_bytes (FRAME_PONG, payload)"
proof -
  have "frame_ok (FRAME_PING, payload)" using assms(1) by (simp add: frame_ok_def)
  then obtain d' where "read_frame clk timeout d = (Inr (Some (FRAME_PING, payload)), d')"
      "stream d' = rest" "same_client d d'"
    using read_frame_reads [OF _ assms(2,3,5)] by blast
  then show ?thesis using assms(1,4)
    by (simp add: derp_recv_def write_frame_ok same_client_def stream_def frame_types)
qed

theorem derp_ping_answered_witness:
  "\<exists>d'. derp_recv (\<lambda>_. 0) 1 7 (demo_derp [frame_bytes (FRAME_PING, replicate 8 3)]) = (Inr None, d')
    \<and> stream d' = [] \<and> cn_out (dc_conn d') = cn_out (dc_conn (demo_derp [frame_bytes (FRAME_PING, replicate 8 3)]))
         @ frame_bytes (FRAME_PONG, replicate 8 3)"
  by (rule derp_ping_answered) (simp_all add: frame_bytes_def)

text \<open>
  The DERP handshake against a server that holds \<open>ss\<close>: on its greeting and its sealed server
  info the client succeeds, keeps the server's public key, has sent exactly one client-info frame
  whose box the server opens with the client's key, and leaves the stream after the server info.
\<close>

theorem derp_handshake_succeeds:
  assumes P: "box_ok P" and lens: "length sc = 32" "length ss = 32" "length nonce = 24" "length n2 = 24"
    and pub: "length (x25519_public P ss) = 32" and small: "length info \<le> 1000"
    and clk: "\<And>i. clk1 (Suc i) < clk1 0 + from_secs 15" "\<And>i. clk2 (Suc i) < clk2 0 + from_secs 15"
    and d: "conn_clean (dc_conn d)" "cn_werr (dc_conn d) = None"
    and str: "stream d = frame_bytes (FRAME_SERVER_KEY, DERP_MAGIC @ x25519_public P ss)
        @ frame_bytes (FRAME_SERVER_INFO, n2 @ nacl_box_seal P ss (x25519_public P sc) n2 info) @ rest"
  shows "\<exists>d' box. derp_handshake P clk1 clk2 nonce now (kp_from_secret P sc) d = (Inr (), d')
    \<and> dc_server_key d' = x25519_public P ss \<and> stream d' = rest
    \<and> cn_out (dc_conn d') = cn_out (dc_conn d)
        @ frame_bytes (FRAME_CLIENT_INFO, x25519_public P sc @ nonce @ box)
    \<and> nacl_box_open P ss (x25519_public P sc) nonce box = Inr CLIENT_INFO"
proof -
  let ?box = "nacl_box_seal P sc (x25519_public P ss) nonce CLIENT_INFO"
  have box: "salsa_open P (dh_base P a) b n (salsa_seal P (dh_base P b) a n m) = Some m
      \<and> length (salsa_seal P (dh_base P b) a n m) = length m + 16"
    if "length a = 32" "length b = 32" "length n = 24" for a b n m
    using P that unfolding box_ok_def by blast
  have open_: "nacl_box_open P b (x25519_public P a) n (nacl_box_seal P a (x25519_public P b) n m) = Inr m"
    and len: "length (nacl_box_seal P a (x25519_public P b) n m) = length m + 16"
    if "length a = 32" "length b = 32" "length n = 24" for a b n m
    using box [OF that, of m] by (simp_all add: nacl_box_open_def nacl_box_seal_def x25519_public_def TAG_LEN_def)
  have magic: "length DERP_MAGIC = 8" by (simp add: DERP_MAGIC_def)
  have "frame_ok (FRAME_SERVER_KEY, DERP_MAGIC @ x25519_public P ss)"
    using pub by (simp add: frame_ok_def magic)
  then obtain d1 where d1: "read_frame clk1 (from_secs 15) d = (Inr (Some (FRAME_SERVER_KEY, DERP_MAGIC @ x25519_public P ss)), d1)"
      "conn_clean (dc_conn d1)" "same_client d d1"
      "stream d1 = frame_bytes (FRAME_SERVER_INFO, n2 @ nacl_box_seal P ss (x25519_public P sc) n2 info) @ rest"
    using read_frame_reads [OF _ clk(1) d(1) str] by blast
  define d2 where "d2 = d1\<lparr>dc_server_key := x25519_public P ss, dc_conn := (dc_conn d1)\<lparr>cn_out := cn_out (dc_conn d1)
      @ frame_bytes (FRAME_CLIENT_INFO, x25519_public P sc @ nonce @ ?box)\<rparr>\<rparr>"
  have w: "write_frame FRAME_CLIENT_INFO (x25519_public P sc @ nonce @ ?box) (d1\<lparr>dc_server_key := x25519_public P ss\<rparr>)
      = (Inr (), d2)"
    using d1(3) d(2) by (simp add: write_frame_ok d2_def same_client_def)
  have "frame_ok (FRAME_SERVER_INFO, n2 @ nacl_box_seal P ss (x25519_public P sc) n2 info)"
    using len [OF lens(2,1,4), of info] small lens(4) by (simp add: frame_ok_def MAX_PACKET_def)
  moreover have "conn_clean (dc_conn d2)" "stream d2 = stream d1" using d1(2) by (simp_all add: d2_def stream_def)
  ultimately obtain d3 where d3: "read_frame clk2 (from_secs 15) d2
        = (Inr (Some (FRAME_SERVER_INFO, n2 @ nacl_box_seal P ss (x25519_public P sc) n2 info)), d3)"
      "stream d3 = rest" "same_client d2 d3"
    using read_frame_reads [OF _ clk(2)] d1(4) by metis
  have key: "slice 8 40 (DERP_MAGIC @ x25519_public P ss) = x25519_public P ss"
    using pub by (simp add: slice_def magic)
  have "derp_handshake P clk1 clk2 nonce now (kp_from_secret P sc) d = (Inr (), d3\<lparr>dc_last_activity := now\<rparr>)"
    using d1(1) w d3(1,3) open_ [OF lens(2,1,4), of info] pub lens(4) key
    by (simp add: derp_handshake_def magic KEY_LEN_def NONCE_LEN_def Let_def kp_from_secret_def d2_def same_client_def)
  then show ?thesis
    using d3(2,3) d1(3) open_ [OF lens(1,2,3), of CLIENT_INFO]
    by (auto simp: d2_def same_client_def stream_def)
qed

theorem derp_handshake_succeeds_witness:
  "\<exists>d' box. derp_handshake demo_prims (\<lambda>_. 0) (\<lambda>_. 0) (replicate 24 6) 5 (kp_from_secret demo_prims (replicate 32 1))
        (demo_derp [frame_bytes (FRAME_SERVER_KEY, DERP_MAGIC @ x25519_public demo_prims (replicate 32 2)),
           frame_bytes (FRAME_SERVER_INFO, replicate 24 3 @ nacl_box_seal demo_prims (replicate 32 2)
             (x25519_public demo_prims (replicate 32 1)) (replicate 24 3) [1])]) = (Inr (), d')
    \<and> dc_server_key d' = x25519_public demo_prims (replicate 32 2)
    \<and> nacl_box_open demo_prims (replicate 32 2) (x25519_public demo_prims (replicate 32 1)) (replicate 24 6) box
        = Inr CLIENT_INFO"
proof -
  have "length (x25519_public demo_prims (replicate 32 2)) = 32" using crypto_okD(3) [OF demo_prims_ok] by simp
  then show ?thesis
    using derp_handshake_succeeds [OF crypto_okD(4) [OF demo_prims_ok], of "replicate 32 1" "replicate 32 2"
        "replicate 24 6" "replicate 24 3" "[1]" "\<lambda>_. 0" "\<lambda>_. 0"
        "demo_derp [frame_bytes (FRAME_SERVER_KEY, DERP_MAGIC @ x25519_public demo_prims (replicate 32 2)),
           frame_bytes (FRAME_SERVER_INFO, replicate 24 3 @ nacl_box_seal demo_prims (replicate 32 2)
             (x25519_public demo_prims (replicate 32 1)) (replicate 24 3) [1])]" "[]" 5]
    by (simp add: frame_bytes_def from_secs_def) blast
qed

end
