(* ===== verification/Usb_Serial.thy ===== *)
theory Usb_Serial
  imports Prelude
begin

text \<open>
  The baud-rate encodings of crates/adapter-core/src/usbserial.rs for FTDI and CH34x USB-serial
  bridges. Rates and clocks are computed in natural numbers: the source computes them in
  \<^verbatim>\<open>u64\<close> from a 32-bit rate and clocks of at most 12 MHz, which cannot overflow; the request
  words are words.
\<close>

section \<open>FTDI\<close>

record ftdi_chip =
  fast_clock :: bool
  port_in_index :: bool

definition from_bcd_device :: "u16 \<Rightarrow> ftdi_chip" where
  "from_bcd_device bcd_device =
     (let generation = drop_bit 8 bcd_device
      in \<lparr>fast_clock = (0x07 \<le> generation \<and> generation \<le> 0x09),
          port_in_index = (generation = 0x05 \<or> 0x07 \<le> generation \<and> generation \<le> 0x09 \<or> generation = 0x10)\<rparr>)"

definition port_index :: "ftdi_chip \<Rightarrow> u8 \<Rightarrow> u16" where
  "port_index chip interface = (if port_in_index chip then ucast interface + 1 else 0)"

record ftdi_baud_req =
  fb_value :: u16
  fb_index :: u16

definition FTDI_EIGHTHS_CODE :: "u32 list" where
  "FTDI_EIGHTHS_CODE = [0, 3, 2, 4, 1, 5, 6, 7]"

definition FTDI_MAX_INTEGER :: nat where "FTDI_MAX_INTEGER = 2 ^ 14 - 1"

definition clamp :: "nat \<Rightarrow> nat \<Rightarrow> nat \<Rightarrow> nat" where
  "clamp lo hi n = (if n < lo then lo else if hi < n then hi else n)"

definition ftdi_clock :: "nat \<Rightarrow> ftdi_chip \<Rightarrow> nat \<times> u32" where
  "ftdi_clock baud chip =
     (if fast_clock chip \<and> 1200 \<le> baud then (12000000, push_bit 17 1) else (3000000, 0))"

definition ftdi_eighths :: "nat \<Rightarrow> nat \<Rightarrow> nat" where
  "ftdi_eighths clock baud = clamp 8 (FTDI_MAX_INTEGER * 8 + 7) ((clock * 8 + baud div 2) div baud)"

definition ftdi_fields :: "nat \<Rightarrow> nat \<times> nat" where
  "ftdi_fields eighths =
     (let n = eighths div 8; k = eighths mod 8
      in if n = 1 \<and> k < 4 then (0, 0) else if n = 1 then (1, 0) else (n, k))"

definition ftdi_baud_request :: "u32 \<Rightarrow> ftdi_chip \<Rightarrow> u8 \<Rightarrow> ftdi_baud_req" where
  "ftdi_baud_request baud0 chip interface =
     (let baud = max (unat baud0) 1;
          (clock, fast_bit) = ftdi_clock baud chip;
          (integer, eighth) = ftdi_fields (ftdi_eighths clock baud);
          bits = word_of_nat integer OR push_bit 14 (FTDI_EIGHTHS_CODE ! eighth) OR fast_bit;
          high = ucast (drop_bit 16 bits) :: u16
      in \<lparr>fb_value = ucast bits,
          fb_index = (if port_in_index chip then push_bit 8 high OR port_index chip interface else high)\<rparr>)"

section \<open>CH34x\<close>

definition CH34X_CLOCKS :: "(u16 \<times> nat) list" where
  "CH34X_CLOCKS = [(3, 6000000), (2, 750000), (1, 93750), (0, 11719), (7, 12000000)]"

definition CH34X_NO_PACKET_WAIT :: u16 where "CH34X_NO_PACKET_WAIT = 0x80"

definition ch34x_count :: "nat \<Rightarrow> nat \<Rightarrow> nat" where
  "ch34x_count clock baud = clamp 2 255 ((clock + baud div 2) div baud)"

definition abs_diff :: "nat \<Rightarrow> nat \<Rightarrow> nat" where
  "abs_diff a b = (if a < b then b - a else a - b)"

definition ch34x_error :: "nat \<Rightarrow> nat \<Rightarrow> nat" where
  "ch34x_error clock baud = abs_diff (clock div ch34x_count clock baud) baud"

text \<open>The loop over the clock table: error, clock code and count of the best entry so far.\<close>

fun ch34x_loop :: "nat \<Rightarrow> (nat \<times> u16 \<times> nat) option \<Rightarrow> (u16 \<times> nat) list \<Rightarrow> (nat \<times> u16 \<times> nat) option" where
  "ch34x_loop baud best [] = best"
| "ch34x_loop baud best ((code, clock) # cs) =
     (let err = ch34x_error clock baud
      in ch34x_loop baud
           (if (case best of None \<Rightarrow> True | Some (e, _) \<Rightarrow> err < e)
            then Some (err, code, ch34x_count clock baud) else best) cs)"

text \<open>The \<^verbatim>\<open>expect\<close> on an empty table is \<open>None\<close>.\<close>

definition ch34x_baud_registers :: "u32 \<Rightarrow> u16 option" where
  "ch34x_baud_registers baud0 =
     (case ch34x_loop (max (unat baud0) 1) None CH34X_CLOCKS of
        None \<Rightarrow> None
      | Some (_, code, count) \<Rightarrow>
          Some (push_bit 8 (word_of_nat (256 - count)) OR code OR CH34X_NO_PACKET_WAIT))"

section \<open>Reading the encodings back\<close>

text \<open>
  What the chip makes of a request: its reference clock and the divisor in eighths. The integer
  parts 0 and 1 stand for the divisors 1 and 1.5.
\<close>

definition ftdi_decode :: "ftdi_baud_req \<Rightarrow> ftdi_chip \<Rightarrow> nat \<times> nat" where
  "ftdi_decode req chip =
     (let high = (if port_in_index chip then drop_bit 8 (fb_index req) else fb_index req);
          bits = push_bit 16 (ucast high) OR ucast (fb_value req) :: u32;
          n = unat (take_bit 14 bits);
          code = take_bit 3 (drop_bit 14 bits);
          k = length (takeWhile (\<lambda>c. c \<noteq> code) FTDI_EIGHTHS_CODE)
      in (if bit bits 17 then 12000000 else 3000000,
          if n = 0 then 8 else if n = 1 then 12 else n * 8 + k))"

definition ftdi_divisor :: "nat \<Rightarrow> nat" where
  "ftdi_divisor eighths = (if eighths < 12 then 8 else if eighths < 16 then 12 else eighths)"

section \<open>Lemmas\<close>

lemma ftdi_eighths_bounds: "8 \<le> ftdi_eighths clock baud \<and> ftdi_eighths clock baud < 2 ^ 17"
  by (simp add: ftdi_eighths_def clamp_def FTDI_MAX_INTEGER_def)

lemma ftdi_fields_bounds:
  assumes "8 \<le> e" "e < 2 ^ 17"
  shows "fst (ftdi_fields e) < 2 ^ 14" "snd (ftdi_fields e) < 8"
  using assms by (auto simp: ftdi_fields_def Let_def)

lemma eighths_code_range: "k < 8 \<Longrightarrow> FTDI_EIGHTHS_CODE ! k < 8
    \<and> length (takeWhile (\<lambda>c. c \<noteq> FTDI_EIGHTHS_CODE ! k) FTDI_EIGHTHS_CODE) = k"
proof -
  have "\<forall>k \<in> set [0..<8]. FTDI_EIGHTHS_CODE ! k < 8
    \<and> length (takeWhile (\<lambda>c. c \<noteq> FTDI_EIGHTHS_CODE ! k) FTDI_EIGHTHS_CODE) = k"
    by code_simp
  then show "k < 8 \<Longrightarrow> ?thesis" by simp
qed

lemma bit_below: "unat (w :: 'a::len word) < 2 ^ n \<Longrightarrow> bit w i \<Longrightarrow> i < n"
proof -
  assume "unat w < 2 ^ n" and "bit w i"
  then have "take_bit n (unat w) = unat w" "bit (unat w) i"
    by (simp_all add: take_bit_nat_eq_self bit_unsigned_iff bit_imp_le_length)
  then have "bit (take_bit n (unat w)) i" by simp
  then show "i < n" by (simp only: bit_take_bit_iff)
qed

lemma bit_fast: "bit (push_bit 17 1 :: u32) i \<longleftrightarrow> i = 17"
  unfolding bit_push_bit_iff bit_1_iff by auto

text \<open>The three fields of the request word do not overlap.\<close>

lemma ftdi_bits_fields:
  fixes n c :: u32
  assumes n: "unat n < 2 ^ 14" and c: "unat c < 2 ^ 3" and f: "\<And>i. bit f i \<longleftrightarrow> fast \<and> i = 17"
  shows "take_bit 14 (n OR push_bit 14 c OR f) = n"
    "take_bit 3 (drop_bit 14 (n OR push_bit 14 c OR f)) = c"
    "bit (n OR push_bit 14 c OR f) 17 = fast"
    "bit (n OR push_bit 14 c OR f) i \<Longrightarrow> i < 18"
proof -
  have bn: "bit n i \<Longrightarrow> i < 14" and bc: "bit c i \<Longrightarrow> i < 3" for i
    using bit_below [OF n] bit_below [OF c] by blast+
  note bits = bit_or_iff bit_take_bit_iff bit_drop_bit_eq bit_push_bit_iff f
  show "take_bit 14 (n OR push_bit 14 c OR f) = n"
    by (rule bit_word_eqI) (auto simp: bits dest: bn)
  show "take_bit 3 (drop_bit 14 (n OR push_bit 14 c OR f)) = c"
    by (rule bit_word_eqI) (auto simp: bits dest: bn bc)
  show "bit (n OR push_bit 14 c OR f) 17 = fast" by (auto simp: bits dest: bn bc)
  show "bit (n OR push_bit 14 c OR f) i \<Longrightarrow> i < 18" by (auto simp: bits dest: bn bc)
qed

lemma word_halves:
  fixes w :: u32
  shows "push_bit 16 (ucast (ucast (drop_bit 16 w) :: u16)) OR ucast (ucast w :: u16) = w"
  by (rule bit_word_eqI)
    (auto simp: bit_or_iff bit_push_bit_iff bit_ucast_iff bit_drop_bit_eq)

lemma index_halves:
  fixes h p :: u16
  assumes p: "\<And>i. bit p i \<Longrightarrow> i < 8" and h: "\<And>i. bit h i \<Longrightarrow> i < 8"
  shows "drop_bit 8 (push_bit 8 h OR p) = h" "take_bit 8 (push_bit 8 h OR p) = p"
proof -
  note bits = bit_or_iff bit_take_bit_iff bit_drop_bit_eq bit_push_bit_iff
  show "drop_bit 8 (push_bit 8 h OR p) = h" by (rule bit_word_eqI) (auto simp: bits dest: p h)
  show "take_bit 8 (push_bit 8 h OR p) = p" by (rule bit_word_eqI) (auto simp: bits dest: p)
qed

lemma ftdi_fields_divisor:
  assumes "8 \<le> e" "ftdi_fields e = (n, k)"
  shows "(if n = 0 then 8 else if n = 1 then 12 else n * 8 + k) = ftdi_divisor e"
proof -
  have "e div 8 * 8 + e mod 8 = e" by simp
  moreover have "e div 8 = 1 \<longleftrightarrow> e < 16" "e div 8 \<noteq> 0" using assms(1) by auto
  moreover have "e div 8 = 1 \<Longrightarrow> e mod 8 < 4 \<longleftrightarrow> e < 12" using calculation(1) by linarith
  ultimately show ?thesis using assms by (auto simp: ftdi_fields_def ftdi_divisor_def Let_def split: if_splits)
qed

lemma port_index_bits:
  assumes "interface < 255" "bit (port_index chip interface) i"
  shows "i < 8"
proof (rule bit_below [OF _ assms(2)])
  have "unat interface < 255" using assms(1) by (simp add: word_less_nat_alt)
  then have "unat (ucast interface + 1 :: u16) < 256"
    by (simp add: unat_word_ariths unsigned_ucast_eq take_bit_nat_eq_self)
  then show "unat (port_index chip interface) < 2 ^ 8" by (simp add: port_index_def)
qed

lemma ch34x_loop_best:
  assumes "best = None \<or> (\<exists>code clock. best = Some (ch34x_error clock baud, code, ch34x_count clock baud)
      \<and> (code, clock) \<in> set seen \<and> (\<forall>(c, k) \<in> set seen. ch34x_error clock baud \<le> ch34x_error k baud))"
    and "best = None \<longleftrightarrow> seen = []" and "seen @ cs \<noteq> []"
  shows "\<exists>code clock. ch34x_loop baud best cs = Some (ch34x_error clock baud, code, ch34x_count clock baud)
      \<and> (code, clock) \<in> set (seen @ cs) \<and> (\<forall>(c, k) \<in> set (seen @ cs). ch34x_error clock baud \<le> ch34x_error k baud)"
  using assms
proof (induction cs arbitrary: best seen)
  case Nil
  then show ?case by auto
next
  case (Cons x cs)
  obtain code clock where x: "x = (code, clock)" by (cases x)
  let ?new = "if (case best of None \<Rightarrow> True | Some (e, _) \<Rightarrow> ch34x_error clock baud < e)
      then Some (ch34x_error clock baud, code, ch34x_count clock baud) else best"
  have "?new = None \<or> (\<exists>co cl. ?new = Some (ch34x_error cl baud, co, ch34x_count cl baud)
      \<and> (co, cl) \<in> set (seen @ [x]) \<and> (\<forall>(c, k) \<in> set (seen @ [x]). ch34x_error cl baud \<le> ch34x_error k baud))"
  proof (cases best)
    case None
    then have "seen = []" using Cons.prems(2) by simp
    then show ?thesis using None x by auto
  next
    case (Some b)
    then obtain co cl where b: "best = Some (ch34x_error cl baud, co, ch34x_count cl baud)"
        "(co, cl) \<in> set seen" "\<forall>(c, k) \<in> set seen. ch34x_error cl baud \<le> ch34x_error k baud"
      using Cons.prems(1) by auto
    show ?thesis
    proof (cases "ch34x_error clock baud < ch34x_error cl baud")
      case True
      then have "\<forall>(c, k) \<in> set (seen @ [x]). ch34x_error clock baud \<le> ch34x_error k baud"
        using b(3) x by fastforce
      then show ?thesis using True b(1) x by (intro disjI2 exI [of _ code] exI [of _ clock]) simp
    next
      case False
      then show ?thesis using b x by (intro disjI2 exI [of _ co] exI [of _ cl]) auto
    qed
  qed
  moreover have "?new = None \<longleftrightarrow> seen @ [x] = []" using Cons.prems(2) by (auto split: option.splits)
  ultimately have "\<exists>co cl. ch34x_loop baud ?new cs = Some (ch34x_error cl baud, co, ch34x_count cl baud)
      \<and> (co, cl) \<in> set ((seen @ [x]) @ cs) \<and> (\<forall>(c, k) \<in> set ((seen @ [x]) @ cs). ch34x_error cl baud \<le> ch34x_error k baud)"
    by (rule Cons.IH) simp
  then show ?case by (simp add: x Let_def)
qed

lemma ch34x_count_bounds: "2 \<le> ch34x_count clock baud \<and> ch34x_count clock baud \<le> 255"
  by (simp add: ch34x_count_def clamp_def)

section \<open>Properties\<close>

text \<open>
  C37: An FTDI request is read back by the chip as intended: for every rate, chip and interface below
  255 the reference clock and the divisor (in eighths, with 1 and 1.5 as the only divisors below 2)
  are those the encoder chose, and on chips that take a port number the low byte of the index is
  the interface number plus one.
\<close>

theorem ftdi_request_decodes:
  fixes baud :: u32
  assumes "interface < 255"
  defines "b \<equiv> max (unat baud) 1"
  shows "ftdi_decode (ftdi_baud_request baud chip interface) chip
      = (fst (ftdi_clock b chip), ftdi_divisor (ftdi_eighths (fst (ftdi_clock b chip)) b))
    \<and> (port_in_index chip \<longrightarrow> take_bit 8 (fb_index (ftdi_baud_request baud chip interface)) = ucast interface + 1)"
proof -
  define e where "e = ftdi_eighths (fst (ftdi_clock b chip)) b"
  obtain n k where nk: "ftdi_fields e = (n, k)" by (cases "ftdi_fields e")
  have e: "8 \<le> e" "e < 2 ^ 17" using ftdi_eighths_bounds unfolding e_def by blast+
  have bounds: "n < 2 ^ 14" "k < 8" using ftdi_fields_bounds [OF e] nk by simp_all
  define fb where "fb = snd (ftdi_clock b chip)"
  define fast where "fast \<longleftrightarrow> fast_clock chip \<and> 1200 \<le> b"
  have fb: "bit fb i \<longleftrightarrow> fast \<and> i = 17" for i
  proof (cases fast)
    case True
    then have "fb = push_bit 17 1" unfolding fast_def fb_def ftdi_clock_def by (simp only: if_True simp_thms snd_conv)
    then show ?thesis using True bit_fast by metis
  next
    case False
    then have "fb = 0" unfolding fast_def fb_def ftdi_clock_def by (simp only: if_False snd_conv)
    then show ?thesis using False by simp
  qed
  define w where "w = word_of_nat n OR push_bit 14 (FTDI_EIGHTHS_CODE ! k) OR fb"
  have un: "unat (word_of_nat n :: u32) = n" using bounds(1) by (simp add: unat_of_nat)
  have uc: "unat (FTDI_EIGHTHS_CODE ! k) < 2 ^ 3" using eighths_code_range [OF bounds(2)] by (simp add: word_less_nat_alt)
  have w: "take_bit 14 w = word_of_nat n" "take_bit 3 (drop_bit 14 w) = FTDI_EIGHTHS_CODE ! k" "bit w 17 = fast"
      "\<And>i. bit w i \<Longrightarrow> i < 18"
    using ftdi_bits_fields [of "word_of_nat n" "FTDI_EIGHTHS_CODE ! k" fb fast] un bounds(1) uc fb
    unfolding w_def by auto
  define h where "h = (ucast (drop_bit 16 w) :: u16)"
  have h: "bit h i \<Longrightarrow> i < 8" for i
    using w(4) [of "16 + i"] by (auto simp: h_def bit_ucast_iff bit_drop_bit_eq)
  have req: "ftdi_baud_request baud chip interface = \<lparr>fb_value = ucast w,
      fb_index = if port_in_index chip then push_bit 8 h OR port_index chip interface else h\<rparr>"
    unfolding ftdi_baud_request_def Let_def b_def [symmetric] case_prod_beta e_def [symmetric] nk fst_conv snd_conv
      fb_def [symmetric] w_def [symmetric] h_def [symmetric] ..
  have idx: "drop_bit 8 (push_bit 8 h OR port_index chip interface) = h"
      "take_bit 8 (push_bit 8 h OR port_index chip interface) = port_index chip interface"
    using index_halves [of "port_index chip interface" h] port_index_bits [OF assms(1)] h by blast+
  have high: "(if port_in_index chip then drop_bit 8 (if port_in_index chip then push_bit 8 h OR port_index chip interface else h)
      else (if port_in_index chip then push_bit 8 h OR port_index chip interface else h)) = h"
    using idx(1) by simp
  have bits: "push_bit 16 (ucast h) OR ucast (ucast w :: u16) = w" unfolding h_def by (rule word_halves)
  have "fst (ftdi_clock b chip) = (if fast then 12000000 else 3000000)" by (simp add: ftdi_clock_def fast_def)
  moreover have "ftdi_divisor e = (if n = 0 then 8 else if n = 1 then 12 else n * 8 + k)"
    using ftdi_fields_divisor [OF e(1) nk] by simp
  ultimately have "ftdi_decode (ftdi_baud_request baud chip interface) chip = (fst (ftdi_clock b chip), ftdi_divisor e)"
    unfolding ftdi_decode_def req Let_def ftdi_baud_req.simps high bits w(1-3) un
      conjunct2 [OF eighths_code_range [OF bounds(2)]] by simp
  moreover have "port_in_index chip \<longrightarrow> take_bit 8 (fb_index (ftdi_baud_request baud chip interface)) = ucast interface + 1"
    unfolding req ftdi_baud_req.simps
  proof
    assume "port_in_index chip"
    then show "take_bit 8 (if port_in_index chip then push_bit 8 h OR port_index chip interface else h) = ucast interface + 1"
      by (simp only: if_True idx(2)) (simp add: port_index_def)
  qed
  ultimately show ?thesis unfolding e_def by blast
qed

theorem ftdi_request_decodes_witness:
  "ftdi_decode (ftdi_baud_request 115200 (from_bcd_device 0x0700) 1) (from_bcd_device 0x0700) = (12000000, 833)"
proof -
  have "(1 :: u8) < 255" by simp
  moreover have "fst (ftdi_clock (max (unat (115200 :: u32)) 1) (from_bcd_device 0x0700)) = 12000000"
    and "ftdi_divisor (ftdi_eighths 12000000 (max (unat (115200 :: u32)) 1)) = 833"
    by code_simp+
  ultimately show ?thesis using ftdi_request_decodes [of 1 115200 "from_bcd_device 0x0700"] by simp
qed

text \<open>
  The documented rounding to the nearest reachable rate fails below divisor 2: 1.6 Mbaud on a
  3 MHz chip is encoded as divisor 1.5, that is 2 Mbaud (0.4 Mbaud off), although the chip reaches
  1.5 Mbaud with divisor 2 (0.1 Mbaud off), the encoding of the request for 1.5 Mbaud.
\<close>

theorem ftdi_not_nearest_rate:
  "ftdi_decode (ftdi_baud_request 1600000 (from_bcd_device 0x0600) 0) (from_bcd_device 0x0600) = (3000000, 12)
   \<and> ftdi_decode (ftdi_baud_request 1500000 (from_bcd_device 0x0600) 0) (from_bcd_device 0x0600) = (3000000, 16)
   \<and> abs_diff (3000000 * 8 div 16) 1600000 < abs_diff (3000000 * 8 div 12) 1600000"
  by code_simp

text \<open>
  The CH34x registers encode an entry of the clock table and a count between 2 and 255, with the
  packet-wait bit set; the rate error of the chosen clock, with its rounded count, is the smallest
  over the table. The function never panics.
\<close>

theorem ch34x_best_clock:
  "\<exists>code clock. (code, clock) \<in> set CH34X_CLOCKS
    \<and> ch34x_baud_registers baud = Some (push_bit 8 (word_of_nat (256 - ch34x_count clock (max (unat baud) 1))) OR code OR 0x80)
    \<and> 2 \<le> ch34x_count clock (max (unat baud) 1) \<and> ch34x_count clock (max (unat baud) 1) \<le> 255
    \<and> list_all (\<lambda>(c, k). ch34x_error clock (max (unat baud) 1) \<le> ch34x_error k (max (unat baud) 1)) CH34X_CLOCKS"
proof -
  let ?b = "max (unat baud) 1"
  obtain code clock where "ch34x_loop ?b None CH34X_CLOCKS = Some (ch34x_error clock ?b, code, ch34x_count clock ?b)"
      "(code, clock) \<in> set CH34X_CLOCKS" "\<forall>(c, k) \<in> set CH34X_CLOCKS. ch34x_error clock ?b \<le> ch34x_error k ?b"
    using ch34x_loop_best [of None ?b "[]" CH34X_CLOCKS] by (auto simp: CH34X_CLOCKS_def)
  then show ?thesis
    using ch34x_count_bounds [of clock ?b]
    by (intro exI [of _ code] exI [of _ clock])
      (simp add: ch34x_baud_registers_def CH34X_NO_PACKET_WAIT_def list_all_iff)
qed

end
