(* ===== verification/H2.thy ===== *)
theory H2
  imports Framing Http1 Disco
begin

text \<open>
  The HTTP/2 client of crates/tsnode/src/h2.rs. The hpack crate is third-party: its encoder and
  decoder are the record \<open>hpack\<close> of functions on their states. \<open>clk i\<close> is the i-th clock reading
  of a call; the streams are an association list. \<open>conn_send_window\<close> and the windows of the streams
  are signed, as in the source.
\<close>

section \<open>Constants and types\<close>

definition PREFACE :: bytes where
  "PREFACE = str_bytes ''PRI * HTTP/2.0'' @ CRLF @ CRLF @ str_bytes ''SM'' @ CRLF @ CRLF"

definition H2_DATA :: u8 where "H2_DATA = 0"
definition H2_HEADERS :: u8 where "H2_HEADERS = 1"
definition H2_PRIORITY :: u8 where "H2_PRIORITY = 2"
definition H2_RST_STREAM :: u8 where "H2_RST_STREAM = 3"
definition H2_SETTINGS :: u8 where "H2_SETTINGS = 4"
definition H2_PUSH_PROMISE :: u8 where "H2_PUSH_PROMISE = 5"
definition H2_PING :: u8 where "H2_PING = 6"
definition H2_GOAWAY :: u8 where "H2_GOAWAY = 7"
definition H2_WINDOW_UPDATE :: u8 where "H2_WINDOW_UPDATE = 8"
definition H2_CONTINUATION :: u8 where "H2_CONTINUATION = 9"

definition FLAG_END_STREAM :: u8 where "FLAG_END_STREAM = 0x1"
definition FLAG_ACK :: u8 where "FLAG_ACK = 0x1"
definition FLAG_END_HEADERS :: u8 where "FLAG_END_HEADERS = 0x4"
definition FLAG_PADDED :: u8 where "FLAG_PADDED = 0x8"
definition FLAG_PRIORITY :: u8 where "FLAG_PRIORITY = 0x20"

definition SETTINGS_HEADER_TABLE_SIZE :: u16 where "SETTINGS_HEADER_TABLE_SIZE = 1"
definition SETTINGS_ENABLE_PUSH :: u16 where "SETTINGS_ENABLE_PUSH = 2"
definition SETTINGS_MAX_CONCURRENT_STREAMS :: u16 where "SETTINGS_MAX_CONCURRENT_STREAMS = 3"
definition SETTINGS_INITIAL_WINDOW_SIZE :: u16 where "SETTINGS_INITIAL_WINDOW_SIZE = 4"
definition SETTINGS_MAX_FRAME_SIZE :: u16 where "SETTINGS_MAX_FRAME_SIZE = 5"

definition MAX_FRAME_SIZE :: nat where "MAX_FRAME_SIZE = 16384"
definition MAX_HEADER_BLOCK :: nat where "MAX_HEADER_BLOCK = 64 * 1024"
definition DEFAULT_WINDOW :: u32 where "DEFAULT_WINDOW = 65535"
definition OUR_WINDOW :: u32 where "OUR_WINDOW = 256 * 1024"
definition WINDOW_UPDATE_THRESHOLD :: u32 where "WINDOW_UPDATE_THRESHOLD = 128 * 1024"

lemmas h2_types = H2_DATA_def H2_HEADERS_def H2_PRIORITY_def H2_RST_STREAM_def H2_SETTINGS_def
  H2_PUSH_PROMISE_def H2_PING_def H2_GOAWAY_def H2_WINDOW_UPDATE_def H2_CONTINUATION_def

type_synonym h2_frame = "u8 \<times> u8 \<times> u32 \<times> bytes"

record h2_stream =
  st_status :: "nat option"
  st_headers :: "(string \<times> string) list"
  st_header_block :: bytes
  st_headers_done :: bool
  st_body :: bytes
  st_end_stream :: bool
  st_reset :: "u32 option"
  st_send_window :: int
  st_recv_consumed :: u32

definition st_default :: h2_stream where
  "st_default = \<lparr>st_status = None, st_headers = [], st_header_block = [], st_headers_done = False,
     st_body = [], st_end_stream = False, st_reset = None, st_send_window = 0, st_recv_consumed = 0\<rparr>"

text \<open>The hpack crate: a decode either panics, fails or returns the header list.\<close>

datatype hp_result = HpPanic | HpErr | HpOk "(bytes \<times> bytes) list"

record ('e, 'd) hpack =
  hp_encode :: "'e \<Rightarrow> (bytes \<times> bytes) list \<Rightarrow> bytes \<times> 'e"
  hp_decode :: "'d \<Rightarrow> bytes \<Rightarrow> hp_result \<times> 'd"
  hp_enc_new :: 'e
  hp_dec_new :: 'd

record ('e, 'd) h2_conn =
  h_conn :: conn
  h_inbuf :: bytes
  h_encoder :: 'e
  h_decoder :: 'd
  h_next_stream_id :: u32
  h_streams :: "(u32 \<times> h2_stream) list"
  h_conn_send_window :: int
  h_conn_recv_consumed :: u32
  h_peer_max_frame :: nat
  h_peer_initial_window :: u32
  h_goaway :: "(u32 \<times> string) option"
  h_authority :: string

section \<open>Frames\<close>

definition push_frame :: "h2_frame \<Rightarrow> bytes" where
  "push_frame = (\<lambda>(typ, flags, sid, payload).
     let len = length payload
     in [word_of_nat (len div 65536), word_of_nat (len div 256), word_of_nat len, typ, flags]
        @ u32_to_be sid @ payload)"

definition strip_padding :: "bytes \<Rightarrow> bool \<Rightarrow> io_kind + bytes" where
  "strip_padding payload padded =
     (if \<not> padded then Inr payload
      else if payload = [] then Inl InvalidData
      else
        let pad = unat (payload ! 0)
        in if length payload < pad + 1 then Inl InvalidData
           else Inr (slice 1 (length payload - pad) payload))"

definition h2_take_frame :: "bytes \<Rightarrow> io_kind + (h2_frame \<times> bytes) option" where
  "h2_take_frame inbuf =
     (if length inbuf < 9 then Inr None
      else
        let len = unat (inbuf ! 0) * 65536 + unat (inbuf ! 1) * 256 + unat (inbuf ! 2)
        in if MAX_FRAME_SIZE < len then Inl InvalidData
           else if length inbuf < 9 + len then Inr None
           else
             let typ = inbuf ! 3; flags = inbuf ! 4;
                 sid = u32_from_be [inbuf ! 5, inbuf ! 6, inbuf ! 7, inbuf ! 8] AND 0x7fffffff
             in Inr (Some ((typ, flags, sid, slice 9 (9 + len) inbuf), drop (9 + len) inbuf)))"

section \<open>Frame handlers\<close>

definition h2_write :: "bytes \<Rightarrow> ('e, 'd) h2_conn \<Rightarrow> (io_kind + unit) \<times> ('e, 'd) h2_conn" where
  "h2_write b h =
     (case conn_write_all b (h_conn h) of (r, c) \<Rightarrow> (r, h\<lparr>h_conn := c\<rparr>))"

definition set_stream :: "u32 \<Rightarrow> h2_stream \<Rightarrow> ('e, 'd) h2_conn \<Rightarrow> ('e, 'd) h2_conn" where
  "set_stream sid s h = h\<lparr>h_streams := AList.update sid s (h_streams h)\<rparr>"

text \<open>\<^verbatim>\<open>entry(sid).or_default()\<close>\<close>

definition stream_or_default :: "u32 \<Rightarrow> ('e, 'd) h2_conn \<Rightarrow> h2_stream" where
  "stream_or_default sid h = (case map_of (h_streams h) sid of Some s \<Rightarrow> s | None \<Rightarrow> st_default)"

definition maybe_window_update ::
    "u32 \<Rightarrow> ('e, 'd) h2_conn \<Rightarrow> (io_kind + unit) \<times> ('e, 'd) h2_conn" where
  "maybe_window_update sid h =
     (let (out1, h) =
        (if WINDOW_UPDATE_THRESHOLD \<le> h_conn_recv_consumed h
         then (push_frame (H2_WINDOW_UPDATE, 0, 0, u32_to_be (h_conn_recv_consumed h)),
               h\<lparr>h_conn_recv_consumed := 0\<rparr>)
         else ([], h));
          (out2, h) =
        (case map_of (h_streams h) sid of
           None \<Rightarrow> ([], h)
         | Some s \<Rightarrow>
             (if WINDOW_UPDATE_THRESHOLD \<le> st_recv_consumed s \<and> \<not> st_end_stream s
              then (push_frame (H2_WINDOW_UPDATE, 0, sid, u32_to_be (st_recv_consumed s)),
                    set_stream sid (s\<lparr>st_recv_consumed := 0\<rparr>) h)
              else ([], h)))
      in if out1 @ out2 \<noteq> [] then h2_write (out1 @ out2) h else (Inr (), h))"

text \<open>The loop over the decoded headers.\<close>

fun take_headers :: "(bytes \<times> bytes) list \<Rightarrow> h2_stream \<Rightarrow> h2_stream" where
  "take_headers [] s = s"
| "take_headers ((k, v) # hs) s =
     (let k = from_utf8_lossy k; v = from_utf8_lossy v
      in take_headers hs
           (if k = '':status'' then
              (case parse_uint 65536 v of
                 None \<Rightarrow> s
               | Some code \<Rightarrow>
                   (if 200 \<le> code \<or> st_status s = None then s\<lparr>st_status := Some code\<rparr> else s))
            else s\<lparr>st_headers := st_headers s @ [(k, v)]\<rparr>))"

definition finish_headers ::
    "('e, 'd) hpack \<Rightarrow> u32 \<Rightarrow> ('e, 'd) h2_conn \<Rightarrow> (io_kind + unit) \<times> ('e, 'd) h2_conn" where
  "finish_headers H sid h =
     (case map_of (h_streams h) sid of
        None \<Rightarrow> (Inr (), h)
      | Some s \<Rightarrow>
          (let block = st_header_block s;
               s = s\<lparr>st_header_block := []\<rparr>;
               h = set_stream sid s h
           in if MAX_HEADER_BLOCK < length block then (Inl InvalidData, h)
              else case hp_decode H (h_decoder h) block of
                (HpPanic, d) \<Rightarrow> (Inl InvalidData, h\<lparr>h_decoder := d\<rparr>)
              | (HpErr, d) \<Rightarrow> (Inl InvalidData, h\<lparr>h_decoder := d\<rparr>)
              | (HpOk hs, d) \<Rightarrow>
                  (Inr (), set_stream sid ((take_headers hs s)\<lparr>st_headers_done := True\<rparr>)
                             (h\<lparr>h_decoder := d\<rparr>))))"

definition apply_setting :: "bytes \<Rightarrow> ('e, 'd) h2_conn \<Rightarrow> ('e, 'd) h2_conn" where
  "apply_setting chunk h =
     (let id = u16_from_be [chunk ! 0, chunk ! 1];
          val = u32_from_be [chunk ! 2, chunk ! 3, chunk ! 4, chunk ! 5]
      in if id = SETTINGS_MAX_FRAME_SIZE then
           h\<lparr>h_peer_max_frame := max 16384 (min (unat val) (2 ^ 24))\<rparr>
         else if id = SETTINGS_INITIAL_WINDOW_SIZE then
           (let delta = uint val - uint (h_peer_initial_window h)
            in h\<lparr>h_peer_initial_window := val,
                 h_streams := map (\<lambda>(k, s). (k, s\<lparr>st_send_window := st_send_window s + delta\<rparr>))
                                (h_streams h)\<rparr>)
         else h)"

definition handle_data ::
    "u8 \<Rightarrow> u32 \<Rightarrow> bytes \<Rightarrow> ('e, 'd) h2_conn \<Rightarrow> (io_kind + unit) \<times> ('e, 'd) h2_conn" where
  "handle_data flags sid payload h =
     (case strip_padding payload (flags AND FLAG_PADDED \<noteq> 0) of
        Inl e \<Rightarrow> (Inl e, h)
      | Inr data \<Rightarrow>
          (let len = word_of_nat (length payload);
               h = (case map_of (h_streams h) sid of
                      None \<Rightarrow> h
                    | Some s \<Rightarrow>
                        set_stream sid (s\<lparr>st_body := st_body s @ data,
                          st_end_stream := (st_end_stream s \<or> flags AND FLAG_END_STREAM \<noteq> 0),
                          st_recv_consumed := st_recv_consumed s + len\<rparr>) h);
               h = h\<lparr>h_conn_recv_consumed := h_conn_recv_consumed h + len\<rparr>
           in maybe_window_update sid h))"

definition handle_headers ::
    "('e, 'd) hpack \<Rightarrow> u8 \<Rightarrow> u32 \<Rightarrow> bytes \<Rightarrow> ('e, 'd) h2_conn \<Rightarrow> (io_kind + unit) \<times> ('e, 'd) h2_conn" where
  "handle_headers H flags sid payload h =
     (case strip_padding payload (flags AND FLAG_PADDED \<noteq> 0) of
        Inl e \<Rightarrow> (Inl e, h)
      | Inr block \<Rightarrow>
          (if flags AND FLAG_PRIORITY \<noteq> 0 \<and> length block < 5 then (Inl InvalidData, h)
           else
             let block = (if flags AND FLAG_PRIORITY \<noteq> 0 then drop 5 block else block);
                 s = stream_or_default sid h;
                 s = s\<lparr>st_header_block := st_header_block s @ block,
                       st_end_stream := (st_end_stream s \<or> flags AND FLAG_END_STREAM \<noteq> 0)\<rparr>;
                 h = set_stream sid s h
             in if flags AND FLAG_END_HEADERS \<noteq> 0 then finish_headers H sid h else (Inr (), h)))"

definition handle_continuation ::
    "('e, 'd) hpack \<Rightarrow> u8 \<Rightarrow> u32 \<Rightarrow> bytes \<Rightarrow> ('e, 'd) h2_conn \<Rightarrow> (io_kind + unit) \<times> ('e, 'd) h2_conn" where
  "handle_continuation H flags sid payload h =
     (let s = stream_or_default sid h;
          h = set_stream sid (s\<lparr>st_header_block := st_header_block s @ payload\<rparr>) h
      in if flags AND FLAG_END_HEADERS \<noteq> 0 then finish_headers H sid h else (Inr (), h))"

definition handle_window_update :: "u32 \<Rightarrow> bytes \<Rightarrow> ('e, 'd) h2_conn \<Rightarrow> ('e, 'd) h2_conn" where
  "handle_window_update sid payload h =
     (let inc = uint (u32_from_be [payload ! 0, payload ! 1, payload ! 2, payload ! 3] AND 0x7fffffff)
      in if sid = 0 then h\<lparr>h_conn_send_window := h_conn_send_window h + inc\<rparr>
         else case map_of (h_streams h) sid of
           None \<Rightarrow> h
         | Some s \<Rightarrow> set_stream sid (s\<lparr>st_send_window := st_send_window s + inc\<rparr>) h)"

definition handle_frame ::
    "('e, 'd) hpack \<Rightarrow> h2_frame \<Rightarrow> ('e, 'd) h2_conn \<Rightarrow> (io_kind + unit) \<times> ('e, 'd) h2_conn" where
  "handle_frame H = (\<lambda>(typ, flags, sid, payload) h.
     if typ = H2_DATA then handle_data flags sid payload h
     else if typ = H2_HEADERS then handle_headers H flags sid payload h
     else if typ = H2_CONTINUATION then handle_continuation H flags sid payload h
     else if typ = H2_PRIORITY then (Inr (), h)
     else if typ = H2_RST_STREAM then
       (let code = (if 4 \<le> length payload
                    then u32_from_be [payload ! 0, payload ! 1, payload ! 2, payload ! 3] else 0)
        in case map_of (h_streams h) sid of
             None \<Rightarrow> (Inr (), h)
           | Some s \<Rightarrow> (Inr (), set_stream sid (s\<lparr>st_reset := Some code\<rparr>) h))
     else if typ = H2_SETTINGS then
       (if flags AND FLAG_ACK = 0
        then h2_write (push_frame (H2_SETTINGS, FLAG_ACK, 0, [])) (fold apply_setting (as_chunks 6 payload) h)
        else (Inr (), h))
     else if typ = H2_PUSH_PROMISE then (Inl InvalidData, h)
     else if typ = H2_PING then
       (if flags AND FLAG_ACK = 0 then h2_write (push_frame (H2_PING, FLAG_ACK, 0, payload)) h
        else (Inr (), h))
     else if typ = H2_GOAWAY then
       (let code = (if 8 \<le> length payload
                    then u32_from_be [payload ! 4, payload ! 5, payload ! 6, payload ! 7] else 0);
            debug = (if 8 < length payload then from_utf8_lossy (drop 8 payload) else [])
        in (Inr (), h\<lparr>h_goaway := Some (code, debug)\<rparr>))
     else if typ = H2_WINDOW_UPDATE \<and> 4 \<le> length payload then (Inr (), handle_window_update sid payload h)
     else (Inr (), h))"

section \<open>Reading frames\<close>

definition h2_size :: "('e, 'd) h2_conn \<Rightarrow> nat" where
  "h2_size h = length (h_inbuf h) + conn_size (h_conn h)"

function process_one ::
    "('e, 'd) hpack \<Rightarrow> (nat \<Rightarrow> instant) \<Rightarrow> instant \<Rightarrow> nat \<Rightarrow> ('e, 'd) h2_conn
      \<Rightarrow> (io_kind + unit) \<times> ('e, 'd) h2_conn" where
  "process_one H clk deadline i h =
     (case h2_take_frame (h_inbuf h) of
        Inl e \<Rightarrow> (Inl e, h)
      | Inr (Some (f, rest)) \<Rightarrow> handle_frame H f (h\<lparr>h_inbuf := rest\<rparr>)
      | Inr None \<Rightarrow>
          (if deadline \<le> clk i then (Inl TimedOut, h)
           else case conn_read 2048 (h_conn h) of
             (Inr b, c) \<Rightarrow>
               (if b = [] then (Inl UnexpectedEof, h\<lparr>h_conn := c\<rparr>)
                else process_one H clk deadline (Suc i) (h\<lparr>h_conn := c, h_inbuf := h_inbuf h @ b\<rparr>))
           | (Inl e, c) \<Rightarrow> (Inl (if is_timeout e then TimedOut else e), h\<lparr>h_conn := c\<rparr>)))"
  by pat_completeness auto
termination
proof (relation "measure (\<lambda>(H, clk, deadline, i, h). conn_size (h_conn h))")
  show "wf (measure (\<lambda>(H, clk, deadline, i, h). conn_size (h_conn h)))" by simp
qed (auto dest!: sym [of _ "conn_read _ _"] intro: conn_read_size)

declare process_one.simps [simp del]

definition process_within ::
    "('e, 'd) hpack \<Rightarrow> (nat \<Rightarrow> instant) \<Rightarrow> duration \<Rightarrow> ('e, 'd) h2_conn
      \<Rightarrow> (io_kind + unit) \<times> ('e, 'd) h2_conn" where
  "process_within H clk timeout h = process_one H clk (clk 0 + timeout) 1 h"

section \<open>What handling a frame may touch\<close>

text \<open>
  Handling a received frame leaves the input alone and appends only frames other than DATA to the
  output.
\<close>

definition ctl_only :: "('e, 'd) h2_conn \<Rightarrow> ('e, 'd) h2_conn \<Rightarrow> bool" where
  "ctl_only h h' \<longleftrightarrow> (\<exists>fs. list_all (\<lambda>f. fst f \<noteq> H2_DATA) fs
     \<and> cn_out (h_conn h') = cn_out (h_conn h) @ concat (map push_frame fs))"

definition same_input :: "('e, 'd) h2_conn \<Rightarrow> ('e, 'd) h2_conn \<Rightarrow> bool" where
  "same_input h h' \<longleftrightarrow> h_inbuf h' = h_inbuf h \<and> cn_in (h_conn h') = cn_in (h_conn h)"

lemma ctl_onlyI: "cn_out (h_conn h') = cn_out (h_conn h) \<Longrightarrow> ctl_only h h'"
  unfolding ctl_only_def by (intro exI [of _ "[]"]) simp

lemma ctl_only_trans: "ctl_only a b \<Longrightarrow> ctl_only b c \<Longrightarrow> ctl_only a c"
proof -
  assume "ctl_only a b" "ctl_only b c"
  then obtain f g where "list_all (\<lambda>f. fst f \<noteq> H2_DATA) f" "list_all (\<lambda>f. fst f \<noteq> H2_DATA) g"
    "cn_out (h_conn c) = cn_out (h_conn a) @ concat (map push_frame (f @ g))"
    unfolding ctl_only_def by auto
  then show ?thesis unfolding ctl_only_def by (intro exI [of _ "f @ g"]) simp
qed

lemma h2_write_frames:
  assumes "h2_write (concat (map push_frame fs)) h = (r, h')" "list_all (\<lambda>f. fst f \<noteq> H2_DATA) fs"
  shows "ctl_only h h'" "same_input h h'" "h' = h\<lparr>h_conn := h_conn h'\<rparr>"
proof -
  have "h' = h \<or> h' = h\<lparr>h_conn := (h_conn h)\<lparr>cn_out := cn_out (h_conn h) @ concat (map push_frame fs)\<rparr>\<rparr>"
    using assms(1) by (auto simp: h2_write_def conn_write_all_def split: option.splits)
  then show "ctl_only h h'" "same_input h h'" "h' = h\<lparr>h_conn := h_conn h'\<rparr>"
    using assms(2) ctl_onlyI [of h h] by (auto simp: ctl_only_def same_input_def)
qed

lemma set_stream_frame [simp]:
  "h_conn (set_stream i s h) = h_conn h" "h_inbuf (set_stream i s h) = h_inbuf h"
  "h_conn_recv_consumed (set_stream i s h) = h_conn_recv_consumed h"
  "h_peer_max_frame (set_stream i s h) = h_peer_max_frame h"
  "h_conn_send_window (set_stream i s h) = h_conn_send_window h"
  "map_of (h_streams (set_stream i s h)) j = (if j = i then Some s else map_of (h_streams h) j)"
  by (simp_all add: set_stream_def update_conv')

lemma same_inputI: "h_inbuf h' = h_inbuf h \<Longrightarrow> h_conn h' = h_conn h \<Longrightarrow> same_input h h' \<and> ctl_only h h'"
  by (simp add: same_input_def ctl_onlyI)

lemma maybe_window_update_effect:
  assumes "maybe_window_update sid h = (r, h')"
  shows "same_input h h' \<and> ctl_only h h' \<and> h_peer_max_frame h' = h_peer_max_frame h
    \<and> h_conn_recv_consumed h' < WINDOW_UPDATE_THRESHOLD"
proof -
  define h1 where "h1 = (if WINDOW_UPDATE_THRESHOLD \<le> h_conn_recv_consumed h then h\<lparr>h_conn_recv_consumed := 0\<rparr> else h)"
  define f1 where "f1 = (if WINDOW_UPDATE_THRESHOLD \<le> h_conn_recv_consumed h
    then [(H2_WINDOW_UPDATE, 0, 0, u32_to_be (h_conn_recv_consumed h))] else ([] :: h2_frame list))"
  have h1: "h_conn_recv_consumed h1 < WINDOW_UPDATE_THRESHOLD" "h_conn h1 = h_conn h" "h_inbuf h1 = h_inbuf h"
      "h_peer_max_frame h1 = h_peer_max_frame h"
    by (auto simp: h1_def WINDOW_UPDATE_THRESHOLD_def not_le)
  obtain f2 h2 where f2: "list_all (\<lambda>f. fst f \<noteq> H2_DATA) f2" "h_conn_recv_consumed h2 = h_conn_recv_consumed h1"
      "h_conn h2 = h_conn h1" "h_inbuf h2 = h_inbuf h1" "h_peer_max_frame h2 = h_peer_max_frame h1"
    and eq: "(if concat (map push_frame (f1 @ f2)) \<noteq> [] then h2_write (concat (map push_frame (f1 @ f2))) h2
        else (Inr (), h2)) = (r, h')"
  proof (cases "\<exists>s. map_of (h_streams h1) sid = Some s \<and> WINDOW_UPDATE_THRESHOLD \<le> st_recv_consumed s \<and> \<not> st_end_stream s")
    case True
    then obtain s where s: "map_of (h_streams h1) sid = Some s" "WINDOW_UPDATE_THRESHOLD \<le> st_recv_consumed s" "\<not> st_end_stream s"
      by blast
    show ?thesis
      by (rule that [of "[(H2_WINDOW_UPDATE, 0, sid, u32_to_be (st_recv_consumed s))]" "set_stream sid (s\<lparr>st_recv_consumed := 0\<rparr>) h1"])
        (use assms s in \<open>auto simp: maybe_window_update_def h1_def f1_def h2_types Let_def split: if_splits\<close>)
  next
    case False
    show ?thesis
      by (rule that [of "[]" h1])
        (use assms False in \<open>auto simp: maybe_window_update_def h1_def f1_def Let_def split: if_splits option.splits\<close>)
  qed
  have "list_all (\<lambda>f. fst f \<noteq> H2_DATA) (f1 @ f2)" using f2(1) by (simp add: f1_def h2_types)
  then have "same_input h2 h' \<and> ctl_only h2 h' \<and> h' = h2\<lparr>h_conn := h_conn h'\<rparr>"
    using eq h2_write_frames [of "f1 @ f2" h2 r h'] same_inputI [of h2 h2] by (auto split: if_splits)
  moreover have "h_peer_max_frame h' = h_peer_max_frame h2" "h_conn_recv_consumed h' = h_conn_recv_consumed h2"
    using calculation by (metis h2_conn.select_convs h2_conn.surjective h2_conn.update_convs(1))+
  ultimately show ?thesis using f2 h1 by (simp add: same_input_def ctl_only_def)
qed

lemma finish_headers_effect:
  "finish_headers H sid h = (r, h') \<Longrightarrow> h_conn h' = h_conn h \<and> h_inbuf h' = h_inbuf h
     \<and> h_peer_max_frame h' = h_peer_max_frame h \<and> h_conn_recv_consumed h' = h_conn_recv_consumed h"
  by (auto simp: finish_headers_def Let_def split: option.splits if_splits prod.splits hp_result.splits)

lemma apply_setting_effect:
  "h_conn (apply_setting c h) = h_conn h \<and> h_inbuf (apply_setting c h) = h_inbuf h
   \<and> h_conn_recv_consumed (apply_setting c h) = h_conn_recv_consumed h
   \<and> (16384 \<le> h_peer_max_frame h \<and> h_peer_max_frame h \<le> 2 ^ 24 \<longrightarrow>
        16384 \<le> h_peer_max_frame (apply_setting c h) \<and> h_peer_max_frame (apply_setting c h) \<le> 2 ^ 24)"
  by (auto simp: apply_setting_def Let_def)

lemma fold_apply_setting_effect:
  "h_conn (fold apply_setting cs h) = h_conn h \<and> h_inbuf (fold apply_setting cs h) = h_inbuf h
   \<and> h_conn_recv_consumed (fold apply_setting cs h) = h_conn_recv_consumed h
   \<and> (16384 \<le> h_peer_max_frame h \<and> h_peer_max_frame h \<le> 2 ^ 24 \<longrightarrow>
        16384 \<le> h_peer_max_frame (fold apply_setting cs h) \<and> h_peer_max_frame (fold apply_setting cs h) \<le> 2 ^ 24)"
proof (induction cs arbitrary: h)
  case Nil
  then show ?case by simp
next
  case (Cons c cs)
  show ?case using Cons.IH [of "apply_setting c h"] apply_setting_effect [of c h] by auto
qed

definition h2_inv :: "('e, 'd) h2_conn \<Rightarrow> bool" where
  "h2_inv h \<longleftrightarrow> h_conn_recv_consumed h < WINDOW_UPDATE_THRESHOLD
     \<and> 16384 \<le> h_peer_max_frame h \<and> h_peer_max_frame h \<le> 2 ^ 24"

definition quiet :: "('e, 'd) h2_conn \<Rightarrow> ('e, 'd) h2_conn \<Rightarrow> bool" where
  "quiet h h' \<longleftrightarrow> same_input h h' \<and> ctl_only h h' \<and> (h2_inv h \<longrightarrow> h2_inv h')"

lemma quietI:
  "h_conn h' = h_conn h \<Longrightarrow> h_inbuf h' = h_inbuf h \<Longrightarrow> h_peer_max_frame h' = h_peer_max_frame h
    \<Longrightarrow> h_conn_recv_consumed h' = h_conn_recv_consumed h \<Longrightarrow> quiet h h'"
  using same_inputI [of h' h] by (simp add: quiet_def h2_inv_def)

lemma quiet_refl [simp]: "quiet h h"
  by (rule quietI) simp_all

lemma quiet_trans: "quiet a b \<Longrightarrow> quiet b c \<Longrightarrow> quiet a c"
  by (auto simp: quiet_def same_input_def intro: ctl_only_trans)

lemma quiet_write:
  assumes "h2_write (push_frame f) h = (r, h')" "fst f \<noteq> H2_DATA"
  shows "quiet h h'"
proof -
  note w = h2_write_frames [of "[f]" h r h']
  have "h' = h\<lparr>h_conn := h_conn h'\<rparr>" using w(3) assms by simp
  then have "h_peer_max_frame h' = h_peer_max_frame h" "h_conn_recv_consumed h' = h_conn_recv_consumed h"
    by (metis h2_conn.select_convs h2_conn.surjective h2_conn.update_convs(1))+
  then show ?thesis using w(1,2) assms by (simp add: quiet_def h2_inv_def)
qed

lemma handle_data_quiet: "handle_data flags sid payload h = (r, h') \<Longrightarrow> quiet h h'"
proof (cases "strip_padding payload (flags AND FLAG_PADDED \<noteq> 0)")
  case (Inl e)
  then show "handle_data flags sid payload h = (r, h') \<Longrightarrow> ?thesis" by (simp add: handle_data_def)
next
  case (Inr data)
  assume a: "handle_data flags sid payload h = (r, h')"
  obtain g where g: "maybe_window_update sid g = (r, h')" "h_conn g = h_conn h" "h_inbuf g = h_inbuf h"
      "h_peer_max_frame g = h_peer_max_frame h"
    using a Inr by (cases "map_of (h_streams h) sid") (auto simp: handle_data_def Let_def)
  show ?thesis using maybe_window_update_effect [OF g(1)] g(2-4)
    by (simp add: quiet_def h2_inv_def same_input_def ctl_only_def)
qed

lemma finish_headers_quiet: "finish_headers H sid h = (r, h') \<Longrightarrow> quiet h h'"
  using finish_headers_effect by (metis quietI)

lemma set_stream_quiet: "quiet h (set_stream sid s h)"
  by (rule quietI) simp_all

lemma finish_set_quiet: "finish_headers H sid (set_stream sid s h) = (r, h') \<Longrightarrow> quiet h h'"
  by (rule quiet_trans [OF set_stream_quiet finish_headers_quiet])

lemma handle_headers_quiet: "handle_headers H flags sid payload h = (r, h') \<Longrightarrow> quiet h h'"
  by (auto simp: handle_headers_def Let_def set_stream_quiet split: sum.splits if_splits dest: finish_set_quiet)

lemma handle_continuation_quiet: "handle_continuation H flags sid payload h = (r, h') \<Longrightarrow> quiet h h'"
  by (auto simp: handle_continuation_def Let_def set_stream_quiet split: if_splits dest: finish_set_quiet)

lemma handle_window_update_quiet: "quiet h (handle_window_update sid payload h)"
  by (auto simp: handle_window_update_def Let_def split: option.splits intro!: quietI)

lemma settings_quiet:
  assumes "h2_write (push_frame (H2_SETTINGS, FLAG_ACK, 0, [])) (fold apply_setting cs h) = (r, h')"
  shows "quiet h h'"
proof (rule quiet_trans)
  show "quiet (fold apply_setting cs h) h'" by (rule quiet_write [OF assms]) (simp add: h2_types)
  show "quiet h (fold apply_setting cs h)"
    using fold_apply_setting_effect [of cs h] same_inputI [of "fold apply_setting cs h" h]
    by (auto simp: quiet_def h2_inv_def)
qed

lemma handle_frame_quiet: "handle_frame H f h = (r, h') \<Longrightarrow> quiet h h'"
proof -
  assume a: "handle_frame H f h = (r, h')"
  obtain ty flags sid payload where f: "f = (ty, flags, sid, payload)" by (cases f)
  consider "ty = H2_DATA" | "ty = H2_HEADERS" | "ty = H2_CONTINUATION" | "ty = H2_SETTINGS" | "ty = H2_PING"
    | "ty = H2_WINDOW_UPDATE"
    | "ty \<notin> {H2_DATA, H2_HEADERS, H2_CONTINUATION, H2_SETTINGS, H2_PING, H2_WINDOW_UPDATE}" by blast
  then show ?thesis
  proof cases
    case 1
    then show ?thesis using a handle_data_quiet by (auto simp: handle_frame_def f)
  next
    case 2
    then show ?thesis using a handle_headers_quiet by (auto simp: handle_frame_def f h2_types)
  next
    case 3
    then show ?thesis using a handle_continuation_quiet by (auto simp: handle_frame_def f h2_types)
  next
    case 4
    then show ?thesis using a settings_quiet by (auto simp: handle_frame_def f h2_types split: if_splits)
  next
    case 5
    then show ?thesis
      using a quiet_write [of "(H2_PING, FLAG_ACK, 0, payload)" h r h']
      by (auto simp: handle_frame_def f h2_types split: if_splits)
  next
    case 6
    then show ?thesis using a handle_window_update_quiet
      by (auto simp: handle_frame_def f h2_types split: if_splits)
  next
    case 7
    then show ?thesis using a
      by (auto simp: handle_frame_def f Let_def split: if_splits option.splits intro!: quietI)
  qed
qed

lemma conn_read_size_le:
  assumes "conn_read cap c = (Inr b, c')"
  shows "length b + conn_size c' \<le> conn_size c"
  using assms
  by (cases "cn_in c"; cases "hd (cn_in c)")
    (auto simp: conn_read_def conn_size_def split: read_ev.splits if_splits)

lemma h2_take_frame_shrinks:
  "h2_take_frame b = Inr (Some (f, r)) \<Longrightarrow> length r < length b"
  by (auto simp: h2_take_frame_def Let_def split: if_splits)

lemma process_one_effect:
  "process_one H clk deadline i h = (r, h') \<Longrightarrow> ctl_only h h' \<and> (h2_inv h \<longrightarrow> h2_inv h')
     \<and> (r = Inr () \<longrightarrow> h2_size h' < h2_size h)"
proof (induction H clk deadline i h arbitrary: r h' rule: process_one.induct)
  case (1 H clk deadline i h)
  show ?case
  proof (cases "h2_take_frame (h_inbuf h)")
    case (Inl e)
    then show ?thesis using 1(2) ctl_onlyI [of h h] by (auto simp: process_one.simps [of _ _ _ _ h])
  next
    case (Inr fo)
    show ?thesis
    proof (cases fo)
      case (Some fr)
      obtain f rest where fr: "fr = (f, rest)" by (cases fr)
      have hf: "handle_frame H f (h\<lparr>h_inbuf := rest\<rparr>) = (r, h')"
        using 1(2) Inr Some fr by (simp add: process_one.simps)
      have "length rest < length (h_inbuf h)" using h2_take_frame_shrinks Inr Some fr by simp
      then show ?thesis
        using handle_frame_quiet [OF hf]
        by (auto simp: quiet_def same_input_def ctl_only_def h2_inv_def h2_size_def conn_size_def)
    next
      case None
      show ?thesis
      proof (cases "deadline \<le> clk i \<or> (\<forall>b c. conn_read 2048 (h_conn h) = (Inr b, c) \<longrightarrow> b = [])")
        case True
        obtain x c where rd: "conn_read 2048 (h_conn h) = (x, c)" by (cases "conn_read 2048 (h_conn h)")
        have "cn_out c = cn_out (h_conn h)"
          using rd by (auto simp: conn_read_def split: list.splits read_ev.splits if_splits)
        then have "(h' = h \<or> h' = h\<lparr>h_conn := c\<rparr>) \<and> (\<exists>e. r = Inl e)"
          using 1(2) Inr None True rd by (auto simp: process_one.simps [of _ _ _ _ h] split: if_splits sum.splits)
        then show ?thesis using \<open>cn_out c = cn_out (h_conn h)\<close> ctl_onlyI [of h h] ctl_onlyI [of "h\<lparr>h_conn := c\<rparr>" h]
          by (auto simp: h2_inv_def)
      next
        case False
        then obtain b c where rd: "conn_read 2048 (h_conn h) = (Inr b, c)" "b \<noteq> []" and t: "\<not> deadline \<le> clk i" by blast
        let ?g = "h\<lparr>h_conn := c, h_inbuf := h_inbuf h @ b\<rparr>"
        have p: "process_one H clk deadline (Suc i) ?g = (r, h')"
          using 1(2) Inr None rd t by (simp add: process_one.simps [of _ _ _ _ h])
        have "cn_out c = cn_out (h_conn h)"
          using rd(1) by (auto simp: conn_read_def split: list.splits read_ev.splits if_splits)
        moreover have "ctl_only ?g h' \<and> (h2_inv ?g \<longrightarrow> h2_inv h') \<and> (r = Inr () \<longrightarrow> h2_size h' < h2_size ?g)"
          using 1(1) [OF Inr None t rd(1) [symmetric] refl rd(2) p] .
        moreover have "h2_size ?g \<le> h2_size h"
          using conn_read_size_le [OF rd(1)] by (simp add: h2_size_def)
        ultimately show ?thesis by (auto simp: ctl_only_def h2_inv_def)
      qed
    qed
  qed
qed

lemma process_within_effect:
  "process_within H clk timeout h = (r, h') \<Longrightarrow> ctl_only h h' \<and> (h2_inv h \<longrightarrow> h2_inv h')
     \<and> (r = Inr () \<longrightarrow> h2_size h' < h2_size h)"
  unfolding process_within_def by (rule process_one_effect)

section \<open>Requests and responses\<close>

definition h2_settings :: bytes where
  "h2_settings = concat (map (\<lambda>(i, v). u16_to_be i @ u32_to_be v)
     [(SETTINGS_ENABLE_PUSH, 0), (SETTINGS_MAX_CONCURRENT_STREAMS, 8),
      (SETTINGS_INITIAL_WINDOW_SIZE, OUR_WINDOW), (SETTINGS_MAX_FRAME_SIZE, word_of_nat MAX_FRAME_SIZE),
      (SETTINGS_HEADER_TABLE_SIZE, 4096)])"

definition with_prefix ::
    "('e, 'd) hpack \<Rightarrow> conn \<Rightarrow> string \<Rightarrow> bytes \<Rightarrow> io_kind + ('e, 'd) h2_conn" where
  "with_prefix H c authority pre =
     (let out = PREFACE @ push_frame (H2_SETTINGS, 0, 0, h2_settings)
                @ push_frame (H2_WINDOW_UPDATE, 0, 0, u32_to_be (OUR_WINDOW - DEFAULT_WINDOW))
      in case conn_write_all out c of
           (Inl e, _) \<Rightarrow> Inl e
         | (Inr _, c) \<Rightarrow>
             Inr \<lparr>h_conn = c, h_inbuf = pre, h_encoder = hp_enc_new H, h_decoder = hp_dec_new H,
                  h_next_stream_id = 1, h_streams = [], h_conn_send_window = uint DEFAULT_WINDOW,
                  h_conn_recv_consumed = 0, h_peer_max_frame = 16384,
                  h_peer_initial_window = DEFAULT_WINDOW, h_goaway = None, h_authority = authority\<rparr>)"

definition check_goaway :: "('e, 'd) h2_conn \<Rightarrow> io_kind + unit" where
  "check_goaway h = (case h_goaway h of Some g \<Rightarrow> Inl ConnectionAborted | None \<Rightarrow> Inr ())"

definition send_window_of :: "u32 \<Rightarrow> ('e, 'd) h2_conn \<Rightarrow> int" where
  "send_window_of sid h = (case map_of (h_streams h) sid of Some s \<Rightarrow> st_send_window s | None \<Rightarrow> 0)"

definition allowed :: "u32 \<Rightarrow> ('e, 'd) h2_conn \<Rightarrow> nat" where
  "allowed sid h = nat (max (min (send_window_of sid h) (h_conn_send_window h)) 0)"

text \<open>The bookkeeping after a DATA frame of \<open>n\<close> bytes.\<close>

definition take_window :: "u32 \<Rightarrow> nat \<Rightarrow> ('e, 'd) h2_conn \<Rightarrow> ('e, 'd) h2_conn" where
  "take_window sid n h =
     (let h = h\<lparr>h_conn_send_window := h_conn_send_window h - int n\<rparr>
      in case map_of (h_streams h) sid of
           None \<Rightarrow> h
         | Some s \<Rightarrow> set_stream sid (s\<lparr>st_send_window := st_send_window s - int n\<rparr>) h)"

text \<open>
  \<open>clks j\<close> is the clock of the j-th wait for a window update. The branch for a peer frame limit of 0,
  where the source would make no progress, is there for termination only: the limit is at least
  16384 in every reachable state (\<open>h2_inv\<close>).
\<close>

function send_body ::
    "('e, 'd) hpack \<Rightarrow> (nat \<Rightarrow> nat \<Rightarrow> instant) \<Rightarrow> nat \<Rightarrow> u32 \<Rightarrow> bytes \<Rightarrow> nat \<Rightarrow> ('e, 'd) h2_conn
      \<Rightarrow> (io_kind + unit) \<times> ('e, 'd) h2_conn" where
  "send_body H clks j sid body offset h =
     (if offset < length body then
        (if allowed sid h = 0 then
           (case process_within H (clks j) (from_secs 30) h of
              (Inl e, h) \<Rightarrow> (Inl e, h)
            | (Inr _, h) \<Rightarrow>
                (if (case map_of (h_streams h) sid of None \<Rightarrow> None | Some s \<Rightarrow> st_reset s) \<noteq> None
                 then (Inl ConnectionReset, h)
                 else send_body H clks (Suc j) sid body offset h))
         else if h_peer_max_frame h = 0 then (Inl OtherError, h)
         else
           let n = min (min (length body - offset) (allowed sid h)) (h_peer_max_frame h);
               flags = (if offset + n = length body then FLAG_END_STREAM else 0)
           in case h2_write (push_frame (H2_DATA, flags, sid, slice offset (offset + n) body)) h of
                (Inl e, h) \<Rightarrow> (Inl e, h)
              | (Inr _, h) \<Rightarrow> send_body H clks j sid body (offset + n) (take_window sid n h))
      else (Inr (), h))"
  by pat_completeness auto
termination
proof (relation "measures [\<lambda>(H, clks, j, sid, body, offset, h). length body - offset,
    \<lambda>(H, clks, j, sid, body, offset, h). h2_size h]")
  show "wf (measures [\<lambda>(H, clks, j, sid, body, offset, h). length body - offset,
    \<lambda>(H :: ('e, 'd) hpack, clks, j, sid, body, offset, h). h2_size h])" by simp
qed (auto dest!: sym [of _ "process_within _ _ _ _"] dest: process_within_effect)

declare send_body.simps [simp del]

definition h2_request ::
    "('e, 'd) hpack \<Rightarrow> (nat \<Rightarrow> nat \<Rightarrow> instant) \<Rightarrow> string \<Rightarrow> string \<Rightarrow> (string \<times> string) list \<Rightarrow> bytes
      \<Rightarrow> ('e, 'd) h2_conn \<Rightarrow> (io_kind + u32) \<times> ('e, 'd) h2_conn" where
  "h2_request H clks method path headers body h =
     (if h_goaway h \<noteq> None then (Inl ConnectionAborted, h)
      else
        let sid = h_next_stream_id h;
            h = h\<lparr>h_next_stream_id := sid + 2\<rparr>;
            h = set_stream sid (st_default\<lparr>st_send_window := uint (h_peer_initial_window h)\<rparr>) h;
            hdrs = [(str_bytes '':method'', str_bytes method), (str_bytes '':scheme'', str_bytes ''https''),
                    (str_bytes '':authority'', str_bytes (h_authority h)), (str_bytes '':path'', str_bytes path),
                    (str_bytes ''user-agent'', str_bytes ''tsnode/0.1'')]
                   @ map (\<lambda>(k, v). (str_bytes (map to_ascii_lowercase k), str_bytes v)) headers
                   @ (if body \<noteq> [] then [(str_bytes ''content-length'', str_bytes (dec_string (length body)))] else []);
            (block, enc) = hp_encode H (h_encoder h) hdrs;
            h = h\<lparr>h_encoder := enc\<rparr>;
            flags = (if body = [] then FLAG_END_HEADERS OR FLAG_END_STREAM else FLAG_END_HEADERS)
        in case h2_write (push_frame (H2_HEADERS, flags, sid, block)) h of
             (Inl e, h) \<Rightarrow> (Inl e, h)
           | (Inr _, h) \<Rightarrow>
               (if body \<noteq> [] then
                  (case send_body H clks 0 sid body 0 h of
                     (Inl e, h) \<Rightarrow> (Inl e, h)
                   | (Inr _, h) \<Rightarrow> (Inr sid, h))
                else (Inr sid, h)))"

text \<open>
  The waiting loops: \<open>tick j\<close> is the clock reading before the j-th wait, \<open>clks j\<close> the clock inside it.
\<close>

function response_status_loop ::
    "('e, 'd) hpack \<Rightarrow> (nat \<Rightarrow> nat \<Rightarrow> instant) \<Rightarrow> (nat \<Rightarrow> instant) \<Rightarrow> instant \<Rightarrow> nat \<Rightarrow> u32
      \<Rightarrow> ('e, 'd) h2_conn \<Rightarrow> (io_kind + nat) \<times> ('e, 'd) h2_conn" where
  "response_status_loop H clks tick deadline j sid h =
     (case map_of (h_streams h) sid of
        None \<Rightarrow> (Inl NotFound, h)
      | Some s \<Rightarrow>
          (if st_reset s \<noteq> None then (Inl ConnectionReset, h)
           else case st_status s of
             Some code \<Rightarrow> (Inr code, h)
           | None \<Rightarrow>
               (if st_end_stream s then (Inl UnexpectedEof, h)
                else if h_goaway h \<noteq> None then (Inl ConnectionAborted, h)
                else if deadline \<le> tick j then (Inl TimedOut, h)
                else case process_within H (clks j) (deadline - tick j) h of
                  (Inl e, h) \<Rightarrow> (Inl e, h)
                | (Inr _, h) \<Rightarrow> response_status_loop H clks tick deadline (Suc j) sid h)))"
  by pat_completeness auto
termination
proof (relation "measure (\<lambda>(H, clks, tick, deadline, j, sid, h). h2_size h)")
  show "wf (measure (\<lambda>(H :: ('e, 'd) hpack, clks, tick, deadline, j, sid, h). h2_size h))" by simp
qed (auto dest!: sym [of _ "process_within _ _ _ _"] dest: process_within_effect)

declare response_status_loop.simps [simp del]

definition response_status ::
    "('e, 'd) hpack \<Rightarrow> (nat \<Rightarrow> nat \<Rightarrow> instant) \<Rightarrow> (nat \<Rightarrow> instant) \<Rightarrow> duration \<Rightarrow> u32
      \<Rightarrow> ('e, 'd) h2_conn \<Rightarrow> (io_kind + nat) \<times> ('e, 'd) h2_conn" where
  "response_status H clks tick timeout sid h =
     response_status_loop H clks tick (tick 0 + timeout) 1 sid h"

definition response_header :: "u32 \<Rightarrow> string \<Rightarrow> ('e, 'd) h2_conn \<Rightarrow> string option" where
  "response_header sid name h =
     (case map_of (h_streams h) sid of
        None \<Rightarrow> None
      | Some s \<Rightarrow> map_option snd (find (\<lambda>(k, v). k = name) (st_headers s)))"

function h2_read_body_loop ::
    "('e, 'd) hpack \<Rightarrow> (nat \<Rightarrow> nat \<Rightarrow> instant) \<Rightarrow> (nat \<Rightarrow> instant) \<Rightarrow> instant \<Rightarrow> nat \<Rightarrow> u32
      \<Rightarrow> ('e, 'd) h2_conn \<Rightarrow> (io_kind + bytes option) \<times> ('e, 'd) h2_conn" where
  "h2_read_body_loop H clks tick deadline j sid h =
     (case map_of (h_streams h) sid of
        None \<Rightarrow> (Inl NotFound, h)
      | Some s \<Rightarrow>
          (if st_body s \<noteq> [] then (Inr (Some (st_body s)), set_stream sid (s\<lparr>st_body := []\<rparr>) h)
           else if st_reset s \<noteq> None then (Inl ConnectionReset, h)
           else if st_end_stream s then (Inr None, h)
           else if h_goaway h \<noteq> None then (Inl ConnectionAborted, h)
           else if deadline \<le> tick j then (Inl TimedOut, h)
           else case process_within H (clks j) (deadline - tick j) h of
             (Inl e, h) \<Rightarrow> (Inl e, h)
           | (Inr _, h) \<Rightarrow> h2_read_body_loop H clks tick deadline (Suc j) sid h))"
  by pat_completeness auto
termination
proof (relation "measure (\<lambda>(H, clks, tick, deadline, j, sid, h). h2_size h)")
  show "wf (measure (\<lambda>(H :: ('e, 'd) hpack, clks, tick, deadline, j, sid, h). h2_size h))" by simp
qed (auto dest!: sym [of _ "process_within _ _ _ _"] dest: process_within_effect)

declare h2_read_body_loop.simps [simp del]

definition h2_read_body ::
    "('e, 'd) hpack \<Rightarrow> (nat \<Rightarrow> nat \<Rightarrow> instant) \<Rightarrow> (nat \<Rightarrow> instant) \<Rightarrow> duration \<Rightarrow> u32
      \<Rightarrow> ('e, 'd) h2_conn \<Rightarrow> (io_kind + bytes option) \<times> ('e, 'd) h2_conn" where
  "h2_read_body H clks tick timeout sid h = h2_read_body_loop H clks tick (tick 0 + timeout) 1 sid h"

definition forget_stream :: "u32 \<Rightarrow> ('e, 'd) h2_conn \<Rightarrow> ('e, 'd) h2_conn" where
  "forget_stream sid h = h\<lparr>h_streams := AList.delete sid (h_streams h)\<rparr>"

lemma h2_read_body_loop_nonempty: "h2_read_body_loop H clks tick dl j sid h = (Inr (Some b), h') \<Longrightarrow> b \<noteq> []"
proof (induction H clks tick dl j sid h rule: h2_read_body_loop.induct)
  case (1 H clks tick deadline j sid h)
  from "1.prems" show ?case
    by (subst (asm) h2_read_body_loop.simps)
      (auto split: option.splits if_splits prod.splits sum.splits dest: "1.IH")
qed

lemma h2_read_body_nonempty: "(Inr (Some b), h') = h2_read_body H clks tick t sid h \<Longrightarrow> 0 < length b"
  unfolding h2_read_body_def by (metis h2_read_body_loop_nonempty length_greater_0_conv)

function read_full_body ::
    "('e, 'd) hpack \<Rightarrow> (nat \<Rightarrow> nat \<Rightarrow> nat \<Rightarrow> instant) \<Rightarrow> (nat \<Rightarrow> nat \<Rightarrow> instant) \<Rightarrow> duration \<Rightarrow> nat
      \<Rightarrow> nat \<Rightarrow> u32 \<Rightarrow> bytes \<Rightarrow> ('e, 'd) h2_conn \<Rightarrow> (io_kind + bytes) \<times> ('e, 'd) h2_conn" where
  "read_full_body H clks tick timeout mx j sid out h =
     (case h2_read_body H (clks j) (tick j) timeout sid h of
        (Inl e, h) \<Rightarrow> (Inl e, h)
      | (Inr None, h) \<Rightarrow> (Inr out, forget_stream sid h)
      | (Inr (Some chunk), h) \<Rightarrow>
          (let out = out @ chunk
           in if mx < length out then (Inl InvalidData, h)
              else read_full_body H clks tick timeout mx (Suc j) sid out h))"
  by pat_completeness auto
termination
proof (relation "measure (\<lambda>(H, clks, tick, timeout, mx, j, sid, out, h). Suc mx - length out)")
  show "wf (measure (\<lambda>(H :: ('e, 'd) hpack, clks, tick, timeout, mx, j, sid, out, h :: ('e, 'd) h2_conn).
      Suc mx - length out))" by simp
qed (auto dest!: h2_read_body_nonempty simp flip: length_greater_0_conv)

declare read_full_body.simps [simp del]

end
