(* ===== verification/H2_Flow.thy ===== *)
theory H2_Flow
  imports H2
begin

text \<open>
  What the HTTP/2 client of crates/tsnode/src/h2.rs guarantees: frames survive every segmentation of
  the stream, request bodies are sent completely and in order within the peer's windows, the receive
  accounting stays below the update threshold, and two places where the code departs from its
  comments.
\<close>

section \<open>The frame codec\<close>

definition h2_frame_ok :: "h2_frame \<Rightarrow> bool" where
  "h2_frame_ok = (\<lambda>(ty, flags, sid, payload).
     length payload \<le> MAX_FRAME_SIZE \<and> sid AND 0x7fffffff = sid)"

lemma len24:
  assumes "n \<le> MAX_FRAME_SIZE"
  shows "unat (word_of_nat (n div 65536) :: u8) * 65536 + unat (word_of_nat (n div 256) :: u8) * 256
    + unat (word_of_nat n :: u8) = n"
proof -
  have "n div 65536 = 0" "n div 256 < 256" using assms by (auto simp: MAX_FRAME_SIZE_def)
  then show ?thesis by (simp add: unat_word8_of_nat)
qed

lemma length_4_obtain: "length xs = 4 \<Longrightarrow> \<exists>a b c d. xs = [a, b, c, d]"
  by (auto simp: numeral_eq_Suc length_Suc_conv)

lemma push_frame_layout:
  "\<exists>a b c d. push_frame (ty, flags, sid, p) = [word_of_nat (length p div 65536), word_of_nat (length p div 256),
     word_of_nat (length p), ty, flags, a, b, c, d] @ p \<and> u32_from_be [a, b, c, d] = sid"
proof -
  obtain a b c d where w: "u32_to_be sid = [a, b, c, d]" using length_4_obtain [of "u32_to_be sid"] by auto
  have "u32_from_be [a, b, c, d] = sid" using from_to_bytes(2) [of sid] w by simp
  then show ?thesis using w by (auto simp: push_frame_def Let_def)
qed

lemma drop_9_Cons: "drop (9 + n) (a # b # c # d # e # f # g # h # i # xs) = drop n xs"
  by (simp add: numeral_eq_Suc)

lemma h2_take_frame_enc:
  assumes "h2_frame_ok f"
  shows "h2_take_frame (push_frame f @ rest) = Inr (Some (f, rest))"
proof -
  obtain ty flags sid p where f: "f = (ty, flags, sid, p)" by (cases f)
  have ok: "length p \<le> MAX_FRAME_SIZE" "sid AND 0x7fffffff = sid" using assms by (simp_all add: h2_frame_ok_def f)
  obtain a b c d where lay: "push_frame f = [word_of_nat (length p div 65536), word_of_nat (length p div 256),
     word_of_nat (length p), ty, flags, a, b, c, d] @ p" "u32_from_be [a, b, c, d] = sid"
    using push_frame_layout [of ty flags sid p] by (auto simp: f)
  show ?thesis
    unfolding lay(1) using len24 [OF ok(1)] ok lay(2)
    by (simp add: h2_take_frame_def f drop_9_Cons slice_def)
qed

lemma h2_take_frame_short:
  assumes "h2_frame_ok f" and "strict_prefix q (push_frame f)"
  shows "h2_take_frame q = Inr None"
proof (cases "length q < 9")
  case True
  then show ?thesis by (simp add: h2_take_frame_def)
next
  case False
  obtain ty flags sid p where f: "f = (ty, flags, sid, p)" by (cases f)
  have ok: "length p \<le> MAX_FRAME_SIZE" using assms(1) by (simp add: h2_frame_ok_def f)
  obtain a b c d where lay: "push_frame f = [word_of_nat (length p div 65536), word_of_nat (length p div 256),
     word_of_nat (length p), ty, flags, a, b, c, d] @ p"
    using push_frame_layout [of ty flags sid p] by (auto simp: f)
  obtain z where z: "push_frame f = q @ z" and "z \<noteq> []" using assms(2) by (auto simp: strict_prefix_def prefix_def)
  have "9 + length p = length q + length z" using arg_cong [OF z, of length] lay by simp
  then have "length q < 9 + length p" using \<open>z \<noteq> []\<close> by (simp flip: length_greater_0_conv)
  moreover have "q ! i = push_frame f ! i" if "i < 9" for i using that False z by (simp add: nth_append)
  then have "q ! 0 = word_of_nat (length p div 65536)" "q ! 1 = word_of_nat (length p div 256)"
    "q ! 2 = word_of_nat (length p)"
    by (simp_all add: lay)
  ultimately show ?thesis using False ok len24 [OF ok] by (simp add: h2_take_frame_def)
qed

interpretation hf: frame_codec h2_frame_ok push_frame h2_take_frame
  by unfold_locales (simp_all add: h2_take_frame_enc h2_take_frame_short)

section \<open>Sending a body\<close>

definition data_frames :: "h2_frame list \<Rightarrow> h2_frame list" where
  "data_frames fs = filter (\<lambda>f. fst f = H2_DATA) fs"

definition fr_flags :: "h2_frame \<Rightarrow> u8" where "fr_flags f = fst (snd f)"
definition fr_sid :: "h2_frame \<Rightarrow> u32" where "fr_sid f = fst (snd (snd f))"
definition fr_payload :: "h2_frame \<Rightarrow> bytes" where "fr_payload f = snd (snd (snd f))"

lemmas fr_defs = fr_flags_def fr_sid_def fr_payload_def

text \<open>
  The DATA frames carry exactly \<open>data\<close> in order, on stream \<open>sid\<close>, none empty, none above the frame limit,
  END_STREAM on the last one and only there.
\<close>

definition carries :: "u32 \<Rightarrow> bytes \<Rightarrow> h2_frame list \<Rightarrow> bool" where
  "carries sid data ds \<longleftrightarrow> concat (map fr_payload ds) = data
     \<and> list_all (\<lambda>f. fr_sid f = sid \<and> fr_payload f \<noteq> [] \<and> length (fr_payload f) \<le> 2 ^ 24) ds
     \<and> list_all (\<lambda>f. fr_flags f = 0) (butlast ds) \<and> (ds \<noteq> [] \<longrightarrow> fr_flags (last ds) = FLAG_END_STREAM)"

lemma take_window_frame [simp]:
  "h_conn (take_window sid n h) = h_conn h" "h_inbuf (take_window sid n h) = h_inbuf h"
  "h_peer_max_frame (take_window sid n h) = h_peer_max_frame h"
  "h_conn_recv_consumed (take_window sid n h) = h_conn_recv_consumed h"
  "h_conn_send_window (take_window sid n h) = h_conn_send_window h - int n"
  by (auto simp: take_window_def Let_def split: option.splits)

lemma send_window_take [simp]:
  "send_window_of sid (take_window sid n h) =
     (if map_of (h_streams h) sid = None then 0 else send_window_of sid h - int n)"
  by (auto simp: send_window_of_def take_window_def Let_def split: option.splits)

lemma take_window_stream: "map_of (h_streams (take_window sid n h)) sid = None \<longleftrightarrow> map_of (h_streams h) sid = None"
  by (auto simp: take_window_def Let_def split: option.splits)

lemma h2_write_data:
  "h2_write b h = (Inr u, h') \<Longrightarrow> h' = h\<lparr>h_conn := (h_conn h)\<lparr>cn_out := cn_out (h_conn h) @ b\<rparr>\<rparr>"
  by (auto simp: h2_write_def conn_write_all_def split: option.splits)

lemma data_frames_ctl: "list_all (\<lambda>f. fst f \<noteq> H2_DATA) fs \<Longrightarrow> data_frames fs = []"
  by (induction fs) (auto simp: data_frames_def)

lemma data_frames_append [simp]: "data_frames (a @ b) = data_frames a @ data_frames b"
  by (simp add: data_frames_def)

lemma carries_Nil [simp]: "carries sid [] []"
  by (simp add: carries_def)

lemma carries_Cons:
  assumes "carries sid rest ds" "part \<noteq> []" "length part \<le> 2 ^ 24" "rest = [] \<longleftrightarrow> flags = FLAG_END_STREAM" "rest \<noteq> [] \<Longrightarrow> flags = 0"
  shows "carries sid (part @ rest) ((H2_DATA, flags, sid, part) # ds)"
proof (cases "ds = []")
  case True
  then show ?thesis using assms by (auto simp: carries_def fr_defs)
next
  case False
  then have "rest \<noteq> []" using assms(1) by (cases ds) (auto simp: carries_def)
  then show ?thesis using assms False by (simp add: carries_def fr_defs)
qed

lemma send_body_frames:
  assumes "send_body H clks j sid body offset h = (Inr u, h')" "h2_inv h" "offset \<le> length body"
  shows "\<exists>fs. cn_out (h_conn h') = cn_out (h_conn h) @ concat (map push_frame fs)
    \<and> carries sid (drop offset body) (data_frames fs)"
  using assms
proof (induction H clks j sid body offset h rule: send_body.induct)
  case (1 H clks j sid body offset h)
  show ?case
  proof (cases "offset < length body")
    case False
    then have "h' = h" "drop offset body = []"
      using "1.prems"(1) by (simp_all add: send_body.simps [of _ _ _ _ _ _ h])
    then show ?thesis by (intro exI [of _ "[]"]) (simp add: data_frames_def)
  next
    case less: True
    show ?thesis
    proof (cases "allowed sid h = 0")
      case True
      obtain r g where p: "process_within H (clks j) (from_secs 30) h = (r, g)"
        by (cases "process_within H (clks j) (from_secs 30) h")
      obtain v where r: "r = Inr v" and nr: "(case map_of (h_streams g) sid of None \<Rightarrow> None | Some s \<Rightarrow> st_reset s) = None"
        and rec: "send_body H clks (Suc j) sid body offset g = (Inr u, h')"
        using "1.prems"(1) less True p
        by (cases r) (auto simp: send_body.simps [of _ _ _ _ _ _ h] split: if_splits)
      have eff: "ctl_only h g" "h2_inv g" using process_within_effect [OF p] "1.prems"(2) by blast+
      obtain fs where fs: "cn_out (h_conn h') = cn_out (h_conn g) @ concat (map push_frame fs)"
          "carries sid (drop offset body) (data_frames fs)"
        using "1.IH"(1) [OF less True p [symmetric] r _ rec eff(2) "1.prems"(3)] nr by auto
      obtain cs where "list_all (\<lambda>f. fst f \<noteq> H2_DATA) cs"
          "cn_out (h_conn g) = cn_out (h_conn h) @ concat (map push_frame cs)"
        using eff(1) unfolding ctl_only_def by blast
      then show ?thesis using fs by (intro exI [of _ "cs @ fs"]) (simp add: data_frames_ctl)
    next
      case False
      have mx: "h_peer_max_frame h \<noteq> 0" "h_peer_max_frame h \<le> 2 ^ 24" using "1.prems"(2) by (auto simp: h2_inv_def)
      define n where "n = min (min (length body - offset) (allowed sid h)) (h_peer_max_frame h)"
      define flags where "flags = (if offset + n = length body then FLAG_END_STREAM else 0)"
      let ?fr = "(H2_DATA, flags, sid, slice offset (offset + n) body)"
      have n: "0 < n" "offset + n \<le> length body" "n \<le> 2 ^ 24" using less False mx by (auto simp: n_def)
      obtain r g where w: "h2_write (push_frame ?fr) h = (r, g)" by (cases "h2_write (push_frame ?fr) h")
      obtain v where r: "r = Inr v" and rec: "send_body H clks j sid body (offset + n) (take_window sid n g) = (Inr u, h')"
        using "1.prems"(1) less False mx(1) w
        by (cases r) (auto simp: send_body.simps [of _ _ _ _ _ _ h] n_def flags_def Let_def)
      have g: "g = h\<lparr>h_conn := (h_conn h)\<lparr>cn_out := cn_out (h_conn h) @ push_frame ?fr\<rparr>\<rparr>"
        using h2_write_data w r by blast
      then have "h2_inv (take_window sid n g)" using "1.prems"(2) by (simp add: h2_inv_def)
      then obtain fs where fs: "cn_out (h_conn h') = cn_out (h_conn g) @ concat (map push_frame fs)"
          "carries sid (drop (offset + n) body) (data_frames fs)"
        using "1.IH"(2) [OF less False mx(1) n_def flags_def w [symmetric] r rec _ n(2)] by auto
      have "carries sid (slice offset (offset + n) body @ drop (offset + n) body) (?fr # data_frames fs)"
        by (rule carries_Cons [OF fs(2)]) (use n in \<open>auto simp: slice_def flags_def FLAG_END_STREAM_def\<close>)
      moreover have "slice offset (offset + n) body @ drop (offset + n) body = drop offset body"
        using n(2) by (simp add: slice_def) (metis add.commute append_take_drop_id drop_drop)
      ultimately show ?thesis using fs(1) g by (intro exI [of _ "?fr # fs"]) (simp add: data_frames_def)
    qed
  qed
qed

text \<open>With enough window the body goes out at once, without waiting for the peer.\<close>

lemma send_body_direct:
  assumes "h2_inv h" "cn_werr (h_conn h) = None" "offset \<le> length body" "map_of (h_streams h) sid \<noteq> None"
    and "int (length body - offset) \<le> send_window_of sid h" "int (length body - offset) \<le> h_conn_send_window h"
  shows "\<exists>h'. send_body H clks j sid body offset h = (Inr (), h')
    \<and> h_conn_send_window h' = h_conn_send_window h - int (length body - offset)
    \<and> send_window_of sid h' = send_window_of sid h - int (length body - offset)
    \<and> cn_in (h_conn h') = cn_in (h_conn h) \<and> h_inbuf h' = h_inbuf h"
  using assms
proof (induction "length body - offset" arbitrary: offset h rule: less_induct)
  case less
  show ?case
  proof (cases "offset < length body")
    case False
    then show ?thesis using less.prems(3) by (simp add: send_body.simps)
  next
    case True
    define n where "n = min (min (length body - offset) (allowed sid h)) (h_peer_max_frame h)"
    have al: "length body - offset \<le> allowed sid h" using less.prems(5,6) by (simp add: allowed_def)
    have n: "0 < n" "n \<le> length body - offset" using True al less.prems(1) by (auto simp: n_def h2_inv_def)
    let ?fr = "(H2_DATA, if offset + n = length body then FLAG_END_STREAM else 0, sid, slice offset (offset + n) body)"
    let ?g = "h\<lparr>h_conn := (h_conn h)\<lparr>cn_out := cn_out (h_conn h) @ push_frame ?fr\<rparr>\<rparr>"
    have w: "h2_write (push_frame ?fr) h = (Inr (), ?g)"
      using less.prems(2) by (simp add: h2_write_def conn_write_all_def)
    have nz: "allowed sid h \<noteq> 0" "h_peer_max_frame h \<noteq> 0" using n by (auto simp: n_def)
    have step: "send_body H clks j sid body offset h = send_body H clks j sid body (offset + n) (take_window sid n ?g)"
      by (subst send_body.simps)
        (simp only: True nz if_True if_False Let_def n_def [symmetric] w prod.case sum.case)
    have sw: "send_window_of sid ?g = send_window_of sid h" by (simp add: send_window_of_def)
    have "\<exists>h'. send_body H clks j sid body (offset + n) (take_window sid n ?g) = (Inr (), h')
      \<and> h_conn_send_window h' = h_conn_send_window (take_window sid n ?g) - int (length body - (offset + n))
      \<and> send_window_of sid h' = send_window_of sid (take_window sid n ?g) - int (length body - (offset + n))
      \<and> cn_in (h_conn h') = cn_in (h_conn (take_window sid n ?g)) \<and> h_inbuf h' = h_inbuf (take_window sid n ?g)"
      by (rule less.hyps)
        (use less.prems n sw in \<open>auto simp: h2_inv_def take_window_stream of_nat_diff\<close>)
    then show ?thesis unfolding step using n less.prems(4) sw by (auto simp: of_nat_diff)
  qed
qed

section \<open>Properties\<close>

text \<open>
  HTTP/2 frames are read back whole and in order, however the connection cuts the stream into
  pieces.
\<close>

theorem h2_frames_chunk_independent:
  assumes "list_all h2_frame_ok fs" and "concat pieces = concat (map push_frame fs) @ rest"
  shows "pulls h2_take_frame (length fs) [] pieces = Inr (Some (fs, rest))"
  by (rule hf.pulls_frames) (use assms in simp_all)

definition demo_h2_frames :: "h2_frame list" where
  "demo_h2_frames = [(H2_PING, 0, 0, replicate 8 7), (H2_DATA, FLAG_END_STREAM, 3, [1, 2])]"

theorem h2_frames_chunk_independent_witness:
  "pulls h2_take_frame (length demo_h2_frames) []
     [take 5 (concat (map push_frame demo_h2_frames)), drop 5 (concat (map push_frame demo_h2_frames)) @ [9]]
   = Inr (Some (demo_h2_frames, [9]))"
proof (rule h2_frames_chunk_independent)
  show "list_all h2_frame_ok demo_h2_frames" by code_simp
  show "concat [take 5 (concat (map push_frame demo_h2_frames)), drop 5 (concat (map push_frame demo_h2_frames)) @ [9]]
      = concat (map push_frame demo_h2_frames) @ [9]"
    by (simp flip: append_assoc)
qed

text \<open>
  C25: When \<open>send_body\<close> returns successfully, whatever frames were received while it waited for window
  updates, the output has grown by whole frames whose DATA frames carry exactly the body, in order, on
  the request's stream, none empty, with END_STREAM on the last one and on no other.
\<close>

theorem send_body_complete:
  assumes "h2_inv h" and "send_body H clks 0 sid body 0 h = (Inr (), h')"
  shows "\<exists>fs. cn_out (h_conn h') = cn_out (h_conn h) @ concat (map push_frame fs)
    \<and> carries sid body (data_frames fs)"
  using send_body_frames [OF assms(2,1)] by simp

text \<open>A trivial hpack instance and a fresh connection with one open stream.\<close>

definition demo_hpack :: "(unit, unit) hpack" where
  "demo_hpack = \<lparr>hp_encode = (\<lambda>e hs. (concat (map (\<lambda>(k, v). k @ v) hs), e)),
     hp_decode = (\<lambda>d b. (HpOk [(str_bytes '':status'', b)], d)), hp_enc_new = (), hp_dec_new = ()\<rparr>"

definition demo_h2 :: "(unit, unit) h2_conn" where
  "demo_h2 = \<lparr>h_conn = conn_of [], h_inbuf = [], h_encoder = (), h_decoder = (), h_next_stream_id = 3,
     h_streams = [(1, st_default\<lparr>st_send_window := 100\<rparr>)], h_conn_send_window = 65535, h_conn_recv_consumed = 0,
     h_peer_max_frame = 16384, h_peer_initial_window = 65535, h_goaway = None, h_authority = ''c''\<rparr>"

lemma demo_h2_inv: "h2_inv demo_h2"
  by (simp add: h2_inv_def demo_h2_def WINDOW_UPDATE_THRESHOLD_def)

theorem send_body_complete_witness:
  "\<exists>h' fs. send_body demo_hpack (\<lambda>_ _. 0) 0 1 [1, 2, 3] 0 demo_h2 = (Inr (), h')
    \<and> cn_out (h_conn h') = cn_out (h_conn demo_h2) @ concat (map push_frame fs) \<and> carries 1 [1, 2, 3] (data_frames fs)"
proof -
  obtain h' where "send_body demo_hpack (\<lambda>_ _. 0) 0 1 [1, 2, 3] 0 demo_h2 = (Inr (), h')"
    using send_body_direct [OF demo_h2_inv, of 0 "[1, 2, 3]" 1 demo_hpack "\<lambda>_ _. 0" 0]
    by (auto simp: demo_h2_def conn_of_def send_window_of_def)
  then show ?thesis using send_body_complete [OF demo_h2_inv] by blast
qed

text \<open>
  A body that fits the stream's and the connection's send window is sent without reading anything
  from the peer, and both windows shrink by exactly its length.
\<close>

theorem send_body_within_windows:
  assumes "h2_inv h" and "cn_werr (h_conn h) = None" and "map_of (h_streams h) sid \<noteq> None"
    and "int (length body) \<le> send_window_of sid h" and "int (length body) \<le> h_conn_send_window h"
  shows "\<exists>h'. send_body H clks j sid body 0 h = (Inr (), h')
    \<and> h_conn_send_window h' = h_conn_send_window h - int (length body)
    \<and> send_window_of sid h' = send_window_of sid h - int (length body)
    \<and> cn_in (h_conn h') = cn_in (h_conn h) \<and> h_inbuf h' = h_inbuf h"
  using send_body_direct [OF assms(1,2), of 0 body sid H clks j] assms(3-5) by simp

theorem send_body_within_windows_witness:
  "\<exists>h'. send_body demo_hpack (\<lambda>_ _. 0) 0 1 (replicate 100 7) 0 demo_h2 = (Inr (), h')
    \<and> h_conn_send_window h' = 65435 \<and> send_window_of 1 h' = 0"
  using send_body_within_windows [OF demo_h2_inv, of 1 "replicate 100 7" demo_hpack "\<lambda>_ _. 0" 0]
  by (auto simp: demo_h2_def conn_of_def send_window_of_def)

definition h2_step :: "('e, 'd) hpack \<Rightarrow> h2_frame \<Rightarrow> ('e, 'd) h2_conn \<Rightarrow> ('e, 'd) h2_conn" where
  "h2_step H f h = snd (handle_frame H f h)"

lemma h2_step_inv: "h2_inv h \<Longrightarrow> h2_inv (h2_step H f h)"
  using handle_frame_quiet [of H f h] unfolding h2_step_def quiet_def by (metis prod.collapse)

lemma with_prefix_inv: "with_prefix H c auth pre = Inr h \<Longrightarrow> h2_inv h"
  by (auto simp: with_prefix_def h2_inv_def WINDOW_UPDATE_THRESHOLD_def Let_def split: prod.splits sum.splits)

interpretation h2: step_invariant "\<lambda>h. \<exists>c auth pre. with_prefix H c auth pre = Inr h" "h2_step H" h2_inv for H
  by unfold_locales (auto intro: with_prefix_inv h2_step_inv)

text \<open>The frame sizes a frame of the peer announces, as the protocol defines them: those of SETTINGS that acknowledge nothing.\<close>

definition announced_sizes :: "h2_frame \<Rightarrow> nat list" where
  "announced_sizes = (\<lambda>(typ, flags, sid, payload).
     if typ = H2_SETTINGS \<and> flags AND FLAG_ACK = 0
     then List.map_filter (\<lambda>s. if u16_from_be (take 2 s) = SETTINGS_MAX_FRAME_SIZE then Some (unat (u32_from_be (drop 2 s))) else None)
       (as_chunks 6 payload)
     else [])"

definition clamp_size :: "nat \<Rightarrow> nat" where
  "clamp_size v = max 16384 (min v (2 ^ 24))"

lemma six_bytes: "length s = 6 \<Longrightarrow> take 2 s = [s ! 0, s ! 1] \<and> drop 2 s = [s ! 2, s ! 3, s ! 4, s ! 5]"
  by (auto simp: numeral_eq_Suc length_Suc_conv)

lemma as_chunks_length: "list_all (\<lambda>s. length s = n) (as_chunks n xs)"
  by (induction n xs rule: as_chunks.induct) (subst as_chunks.simps, auto)

lemma settings_size:
  assumes "list_all (\<lambda>s. length s = 6) cs"
  shows "h_peer_max_frame (fold apply_setting cs h) = last (h_peer_max_frame h # map clamp_size (List.map_filter
    (\<lambda>s. if u16_from_be (take 2 s) = SETTINGS_MAX_FRAME_SIZE then Some (unat (u32_from_be (drop 2 s))) else None) cs))"
  using assms
proof (induction cs arbitrary: h)
  case (Cons c cs)
  then show ?case using six_bytes [of c]
    by (auto simp: apply_setting_def Let_def clamp_size_def List.map_filter_def SETTINGS_MAX_FRAME_SIZE_def SETTINGS_INITIAL_WINDOW_SIZE_def)
qed (simp add: List.map_filter_def)

lemma other_frames_size: "typ \<noteq> H2_SETTINGS \<Longrightarrow> h_peer_max_frame (h2_step H (typ, flags, sid, payload) h) = h_peer_max_frame h"
proof -
  assume ty: "typ \<noteq> H2_SETTINGS"
  have w: "h_peer_max_frame (snd (h2_write b g)) = h_peer_max_frame g" for b and g :: "('a, 'b) h2_conn"
    by (simp add: h2_write_def split: prod.split)
  have d: "h_peer_max_frame (snd (handle_data flags sid payload h)) = h_peer_max_frame h"
  proof -
    have "h_peer_max_frame (snd (maybe_window_update sid g)) = h_peer_max_frame g" for g :: "('a, 'b) h2_conn"
      using maybe_window_update_effect [OF prod.collapse [symmetric]] by blast
    then show ?thesis by (simp add: handle_data_def Let_def split: sum.split option.split)
  qed
  have f: "h_peer_max_frame (snd (finish_headers H i g)) = h_peer_max_frame g" for i g
    using finish_headers_effect [OF prod.collapse [symmetric]] by blast
  show ?thesis using ty
    by (simp add: h2_step_def handle_frame_def d f w handle_headers_def handle_continuation_def handle_window_update_def Let_def
        split: sum.split option.split)
qed

lemma h2_step_size: "h_peer_max_frame (h2_step H f h) = last (h_peer_max_frame h # map clamp_size (announced_sizes f))"
proof -
  obtain ty flags sid payload where f: "f = (ty, flags, sid, payload)" by (cases f)
  show ?thesis
  proof (cases "ty = H2_SETTINGS")
    case True
    have "h_peer_max_frame (snd (h2_write b g)) = h_peer_max_frame g" for b and g :: "('a, 'b) h2_conn"
      by (simp add: h2_write_def split: prod.split)
    then show ?thesis using settings_size [OF as_chunks_length, of payload h]
      by (simp add: h2_step_def handle_frame_def f True announced_sizes_def h2_types)
  next
    case False
    then show ?thesis by (simp add: f other_frames_size announced_sizes_def)
  qed
qed

lemma h2_run_size:
  "h_peer_max_frame (fold (h2_step H) fs h) = last (h_peer_max_frame h # map clamp_size (concat (map announced_sizes fs)))"
proof (induction fs arbitrary: h)
  case (Cons f fs)
  show ?case unfolding fold_simps o_apply Cons.IH h2_step_size by (simp add: last_append)
qed simp


definition demo_settings :: "h2_frame list" where
  "demo_settings = demo_h2_frames @ [(H2_SETTINGS, 0, 0, u16_to_be SETTINGS_MAX_FRAME_SIZE @ u32_to_be 20000)]"


text \<open>
  The size one above the protocol's largest is reached: a peer that announces \<open>2^24\<close> or more gets DATA frames of up to
  \<open>2^24\<close> bytes, and the length field of such a frame, three bytes, is zero.
\<close>

theorem largest_frame_length_wraps:
  "2 ^ 24 \<le> v \<Longrightarrow> clamp_size v = 2 ^ 24"
  "length payload = 2 ^ 24 \<Longrightarrow> take 3 (push_frame (typ, flags, sid, payload)) = [0, 0, 0]"
proof -
  show "2 ^ 24 \<le> v \<Longrightarrow> clamp_size v = 2 ^ 24" by (simp add: clamp_size_def)
  have "(word_of_nat 256 :: u8) = 0" "(word_of_nat 65536 :: u8) = 0" "(word_of_nat 16777216 :: u8) = 0" by code_simp+
  then show "length payload = 2 ^ 24 \<Longrightarrow> take 3 (push_frame (typ, flags, sid, payload)) = [0, 0, 0]"
    by (simp add: push_frame_def Let_def)
qed

text \<open>
  The cap on a header block is checked only when the block is complete: CONTINUATION frames that
  never set END_HEADERS are all accepted, and the buffered block grows with every one of them beyond
  any bound.
\<close>

theorem header_block_unbounded:
  fixes h :: "('e, 'd) h2_conn"
  shows "st_header_block (stream_or_default sid
      (fold (h2_step H) (replicate n (H2_CONTINUATION, 0, sid, payload)) h))
    = st_header_block (stream_or_default sid h) @ concat (replicate n payload)"
proof (induction n arbitrary: h)
  case 0
  then show ?case by simp
next
  case (Suc n)
  have "h2_step H (H2_CONTINUATION, 0, sid, payload) h
      = set_stream sid ((stream_or_default sid h)\<lparr>st_header_block := st_header_block (stream_or_default sid h) @ payload\<rparr>) h"
    by (simp add: h2_step_def handle_frame_def handle_continuation_def h2_types Let_def)
  then show ?case using Suc [of "h2_step H (H2_CONTINUATION, 0, sid, payload) h"]
    by (simp add: stream_or_default_def)
qed

lemma status_text: "from_utf8_lossy (str_bytes '':status'') = '':status''"
  by code_simp

text \<open>
  An informational response is not ignored when it comes first: after a header block that decodes
  to a 1xx status, a stream without a status has that status, and \<open>response_status\<close> returns it as the
  status of the response without waiting for the final one.
\<close>

theorem informational_status_returned:
  assumes "map_of (h_streams h) sid = Some s" and "st_status s = None" and "st_reset s = None"
    and "length (st_header_block s) \<le> MAX_HEADER_BLOCK"
    and "hp_decode H (h_decoder h) (st_header_block s) = (HpOk [(str_bytes '':status'', v)], d)"
    and "parse_uint 65536 (from_utf8_lossy v) = Some code"
    and "code < 200"
  shows "\<exists>h'. finish_headers H sid h = (Inr (), h') \<and> response_status H clks tick timeout sid h' = (Inr code, h')"
proof -
  let ?s = "s\<lparr>st_header_block := [], st_status := Some code, st_headers_done := True\<rparr>"
  let ?h = "set_stream sid ?s ((set_stream sid (s\<lparr>st_header_block := []\<rparr>) h)\<lparr>h_decoder := d\<rparr>)"
  have "finish_headers H sid h = (Inr (), ?h)"
    using assms by (simp add: finish_headers_def Let_def set_stream_def not_less status_text)
  moreover have "response_status H clks tick timeout sid ?h = (Inr code, ?h)"
    unfolding response_status_def by (subst response_status_loop.simps) (simp add: assms(3))
  ultimately show ?thesis by blast
qed

theorem informational_status_returned_witness:
  "\<exists>h'. finish_headers demo_hpack 1 (set_stream 1 (st_default\<lparr>st_header_block := str_bytes ''103''\<rparr>) demo_h2) = (Inr (), h')
    \<and> response_status demo_hpack (\<lambda>_ _. 0) (\<lambda>_. 0) 1 1 h' = (Inr 103, h')"
proof (rule informational_status_returned)
  show "map_of (h_streams (set_stream 1 (st_default\<lparr>st_header_block := str_bytes ''103''\<rparr>) demo_h2)) 1
      = Some (st_default\<lparr>st_header_block := str_bytes ''103''\<rparr>)" by simp
  show "hp_decode demo_hpack (h_decoder (set_stream 1 (st_default\<lparr>st_header_block := str_bytes ''103''\<rparr>) demo_h2))
      (st_header_block (st_default\<lparr>st_header_block := str_bytes ''103''\<rparr>)) = (HpOk [(str_bytes '':status'', str_bytes ''103'')], ())"
    by (simp add: demo_hpack_def)
  show "parse_uint 65536 (from_utf8_lossy (str_bytes ''103'')) = Some 103" by code_simp
qed (simp_all add: st_default_def MAX_HEADER_BLOCK_def)

end
