(* ===== verification/Control_Base.thy ===== *)
theory Control_Base
  imports Http1 Crypto
begin

text \<open>
  The ts2021 control transport of crates/tsnode/src/controlbase.rs: the Noise IK handshake, the
  encrypted records of \<^verbatim>\<open>NoiseConn\<close>, and the client's dial over an HTTP upgrade. Random draws
  are arguments, base64 is a parameter, \<open>None\<close> is a panic.
\<close>

section \<open>Constants\<close>

definition PROTOCOL_NAME :: bytes where "PROTOCOL_NAME = str_bytes ''Noise_IK_25519_ChaChaPoly_BLAKE2s''"
definition PROLOGUE_PREFIX :: string where "PROLOGUE_PREFIX = ''Tailscale Control Protocol v''"
definition UPGRADE_VALUE :: string where "UPGRADE_VALUE = ''tailscale-control-protocol''"
definition HANDSHAKE_HEADER :: string where "HANDSHAKE_HEADER = ''X-Tailscale-Handshake''"
definition UPGRADE_PATH :: string where "UPGRADE_PATH = ''/ts2021''"

definition CB_INITIATION :: u8 where "CB_INITIATION = 1"
definition CB_RESPONSE :: u8 where "CB_RESPONSE = 2"
definition CB_ERROR :: u8 where "CB_ERROR = 3"
definition CB_RECORD :: u8 where "CB_RECORD = 4"
definition CB_HEADER_LEN :: nat where "CB_HEADER_LEN = 3"
definition INITIATION_HEADER_LEN :: nat where "INITIATION_HEADER_LEN = 5"
definition CB_INITIATION_LEN :: nat where "CB_INITIATION_LEN = 101"
definition CB_RESPONSE_LEN :: nat where "CB_RESPONSE_LEN = 51"
definition MAX_MESSAGE :: nat where "MAX_MESSAGE = 4096"
definition MAX_CIPHERTEXT :: nat where "MAX_CIPHERTEXT = MAX_MESSAGE - CB_HEADER_LEN"
definition MAX_PLAINTEXT :: nat where "MAX_PLAINTEXT = MAX_CIPHERTEXT - TAG_LEN"

lemmas cb_lens = CB_HEADER_LEN_def INITIATION_HEADER_LEN_def CB_INITIATION_LEN_def CB_RESPONSE_LEN_def
  MAX_MESSAGE_def MAX_CIPHERTEXT_def MAX_PLAINTEXT_def TAG_LEN_def
lemmas cb_types = CB_INITIATION_def CB_RESPONSE_def CB_ERROR_def CB_RECORD_def

section \<open>Handshake\<close>

text \<open>\<^verbatim>\<open>u64::swap_bytes\<close>\<close>

definition be_nonce_key :: "u64 \<Rightarrow> u64" where
  "be_nonce_key counter = u64_from_le (u64_to_be counter)"

definition aead_encrypt_be :: "prims \<Rightarrow> bytes \<Rightarrow> u64 \<Rightarrow> bytes \<Rightarrow> bytes" where
  "aead_encrypt_be P key counter plaintext = aead_encrypt P key (be_nonce_key counter) plaintext []"

definition aead_decrypt_be :: "prims \<Rightarrow> bytes \<Rightarrow> u64 \<Rightarrow> bytes \<Rightarrow> crypto_error + bytes" where
  "aead_decrypt_be P key counter ciphertext = aead_decrypt P key (be_nonce_key counter) ciphertext []"

definition prologue :: "u16 \<Rightarrow> bytes" where
  "prologue version = str_bytes (PROLOGUE_PREFIX @ dec_string (unat version))"

definition cb_header :: "u8 \<Rightarrow> nat \<Rightarrow> bytes" where
  "cb_header msg_type len = [msg_type] @ u16_to_be (word_of_nat len)"

record client_handshake =
  ch_state :: symmetric_state
  ch_ephemeral_secret :: bytes
  ch_machine_secret :: bytes
  ch_initiation :: bytes

record session_keys =
  sk_tx :: bytes
  sk_rx :: bytes

definition client_new :: "prims \<Rightarrow> bytes \<Rightarrow> bytes \<Rightarrow> bytes \<Rightarrow> u16 \<Rightarrow> client_handshake option" where
  "client_new P rnd machine_secret control_pub version =
     (let s = ss_new P PROTOCOL_NAME;
          s = mix_hash P (prologue version) s;
          s = mix_hash P control_pub s;
          e = x25519_generate rnd;
          e_pub = x25519_public P e;
          s = mix_hash P e_pub s;
          s = mix_dh P e control_pub s
      in do {
        (enc_static, s) \<leftarrow> encrypt_and_hash P (x25519_public P machine_secret) s;
        let s = mix_dh P machine_secret control_pub s;
        (tag, s) \<leftarrow> encrypt_and_hash P [] s;
        Some \<lparr>ch_state = s, ch_ephemeral_secret = e, ch_machine_secret = machine_secret,
              ch_initiation = u16_to_be version
                @ cb_header CB_INITIATION (CB_INITIATION_LEN - INITIATION_HEADER_LEN)
                @ e_pub @ enc_static @ tag\<rparr>
      })"

definition client_finish :: "prims \<Rightarrow> client_handshake \<Rightarrow> bytes \<Rightarrow> (io_kind + session_keys) option" where
  "client_finish P ch response =
     (if length response \<noteq> CB_RESPONSE_LEN \<or> response ! 0 \<noteq> CB_RESPONSE then Some (Inl InvalidData)
      else if unat (u16_from_be [response ! 1, response ! 2]) \<noteq> CB_RESPONSE_LEN - CB_HEADER_LEN
        then Some (Inl InvalidData)
      else
        let re = slice 3 35 response;
            s = mix_hash P re (ch_state ch);
            s = mix_dh P (ch_ephemeral_secret ch) re s;
            s = mix_dh P (ch_machine_secret ch) re s
        in do {
          r \<leftarrow> decrypt_and_hash P (slice 35 51 response) s;
          Some (case r of
                  Inl _ \<Rightarrow> Inl PermissionDenied
                | Inr (_, s) \<Rightarrow> (let (tx, rx) = ss_split P s in Inr \<lparr>sk_tx = tx, sk_rx = rx\<rparr>))
        })"

definition server_handshake ::
    "prims \<Rightarrow> bytes \<Rightarrow> bytes \<Rightarrow> bytes \<Rightarrow> (io_kind + session_keys \<times> bytes \<times> bytes) option" where
  "server_handshake P rnd control_secret initiation =
     (if length initiation \<noteq> CB_INITIATION_LEN \<or> initiation ! 2 \<noteq> CB_INITIATION then Some (Inl InvalidData)
      else
        let version = u16_from_be [initiation ! 0, initiation ! 1];
            s = ss_new P PROTOCOL_NAME;
            s = mix_hash P (prologue version) s;
            s = mix_hash P (x25519_public P control_secret) s;
            re = slice 5 37 initiation;
            s = mix_hash P re s;
            s = mix_dh P control_secret re s
        in do {
          r \<leftarrow> decrypt_and_hash P (slice 37 85 initiation) s;
          case r of
            Inl _ \<Rightarrow> Some (Inl PermissionDenied)
          | Inr (machine_pub, s) \<Rightarrow>
              (if length machine_pub \<noteq> 32 then None
               else do {
                 r \<leftarrow> decrypt_and_hash P (slice 85 101 initiation) (mix_dh P control_secret machine_pub s);
                 case r of
                   Inl _ \<Rightarrow> Some (Inl PermissionDenied)
                 | Inr (_, s) \<Rightarrow>
                     (let e = x25519_generate rnd;
                          ep = x25519_public P e;
                          s = mix_hash P ep s;
                          s = mix_dh P e re s;
                          s = mix_dh P e machine_pub s
                      in do {
                        (tag, s) \<leftarrow> encrypt_and_hash P [] s;
                        let (c2s, s2c) = ss_split P s;
                        Some (Inr (\<lparr>sk_tx = s2c, sk_rx = c2s\<rparr>, machine_pub,
                                   cb_header CB_RESPONSE (CB_RESPONSE_LEN - CB_HEADER_LEN) @ ep @ tag))
                      })
               })
        })"

section \<open>Records\<close>

record noise_conn =
  nc_inner :: conn
  nc_tx_key :: bytes
  nc_tx_n :: u64
  nc_rx_key :: bytes
  nc_rx_n :: u64
  nc_raw_pending :: bytes
  nc_plain_pending :: bytes
  nc_plain_pos :: nat

definition noise_new :: "conn \<Rightarrow> session_keys \<Rightarrow> bytes \<Rightarrow> noise_conn" where
  "noise_new inner keys leftover =
     \<lparr>nc_inner = inner, nc_tx_key = sk_tx keys, nc_tx_n = 0, nc_rx_key = sk_rx keys, nc_rx_n = 0,
      nc_raw_pending = leftover, nc_plain_pending = [], nc_plain_pos = 0\<rparr>"

definition read_raw_exact :: "nat \<Rightarrow> noise_conn \<Rightarrow> (io_kind + bytes) \<times> noise_conn" where
  "read_raw_exact n nc =
     (let pre = take n (nc_raw_pending nc);
          nc = nc\<lparr>nc_raw_pending := drop n (nc_raw_pending nc)\<rparr>
      in if length pre < n then
           (case read_exact conn_read (n - length pre) (nc_inner nc) of
              (Inl e, c) \<Rightarrow> (Inl e, nc\<lparr>nc_inner := c\<rparr>)
            | (Inr b, c) \<Rightarrow> (Inr (pre @ b), nc\<lparr>nc_inner := c\<rparr>))
         else (Inr pre, nc))"

definition read_record :: "prims \<Rightarrow> noise_conn \<Rightarrow> (io_kind + unit) \<times> noise_conn" where
  "read_record P nc =
     (case read_raw_exact CB_HEADER_LEN nc of
        (Inl e, nc) \<Rightarrow> (Inl e, nc)
      | (Inr hdr, nc) \<Rightarrow>
          (let len = unat (u16_from_be [hdr ! 1, hdr ! 2])
           in if hdr ! 0 = CB_ERROR then
                (case read_raw_exact len nc of
                   (Inl e, nc) \<Rightarrow> (Inl e, nc)
                 | (Inr msg, nc) \<Rightarrow> (Inl OtherError, nc))
              else if hdr ! 0 \<noteq> CB_RECORD then (Inl InvalidData, nc)
              else if \<not> (TAG_LEN \<le> len \<and> len \<le> MAX_CIPHERTEXT) then (Inl InvalidData, nc)
              else
                (case read_raw_exact len nc of
                   (Inl e, nc) \<Rightarrow> (Inl e, nc)
                 | (Inr ct, nc) \<Rightarrow>
                     (case aead_decrypt_be P (nc_rx_key nc) (nc_rx_n nc) ct of
                        Inl _ \<Rightarrow> (Inl InvalidData, nc)
                      | Inr pt \<Rightarrow>
                          (Inr (), nc\<lparr>nc_rx_n := nc_rx_n nc + 1, nc_plain_pending := pt, nc_plain_pos := 0\<rparr>)))))"

definition noise_read :: "prims \<Rightarrow> nat \<Rightarrow> noise_conn \<Rightarrow> (io_kind + bytes) \<times> noise_conn" where
  "noise_read P cap nc =
     (let deliver = (\<lambda>nc.
            let b = take cap (drop (nc_plain_pos nc) (nc_plain_pending nc))
            in (Inr b, nc\<lparr>nc_plain_pos := nc_plain_pos nc + length b\<rparr>))
      in if length (nc_plain_pending nc) \<le> nc_plain_pos nc then
           (case read_record P nc of
              (Inl e, nc) \<Rightarrow> (Inl e, nc)
            | (Inr _, nc) \<Rightarrow> deliver nc)
         else deliver nc)"

text \<open>\<^verbatim>\<open>chunks(n)\<close>: pieces of \<open>n\<close> elements, the last one possibly shorter.\<close>

function chunks :: "nat \<Rightarrow> 'a list \<Rightarrow> 'a list list" where
  "chunks n xs = (if n = 0 \<or> xs = [] then [] else take n xs # chunks n (drop n xs))"
  by pat_completeness auto
termination
  by (relation "measure (\<lambda>(n, xs). length xs)") auto

declare chunks.simps [simp del]

fun seal_records :: "prims \<Rightarrow> bytes \<Rightarrow> u64 \<Rightarrow> bytes list \<Rightarrow> bytes" where
  "seal_records P key n [] = []"
| "seal_records P key n (chunk # cs) =
     (let ct = aead_encrypt_be P key n chunk
      in cb_header CB_RECORD (length ct) @ ct @ seal_records P key (n + 1) cs)"

definition noise_write :: "prims \<Rightarrow> bytes \<Rightarrow> noise_conn \<Rightarrow> (io_kind + nat) \<times> noise_conn" where
  "noise_write P buf nc =
     (let cs = chunks MAX_PLAINTEXT buf;
          out = seal_records P (nc_tx_key nc) (nc_tx_n nc) cs;
          nc = nc\<lparr>nc_tx_n := nc_tx_n nc + word_of_nat (length cs)\<rparr>
      in case conn_write_all out (nc_inner nc) of
           (Inl e, c) \<Rightarrow> (Inl e, nc\<lparr>nc_inner := c\<rparr>)
         | (Inr _, c) \<Rightarrow> (Inr (length buf), nc\<lparr>nc_inner := c\<rparr>))"

section \<open>Dialling\<close>

text \<open>The loops \<^verbatim>\<open>while got < limit\<close> that fill the response buffer.\<close>

function fill_response :: "nat \<Rightarrow> bytes \<Rightarrow> conn \<Rightarrow> (io_kind + bytes) \<times> conn" where
  "fill_response limit resp c =
     (if length resp < limit then
        (case conn_read (limit - length resp) c of
           (Inl e, c) \<Rightarrow> (Inl e, c)
         | (Inr b, c) \<Rightarrow>
             (if b = [] then (Inl UnexpectedEof, c) else fill_response limit (resp @ b) c))
      else (Inr resp, c))"
  by pat_completeness auto
termination
  by (relation "measure (\<lambda>(limit, resp, c). limit - length resp)") (auto simp flip: length_greater_0_conv)

declare fill_response.simps [simp del]

definition cb_response :: "prims \<Rightarrow> client_handshake \<Rightarrow> bytes \<Rightarrow> conn \<Rightarrow> (io_kind + noise_conn) option" where
  "cb_response P hs leftover c =
     (let resp = take CB_RESPONSE_LEN leftover;
          leftover = drop CB_RESPONSE_LEN leftover
      in case fill_response CB_HEADER_LEN resp c of
           (Inl e, _) \<Rightarrow> Some (Inl e)
         | (Inr resp, c) \<Rightarrow>
             (if resp ! 0 = CB_ERROR then Some (Inl PermissionDenied)
              else case fill_response CB_RESPONSE_LEN resp c of
                (Inl e, _) \<Rightarrow> Some (Inl e)
              | (Inr resp, c) \<Rightarrow>
                  map_option (\<lambda>r. case r of Inl e \<Rightarrow> Inl e | Inr keys \<Rightarrow> Inr (noise_new c keys leftover))
                    (client_finish P hs resp)))"

definition cb_dial ::
    "prims \<Rightarrow> nat \<Rightarrow> (bytes \<Rightarrow> string) \<Rightarrow> bytes \<Rightarrow> conn \<Rightarrow> string \<Rightarrow> bytes \<Rightarrow> bytes \<Rightarrow> u16
      \<Rightarrow> (io_kind + noise_conn) option" where
  "cb_dial P um b64 rnd c host machine_secret control_pub version =
     do {
       hs \<leftarrow> client_new P rnd machine_secret control_pub version;
       case write_request ''POST'' UPGRADE_PATH host
              [(''Upgrade'', UPGRADE_VALUE), (''Connection'', ''upgrade''), (HANDSHAKE_HEADER, b64 (ch_initiation hs))] c of
         (Inl e, _) \<Rightarrow> Some (Inl e)
       | (Inr _, c) \<Rightarrow>
           (case read_response_head conn_read c of
              (Inl e, _) \<Rightarrow> Some (Inl e)
            | (Inr head, c) \<Rightarrow>
                (if rh_status head \<noteq> 101 then
                   map_option (\<lambda>_. Inl ConnectionRefused) (read_body um conn_read head 4096 c)
                 else if \<not> (case rh_header ''upgrade'' head of
                              None \<Rightarrow> False | Some v \<Rightarrow> eq_ignore_ascii_case v UPGRADE_VALUE)
                   then Some (Inl InvalidData)
                 else cb_response P hs (rh_leftover head) c))
     }"

section \<open>The handshake\<close>

lemma cb_header_length [simp]: "length (cb_header t n) = 3"
  by (simp add: cb_header_def)

lemma cb_header_bytes:
  assumes "n < 65536"
  shows "\<exists>hi lo. cb_header t n = [t, hi, lo] \<and> unat (u16_from_be [hi, lo]) = n"
proof -
  have "\<exists>x y. xs = [x, y]" if "length xs = 2" for xs :: bytes
    using that by (auto simp: numeral_2_eq_2 length_Suc_conv)
  then obtain hi lo where w: "u16_to_be (word_of_nat n) = [hi, lo]" using length_to_bytes(1) by blast
  then have "u16_from_be [hi, lo] = word_of_nat n" using from_to_bytes(1) [of "word_of_nat n"] by simp
  then show ?thesis using w assms by (simp add: cb_header_def unat_of_nat)
qed

lemma cb_initiation_layout:
  assumes "length v = 2" "length e = 32" "length c = 48" "length t = 16" "cb_header b n = [b, hi, lo]"
  shows "length (v @ cb_header b n @ e @ c @ t) = 101" "(v @ cb_header b n @ e @ c @ t) ! 2 = b"
    "[(v @ cb_header b n @ e @ c @ t) ! 0, (v @ cb_header b n @ e @ c @ t) ! 1] = v"
    "slice 5 37 (v @ cb_header b n @ e @ c @ t) = e" "slice 37 85 (v @ cb_header b n @ e @ c @ t) = c"
    "slice 85 101 (v @ cb_header b n @ e @ c @ t) = t"
proof -
  obtain x y where "v = [x, y]" using assms(1) by (auto simp: numeral_2_eq_2 length_Suc_conv)
  then show "length (v @ cb_header b n @ e @ c @ t) = 101" "(v @ cb_header b n @ e @ c @ t) ! 2 = b"
    "[(v @ cb_header b n @ e @ c @ t) ! 0, (v @ cb_header b n @ e @ c @ t) ! 1] = v"
    "slice 5 37 (v @ cb_header b n @ e @ c @ t) = e" "slice 37 85 (v @ cb_header b n @ e @ c @ t) = c"
    "slice 85 101 (v @ cb_header b n @ e @ c @ t) = t"
    using assms by (simp_all add: slice_def)
qed

lemma cb_response_layout:
  assumes "length e = 32" "length t = 16" "cb_header b n = [b, hi, lo]"
  shows "length (cb_header b n @ e @ t) = 51" "(cb_header b n @ e @ t) ! 0 = b"
    "[(cb_header b n @ e @ t) ! 1, (cb_header b n @ e @ t) ! 2] = [hi, lo]"
    "slice 3 35 (cb_header b n @ e @ t) = e" "slice 35 51 (cb_header b n @ e @ t) = t"
  using assms by (simp_all add: slice_def)

lemma control_handshake:
  assumes ok: "crypto_ok P" and len: "length r1 = 32" "length r2 = 32" "length m = 32" "length c = 32"
  shows "\<exists>ch ks resp kc. client_new P r1 m (x25519_public P c) version = Some ch
    \<and> server_handshake P r2 c (ch_initiation ch) = Some (Inr (ks, x25519_public P m, resp))
    \<and> client_finish P ch resp = Some (Inr kc) \<and> sk_tx kc = sk_rx ks \<and> sk_rx kc = sk_tx ks
    \<and> length (sk_tx kc) = 32 \<and> length (sk_rx kc) = 32"
proof -
  note ok' = crypto_okD [OF ok]
  let ?e = "x25519_generate r1" and ?f = "x25519_generate r2"
  have e: "length ?e = 32" "length ?f = 32" using len by simp_all
  let ?ep = "x25519_public P ?e" and ?fp = "x25519_public P ?f" and ?cp = "x25519_public P c" and ?mp = "x25519_public P m"
  define s0 where "s0 = mix_hash P ?ep (mix_hash P ?cp (mix_hash P (prologue version) (ss_new P PROTOCOL_NAME)))"
  have "ss_keyed (mix_dh P ?e ?cp s0)" unfolding s0_def using ok' by (intro ss_intros)
  then obtain c1 s1 where c1: "encrypt_and_hash P ?mp (mix_dh P ?e ?cp s0) = Some (c1, s1)" "length c1 = length ?mp + 16"
      "ss_keyed s1" "decrypt_and_hash P c1 (mix_dh P ?e ?cp s0) = Some (Inr (?mp, s1))"
    using encrypt_and_hash_keyed [OF ok'(2,1)] by blast
  then have "ss_keyed (mix_dh P m ?cp s1)" using ok' by (intro ss_intros)
  then obtain c2 s2 where c2: "encrypt_and_hash P [] (mix_dh P m ?cp s1) = Some (c2, s2)" "length c2 = length ([] :: bytes) + 16"
      "ss_keyed s2" "decrypt_and_hash P c2 (mix_dh P m ?cp s1) = Some (Inr ([], s2))"
    using encrypt_and_hash_keyed [OF ok'(2,1)] by blast
  define s3 where "s3 = mix_dh P ?f ?mp (mix_dh P ?f ?ep (mix_hash P ?fp s2))"
  have "ss_keyed s3" unfolding s3_def using c2(3) ok' by (intro ss_intros)
  then obtain c3 s4 where c3: "encrypt_and_hash P [] s3 = Some (c3, s4)" "length c3 = length ([] :: bytes) + 16"
      "ss_keyed s4" "decrypt_and_hash P c3 s3 = Some (Inr ([], s4))"
    using encrypt_and_hash_keyed [OF ok'(2,1)] by blast
  obtain k1 k2 where k: "ss_split P s4 = (k1, k2)" by (cases "ss_split P s4")
  obtain hi lo where h1: "cb_header CB_INITIATION 96 = [CB_INITIATION, hi, lo]" using cb_header_bytes [of 96 CB_INITIATION] by auto
  obtain hi' lo' where h2: "cb_header CB_RESPONSE 48 = [CB_RESPONSE, hi', lo']" "unat (u16_from_be [hi', lo']) = 48"
    using cb_header_bytes [of 48 CB_RESPONSE] by auto
  have pl: "length ?ep = 32" "length ?fp = 32" "length ?mp = 32" using ok' e len by simp_all
  have lens: "length (u16_to_be version) = 2" "length c1 = 48" "length c2 = 16" "length c3 = 16"
    using c1(2) c2(2) c3(2) pl by simp_all
  define init where "init = u16_to_be version @ cb_header CB_INITIATION 96 @ ?ep @ c1 @ c2"
  note lay = cb_initiation_layout [OF lens(1) pl(1) lens(2,3) h1, folded init_def]
  define resp where "resp = cb_header CB_RESPONSE 48 @ ?fp @ c3"
  note rlay = cb_response_layout [OF pl(2) lens(4) h2(1), folded resp_def]
  have ch: "client_new P r1 m ?cp version = Some \<lparr>ch_state = s2, ch_ephemeral_secret = ?e, ch_machine_secret = m, ch_initiation = init\<rparr>"
    using c1(1) c2(1) unfolding s0_def
    by (simp add: client_new_def Let_def init_def CB_INITIATION_LEN_def INITIATION_HEADER_LEN_def)
  have dh: "mix_dh P c ?ep s0 = mix_dh P ?e ?cp s0" "mix_dh P c ?mp s1 = mix_dh P m ?cp s1"
      "mix_dh P ?e ?fp (mix_hash P ?fp s2) = mix_dh P ?f ?ep (mix_hash P ?fp s2)"
      "mix_dh P m ?fp (mix_dh P ?f ?ep (mix_hash P ?fp s2)) = s3"
    unfolding s3_def using mix_dh_commute [OF ok'(3)] e len by metis+
  have ver: "u16_from_be [init ! 0, init ! 1] = version" using lay(3) by simp
  have sv: "server_handshake P r2 c init = Some (Inr (\<lparr>sk_tx = k2, sk_rx = k1\<rparr>, ?mp, resp))"
    using lay ver c1(4) c2(4) c3(1) k dh(1,2) pl(3) unfolding s0_def s3_def
    by (simp add: server_handshake_def Let_def CB_INITIATION_LEN_def CB_RESPONSE_LEN_def CB_HEADER_LEN_def resp_def)
  have "client_finish P \<lparr>ch_state = s2, ch_ephemeral_secret = ?e, ch_machine_secret = m, ch_initiation = init\<rparr> resp
      = Some (Inr \<lparr>sk_tx = k1, sk_rx = k2\<rparr>)"
    using rlay h2(2) dh(3,4) c3(4) k
    by (simp add: client_finish_def Let_def CB_RESPONSE_LEN_def CB_HEADER_LEN_def)
  then show ?thesis using ch sv ss_split_lengths [OF ok'(1) k] by auto
qed

section \<open>The record layer is a byte source\<close>

text \<open>The plaintext of a sequence of records.\<close>

function open_records :: "prims \<Rightarrow> bytes \<Rightarrow> u64 \<Rightarrow> bytes \<Rightarrow> bytes" where
  "open_records P key n raw =
     (if length raw < 3 then []
      else
        let len = unat (u16_from_be [raw ! 1, raw ! 2])
        in case aead_decrypt_be P key n (slice 3 (3 + len) raw) of
             Inl _ \<Rightarrow> []
           | Inr pt \<Rightarrow> pt @ open_records P key (n + 1) (drop (3 + len) raw))"
  by pat_completeness auto
termination
  by (relation "measure (\<lambda>(P, key, n, raw). length raw)") auto

declare open_records.simps [simp del]

definition chunks_ok :: "bytes list \<Rightarrow> bool" where
  "chunks_ok cs \<longleftrightarrow> list_all (\<lambda>c. c \<noteq> [] \<and> length c \<le> MAX_PLAINTEXT) cs"

definition noise_stream :: "noise_conn \<Rightarrow> bytes" where
  "noise_stream nc = nc_raw_pending nc @ conn_pending (nc_inner nc)"

definition noise_pending :: "prims \<Rightarrow> noise_conn \<Rightarrow> bytes" where
  "noise_pending P nc = drop (nc_plain_pos nc) (nc_plain_pending nc)
     @ open_records P (nc_rx_key nc) (nc_rx_n nc) (noise_stream nc)"

definition noise_clean :: "prims \<Rightarrow> noise_conn \<Rightarrow> bool" where
  "noise_clean P nc \<longleftrightarrow> aead_ok P \<and> length (nc_rx_key nc) = 32 \<and> conn_clean (nc_inner nc)
     \<and> (\<exists>cs. noise_stream nc = seal_records P (nc_rx_key nc) (nc_rx_n nc) cs \<and> chunks_ok cs)"

lemma aead_be_roundtrip:
  assumes "aead_ok P" "length k = 32"
  shows "aead_decrypt_be P k n (aead_encrypt_be P k n m) = Inr m" "length (aead_encrypt_be P k n m) = length m + 16"
  using aead_roundtrip [OF assms] length_aead_encrypt [OF assms]
  by (simp_all add: aead_decrypt_be_def aead_encrypt_be_def)

lemma seal_records_Cons:
  assumes "aead_ok P" "length k = 32" "length c \<le> MAX_PLAINTEXT"
  shows "\<exists>hi lo. seal_records P k n (c # cs) = [CB_RECORD, hi, lo] @ aead_encrypt_be P k n c @ seal_records P k (n + 1) cs
    \<and> unat (u16_from_be [hi, lo]) = length c + 16"
proof -
  have "length (aead_encrypt_be P k n c) = length c + 16" by (rule aead_be_roundtrip [OF assms(1,2)])
  moreover have "length c + 16 < 65536" using assms(3) by (simp add: cb_lens)
  ultimately show ?thesis using cb_header_bytes [of "length c + 16" CB_RECORD] by (auto simp: Let_def)
qed

lemma open_seal_records:
  assumes "aead_ok P" "length k = 32" "chunks_ok cs"
  shows "open_records P k n (seal_records P k n cs) = concat cs"
  using assms(3)
proof (induction cs arbitrary: n)
  case Nil
  then show ?case by (simp add: open_records.simps)
next
  case (Cons c cs)
  have "length c \<le> MAX_PLAINTEXT" using Cons.prems by (simp add: chunks_ok_def)
  then obtain hi lo where r: "seal_records P k n (c # cs) = [CB_RECORD, hi, lo] @ aead_encrypt_be P k n c @ seal_records P k (n + 1) cs"
      "unat (u16_from_be [hi, lo]) = length c + 16"
    using seal_records_Cons [OF assms(1,2)] by blast
  have "slice 3 (3 + (length c + 16)) ([CB_RECORD, hi, lo] @ aead_encrypt_be P k n c @ seal_records P k (n + 1) cs) = aead_encrypt_be P k n c"
    "drop (3 + (length c + 16)) ([CB_RECORD, hi, lo] @ aead_encrypt_be P k n c @ seal_records P k (n + 1) cs) = seal_records P k (n + 1) cs"
    using aead_be_roundtrip(2) [OF assms(1,2), of n c] by (simp_all add: slice_def numeral_eq_Suc)
  then show ?case unfolding r(1) using r(2) Cons aead_be_roundtrip [OF assms(1,2)]
    by (subst open_records.simps) (simp add: chunks_ok_def Let_def)
qed

lemma read_raw_exact_reads:
  assumes "conn_clean (nc_inner nc)" "n \<le> length (noise_stream nc)"
  shows "\<exists>raw c. read_raw_exact n nc = (Inr (take n (noise_stream nc)), nc\<lparr>nc_raw_pending := raw, nc_inner := c\<rparr>)
    \<and> raw @ conn_pending c = drop n (noise_stream nc) \<and> conn_clean c"
proof (cases "length (nc_raw_pending nc) < n")
  case True
  then have l: "n - length (nc_raw_pending nc) \<le> length (conn_pending (nc_inner nc))"
    using assms(2) by (simp add: noise_stream_def)
  obtain c where "read_exact conn_read (n - length (nc_raw_pending nc)) (nc_inner nc)
        = (Inr (take (n - length (nc_raw_pending nc)) (conn_pending (nc_inner nc))), c)"
      "conn_pending c = drop (n - length (nc_raw_pending nc)) (conn_pending (nc_inner nc))" "conn_clean c"
    using cs.read_exact_reads [OF assms(1) l] by blast
  then show ?thesis using True
    by (intro exI [of _ "[]"] exI [of _ c]) (simp add: read_raw_exact_def noise_stream_def Let_def)
next
  case False
  have eta: "nc\<lparr>nc_raw_pending := x, nc_inner := nc_inner nc\<rparr> = nc\<lparr>nc_raw_pending := x\<rparr>" for x by (cases nc) simp
  show ?thesis using False assms(1)
    by (intro exI [of _ "drop n (nc_raw_pending nc)"] exI [of _ "nc_inner nc"])
      (simp add: read_raw_exact_def noise_stream_def Let_def eta)
qed

lemma read_record_reads:
  assumes "aead_ok P" "length (nc_rx_key nc) = 32" "conn_clean (nc_inner nc)" "length c \<le> MAX_PLAINTEXT"
    and "noise_stream nc = seal_records P (nc_rx_key nc) (nc_rx_n nc) (c # cs)"
  shows "\<exists>nc'. read_record P nc = (Inr (), nc') \<and> nc_plain_pending nc' = c \<and> nc_plain_pos nc' = 0
    \<and> nc_rx_key nc' = nc_rx_key nc \<and> nc_rx_n nc' = nc_rx_n nc + 1 \<and> conn_clean (nc_inner nc')
    \<and> noise_stream nc' = seal_records P (nc_rx_key nc) (nc_rx_n nc + 1) cs"
proof -
  let ?k = "nc_rx_key nc" and ?n = "nc_rx_n nc"
  let ?ct = "aead_encrypt_be P ?k ?n c"
  obtain hi lo where r: "noise_stream nc = [CB_RECORD, hi, lo] @ ?ct @ seal_records P ?k (?n + 1) cs"
      "unat (u16_from_be [hi, lo]) = length c + 16"
    using seal_records_Cons [OF assms(1,2,4)] assms(5) by metis
  have ct: "length ?ct = length c + 16" "aead_decrypt_be P ?k ?n ?ct = Inr c"
    using aead_be_roundtrip [OF assms(1,2)] by blast+
  obtain raw c1 where h: "read_raw_exact 3 nc = (Inr [CB_RECORD, hi, lo], nc\<lparr>nc_raw_pending := raw, nc_inner := c1\<rparr>)"
      "raw @ conn_pending c1 = ?ct @ seal_records P ?k (?n + 1) cs" "conn_clean c1"
    using read_raw_exact_reads [OF assms(3), of 3] r(1) by auto
  define nc1 where "nc1 = nc\<lparr>nc_raw_pending := raw, nc_inner := c1\<rparr>"
  have s1: "noise_stream nc1 = ?ct @ seal_records P ?k (?n + 1) cs" "conn_clean (nc_inner nc1)"
    using h by (simp_all add: nc1_def noise_stream_def)
  obtain raw2 c2 where b: "read_raw_exact (length c + 16) nc1 = (Inr ?ct, nc1\<lparr>nc_raw_pending := raw2, nc_inner := c2\<rparr>)"
      "raw2 @ conn_pending c2 = seal_records P ?k (?n + 1) cs" "conn_clean c2"
    using read_raw_exact_reads [OF s1(2), of "length c + 16"] s1(1) ct(1) by auto
  have "length c + 16 \<le> MAX_CIPHERTEXT" using assms(4) by (simp add: cb_lens)
  then have "read_record P nc = (Inr (), nc1\<lparr>nc_raw_pending := raw2, nc_inner := c2, nc_rx_n := ?n + 1,
      nc_plain_pending := c, nc_plain_pos := 0\<rparr>)"
    using h(1) b(1) r(2) ct(2)
    by (simp add: read_record_def CB_HEADER_LEN_def nc1_def TAG_LEN_def cb_types Let_def)
  then show ?thesis using b(2,3) by (auto simp: nc1_def noise_stream_def)
qed

lemma noise_read_some:
  assumes "noise_clean P nc" "noise_pending P nc \<noteq> []" "0 < cap"
  shows "\<exists>b nc'. noise_read P cap nc = (Inr b, nc') \<and> b \<noteq> [] \<and> length b \<le> cap
      \<and> noise_pending P nc = b @ noise_pending P nc' \<and> noise_clean P nc'"
proof -
  have deliver: "\<exists>b nc''. (let b = take cap (drop (nc_plain_pos nc') (nc_plain_pending nc'))
        in (Inr b :: io_kind + bytes, nc'\<lparr>nc_plain_pos := nc_plain_pos nc' + length b\<rparr>)) = (Inr b, nc'')
      \<and> b \<noteq> [] \<and> length b \<le> cap \<and> noise_pending P nc' = b @ noise_pending P nc'' \<and> noise_clean P nc''"
    if "nc_plain_pos nc' < length (nc_plain_pending nc')" "noise_clean P nc'" for nc'
    using that assms(3)
    by (auto simp: Let_def noise_pending_def noise_clean_def noise_stream_def min_def)
      (metis add.commute append_take_drop_id drop_drop)
  show ?thesis
  proof (cases "length (nc_plain_pending nc) \<le> nc_plain_pos nc")
    case False
    then show ?thesis using deliver [of nc] assms(1) by (simp add: noise_read_def Let_def)
  next
    case True
    from assms(1) obtain cs where c: "aead_ok P" "length (nc_rx_key nc) = 32" "conn_clean (nc_inner nc)"
        "noise_stream nc = seal_records P (nc_rx_key nc) (nc_rx_n nc) cs" "chunks_ok cs"
      by (auto simp: noise_clean_def)
    have "concat cs \<noteq> []" using assms(2) True open_seal_records [OF c(1,2,5)] c(4) by (auto simp: noise_pending_def)
    then obtain x xs where cs: "cs = x # xs" by (cases cs) auto
    have x: "length x \<le> MAX_PLAINTEXT" "x \<noteq> []" "chunks_ok xs" using c(5) cs by (simp_all add: chunks_ok_def)
    obtain nc' where r: "read_record P nc = (Inr (), nc')" "nc_plain_pending nc' = x" "nc_plain_pos nc' = 0"
        "nc_rx_key nc' = nc_rx_key nc" "nc_rx_n nc' = nc_rx_n nc + 1" "conn_clean (nc_inner nc')"
        "noise_stream nc' = seal_records P (nc_rx_key nc) (nc_rx_n nc + 1) xs"
      using read_record_reads [OF c(1-3) x(1)] c(4) cs by metis
    have clean: "noise_clean P nc'" using r c(1,2) x(3) by (auto simp: noise_clean_def)
    have "noise_pending P nc = concat cs" using True open_seal_records [OF c(1,2,5)] c(4) by (simp add: noise_pending_def)
    moreover have "noise_pending P nc' = x @ concat xs"
      using r open_seal_records [OF c(1,2) x(3)] by (simp add: noise_pending_def)
    ultimately have "noise_pending P nc' = noise_pending P nc" using cs by simp
    then show ?thesis using deliver [of nc'] clean r x(2) True by (simp add: noise_read_def Let_def)
  qed
qed

interpretation ns: byte_source "noise_read P" "noise_pending P" "noise_clean P" for P
  by unfold_locales (rule noise_read_some)

lemma chunks_concat: "0 < n \<Longrightarrow> concat (chunks n xs) = xs"
  by (induction n xs rule: chunks.induct) (subst chunks.simps, auto)

lemma chunks_sizes: "0 < n \<Longrightarrow> list_all (\<lambda>c. c \<noteq> [] \<and> length c \<le> n) (chunks n xs)"
  by (induction n xs rule: chunks.induct) (subst chunks.simps, auto)

section \<open>Properties\<close>

text \<open>
  C9: The Noise IK handshake with the control server: the server accepts the client's initiation and
  learns exactly the machine's public key, the client accepts the response, and each side's sending
  key is the other side's receiving key. Neither side panics.
\<close>

theorem control_handshake_agreement:
  assumes "crypto_ok P" and "length r1 = 32" and "length r2 = 32" and "length m = 32" and "length c = 32"
  shows "\<exists>ch ks resp kc. client_new P r1 m (x25519_public P c) version = Some ch
    \<and> server_handshake P r2 c (ch_initiation ch) = Some (Inr (ks, x25519_public P m, resp))
    \<and> client_finish P ch resp = Some (Inr kc) \<and> sk_tx kc = sk_rx ks \<and> sk_rx kc = sk_tx ks"
  using control_handshake [OF assms] by blast

theorem control_handshake_agreement_witness:
  "\<exists>ch ks resp kc. client_new demo_prims (replicate 32 1) (replicate 32 2) (x25519_public demo_prims (replicate 32 3)) 106 = Some ch
    \<and> server_handshake demo_prims (replicate 32 4) (replicate 32 3) (ch_initiation ch)
        = Some (Inr (ks, x25519_public demo_prims (replicate 32 2), resp))
    \<and> client_finish demo_prims ch resp = Some (Inr kc) \<and> sk_tx kc = sk_rx ks \<and> sk_rx kc = sk_tx ks"
  by (rule control_handshake_agreement [OF demo_prims_ok]) simp_all

text \<open>
  C10: The record layer is transparent: what one end writes (of any length, cut into records of at most
  4077 bytes) the other end reads back byte for byte, however the connection below cuts the stream
  and whatever part of it was already buffered after the handshake.
\<close>

theorem noise_records_roundtrip:
  assumes "aead_ok P" and "length (nc_rx_key b) = 32" and "nc_tx_key a = nc_rx_key b" and "nc_tx_n a = nc_rx_n b"
    and "noise_write P data a = (Inr n, a')" and "cn_out (nc_inner a') = cn_out (nc_inner a) @ wire"
    and "nc_plain_pending b = []" and "conn_clean (nc_inner b)" and "noise_stream b = wire"
  shows "\<exists>b'. read_exact (noise_read P) (length data) b = (Inr data, b') \<and> n = length data"
proof -
  let ?cs = "chunks MAX_PLAINTEXT data"
  have mp: "0 < MAX_PLAINTEXT" by (simp add: cb_lens)
  have wire: "wire = seal_records P (nc_rx_key b) (nc_rx_n b) ?cs" and n: "n = length data"
    using assms(3-6) by (auto simp: noise_write_def conn_write_all_def Let_def split: option.splits)
  have ok: "chunks_ok ?cs" unfolding chunks_ok_def by (rule chunks_sizes [OF mp])
  have "noise_clean P b" using assms(1,2,8,9) wire ok by (auto simp: noise_clean_def)
  moreover have "noise_pending P b = data"
    using open_seal_records [OF assms(1,2) ok] wire assms(7,9) chunks_concat [OF mp] by (simp add: noise_pending_def)
  ultimately show ?thesis using ns.read_exact_reads [of P b "length data"] n by auto
qed

definition demo_noise :: "bytes list \<Rightarrow> noise_conn" where
  "demo_noise pieces = noise_new (conn_of pieces) \<lparr>sk_tx = replicate 32 5, sk_rx = replicate 32 5\<rparr> []"

definition demo_wire :: bytes where
  "demo_wire = seal_records demo_prims (replicate 32 5) 0 [[1, 2, 3]]"

theorem noise_records_roundtrip_witness:
  "\<exists>b'. read_exact (noise_read demo_prims) (length [1, 2, 3 :: u8]) (demo_noise [take 2 demo_wire, drop 2 demo_wire])
      = (Inr [1, 2, 3], b') \<and> 3 = length [1, 2, 3 :: u8]"
proof (rule noise_records_roundtrip [where a = "demo_noise []" and wire = demo_wire])
  have "chunks MAX_PLAINTEXT [1, 2, 3 :: u8] = [[1, 2, 3]]" by (simp add: chunks.simps cb_lens)
  then show "noise_write demo_prims [1, 2, 3] (demo_noise []) = (Inr 3, (demo_noise [])\<lparr>nc_tx_n := 1,
      nc_inner := (conn_of [])\<lparr>cn_out := demo_wire\<rparr>\<rparr>)"
    by (simp add: noise_write_def demo_noise_def noise_new_def conn_of_def conn_write_all_def demo_wire_def Let_def)
  have "take 2 demo_wire \<noteq> [] \<and> drop 2 demo_wire \<noteq> []" by code_simp
  then show "conn_clean (nc_inner (demo_noise [take 2 demo_wire, drop 2 demo_wire]))"
    by (simp add: demo_noise_def noise_new_def conn_of_clean)
  show "noise_stream (demo_noise [take 2 demo_wire, drop 2 demo_wire]) = demo_wire"
    by (simp add: noise_stream_def demo_noise_def noise_new_def conn_of_pending)
qed (use demo_prims_ok in \<open>simp_all add: crypto_ok_def demo_noise_def noise_new_def conn_of_def\<close>)

text \<open>Reading from pieces of a stream with whatever comes after them.\<close>

lemma read_exact_pieces:
  assumes "[] \<notin> set ps" "n \<le> length (concat ps)" "cn_in c = map RdOk ps @ tail"
  shows "\<exists>ps'. read_exact conn_read n c = (Inr (take n (concat ps)), c\<lparr>cn_in := map RdOk ps' @ tail\<rparr>)
    \<and> concat ps' = drop n (concat ps) \<and> [] \<notin> set ps'"
  using assms
proof (induction ps arbitrary: n c)
  case Nil
  then show ?case by (intro exI [of _ "[]"]) (simp add: read_exact.simps)
next
  case (Cons p ps)
  show ?case
  proof (cases "n = 0")
    case True
    then show ?thesis using Cons.prems by (intro exI [of _ "p # ps"]) (simp add: read_exact.simps)
  next
    case n: False
    show ?thesis
    proof (cases "length p \<le> n")
      case True
      have "n - length p \<le> length (concat ps)" using Cons.prems(2) True by simp
      from Cons.IH [OF _ this, of "c\<lparr>cn_in := map RdOk ps @ tail\<rparr>"] obtain ps' where
        "read_exact conn_read (n - length p) (c\<lparr>cn_in := map RdOk ps @ tail\<rparr>)
          = (Inr (take (n - length p) (concat ps)), c\<lparr>cn_in := map RdOk ps' @ tail\<rparr>)"
        "concat ps' = drop (n - length p) (concat ps)" "[] \<notin> set ps'"
        using Cons.prems(1) by auto
      then show ?thesis using Cons.prems(1,3) True n
        by (intro exI [of _ ps']) (subst read_exact.simps, auto simp: conn_read_def)
    next
      case False
      then show ?thesis using Cons.prems(1,3) n
        by (intro exI [of _ "drop n p # ps"]) (subst read_exact.simps, auto simp: conn_read_def read_exact.simps)
    qed
  qed
qed

lemma read_exact_cut:
  assumes "[] \<notin> set ps" "length (concat ps) < n" "cn_in c = map RdOk ps @ RdErr e # tail"
  shows "read_exact conn_read n c = (Inl e, c\<lparr>cn_in := tail\<rparr>)"
  using assms
proof (induction ps arbitrary: n c)
  case Nil
  then show ?case by (subst read_exact.simps) (simp add: conn_read_def)
next
  case (Cons p ps)
  have "length (concat ps) < n - length p" using Cons.prems(2) by simp
  from Cons.IH [OF _ this, of "c\<lparr>cn_in := map RdOk ps @ RdErr e # tail\<rparr>"] Cons.prems(1)
  have "read_exact conn_read (n - length p) (c\<lparr>cn_in := map RdOk ps @ RdErr e # tail\<rparr>) = (Inl e, c\<lparr>cn_in := tail\<rparr>)" by simp
  moreover have "conn_read n c = (Inr p, c\<lparr>cn_in := map RdOk ps @ RdErr e # tail\<rparr>)" using Cons.prems by (auto simp: conn_read_def)
  ultimately show ?case using Cons.prems(1,2) by (subst read_exact.simps) auto
qed

text \<open>
  C38: A read timeout inside a record breaks the stream. When the bytes of a record arrive up to some point inside it, in pieces of any
  size, and the connection then times out, the read reports the timeout and the bytes that had arrived are lost: the reader is as it was
  before the record, the nonce included, but what it reads next is what follows the cut. So when the rest of the record arrives
  then, unchanged and in order, the next read takes its first three bytes for a header and reports invalid data, unless the byte at the cut
  happens to be the type of a record or of an error.
\<close>

theorem noise_timeout_desynchronises:
  assumes "aead_ok P" "length (nc_rx_key nc) = 32" "nc_raw_pending nc = []" "length (nc_plain_pending nc) \<le> nc_plain_pos nc"
    and "length c \<le> MAX_PLAINTEXT" "wire = seal_records P (nc_rx_key nc) (nc_rx_n nc) (c # cs)"
    and "0 < k" "k < CB_HEADER_LEN + length c + TAG_LEN" "[] \<notin> set ps" "concat ps = take k wire"
    and "cn_in (nc_inner nc) = map RdOk ps @ RdErr TimedOut # later" "nc' = nc\<lparr>nc_inner := (nc_inner nc)\<lparr>cn_in := later\<rparr>\<rparr>"
  shows "noise_read P cap nc = (Inl TimedOut, nc')
    \<and> (\<forall>qs tail. later = map RdOk qs @ tail \<and> [] \<notin> set qs \<and> concat qs = drop k wire \<and> k + CB_HEADER_LEN \<le> length wire
          \<and> wire ! k \<noteq> CB_RECORD \<and> wire ! k \<noteq> CB_ERROR \<longrightarrow> fst (noise_read P cap nc') = Inl InvalidData)"
proof -
  obtain hi lo where r: "wire = [CB_RECORD, hi, lo]
      @ aead_encrypt_be P (nc_rx_key nc) (nc_rx_n nc) c @ seal_records P (nc_rx_key nc) (nc_rx_n nc + 1) cs"
      "unat (u16_from_be [hi, lo]) = length c + 16"
    using seal_records_Cons [OF assms(1,2,5)] assms(6) by blast
  have "length (aead_encrypt_be P (nc_rx_key nc) (nc_rx_n nc) c) = length c + 16" by (rule aead_be_roundtrip [OF assms(1,2)])
  then have lw: "length (concat ps) = k" using assms(8,10) r(1) by (simp add: CB_HEADER_LEN_def TAG_LEN_def)
  have "read_record P nc = (Inl TimedOut, nc')"
  proof (cases "k < 3")
    case True
    then have "read_exact conn_read 3 (nc_inner nc) = (Inl TimedOut, (nc_inner nc)\<lparr>cn_in := later\<rparr>)"
      using read_exact_cut [OF assms(9) _ assms(11), of 3] lw by simp
    then show ?thesis using assms(3) by (simp add: read_record_def read_raw_exact_def CB_HEADER_LEN_def Let_def assms(12))
  next
    case False
    obtain ps' where h: "read_exact conn_read 3 (nc_inner nc) = (Inr (take 3 (concat ps)), (nc_inner nc)\<lparr>cn_in := map RdOk ps' @ RdErr TimedOut # later\<rparr>)"
        "concat ps' = drop 3 (concat ps)" "[] \<notin> set ps'"
      using read_exact_pieces [OF assms(9) _ assms(11), of 3] False lw by auto
    have hdr: "take 3 (concat ps) = [CB_RECORD, hi, lo]" using False by (simp add: assms(10) r(1) min_def take_Cons' numeral_3_eq_3)
    have "length (concat ps') < length c + 16" using h(2) lw assms(8) False by (simp add: CB_HEADER_LEN_def TAG_LEN_def)
    from read_exact_cut [OF h(3) this, of "(nc_inner nc)\<lparr>cn_in := map RdOk ps' @ RdErr TimedOut # later\<rparr>"]
    show ?thesis using h(1) hdr r(2) assms(3,5)
      by (simp add: read_record_def read_raw_exact_def CB_HEADER_LEN_def Let_def cb_types cb_lens assms(12))
  qed
  then have first: "noise_read P cap nc = (Inl TimedOut, nc')" using assms(4) by (simp add: noise_read_def)
  have "fst (noise_read P cap nc') = Inl InvalidData"
    if q: "later = map RdOk qs @ tail" "[] \<notin> set qs" "concat qs = drop k wire" "k + CB_HEADER_LEN \<le> length wire"
      "wire ! k \<noteq> CB_RECORD" "wire ! k \<noteq> CB_ERROR" for qs tail
  proof -
    have "3 \<le> length (concat qs)" using q(3,4) by (simp add: CB_HEADER_LEN_def)
    from read_exact_pieces [OF q(2) this, of "nc_inner nc'" tail] obtain c' where
      h: "read_exact conn_read 3 (nc_inner nc') = (Inr (take 3 (concat qs)), c')" using q(1) assms(12) by auto
    have "take 3 (concat qs) ! 0 = wire ! k" using q(3,4) by (simp add: CB_HEADER_LEN_def)
    then show ?thesis using h assms(3,4,12) q(5,6) by (simp add: noise_read_def read_record_def read_raw_exact_def CB_HEADER_LEN_def Let_def)
  qed
  then show ?thesis using first by blast
qed

text \<open>The connection times out in the middle of the ciphertext; the rest comes in two pieces.\<close>

definition demo_cut :: noise_conn where
  "demo_cut = (demo_noise [])\<lparr>nc_inner := \<lparr>cn_in = map RdOk [take 2 demo_wire, slice 2 7 demo_wire] @ RdErr TimedOut
     # map RdOk [slice 7 9 demo_wire, drop 9 demo_wire], cn_out = [], cn_werr = None\<rparr>\<rparr>"

theorem noise_timeout_desynchronises_witness:
  "\<exists>nc'. noise_read demo_prims 100 demo_cut = (Inl TimedOut, nc') \<and> nc_rx_n nc' = nc_rx_n demo_cut
    \<and> fst (noise_read demo_prims 100 nc') = Inl InvalidData"
proof -
  let ?nc = "demo_cut\<lparr>nc_inner := (nc_inner demo_cut)\<lparr>cn_in := map RdOk [slice 7 9 demo_wire, drop 9 demo_wire]\<rparr>\<rparr>"
  have w: "[] \<notin> set [take 2 demo_wire, slice 2 7 demo_wire]" "concat [take 2 demo_wire, slice 2 7 demo_wire] = take 7 demo_wire"
    "[] \<notin> set [slice 7 9 demo_wire, drop 9 demo_wire]" "concat [slice 7 9 demo_wire, drop 9 demo_wire] = drop 7 demo_wire"
    "7 + CB_HEADER_LEN \<le> length demo_wire" "demo_wire ! 7 \<noteq> CB_RECORD" "demo_wire ! 7 \<noteq> CB_ERROR"
    by code_simp+
  have d: "nc_rx_key demo_cut = replicate 32 5" "nc_rx_n demo_cut = 0" "nc_raw_pending demo_cut = []" "nc_plain_pending demo_cut = []"
    "cn_in (nc_inner demo_cut) = map RdOk [take 2 demo_wire, slice 2 7 demo_wire] @ RdErr TimedOut
     # map RdOk [slice 7 9 demo_wire, drop 9 demo_wire]"
    by (simp_all add: demo_cut_def demo_noise_def noise_new_def)
  have "demo_wire = seal_records demo_prims (nc_rx_key demo_cut) (nc_rx_n demo_cut) [[1, 2, 3]]" by (simp add: demo_wire_def d)
  from noise_timeout_desynchronises [where k = 7 and cap = 100, OF _ _ _ _ _ this _ _ w(1,2) d(5) refl]
  have n: "noise_read demo_prims 100 demo_cut = (Inl TimedOut, ?nc)"
      and i: "\<And>qs tail. map RdOk [slice 7 9 demo_wire, drop 9 demo_wire] = map RdOk qs @ tail \<Longrightarrow> [] \<notin> set qs \<Longrightarrow> concat qs = drop 7 demo_wire
        \<Longrightarrow> fst (noise_read demo_prims 100 ?nc) = Inl InvalidData"
    using demo_prims_ok d w(5-7) by (simp_all add: crypto_ok_def cb_lens)
  show ?thesis using n i [OF append_Nil2 [symmetric] w(3,4)] by (intro exI [of _ ?nc]) simp
qed

end
