(* ===== verification/Control.thy ===== *)
theory Control
  imports Control_Base Control_Types H2_Flow Derp
begin

text \<open>
  The control-plane client of crates/tsnode/src/control.rs: the control URL, the server key, the ts2021
  connection with its optional early payload, HTTP/2 on top of it, and the stream of map messages.
  \<^verbatim>\<open>serde_json\<close>, base64 and the dialer are parameters (\<open>ctl_env\<close>). \<open>hc_wait ck k\<close> and
  \<open>hc_tick ck k\<close> are the clock readings of the k-th HTTP/2 call of an operation.
\<close>

section \<open>The control URL\<close>

definition REQUEST_TIMEOUT :: duration where "REQUEST_TIMEOUT = from_secs 30"
definition MAP_STREAM_TIMEOUT :: duration where "MAP_STREAM_TIMEOUT = from_secs 150"

record control_url =
  cu_https :: bool
  cu_host :: string
  cu_port :: "u16 option"

text \<open>
  \<^verbatim>\<open>str::rsplit_once\<close>: the texts around the last occurrence of the separator, and
  \<^verbatim>\<open>trim_matches\<close> with a predicate.
\<close>

definition rsplit_once :: "char \<Rightarrow> string \<Rightarrow> (string \<times> string) option" where
  "rsplit_once sep s =
     (if sep \<in> set s
      then Some (rev (tl (dropWhile (\<lambda>c. c \<noteq> sep) (rev s))), rev (takeWhile (\<lambda>c. c \<noteq> sep) (rev s)))
      else None)"

definition trim_matches :: "(char \<Rightarrow> bool) \<Rightarrow> string \<Rightarrow> string" where
  "trim_matches p s = rev (dropWhile p (rev (dropWhile p s)))"

definition parse_u16 :: "string \<Rightarrow> u16 option" where
  "parse_u16 s = map_option word_of_nat (parse_uint 65536 s)"

definition url_scheme :: "string \<Rightarrow> (bool \<times> string) option" where
  "url_scheme url =
     (case strip_prefix ''https://'' url of
        Some r \<Rightarrow> Some (True, r)
      | None \<Rightarrow>
          (case strip_prefix ''http://'' url of
             Some r \<Rightarrow> Some (False, r)
           | None \<Rightarrow> None))"

definition url_hostport :: "string \<Rightarrow> string \<times> u16 option" where
  "url_hostport hostport =
     (case rsplit_once CHR '':'' hostport of
        Some (h, p) \<Rightarrow>
          (if CHR '']'' \<notin> set h \<or> (h \<noteq> [] \<and> last h = CHR '']'')
           then (trim_matches (\<lambda>c. c = CHR ''['' \<or> c = CHR '']'') h, parse_u16 p)
           else (hostport, None))
      | None \<Rightarrow> (hostport, None))"

definition control_url_parse :: "string \<Rightarrow> io_kind + control_url" where
  "control_url_parse url =
     (case url_scheme url of
        None \<Rightarrow> Inl InvalidInput
      | Some (https, rest) \<Rightarrow>
          (let (host, port) = url_hostport (takeWhile (\<lambda>c. c \<noteq> CHR ''/'') rest)
           in if host = [] then Inl InvalidInput
              else Inr \<lparr>cu_https = https, cu_host = host, cu_port = port\<rparr>))"

definition api_port :: "control_url \<Rightarrow> u16" where
  "api_port u = (case cu_port u of Some p \<Rightarrow> p | None \<Rightarrow> if cu_https u then 443 else 80)"

definition authority :: "control_url \<Rightarrow> string" where
  "authority u =
     (case cu_port u of
        Some p \<Rightarrow> cu_host u @ '':'' @ dec_string (unat p)
      | None \<Rightarrow> cu_host u)"

section \<open>The client\<close>

record ('e, 'd) ctl_env =
  ce_prims :: prims
  ce_hex :: hex_lib
  ce_um :: nat
  ce_b64 :: "bytes \<Rightarrow> string"
  ce_hpack :: "('e, 'd) hpack"
  ce_dialer :: dialer
  ce_register_json :: "register_request \<Rightarrow> io_kind + bytes"
  ce_map_json :: "map_request \<Rightarrow> io_kind + bytes"
  ce_parse_key :: "bytes \<Rightarrow> string option"
  ce_parse_register :: "bytes \<Rightarrow> register_response option"
  ce_parse_map :: "bytes \<Rightarrow> map_response option"
  ce_map_default :: map_response

record h2_clock =
  hc_wait :: "nat \<Rightarrow> nat \<Rightarrow> nat \<Rightarrow> instant"
  hc_tick :: "nat \<Rightarrow> nat \<Rightarrow> instant"

record control_client =
  cc_url :: control_url
  cc_control_pub :: bytes
  cc_machine :: key_pair

text \<open>
  \<^verbatim>\<open>fetch_server_key\<close>: one HTTP/1.1 request on a connection of its own. The outer option is a
  panic of \<open>read_body\<close>.
\<close>

definition fetch_server_key :: "('e, 'd) ctl_env \<Rightarrow> control_url \<Rightarrow> (io_kind + bytes) option" where
  "fetch_server_key E u =
     (case (if cu_https u then dial_tls (ce_dialer E) (cu_host u) None (api_port u)
            else dial_tcp (ce_dialer E) (cu_host u) (api_port u)) of
        Inl e \<Rightarrow> Some (Inl e)
      | Inr c \<Rightarrow>
          (case write_request ''GET'' (''/key?v='' @ dec_string CAPABILITY_VERSION) (authority u)
                  [(''Connection'', ''close''), (''Accept'', ''application/json'')] c of
             (Inl e, _) \<Rightarrow> Some (Inl e)
           | (Inr _, c) \<Rightarrow>
               (case read_response_head conn_read c of
                  (Inl e, _) \<Rightarrow> Some (Inl e)
                | (Inr head, c) \<Rightarrow>
                    map_option (\<lambda>(r, _). case r of
                        Inl e \<Rightarrow> Inl e
                      | Inr body \<Rightarrow>
                          (if rh_status head \<noteq> 200 then Inl OtherError
                           else case ce_parse_key E body of
                             None \<Rightarrow> Inl InvalidData
                           | Some k \<Rightarrow>
                               (case parse_prefixed (ce_hex E) MACHINE_PUB_PREFIX k of
                                  None \<Rightarrow> Inl InvalidData
                                | Some key \<Rightarrow> Inr key)))
                      (read_body (ce_um E) conn_read head 65536 c))))"

definition control_connect ::
    "('e, 'd) ctl_env \<Rightarrow> string \<Rightarrow> key_pair \<Rightarrow> (io_kind + control_client) option" where
  "control_connect E url machine =
     (case control_url_parse url of
        Inl e \<Rightarrow> Some (Inl e)
      | Inr u \<Rightarrow>
          map_option (\<lambda>r. case r of
              Inl e \<Rightarrow> Inl e
            | Inr key \<Rightarrow> Inr \<lparr>cc_url = u, cc_control_pub = key, cc_machine = machine\<rparr>)
            (fetch_server_key E u))"

definition dial_transport :: "dialer \<Rightarrow> control_url \<Rightarrow> io_kind + conn" where
  "dial_transport D u =
     (case (if cu_https u \<and> cu_port u = None then dial_tcp D (cu_host u) 80 else Inl NotFound) of
        Inr c \<Rightarrow> Inr c
      | Inl _ \<Rightarrow>
          (if cu_https u then dial_tls D (cu_host u) None (api_port u)
           else dial_tcp D (cu_host u) (api_port u)))"

text \<open>
  \<^verbatim>\<open>Box::new(noise)\<close>: the record connection as a \<^verbatim>\<open>Conn\<close>, the sequence of results its reads
  will return. The number of reads that can still return something is bounded by what is pending;
  what the client writes afterwards is kept as plain text.
\<close>

definition noise_fuel :: "noise_conn \<Rightarrow> nat" where
  "noise_fuel nc = length (nc_plain_pending nc) + length (nc_raw_pending nc) + conn_size (nc_inner nc)"

fun noise_events :: "prims \<Rightarrow> nat \<Rightarrow> noise_conn \<Rightarrow> read_ev list" where
  "noise_events P 0 nc = []"
| "noise_events P (Suc n) nc =
     (if length (nc_plain_pending nc) \<le> nc_plain_pos nc \<and> nc_raw_pending nc = [] \<and> cn_in (nc_inner nc) = [] then []
      else case noise_read P MAX_PLAINTEXT nc of
        (Inl e, nc) \<Rightarrow> RdErr e # noise_events P n nc
      | (Inr b, nc) \<Rightarrow> RdOk b # noise_events P n nc)"

definition noise_box :: "prims \<Rightarrow> noise_conn \<Rightarrow> conn" where
  "noise_box P nc = \<lparr>cn_in = noise_events P (noise_fuel nc) nc, cn_out = [], cn_werr = cn_werr (nc_inner nc)\<rparr>"

definition EARLY_MAGIC :: bytes where
  "EARLY_MAGIC = [0xff, 0xff, 0xff, 0x54, 0x53]"

text \<open>The part of \<^verbatim>\<open>dial\<close> after the handshake: an early payload is read and dropped.\<close>

definition early_payload :: "prims \<Rightarrow> noise_conn \<Rightarrow> (io_kind + bytes) \<times> noise_conn" where
  "early_payload P nc =
     (case read_exact (noise_read P) 9 nc of
        (Inl e, nc) \<Rightarrow> (Inl e, nc)
      | (Inr hdr, nc) \<Rightarrow>
          (if take 5 hdr = EARLY_MAGIC then
             (let len = unat (u32_from_be [hdr ! 5, hdr ! 6, hdr ! 7, hdr ! 8])
              in if 2 ^ 20 < len then (Inl InvalidData, nc)
                 else case read_exact (noise_read P) len nc of
                   (Inl e, nc) \<Rightarrow> (Inl e, nc)
                 | (Inr payload, nc) \<Rightarrow> (Inr [], nc))
           else (Inr hdr, nc)))"

definition control_dial ::
    "('e, 'd) ctl_env \<Rightarrow> bytes \<Rightarrow> control_client \<Rightarrow> (io_kind + ('e, 'd) h2_conn) option" where
  "control_dial E rnd cl =
     (case dial_transport (ce_dialer E) (cc_url cl) of
        Inl e \<Rightarrow> Some (Inl e)
      | Inr c \<Rightarrow>
          map_option (\<lambda>r. case r of
              Inl e \<Rightarrow> Inl e
            | Inr nc \<Rightarrow>
                (case early_payload (ce_prims E) nc of
                   (Inl e, _) \<Rightarrow> Inl e
                 | (Inr pre, nc) \<Rightarrow>
                     with_prefix (ce_hpack E) (noise_box (ce_prims E) nc) (authority (cc_url cl)) pre))
            (cb_dial (ce_prims E) (ce_um E) (ce_b64 E) rnd c (authority (cc_url cl))
               (kp_secret (cc_machine cl)) (cc_control_pub cl) (word_of_nat CAPABILITY_VERSION)))"

definition post_json ::
    "('e, 'd) ctl_env \<Rightarrow> h2_clock \<Rightarrow> string \<Rightarrow> io_kind + bytes \<Rightarrow> ('e, 'd) h2_conn
      \<Rightarrow> (io_kind + u32) \<times> ('e, 'd) h2_conn" where
  "post_json E ck path body h =
     (case body of
        Inl e \<Rightarrow> (Inl e, h)
      | Inr json \<Rightarrow>
          h2_request (ce_hpack E) (hc_wait ck 0) ''POST'' path [(''content-type'', ''application/json'')] json h)"

definition control_register ::
    "('e, 'd) ctl_env \<Rightarrow> bytes \<Rightarrow> h2_clock \<Rightarrow> register_request \<Rightarrow> control_client
      \<Rightarrow> (io_kind + register_response) option" where
  "control_register E rnd ck req cl =
     map_option (\<lambda>r. case r of
         Inl e \<Rightarrow> Inl e
       | Inr h \<Rightarrow>
           (case post_json E ck ''/machine/register'' (ce_register_json E req) h of
              (Inl e, _) \<Rightarrow> Inl e
            | (Inr sid, h) \<Rightarrow>
                (case response_status (ce_hpack E) (hc_wait ck 1) (hc_tick ck 1) REQUEST_TIMEOUT sid h of
                   (Inl e, _) \<Rightarrow> Inl e
                 | (Inr status, h) \<Rightarrow>
                     (case read_full_body (ce_hpack E) (\<lambda>j. hc_wait ck (2 + j)) (\<lambda>j. hc_tick ck (2 + j))
                             REQUEST_TIMEOUT (2 ^ 20) 0 sid [] h of
                        (Inl e, _) \<Rightarrow> Inl e
                      | (Inr body, _) \<Rightarrow>
                          (if status \<noteq> 200 then Inl OtherError
                           else case ce_parse_register E body of
                             None \<Rightarrow> Inl InvalidData
                           | Some resp \<Rightarrow> Inr resp)))))
       (control_dial E rnd cl)"

section \<open>The map stream\<close>

record ('e, 'd) map_stream =
  ms_h2 :: "('e, 'd) h2_conn"
  ms_id :: u32
  ms_buf :: bytes
  ms_done :: bool

definition MAX_MAP_MESSAGE :: nat where "MAX_MAP_MESSAGE = 8 * 2 ^ 20"

definition start_map_stream ::
    "('e, 'd) ctl_env \<Rightarrow> bytes \<Rightarrow> h2_clock \<Rightarrow> map_request \<Rightarrow> control_client
      \<Rightarrow> (io_kind + ('e, 'd) map_stream) option" where
  "start_map_stream E rnd ck req cl =
     map_option (\<lambda>r. case r of
         Inl e \<Rightarrow> Inl e
       | Inr h \<Rightarrow>
           (case post_json E ck ''/machine/map'' (ce_map_json E req) h of
              (Inl e, _) \<Rightarrow> Inl e
            | (Inr sid, h) \<Rightarrow>
                (case response_status (ce_hpack E) (hc_wait ck 1) (hc_tick ck 1) REQUEST_TIMEOUT sid h of
                   (Inl e, _) \<Rightarrow> Inl e
                 | (Inr status, h) \<Rightarrow>
                     (if status \<noteq> 200 then Inl OtherError
                      else Inr \<lparr>ms_h2 = h, ms_id = sid, ms_buf = [], ms_done = False\<rparr>))))
       (control_dial E rnd cl)"

definition take_message ::
    "(bytes \<Rightarrow> map_response option) \<Rightarrow> bytes \<Rightarrow> io_kind + (map_response \<times> bytes) option" where
  "take_message decode_map buf =
     (if length buf < 4 then Inr None
      else
        let len = unat (u32_from_le [buf ! 0, buf ! 1, buf ! 2, buf ! 3])
        in if MAX_MAP_MESSAGE < len then Inl InvalidData
           else if length buf < 4 + len then Inr None
           else case decode_map (slice 4 (4 + len) buf) of
             None \<Rightarrow> Inl InvalidData
           | Some msg \<Rightarrow> Inr (Some (msg, drop (4 + len) buf)))"

lemma take_message_None: "take_message d buf = Inr None \<Longrightarrow> length buf < 4 + MAX_MAP_MESSAGE"
  by (auto simp: take_message_def MAX_MAP_MESSAGE_def Let_def split: if_splits option.splits)

function map_next ::
    "('e, 'd) ctl_env \<Rightarrow> h2_clock \<Rightarrow> duration \<Rightarrow> nat \<Rightarrow> ('e, 'd) map_stream
      \<Rightarrow> (io_kind + map_response option) \<times> ('e, 'd) map_stream" where
  "map_next E ck timeout j ms =
     (case take_message (ce_parse_map E) (ms_buf ms) of
        Inl e \<Rightarrow> (Inl e, ms)
      | Inr (Some (msg, rest)) \<Rightarrow> (Inr (Some msg), ms\<lparr>ms_buf := rest\<rparr>)
      | Inr None \<Rightarrow>
          (if ms_done ms then (Inr None, ms)
           else case h2_read_body (ce_hpack E) (hc_wait ck j) (hc_tick ck j) (min timeout MAP_STREAM_TIMEOUT)
                       (ms_id ms) (ms_h2 ms) of
             (Inl e, h) \<Rightarrow> (Inl e, ms\<lparr>ms_h2 := h\<rparr>)
           | (Inr (Some chunk), h) \<Rightarrow> map_next E ck timeout (Suc j) (ms\<lparr>ms_h2 := h, ms_buf := ms_buf ms @ chunk\<rparr>)
           | (Inr None, h) \<Rightarrow> map_next E ck timeout (Suc j) (ms\<lparr>ms_h2 := h, ms_done := True\<rparr>)))"
  by pat_completeness auto
termination
proof (relation "measure (\<lambda>(E, ck, timeout, j, ms). if ms_done ms then 0 else 5 + MAX_MAP_MESSAGE - length (ms_buf ms))")
  show "wf (measure (\<lambda>(E :: ('e, 'd) ctl_env, ck :: h2_clock, timeout :: duration, j :: nat, ms :: ('e, 'd) map_stream).
      if ms_done ms then 0 else 5 + MAX_MAP_MESSAGE - length (ms_buf ms)))" by simp
next
  fix E :: "('e, 'd) ctl_env" and ck timeout j and ms :: "('e, 'd) map_stream" and b x h ba chunk
  assume a: "take_message (ce_parse_map E) (ms_buf ms) = Inr b" "b = None" "\<not> ms_done ms"
    "(x, h) = h2_read_body (ce_hpack E) (hc_wait ck j) (hc_tick ck j) (min timeout MAP_STREAM_TIMEOUT) (ms_id ms) (ms_h2 ms)"
    "x = Inr ba" "ba = Some chunk"
  have "length (ms_buf ms) < 4 + MAX_MAP_MESSAGE" using a take_message_None by blast
  moreover have "0 < length chunk" using a by (intro h2_read_body_nonempty) blast
  ultimately show "((E, ck, timeout, Suc j, ms\<lparr>ms_h2 := h, ms_buf := ms_buf ms @ chunk\<rparr>), E, ck, timeout, j, ms)
      \<in> measure (\<lambda>(E, ck, timeout, j, ms). if ms_done ms then 0 else 5 + MAX_MAP_MESSAGE - length (ms_buf ms))"
    using a by (simp del: length_greater_0_conv)
qed (auto dest!: take_message_None)

declare map_next.simps [simp del]

text \<open>\<^verbatim>\<open>map_once\<close>: one non-streaming request; an empty body is the default response.\<close>

definition map_once ::
    "('e, 'd) ctl_env \<Rightarrow> bytes \<Rightarrow> h2_clock \<Rightarrow> h2_clock \<Rightarrow> map_request \<Rightarrow> control_client
      \<Rightarrow> (io_kind + map_response) option" where
  "map_once E rnd ck ck' req cl =
     map_option (\<lambda>r. case r of
         Inl e \<Rightarrow> Inl e
       | Inr ms \<Rightarrow>
           (case fst (map_next E ck' REQUEST_TIMEOUT 0 ms) of
              Inl e \<Rightarrow> Inl e
            | Inr (Some m) \<Rightarrow> Inr m
            | Inr None \<Rightarrow> Inr (ce_map_default E)))
       (start_map_stream E rnd ck (req\<lparr>mq_stream := False\<rparr>) cl)"

text \<open>The host information advertised; \<^verbatim>\<open>..Default::default()\<close> leaves the rest of \<^verbatim>\<open>NetInfo\<close> empty.\<close>

definition hostinfo_new :: "string \<Rightarrow> string \<Rightarrow> int \<Rightarrow> hostinfo" where
  "hostinfo_new hostname version preferred_derp =
     \<lparr>hi_ipn_version = ''tsnode-'' @ version, hi_os = ''linux'', hi_os_version = ''esp-idf'',
      hi_distro = ''esp-idf'', hi_device_model = ''ESP32-S3'', hi_hostname = hostname,
      hi_go_arch = ''xtensa'', hi_machine = ''esp32s3'', hi_userspace = True,
      hi_net_info =
        (if preferred_derp \<noteq> 0
         then Some \<lparr>ni_preferred_derp = preferred_derp, ni_working_udp = Some True, ni_working_ipv6 = None,
                    ni_link_type = ''wifi'', ni_derp_latency = []\<rparr>
         else None)\<rparr>"

end
