(* ===== verification/Control_Props.thy ===== *)
theory Control_Props
  imports Control
begin

text \<open>
  What the control client guarantees: the text of a control URL, the hand-over from the record layer to
  HTTP/2 with or without an early payload, and the sequence of map messages read through the record
  framing, the HTTP/2 frames and the length prefixes.
\<close>

section \<open>The body of a stream\<close>

text \<open>
  Frames a server may send while a response body is in progress: DATA for the stream and pings.
\<close>

definition body_frame :: "u32 \<Rightarrow> h2_frame \<Rightarrow> bool" where
  "body_frame sid f \<longleftrightarrow> h2_frame_ok f \<and>
     (fst f = H2_DATA \<and> fr_flags f = 0 \<and> fr_sid f = sid \<and> fr_payload f \<noteq> [] \<or> fst f = H2_PING)"

definition body_of :: "h2_frame \<Rightarrow> bytes" where
  "body_of f = (if fst f = H2_DATA then fr_payload f else [])"

text \<open>
  \<open>body_state sid h b fs\<close>: the open stream \<open>sid\<close> holds the unread body \<open>b\<close>, and the frames \<open>fs\<close> are
  buffered or still to arrive, cut into pieces in any way.
\<close>

definition body_state :: "u32 \<Rightarrow> ('e, 'd) h2_conn \<Rightarrow> bytes \<Rightarrow> h2_frame list \<Rightarrow> bool" where
  "body_state sid h body fs \<longleftrightarrow>
     (\<exists>s. map_of (h_streams h) sid = Some s \<and> st_body s = body \<and> st_reset s = None \<and> \<not> st_end_stream s)
     \<and> h_goaway h = None \<and> cn_werr (h_conn h) = None \<and> conn_clean (h_conn h)
     \<and> h_inbuf h @ conn_pending (h_conn h) = concat (map push_frame fs) \<and> list_all (body_frame sid) fs"

lemma h2_write_ok:
  "cn_werr (h_conn h) = None \<Longrightarrow> h2_write b h = (Inr (), h\<lparr>h_conn := (h_conn h)\<lparr>cn_out := cn_out (h_conn h) @ b\<rparr>\<rparr>)"
  by (simp add: h2_write_def conn_write_all_def)

text \<open>States that agree on what reading the body depends on.\<close>

definition same_body :: "u32 \<Rightarrow> ('e, 'd) h2_conn \<Rightarrow> ('e, 'd) h2_conn \<Rightarrow> bool" where
  "same_body sid h h' \<longleftrightarrow> h_inbuf h' = h_inbuf h \<and> cn_in (h_conn h') = cn_in (h_conn h)
     \<and> cn_werr (h_conn h') = cn_werr (h_conn h) \<and> h_goaway h' = h_goaway h
     \<and> map_option (\<lambda>s. (st_body s, st_reset s, st_end_stream s)) (map_of (h_streams h') sid)
       = map_option (\<lambda>s. (st_body s, st_reset s, st_end_stream s)) (map_of (h_streams h) sid)"

lemma same_body_refl [simp]: "same_body sid h h"
  by (simp add: same_body_def)

lemma same_body_trans: "same_body sid a b \<Longrightarrow> same_body sid b c \<Longrightarrow> same_body sid a c"
  by (simp add: same_body_def)

lemma same_body_write: "cn_werr (h_conn h) = None \<Longrightarrow> \<exists>h'. h2_write b h = (Inr (), h') \<and> same_body sid h h'"
  by (simp add: h2_write_ok same_body_def)

lemma same_body_set:
  "map_of (h_streams h) i = Some s \<Longrightarrow> st_body s' = st_body s \<Longrightarrow> st_reset s' = st_reset s
    \<Longrightarrow> st_end_stream s' = st_end_stream s \<Longrightarrow> same_body sid h (set_stream i s' h)"
  by (simp add: same_body_def) (simp add: set_stream_def)

lemma same_body_state:
  assumes "same_body sid h h'" "body_state sid h body fs"
  shows "body_state sid h' body fs"
  using assms by (auto simp: same_body_def body_state_def conn_clean_def conn_pending_def)

lemma maybe_window_update_ok:
  assumes "cn_werr (h_conn h) = None"
  shows "\<exists>h'. maybe_window_update sid h = (Inr (), h') \<and> same_body sid h h'"
proof -
  obtain o1 g where g: "(if WINDOW_UPDATE_THRESHOLD \<le> h_conn_recv_consumed h
      then (push_frame (H2_WINDOW_UPDATE, 0, 0, u32_to_be (h_conn_recv_consumed h)), h\<lparr>h_conn_recv_consumed := 0\<rparr>)
      else ([], h)) = (o1, g)" by fastforce
  obtain o2 k where k: "(case map_of (h_streams g) sid of None \<Rightarrow> ([], g) | Some s \<Rightarrow>
      if WINDOW_UPDATE_THRESHOLD \<le> st_recv_consumed s \<and> \<not> st_end_stream s
      then (push_frame (H2_WINDOW_UPDATE, 0, sid, u32_to_be (st_recv_consumed s)), set_stream sid (s\<lparr>st_recv_consumed := 0\<rparr>) g)
      else ([], g)) = (o2, k)" by (meson surj_pair)
  have "same_body sid h g" using g by (auto simp: same_body_def split: if_splits)
  moreover have "same_body sid g k" using k by (auto split: option.splits if_splits intro!: same_body_set)
  ultimately have hk: "same_body sid h k" by (rule same_body_trans)
  have eq: "maybe_window_update sid h = (if o1 @ o2 \<noteq> [] then h2_write (o1 @ o2) k else (Inr (), k))"
    by (simp add: maybe_window_update_def g k)
  have w: "cn_werr (h_conn k) = None" using hk assms by (simp add: same_body_def)
  show ?thesis
  proof (cases "o1 @ o2 = []")
    case False
    then show ?thesis using same_body_write [OF w, of "o1 @ o2" sid] same_body_trans [OF hk] unfolding eq by auto
  qed (use hk in \<open>simp add: eq\<close>)
qed

text \<open>One frame of the sequence: the unread body grows by what it carries.\<close>

lemma body_frame_handled:
  assumes st: "body_state sid h body (f # fs)" and inb: "h_inbuf h @ conn_pending (h_conn h) = push_frame f @ r @ conn_pending (h_conn h)"
  shows "\<exists>h'. handle_frame H f (h\<lparr>h_inbuf := r\<rparr>) = (Inr (), h') \<and> body_state sid h' (body @ body_of f) fs"
proof -
  let ?h = "h\<lparr>h_inbuf := r\<rparr>"
  obtain s where s: "map_of (h_streams h) sid = Some s" "st_body s = body" "st_reset s = None" "\<not> st_end_stream s"
    and o: "h_goaway h = None" "cn_werr (h_conn h) = None" "conn_clean (h_conn h)" "body_frame sid f" "list_all (body_frame sid) fs"
    using st by (auto simp: body_state_def)
  have r: "r @ conn_pending (h_conn h) = concat (map push_frame fs)" using st inb by (simp add: body_state_def)
  obtain ty fl i p where f: "f = (ty, fl, i, p)" by (cases f)
  show ?thesis
  proof (cases "ty = H2_DATA")
    case True
    then have fp: "fl = 0" "i = sid" "body_of f = p" using o(4) f by (auto simp: body_frame_def fr_defs body_of_def h2_types)
    let ?len = "word_of_nat (length p) :: u32"
    let ?g = "(set_stream sid (s\<lparr>st_body := st_body s @ p, st_end_stream := st_end_stream s,
        st_recv_consumed := st_recv_consumed s + ?len\<rparr>) ?h)\<lparr>h_conn_recv_consumed := h_conn_recv_consumed ?h + ?len\<rparr>"
    have eq: "handle_frame H f ?h = maybe_window_update sid ?g"
      using True fp(1,2) s(1) f by (simp add: handle_frame_def handle_data_def strip_padding_def Let_def set_stream_def)
    have b: "body_state sid ?g (body @ p) fs" using s o r by (simp add: body_state_def) (simp add: set_stream_def)
    have "cn_werr (h_conn ?g) = None" using o(2) by simp
    then obtain h' where "maybe_window_update sid ?g = (Inr (), h')" "same_body sid ?g h'"
      using maybe_window_update_ok by blast
    then show ?thesis using same_body_state [OF _ b] unfolding eq fp(3) by blast
  next
    case False
    then have ty: "ty = H2_PING" "body_of f = []" using o(4) f by (auto simp: body_frame_def body_of_def)
    have b: "body_state sid ?h body fs" using s o r by (simp add: body_state_def)
    have "handle_frame H f ?h = (if fl AND FLAG_ACK = 0 then h2_write (push_frame (H2_PING, FLAG_ACK, 0, p)) ?h else (Inr (), ?h))"
      using ty(1) f by (simp add: handle_frame_def h2_types)
    then show ?thesis using same_body_write [of ?h _ sid] same_body_state [OF _ b] o(2) b ty(2) by fastforce
  qed
qed

lemma process_one_body:
  assumes "body_state sid h body (f # fs)" "\<And>i. clk i < deadline"
  shows "\<exists>h'. process_one H clk deadline i h = (Inr (), h') \<and> body_state sid h' (body @ body_of f) fs"
  using assms(1)
proof (induction "conn_size (h_conn h)" arbitrary: h i rule: less_induct)
  case less
  have st: "h_inbuf h @ conn_pending (h_conn h) = push_frame f @ concat (map push_frame fs)" "h2_frame_ok f" "conn_clean (h_conn h)"
    using less.prems by (auto simp: body_state_def body_frame_def)
  from st(2) st(1) show ?case
  proof (cases rule: hf.dec_stream)
    case (frame r)
    have "h_inbuf h @ conn_pending (h_conn h) = push_frame f @ r @ conn_pending (h_conn h)" using st(1) frame(2) by simp
    then show ?thesis using body_frame_handled [OF less.prems] frame(1) by (subst process_one.simps) simp
  next
    case more
    obtain b c where b: "conn_read 2048 (h_conn h) = (Inr b, c)" "b \<noteq> []" "conn_pending (h_conn h) = b @ conn_pending c" "conn_clean c"
      using conn_read_some [OF st(3) more(2), of 2048] by auto
    have c: "cn_werr c = cn_werr (h_conn h)"
      using b(1) by (auto simp: conn_read_def split: list.splits read_ev.splits if_splits)
    let ?h = "h\<lparr>h_conn := c, h_inbuf := h_inbuf h @ b\<rparr>"
    have "body_state sid ?h body (f # fs)" using less.prems b(3,4) c by (simp add: body_state_def)
    moreover have "conn_size (h_conn ?h) < conn_size (h_conn h)" using conn_read_size [OF b(1,2)] by simp
    ultimately obtain h' where "process_one H clk deadline (Suc i) ?h = (Inr (), h')" "body_state sid h' (body @ body_of f) fs"
      using less.hyps by blast
    then show ?thesis using more(1) b(1,2) assms(2) [of i] by (subst process_one.simps) (simp add: not_le)
  qed
qed

text \<open>
  The clock readings of the calls lie in a window of half the timeout: no wait runs into its deadline.
\<close>

definition clock_within :: "h2_clock \<Rightarrow> instant \<Rightarrow> duration \<Rightarrow> bool" where
  "clock_within ck T D \<longleftrightarrow> (\<forall>k j. T \<le> hc_tick ck k j \<and> hc_tick ck k j < T + D)
     \<and> (\<forall>k j i. T \<le> hc_wait ck k j i \<and> hc_wait ck k j i < T + D)"

lemma read_body_delivers:
  assumes "body_state sid h body fs" "body @ concat (map body_of fs) \<noteq> []" "clock_within ck T D" "2 * D \<le> timeout"
  shows "\<exists>b h' fs'. h2_read_body_loop H (hc_wait ck k) (hc_tick ck k) (hc_tick ck k 0 + timeout) j sid h = (Inr (Some b), h')
    \<and> b \<noteq> [] \<and> body_state sid h' [] fs' \<and> b @ concat (map body_of fs') = body @ concat (map body_of fs)"
  using assms(1,2)
proof (induction fs arbitrary: h body j)
  case Nil
  then obtain s where s: "map_of (h_streams h) sid = Some s" "st_body s = body" "body \<noteq> []" by (auto simp: body_state_def)
  have "body_state sid (set_stream sid (s\<lparr>st_body := []\<rparr>) h) [] []"
    using Nil.prems(1) s by (simp add: body_state_def) (simp add: set_stream_def)
  then show ?case using s by (subst h2_read_body_loop.simps) auto
next
  case (Cons f fs)
  then obtain s where s: "map_of (h_streams h) sid = Some s" "st_body s = body" "st_reset s = None" "\<not> st_end_stream s" "h_goaway h = None"
    by (auto simp: body_state_def)
  show ?case
  proof (cases "body = []")
    case False
    have "body_state sid (set_stream sid (s\<lparr>st_body := []\<rparr>) h) [] (f # fs)"
      using Cons.prems(1) s by (simp add: body_state_def) (simp add: set_stream_def)
    then show ?thesis using s False by (subst h2_read_body_loop.simps) (auto intro!: exI [of _ "f # fs"])
  next
    case True
    let ?dl = "hc_tick ck k 0 + timeout"
    have T: "hc_tick ck k j < T + D" "T \<le> hc_tick ck k 0" and W: "T \<le> hc_wait ck k j 0" "\<And>i. hc_wait ck k j i < T + D"
      using assms(3) by (auto simp: clock_within_def)
    have t: "\<not> ?dl \<le> hc_tick ck k j" using T assms(4) by linarith
    have "hc_wait ck k j i < hc_wait ck k j 0 + (?dl - hc_tick ck k j)" for i
      using T W(1) W(2) [of i] assms(4) by linarith
    then obtain h' where h': "process_within H (hc_wait ck k j) (?dl - hc_tick ck k j) h = (Inr (), h')" "body_state sid h' (body @ body_of f) fs"
      using process_one_body [OF Cons.prems(1), of "hc_wait ck k j"] unfolding process_within_def by blast
    have "(body @ body_of f) @ concat (map body_of fs) \<noteq> []" using Cons.prems(2) by simp
    then show ?thesis using Cons.IH [OF h'(2), of "Suc j"] s True t h'(1) by (subst h2_read_body_loop.simps) simp
  qed
qed

section \<open>Map messages\<close>

definition map_msg_ok :: "(map_response \<Rightarrow> bytes) \<Rightarrow> (bytes \<Rightarrow> map_response option) \<Rightarrow> map_response \<Rightarrow> bool" where
  "map_msg_ok encode decode msg \<longleftrightarrow> length (encode msg) \<le> MAX_MAP_MESSAGE \<and> decode (encode msg) = Some msg"

definition map_frame :: "(map_response \<Rightarrow> bytes) \<Rightarrow> map_response \<Rightarrow> bytes" where
  "map_frame encode msg = u32_to_le (word_of_nat (length (encode msg))) @ encode msg"

lemma map_frame_layout:
  assumes "length (encode msg) \<le> MAX_MAP_MESSAGE"
  shows "\<exists>a b c d. map_frame encode msg = [a, b, c, d] @ encode msg \<and> unat (u32_from_le [a, b, c, d]) = length (encode msg)"
proof -
  let ?n = "word_of_nat (length (encode msg)) :: u32"
  obtain a b c d where w: "u32_to_le ?n = [a, b, c, d]" using length_4_obtain [of "u32_to_le ?n"] by (auto simp: length_to_bytes)
  have "u32_from_le [a, b, c, d] = ?n" using from_to_bytes(5) [of ?n] w by simp
  moreover have "unat ?n = length (encode msg)" using assms by (simp add: unat_of_nat MAX_MAP_MESSAGE_def)
  ultimately show ?thesis using w by (auto simp: map_frame_def)
qed

lemma take_message_frame:
  assumes "map_msg_ok encode decode msg"
  shows "take_message decode (map_frame encode msg @ rest) = Inr (Some (msg, rest))"
proof -
  obtain a b c d where l: "map_frame encode msg = [a, b, c, d] @ encode msg" "unat (u32_from_le [a, b, c, d]) = length (encode msg)"
    using map_frame_layout [of encode msg] assms unfolding map_msg_ok_def by blast
  have "slice 4 (4 + length (encode msg)) ([a, b, c, d] @ encode msg @ rest) = encode msg"
    "drop (4 + length (encode msg)) ([a, b, c, d] @ encode msg @ rest) = rest"
    by (simp_all add: slice_def numeral_eq_Suc)
  then show ?thesis using assms l by (simp add: take_message_def map_msg_ok_def Let_def)
qed

lemma take_message_short:
  assumes "map_msg_ok encode decode msg" "strict_prefix q (map_frame encode msg)"
  shows "take_message decode q = Inr None"
proof (cases "length q < 4")
  case False
  obtain a b c d where l: "map_frame encode msg = [a, b, c, d] @ encode msg" "unat (u32_from_le [a, b, c, d]) = length (encode msg)"
    using map_frame_layout [of encode msg] assms(1) unfolding map_msg_ok_def by blast
  obtain z where z: "map_frame encode msg = q @ z" "z \<noteq> []" using assms(2) by (auto simp: strict_prefix_def prefix_def)
  have "take 4 (q @ z) = [a, b, c, d]" unfolding z(1) [symmetric] l(1) by simp
  then have "take 4 q = [a, b, c, d]" using False by simp
  then obtain q' where q: "q = [a, b, c, d] @ q'" by (metis append_take_drop_id)
  have "length q + length z = 4 + length (encode msg)" using arg_cong [OF z(1), of length] l(1) by simp
  then have "length q < 4 + length (encode msg)" using z(2) by (cases z) simp_all
  then show ?thesis using q l(2) assms(1) by (simp add: take_message_def map_msg_ok_def Let_def)
qed (simp add: take_message_def)

interpretation mf: frame_codec "map_msg_ok encode decode" "map_frame encode" "take_message decode" for encode decode
  by unfold_locales (simp_all add: take_message_frame take_message_short)

text \<open>Successive calls of \<^verbatim>\<open>next\<close>.\<close>

fun map_nexts ::
    "('e, 'd) ctl_env \<Rightarrow> (nat \<Rightarrow> h2_clock) \<Rightarrow> duration \<Rightarrow> nat \<Rightarrow> ('e, 'd) map_stream
      \<Rightarrow> (io_kind + map_response option list) \<times> ('e, 'd) map_stream" where
  "map_nexts E cks timeout 0 ms = (Inr [], ms)"
| "map_nexts E cks timeout (Suc n) ms =
     (case map_next E (cks n) timeout 0 ms of
        (Inl e, ms) \<Rightarrow> (Inl e, ms)
      | (Inr r, ms) \<Rightarrow>
          (case map_nexts E cks timeout n ms of
             (Inl e, ms) \<Rightarrow> (Inl e, ms)
           | (Inr rs, ms) \<Rightarrow> (Inr (r # rs), ms)))"

lemma map_next_delivers:
  assumes "map_msg_ok encode (ce_parse_map E) msg" "clock_within ck T D" "2 * D \<le> min timeout MAP_STREAM_TIMEOUT"
    and "body_state (ms_id ms) (ms_h2 ms) body fs" "\<not> ms_done ms"
    and "ms_buf ms @ body @ concat (map body_of fs) = map_frame encode msg @ rest"
  shows "\<exists>ms' body' fs'. map_next E ck timeout j ms = (Inr (Some msg), ms') \<and> body_state (ms_id ms') (ms_h2 ms') body' fs'
    \<and> \<not> ms_done ms' \<and> ms_buf ms' @ body' @ concat (map body_of fs') = rest"
  using assms(4-6)
proof (induction "length (body @ concat (map body_of fs))" arbitrary: ms body fs j rule: less_induct)
  case less
  from assms(1) less.prems(3) show ?case
  proof (cases rule: mf.dec_stream)
    case (frame r)
    then have "map_next E ck timeout j ms = (Inr (Some msg), ms\<lparr>ms_buf := r\<rparr>)" by (subst map_next.simps) simp
    then show ?thesis using less.prems frame(2) by fastforce
  next
    case more
    obtain b h fs' where rd: "h2_read_body_loop (ce_hpack E) (hc_wait ck j) (hc_tick ck j)
          (hc_tick ck j 0 + min timeout MAP_STREAM_TIMEOUT) 1 (ms_id ms) (ms_h2 ms) = (Inr (Some b), h)"
      "b \<noteq> []" "body_state (ms_id ms) h [] fs'" "b @ concat (map body_of fs') = body @ concat (map body_of fs)"
      using read_body_delivers [OF less.prems(1) more(2) assms(2,3)] by blast
    let ?ms = "ms\<lparr>ms_h2 := h, ms_buf := ms_buf ms @ b\<rparr>"
    have "map_next E ck timeout j ms = map_next E ck timeout (Suc j) ?ms"
      using more(1) less.prems(2) rd(1) by (subst map_next.simps) (simp add: h2_read_body_def)
    moreover have "length ([] @ concat (map body_of fs')) < length (body @ concat (map body_of fs))"
      unfolding rd(4) [symmetric] using rd(2) by simp
    moreover have "ms_buf ?ms @ [] @ concat (map body_of fs') = map_frame encode msg @ rest"
      using less.prems(3) rd(4) by simp
    ultimately show ?thesis using less.hyps [of "[]" fs' ?ms "Suc j"] rd(3) less.prems(2) by simp
  qed
qed

text \<open>
  C16: Map messages arrive whole and in order: when the open response stream carries the length-prefixed
  messages \<open>msgs\<close>, however they are cut into DATA frames, however the frames are cut into pieces of the
  connection, with pings in between, successive calls of \<^verbatim>\<open>next\<close> return exactly \<open>msgs\<close>, as long as no wait runs into its
  deadline.
\<close>

theorem map_messages_delivered:
  assumes "list_all (map_msg_ok encode (ce_parse_map E)) msgs"
    and "\<forall>n. clock_within (cks n) (T n) D" "2 * D \<le> min timeout MAP_STREAM_TIMEOUT"
    and "body_state (ms_id ms) (ms_h2 ms) body fs" "\<not> ms_done ms"
    and "ms_buf ms @ body @ concat (map body_of fs) = concat (map (map_frame encode) msgs) @ rest"
  shows "\<exists>ms'. map_nexts E cks timeout (length msgs) ms = (Inr (map Some msgs), ms')"
  using assms(1,4-6)
proof (induction msgs arbitrary: ms body fs)
  case (Cons msg msgs)
  have ok: "map_msg_ok encode (ce_parse_map E) msg" "list_all (map_msg_ok encode (ce_parse_map E)) msgs"
    using Cons.prems(1) by simp_all
  have ck: "clock_within (cks (length msgs)) (T (length msgs)) D" using assms(2) by blast
  have "ms_buf ms @ body @ concat (map body_of fs) = map_frame encode msg @ concat (map (map_frame encode) msgs) @ rest"
    using Cons.prems(4) by simp
  then obtain ms1 body1 fs1 where 1: "map_next E (cks (length msgs)) timeout 0 ms = (Inr (Some msg), ms1)"
      "body_state (ms_id ms1) (ms_h2 ms1) body1 fs1" "\<not> ms_done ms1"
      "ms_buf ms1 @ body1 @ concat (map body_of fs1) = concat (map (map_frame encode) msgs) @ rest"
    using map_next_delivers [OF ok(1) ck assms(3) Cons.prems(2,3)] by blast
  then show ?case using Cons.IH [OF ok(2) 1(2-4)] by auto
qed simp

text \<open>A response with one message, sent as one DATA frame in two pieces.\<close>

definition demo_map :: map_response where
  "demo_map = \<lparr>mr_map_session_handle = ''h'', mr_seq = 1, mr_keep_alive = True, mr_ping_request = None, mr_node = None,
     mr_derp_map = None, mr_peers = None, mr_peers_changed = None, mr_peers_removed = None, mr_peers_changed_patch = None,
     mr_packet_filter = None, mr_packet_filters = None, mr_online_change = None, mr_dns_domains = None, mr_domain = ''d'',
     mr_user_profiles = None, mr_health = None, mr_control_time = None\<rparr>"

definition demo_ctl :: "(unit, unit) ctl_env" where
  "demo_ctl = \<lparr>ce_prims = demo_prims, ce_hex = demo_hex, ce_um = 2 ^ 32, ce_b64 = (\<lambda>_. []), ce_hpack = demo_hpack,
     ce_dialer = \<lparr>dial_tcp = (\<lambda>_ _. Inl NotFound), dial_tls = (\<lambda>_ _ _. Inl NotFound), ip_to_string = (\<lambda>_. [])\<rparr>,
     ce_register_json = (\<lambda>_. Inr []), ce_map_json = (\<lambda>_. Inr []), ce_parse_key = (\<lambda>_. None),
     ce_parse_register = (\<lambda>_. None), ce_parse_map = (\<lambda>b. if b = [7] then Some demo_map else None), ce_map_default = demo_map\<rparr>"

definition demo_body :: h2_frame where
  "demo_body = (H2_DATA, 0, 1, map_frame (\<lambda>_. [7]) demo_map)"

definition demo_stream :: "(unit, unit) map_stream" where
  "demo_stream = \<lparr>ms_h2 = demo_h2\<lparr>h_conn := conn_of [take 3 (push_frame demo_body), drop 3 (push_frame demo_body)]\<rparr>,
     ms_id = 1, ms_buf = [], ms_done = False\<rparr>"

definition demo_clock :: h2_clock where
  "demo_clock = \<lparr>hc_wait = (\<lambda>_ _ _. 0), hc_tick = (\<lambda>_ _. 0)\<rparr>"

theorem map_messages_delivered_witness:
  "\<exists>ms'. map_nexts demo_ctl (\<lambda>_. demo_clock) (from_secs 30) (length [demo_map]) demo_stream = (Inr (map Some [demo_map]), ms')"
proof (rule map_messages_delivered [where encode = "\<lambda>_. [7]" and T = "\<lambda>_. 0" and D = 1 and body = "[]" and fs = "[demo_body]" and rest = "[]"])
  show "list_all (map_msg_ok (\<lambda>_. [7]) (ce_parse_map demo_ctl)) [demo_map]"
    by (simp add: map_msg_ok_def demo_ctl_def MAX_MAP_MESSAGE_def)
  show "\<forall>n::nat. clock_within demo_clock 0 1" by (simp add: clock_within_def demo_clock_def)
  show "2 * 1 \<le> min (from_secs 30) MAP_STREAM_TIMEOUT" by (simp add: MAP_STREAM_TIMEOUT_def from_secs_def)
  have ne: "take 3 (push_frame demo_body) \<noteq> [] \<and> drop 3 (push_frame demo_body) \<noteq> []" by code_simp
  have "h2_frame_ok demo_body" by code_simp
  moreover have "fr_payload demo_body \<noteq> []" by code_simp
  ultimately have "body_frame 1 demo_body" by (simp add: body_frame_def demo_body_def fr_defs)
  then show "body_state (ms_id demo_stream) (ms_h2 demo_stream) [] [demo_body]"
    using ne conn_of_clean [of "[take 3 (push_frame demo_body), drop 3 (push_frame demo_body)]"]
    by (simp add: body_state_def demo_stream_def demo_h2_def st_default_def conn_of_pending) (simp add: conn_of_def)
  show "\<not> ms_done demo_stream" by (simp add: demo_stream_def)
  show "ms_buf demo_stream @ [] @ concat (map body_of [demo_body]) = concat (map (map_frame (\<lambda>_. [7])) [demo_map]) @ []"
    by (simp add: demo_stream_def body_of_def demo_body_def fr_defs)
qed

section \<open>From the record layer to HTTP/2\<close>

lemma noise_exhausted:
  assumes "noise_clean P nc"
  shows "noise_pending P nc = [] \<longleftrightarrow>
    length (nc_plain_pending nc) \<le> nc_plain_pos nc \<and> nc_raw_pending nc = [] \<and> cn_in (nc_inner nc) = []"
proof -
  obtain cs where cs: "noise_stream nc = seal_records P (nc_rx_key nc) (nc_rx_n nc) cs" "chunks_ok cs"
    and ok: "aead_ok P" "length (nc_rx_key nc) = 32" "conn_clean (nc_inner nc)"
    using assms by (auto simp: noise_clean_def)
  have o: "open_records P (nc_rx_key nc) (nc_rx_n nc) (noise_stream nc) = concat cs"
    unfolding cs(1) by (rule open_seal_records [OF ok(1,2) cs(2)])
  have "concat cs = [] \<longleftrightarrow> cs = []" using cs(2) by (cases cs) (auto simp: chunks_ok_def)
  moreover have "cs = [] \<longleftrightarrow> noise_stream nc = []" using cs(1) by (cases cs) (simp_all add: Let_def cb_header_def)
  moreover have "conn_pending (nc_inner nc) = [] \<longleftrightarrow> cn_in (nc_inner nc) = []"
  proof (cases "cn_in (nc_inner nc)")
    case (Cons e r)
    then show ?thesis using ok(3) by (cases e) (simp_all add: conn_pending_def conn_clean_def)
  qed (simp add: conn_pending_def)
  ultimately show ?thesis using o by (auto simp: noise_pending_def noise_stream_def)
qed

lemma noise_events_deliver:
  "noise_clean P nc \<Longrightarrow> length (noise_pending P nc) \<le> n \<Longrightarrow>
    concat (map ev_bytes (noise_events P n nc)) = noise_pending P nc \<and> list_all ev_clean (noise_events P n nc)"
proof (induction n arbitrary: nc)
  case (Suc n)
  show ?case
  proof (cases "noise_pending P nc = []")
    case True
    then show ?thesis using noise_exhausted [OF Suc.prems(1)] by simp
  next
    case False
    obtain b nc' where b: "noise_read P MAX_PLAINTEXT nc = (Inr b, nc')" "b \<noteq> []" "noise_pending P nc = b @ noise_pending P nc'"
        "noise_clean P nc'"
      using noise_read_some [OF Suc.prems(1) False, of MAX_PLAINTEXT] by (auto simp: cb_lens)
    have "length (noise_pending P nc') \<le> n" using Suc.prems(2) b(2,3) by (cases b) simp_all
    then show ?thesis using Suc.IH [OF b(4)] b False noise_exhausted [OF Suc.prems(1)] by auto
  qed
qed simp

lemma seal_records_length:
  "aead_ok P \<Longrightarrow> length k = 32 \<Longrightarrow> length (concat cs) \<le> length (seal_records P k n cs)"
  by (induction cs arbitrary: n) (simp_all add: Let_def aead_be_roundtrip le_SucI add_le_mono trans_le_add2)

lemma noise_fuel_enough:
  assumes "noise_clean P nc"
  shows "length (noise_pending P nc) \<le> noise_fuel nc"
proof -
  obtain cs where cs: "noise_stream nc = seal_records P (nc_rx_key nc) (nc_rx_n nc) cs" "chunks_ok cs"
    and ok: "aead_ok P" "length (nc_rx_key nc) = 32"
    using assms by (auto simp: noise_clean_def)
  have "length (open_records P (nc_rx_key nc) (nc_rx_n nc) (noise_stream nc)) \<le> length (noise_stream nc)"
    using open_seal_records [OF ok cs(2)] seal_records_length [OF ok] unfolding cs(1) by simp
  moreover have "length (concat (map ev_bytes es)) \<le> sum_list (map (\<lambda>e. Suc (length (ev_bytes e))) es)" for es
    by (induction es) simp_all
  then have "length (conn_pending (nc_inner nc)) \<le> conn_size (nc_inner nc)"
    by (simp only: conn_pending_def conn_size_def)
  moreover have "length (drop (nc_plain_pos nc) (nc_plain_pending nc)) \<le> length (nc_plain_pending nc)" by simp
  ultimately show ?thesis
    unfolding noise_pending_def noise_fuel_def noise_stream_def length_append by linarith
qed

lemma noise_box_delivers:
  assumes "noise_clean P nc"
  shows "conn_pending (noise_box P nc) = noise_pending P nc" "conn_clean (noise_box P nc)"
  using noise_events_deliver [OF assms noise_fuel_enough [OF assms]]
  by (simp_all add: noise_box_def conn_pending_def conn_clean_def)

text \<open>
  The hand-over to HTTP/2 loses nothing: whether or not the server sends an early payload before HTTP/2
  starts, the HTTP/2 connection's input, its buffered prefix followed by everything the record layer
  will deliver, is exactly the plain stream after the early payload.
\<close>

theorem early_payload_handover:
  assumes "noise_clean P nc" "noise_pending P nc = early @ rest"
    and "early = [] \<and> 9 \<le> length rest \<and> take 5 rest \<noteq> EARLY_MAGIC
      \<or> early = EARLY_MAGIC @ u32_to_be (word_of_nat (length payload)) @ payload \<and> length payload \<le> 2 ^ 20"
  shows "\<exists>pre nc'. early_payload P nc = (Inr pre, nc') \<and> pre @ conn_pending (noise_box P nc') = rest \<and> conn_clean (noise_box P nc')"
proof -
  have nine: "9 \<le> length (noise_pending P nc)" using assms(2,3) by (auto simp: EARLY_MAGIC_def)
  then obtain n1 where n1: "read_exact (noise_read P) 9 nc = (Inr (take 9 (noise_pending P nc)), n1)"
      "noise_pending P n1 = drop 9 (noise_pending P nc)" "noise_clean P n1"
    using ns.read_exact_reads [OF assms(1) nine] by blast
  show ?thesis
  proof (cases "early = []")
    case True
    then have "take 5 rest \<noteq> EARLY_MAGIC" using assms(3) by (auto simp: EARLY_MAGIC_def)
    then have "early_payload P nc = (Inr (take 9 rest), n1)"
      using n1(1) assms(2) True by (simp add: early_payload_def min_def)
    then show ?thesis using noise_box_delivers [OF n1(3)] n1(2) assms(2) True by auto
  next
    case False
    then have e: "early = EARLY_MAGIC @ u32_to_be (word_of_nat (length payload)) @ payload" and l: "length payload \<le> 2 ^ 20"
      using assms(3) by auto
    let ?n = "word_of_nat (length payload) :: u32"
    obtain a b c d where w: "u32_to_be ?n = [a, b, c, d]" using length_4_obtain [of "u32_to_be ?n"] by auto
    have u: "unat (u32_from_be [a, b, c, d]) = length payload"
      using from_to_bytes(2) [of ?n] l unfolding w by (simp add: unat_of_nat)
    have h: "take 9 (noise_pending P nc) = EARLY_MAGIC @ [a, b, c, d]" "noise_pending P n1 = payload @ rest"
      using assms(2) n1(2) e w by (simp_all add: EARLY_MAGIC_def)
    obtain n2 where n2: "read_exact (noise_read P) (length payload) n1 = (Inr payload, n2)" "noise_pending P n2 = rest" "noise_clean P n2"
      using ns.read_exact_reads [OF n1(3), of "length payload"] h(2) by auto
    have "early_payload P nc = (Inr [], n2)"
      using n1(1) h(1) u l n2(1) by (simp add: early_payload_def EARLY_MAGIC_def Let_def)
    then show ?thesis using noise_box_delivers [OF n2(3)] n2(2) by auto
  qed
qed

definition demo_early :: bytes where
  "demo_early = EARLY_MAGIC @ u32_to_be (word_of_nat (length [9 :: u8])) @ [9]"

theorem early_payload_handover_witness:
  "\<exists>pre nc'. early_payload demo_prims (demo_noise [seal_records demo_prims (replicate 32 5) 0 [demo_early @ [1, 2]]]) = (Inr pre, nc')
    \<and> pre @ conn_pending (noise_box demo_prims nc') = [1, 2] \<and> conn_clean (noise_box demo_prims nc')"
proof (rule early_payload_handover [where early = demo_early and payload = "[9]"])
  let ?nc = "demo_noise [seal_records demo_prims (replicate 32 5) 0 [demo_early @ [1, 2]]]"
  have ok: "aead_ok demo_prims" using demo_prims_ok by (simp add: crypto_ok_def)
  have cs: "chunks_ok [demo_early @ [1, 2]]" by code_simp
  have ne: "seal_records demo_prims (replicate 32 5) 0 [demo_early @ [1, 2]] \<noteq> []" by (simp add: Let_def cb_header_def)
  have st: "noise_stream ?nc = seal_records demo_prims (replicate 32 5) 0 [demo_early @ [1, 2]]"
    by (simp only: noise_stream_def demo_noise_def noise_new_def noise_conn.simps conn_of_pending) simp
  have f: "nc_rx_key ?nc = replicate 32 5" "nc_rx_n ?nc = 0" "nc_plain_pending ?nc = []"
    "conn_clean (nc_inner ?nc)" using ne conn_of_clean by (simp_all add: demo_noise_def noise_new_def)
  show "noise_clean demo_prims ?nc" unfolding noise_clean_def st f
    using ok cs f(4) by (intro conjI exI [of _ "[demo_early @ [1, 2]]"]) simp_all
  show "noise_pending demo_prims ?nc = demo_early @ [1, 2]"
    unfolding noise_pending_def st f using open_seal_records [OF ok _ cs, of "replicate 32 5" 0] by simp
qed (simp add: demo_early_def)

section \<open>The control URL\<close>

lemma parse_u16_dec: "parse_u16 (dec_string (unat p)) = Some p"
proof -
  have "unat p < 65536" using unsigned_less [of p] by simp
  then show ?thesis by (simp add: parse_u16_def parse_uint_dec)
qed

lemma rsplit_once_append: "sep \<notin> set p \<Longrightarrow> rsplit_once sep (h @ sep # p) = Some (h, p)"
proof -
  assume p: "sep \<notin> set p"
  then have t: "takeWhile (\<lambda>c. c \<noteq> sep) (rev p @ sep # rev h) = rev p"
    by (subst takeWhile_append2) auto
  from p have d: "dropWhile (\<lambda>c. c \<noteq> sep) (rev p @ sep # rev h) = sep # rev h"
    by (subst dropWhile_append2) auto
  show ?thesis using t d by (simp add: rsplit_once_def del: takeWhile_eq_all_conv)
qed

lemma trim_matches_none: "\<forall>c\<in>set s. \<not> p c \<Longrightarrow> trim_matches p s = s"
proof -
  assume s: "\<forall>c\<in>set s. \<not> p c"
  have d: "dropWhile p t = t" if "\<forall>c\<in>set t. \<not> p c" for t using that by (cases t) auto
  show "trim_matches p s = s" using d [of s] d [of "rev s"] s by (simp add: trim_matches_def)
qed

lemma trim_matches_Cons: "p c \<Longrightarrow> trim_matches p (c # s) = trim_matches p s"
  by (simp add: trim_matches_def)

lemma takeWhile_authority:
  "CHR ''/'' \<notin> set s \<Longrightarrow> path = [] \<or> hd path = CHR ''/'' \<Longrightarrow> takeWhile (\<lambda>c. c \<noteq> CHR ''/'') (s @ path) = s"
  by (cases path) (auto simp: takeWhile_tail)

lemma url_scheme_https: "url_scheme ((if https then ''https://'' else ''http://'') @ rest) = Some (https, rest)"
  by (simp add: url_scheme_def)

lemma control_url_parse_hostport:
  assumes "CHR ''/'' \<notin> set s" "path = [] \<or> hd path = CHR ''/''" "url_hostport s = (host, port)" "host \<noteq> []"
  shows "control_url_parse ((if https then ''https://'' else ''http://'') @ s @ path)
    = Inr \<lparr>cu_https = https, cu_host = host, cu_port = port\<rparr>"
  unfolding control_url_parse_def url_scheme_https
  using assms takeWhile_authority [OF assms(1,2)] by simp

text \<open>
  A control URL is read back: the authority of a URL with a plain host name, after either scheme and before any path, is
  parsed to the same scheme, host and port.
\<close>

theorem control_url_roundtrip:
  assumes "cu_host u \<noteq> []" "set (cu_host u) \<inter> {CHR '':'', CHR ''/'', CHR ''['', CHR '']''} = {}"
    and "path = [] \<or> hd path = CHR ''/''"
  shows "control_url_parse ((if cu_https u then ''https://'' else ''http://'') @ authority u @ path) = Inr u"
proof -
  have h: "CHR '':'' \<notin> set (cu_host u)" "CHR ''/'' \<notin> set (cu_host u)" "CHR '']'' \<notin> set (cu_host u)" "CHR ''['' \<notin> set (cu_host u)"
    using assms(2) by auto
  have t: "trim_matches (\<lambda>c. c = CHR ''['' \<or> c = CHR '']'') (cu_host u) = cu_host u"
    using h(3,4) by (intro trim_matches_none) auto
  have "CHR ''/'' \<notin> set (authority u) \<and> url_hostport (authority u) = (cu_host u, cu_port u)"
  proof (cases "cu_port u")
    case None
    then show ?thesis using h by (simp add: authority_def url_hostport_def rsplit_once_def)
  next
    case (Some p)
    then have "authority u = cu_host u @ CHR '':'' # dec_string (unat p)" by (simp add: authority_def)
    then show ?thesis using h t Some
      by (simp add: url_hostport_def rsplit_once_append dec_string_no parse_u16_dec)
  qed
  then show ?thesis using control_url_parse_hostport [of "authority u" path "cu_host u" "cu_port u" "cu_https u"] assms(1,3) by simp
qed

theorem control_url_roundtrip_witness:
  "control_url_parse ((if cu_https \<lparr>cu_https = False, cu_host = ''headscale.local'', cu_port = Some 8080\<rparr> then ''https://'' else ''http://'')
     @ authority \<lparr>cu_https = False, cu_host = ''headscale.local'', cu_port = Some 8080\<rparr> @ ''/'')
   = Inr \<lparr>cu_https = False, cu_host = ''headscale.local'', cu_port = Some 8080\<rparr>"
  by (rule control_url_roundtrip) simp_all

lemma parse_u16_bracket: "parse_u16 (s @ '']'') = None"
proof -
  have "digits_value 10 bound acc (t @ '']'') = None" for bound acc t
    by (induction t arbitrary: acc) (auto simp: to_digit_def Let_def split: option.split)
  then show ?thesis
    by (cases s) (auto simp: parse_u16_def parse_uint_def from_str_radix_def Let_def to_digit_def)
qed

text \<open>
  A bracketed IPv6 host without a port is misread: the last group is taken for a port, fails to parse, and is
  dropped with the bracket, so that the client talks to a different host on the default port.
\<close>

theorem control_url_ipv6_truncated:
  assumes "a \<noteq> []" "set a \<inter> {CHR ''/'', CHR ''['', CHR '']''} = {}" "set b \<inter> {CHR '':'', CHR ''/''} = {}"
  shows "control_url_parse (''http://['' @ a @ '':'' @ b @ '']'') = Inr \<lparr>cu_https = False, cu_host = a, cu_port = None\<rparr>"
proof -
  let ?s = "CHR ''['' # a @ CHR '':'' # b @ '']''"
  have "rsplit_once CHR '':'' ?s = Some (CHR ''['' # a, b @ '']'')"
    using rsplit_once_append [of "CHR '':''" "b @ '']''" "CHR ''['' # a"] assms(3) by simp
  moreover have "trim_matches (\<lambda>c. c = CHR ''['' \<or> c = CHR '']'') a = a"
    using assms(2) by (intro trim_matches_none) auto
  ultimately have "url_hostport ?s = (a, None)"
    using assms(2) by (auto simp: url_hostport_def trim_matches_Cons parse_u16_bracket)
  then show ?thesis using control_url_parse_hostport [of ?s "[]" a None False] assms by auto
qed

theorem control_url_ipv6_truncated_witness:
  "control_url_parse (''http://['' @ ''fd7a:115c:a1e0:'' @ '':'' @ ''1'' @ '']'')
    = Inr \<lparr>cu_https = False, cu_host = ''fd7a:115c:a1e0:'', cu_port = None\<rparr>"
  by (rule control_url_ipv6_truncated) simp_all

end
