(* ===== verification/Magicsock.thy ===== *)
theory Magicsock
  imports WireGuard_Ops Disco Stun Control_Types Derp "HOL-Library.List_Lexorder" "HOL-Library.Char_ord"
begin

text \<open>
  The packet mover of crates/tsnode/src/magicsock.rs: the peer table and its updates from control,
  routing, the choice between a direct UDP path and a DERP relay, disco path discovery, STUN, and the
  handlers of received packets. \<^verbatim>\<open>State\<close> is the record \<open>ms_state\<close>, which \<open>magicsock\<close>
  (\<^verbatim>\<open>Inner\<close>) extends; a handler runs under the state's lock and is a function on it. A
  \<^verbatim>\<open>HashMap\<close> is an association list in its iteration order, about which nothing is assumed.
  What is sent is appended to \<open>mg_out\<close>; what is queued for a DERP thread is in its handle. Random
  draws, the readings of \<^verbatim>\<open>Instant::now()\<close> beyond a handler's first one and the success of a
  thread start come from the environment, indexed by the counter \<open>mg_draws\<close>. An operation of the
  tunnel that panics makes the handler's result \<open>None\<close>.
\<close>

section \<open>State\<close>

definition DERP_MAGIC_IP :: ip_addr where "DERP_MAGIC_IP = v4_new 127 3 3 40"
definition TRUST_UDP_ADDR :: duration where "TRUST_UDP_ADDR = from_millis 6500"
definition HEARTBEAT_INTERVAL :: duration where "HEARTBEAT_INTERVAL = from_secs 3"
definition SESSION_ACTIVE_TIMEOUT :: duration where "SESSION_ACTIVE_TIMEOUT = from_secs 45"
definition DISCO_PING_INTERVAL :: duration where "DISCO_PING_INTERVAL = from_secs 5"
definition CALL_ME_MAYBE_INTERVAL :: duration where "CALL_ME_MAYBE_INTERVAL = from_secs 10"
definition STUN_INTERVAL :: duration where "STUN_INTERVAL = from_secs 30"
definition DERP_IDLE_TIMEOUT :: duration where "DERP_IDLE_TIMEOUT = from_secs 60"
definition DERP_PING_IDLE :: duration where "DERP_PING_IDLE = from_secs 55"
definition DERP_PING_TIMEOUT :: duration where "DERP_PING_TIMEOUT = from_secs 15"
definition DERP_QUEUE_LIMIT :: nat where "DERP_QUEUE_LIMIT = 64"
definition MAX_ENDPOINTS :: nat where "MAX_ENDPOINTS = 16"

datatype ms_path = UdpPath socket_addr | DerpPath int bytes

record best_addr =
  ba_addr :: socket_addr
  ba_trust_until :: instant
  ba_latency :: duration

record peer =
  p_key :: bytes
  p_name :: string
  p_disco :: "bytes option"
  p_allowed_ips :: "(ip_addr \<times> u8) list"
  p_endpoints :: "socket_addr list"
  p_home_derp :: int
  p_tunn :: tunn
  p_best :: "best_addr option"
  p_pings :: "(bytes \<times> socket_addr \<times> instant) list"
  p_last_ping_round :: "instant option"
  p_last_heartbeat :: "instant option"
  p_last_cmm :: "instant option"
  p_last_activity :: "instant option"

record ms_state =
  sm_peers :: "(bytes \<times> peer) list"
  sm_by_disco :: "(bytes \<times> bytes) list"
  sm_by_index :: "(u32 \<times> bytes) list"
  sm_filter :: "filter_t option"
  sm_derp_map :: derp_map
  sm_stun_pending :: "(bytes \<times> int \<times> instant) list"
  sm_stun_latency :: "(int \<times> duration) list"
  sm_mapped_addr :: "socket_addr option"
  sm_last_stun :: "instant option"
  sm_local_ip :: "ip_addr option"

datatype derp_cmd = DcSend bytes bytes | DcNotePreferred bool | DcClose

text \<open>A handle with the queue of its channel and the node its thread was started with.\<close>

record derp_handle =
  dh_queue :: "derp_cmd list"
  dh_connected :: bool
  dh_last_used :: instant
  dh_node :: derp_node

datatype ms_out = UdpSend bytes socket_addr | IpSink bytes | EndpointsChanged

record magicsock = ms_state +
  mg_node_key :: key_pair
  mg_disco_key :: key_pair
  mg_udp_port :: u16
  mg_derps :: "(int \<times> derp_handle) list"
  mg_ip_sink :: bool
  mg_endpoints_changed :: bool
  mg_shutdown :: bool
  mg_home_derp :: int
  mg_draws :: nat
  mg_out :: "ms_out list"

record ms_env =
  me_prims :: prims
  me_hex :: hex_lib
  me_rnd :: "nat \<Rightarrow> nat \<Rightarrow> bytes"
  me_wg :: "nat \<Rightarrow> wg_env"
  me_clock :: "nat \<Rightarrow> instant"
  me_spawn_ok :: "nat \<Rightarrow> bool"
  me_guess_local_ip :: "ip_addr option"

definition put_peer :: "bytes \<Rightarrow> peer \<Rightarrow> 'a ms_state_scheme \<Rightarrow> 'a ms_state_scheme" where
  "put_peer key p st = st\<lparr>sm_peers := AList.update key p (sm_peers st)\<rparr>"

definition udp_send :: "bytes \<Rightarrow> socket_addr \<Rightarrow> magicsock \<Rightarrow> magicsock" where
  "udp_send pkt addr m = m\<lparr>mg_out := mg_out m @ [UdpSend pkt addr]\<rparr>"

text \<open>One draw from the environment.\<close>

definition drawn :: "magicsock \<Rightarrow> magicsock" where
  "drawn m = m\<lparr>mg_draws := Suc (mg_draws m)\<rparr>"

section \<open>Addresses and routing\<close>

definition parse_cidr :: "string \<Rightarrow> (ip_addr \<times> u8) option" where
  "parse_cidr s =
     (case split_once CHR ''/'' s of
        Some (ip, p) \<Rightarrow>
          Option.bind (parse_ip ip) (\<lambda>a. map_option (\<lambda>b. (a, word_of_nat b)) (parse_uint 256 p))
      | None \<Rightarrow> map_option (\<lambda>a. (a, if is_ipv4 a then 32 else 128)) (parse_ip s))"

definition cidr_hit :: "ip_addr \<times> u8 \<Rightarrow> ip_addr \<Rightarrow> bool" where
  "cidr_hit c ip = cidr_contains (fst c) (snd c) ip"

fun route_ips :: "ip_addr \<Rightarrow> bytes \<Rightarrow> (ip_addr \<times> u8) list \<Rightarrow> (u8 \<times> bytes) option \<Rightarrow> (u8 \<times> bytes) option" where
  "route_ips dst key [] best = best"
| "route_ips dst key (c # cs) best =
     route_ips dst key cs
       (if cidr_hit c dst \<and> (case best of None \<Rightarrow> True | Some (b, _) \<Rightarrow> b < snd c)
        then Some (snd c, key) else best)"

fun route_peers :: "ip_addr \<Rightarrow> (bytes \<times> peer) list \<Rightarrow> (u8 \<times> bytes) option \<Rightarrow> (u8 \<times> bytes) option" where
  "route_peers dst [] best = best"
| "route_peers dst ((key, p) # ps) best = route_peers dst ps (route_ips dst key (p_allowed_ips p) best)"

definition route :: "'a ms_state_scheme \<Rightarrow> ip_addr \<Rightarrow> bytes option" where
  "route st dst = map_option snd (route_peers dst (sm_peers st) None)"

definition ip_dst :: "bytes \<Rightarrow> ip_addr option" where
  "ip_dst pkt =
     (case pkt of
        [] \<Rightarrow> None
      | b0 # _ \<Rightarrow>
          (if drop_bit 4 b0 = 4 \<and> 20 \<le> length pkt
             then Some (v4_new (pkt ! 16) (pkt ! 17) (pkt ! 18) (pkt ! 19))
           else if drop_bit 4 b0 = 6 \<and> 40 \<le> length pkt then Some (v6_from (slice 24 40 pkt))
           else None))"

definition ip_src :: "bytes \<Rightarrow> ip_addr option" where
  "ip_src pkt =
     (case pkt of
        [] \<Rightarrow> None
      | b0 # _ \<Rightarrow>
          (if drop_bit 4 b0 = 4 \<and> 20 \<le> length pkt
             then Some (v4_new (pkt ! 12) (pkt ! 13) (pkt ! 14) (pkt ! 15))
           else if drop_bit 4 b0 = 6 \<and> 40 \<le> length pkt then Some (v6_from (slice 8 24 pkt))
           else None))"

definition allowed_source :: "peer \<Rightarrow> bytes \<Rightarrow> bool" where
  "allowed_source p ip_pkt =
     (case ip_src ip_pkt of
        Some src \<Rightarrow> list_ex (\<lambda>c. cidr_hit c src) (p_allowed_ips p)
      | None \<Rightarrow> False)"

definition pick_derp_node :: "derp_map \<Rightarrow> int \<Rightarrow> derp_node option" where
  "pick_derp_node dm region =
     Option.bind (map_of (dm_regions dm) (i32_string region)) (\<lambda>r. find (\<lambda>n. \<not> dn_stun_only n) (dr_nodes r))"

section \<open>The peer table\<close>

definition new_peer :: "prims \<Rightarrow> key_pair \<Rightarrow> bytes \<Rightarrow> peer" where
  "new_peer P local key =
     \<lparr>p_key = key, p_name = [], p_disco = None, p_allowed_ips = [], p_endpoints = [], p_home_derp = 0,
      p_tunn = tunn_new P local key, p_best = None, p_pings = [], p_last_ping_round = None,
      p_last_heartbeat = None, p_last_cmm = None, p_last_activity = None\<rparr>"

text \<open>\<^verbatim>\<open>Vec::dedup\<close> drops consecutive repetitions.\<close>

definition apply_node :: "hex_lib \<Rightarrow> node \<Rightarrow> peer \<Rightarrow> peer" where
  "apply_node H n p =
     (let new_disco = parse_prefixed H DISCO_PUB_PREFIX (nd_disco_key n)
      in p\<lparr>p_name := rev (dropWhile (\<lambda>c. c = CHR ''.'') (rev (nd_name n))),
           p_best := (if new_disco \<noteq> p_disco p then None else p_best p),
           p_disco := new_disco,
           p_allowed_ips := remdups_adj (filter (\<lambda>c. snd c \<noteq> 0)
             (List.map_filter parse_cidr (nd_allowed_ips n @ nd_addresses n))),
           p_endpoints := List.map_filter parse_socket_addr (nd_endpoints n),
           p_home_derp := (case home_derp_region n of Some r \<Rightarrow> r | None \<Rightarrow> 0)\<rparr>)"

definition index_disco :: "bytes \<Rightarrow> peer \<Rightarrow> (bytes \<times> bytes) list \<Rightarrow> (bytes \<times> bytes) list" where
  "index_disco key p by_disco =
     (case p_disco p of Some d \<Rightarrow> AList.update d key by_disco | None \<Rightarrow> by_disco)"

definition unindex_disco :: "peer \<Rightarrow> (bytes \<times> bytes) list \<Rightarrow> (bytes \<times> bytes) list" where
  "unindex_disco p by_disco =
     (case p_disco p of Some d \<Rightarrow> AList.delete d by_disco | None \<Rightarrow> by_disco)"

definition index_tunn :: "bytes \<Rightarrow> tunn \<Rightarrow> (u32 \<times> bytes) list \<Rightarrow> (u32 \<times> bytes) list" where
  "index_tunn key t by_index = fold (\<lambda>i. AList.update i key) (local_indices t) by_index"

fun set_peers_loop ::
    "ms_env \<Rightarrow> key_pair \<Rightarrow> node list \<Rightarrow> (bytes \<times> peer) list \<Rightarrow> 'a ms_state_scheme \<Rightarrow> 'a ms_state_scheme" where
  "set_peers_loop E local [] old st = st"
| "set_peers_loop E local (n # ns) old st =
     (case parse_prefixed (me_hex E) NODE_PUB_PREFIX (nd_key n) of
        None \<Rightarrow> set_peers_loop E local ns old st
      | Some key \<Rightarrow>
          (let p = (case map_of old key of Some p \<Rightarrow> p | None \<Rightarrow> new_peer (me_prims E) local key);
               p = apply_node (me_hex E) n p
           in set_peers_loop E local ns (AList.delete key old)
                (put_peer key p
                  (st\<lparr>sm_by_disco := index_disco key p (sm_by_disco st),
                      sm_by_index := index_tunn key (p_tunn p) (sm_by_index st)\<rparr>))))"

definition set_peers :: "ms_env \<Rightarrow> node list \<Rightarrow> magicsock \<Rightarrow> magicsock" where
  "set_peers E nodes m =
     set_peers_loop E (mg_node_key m) nodes (sm_peers m)
       (m\<lparr>sm_peers := [], sm_by_disco := [], sm_by_index := []\<rparr>)"

definition peer_changed :: "ms_env \<Rightarrow> node \<Rightarrow> magicsock \<Rightarrow> magicsock" where
  "peer_changed E n m =
     (case parse_prefixed (me_hex E) NODE_PUB_PREFIX (nd_key n) of
        None \<Rightarrow> m
      | Some key \<Rightarrow>
          (let p = (case map_of (sm_peers m) key of
                      Some p \<Rightarrow> p | None \<Rightarrow> new_peer (me_prims E) (mg_node_key m) key);
               m = m\<lparr>sm_by_disco := unindex_disco p (sm_by_disco m)\<rparr>;
               p = apply_node (me_hex E) n p;
               m = m\<lparr>sm_by_disco := index_disco key p (sm_by_disco m)\<rparr>
           in put_peer key p m))"

definition peers_changed :: "ms_env \<Rightarrow> node list \<Rightarrow> magicsock \<Rightarrow> magicsock" where
  "peers_changed E nodes m = fold (peer_changed E) nodes m"

definition peer_removed :: "(int \<times> bytes) list \<Rightarrow> int \<Rightarrow> magicsock \<Rightarrow> magicsock" where
  "peer_removed nodes_by_id i m =
     (case map_of nodes_by_id i of
        None \<Rightarrow> m
      | Some key \<Rightarrow>
          (case map_of (sm_peers m) key of
             None \<Rightarrow> m
           | Some p \<Rightarrow>
               m\<lparr>sm_peers := AList.delete key (sm_peers m),
                 sm_by_disco := unindex_disco p (sm_by_disco m),
                 sm_by_index := filter (\<lambda>(_, k). k \<noteq> key) (sm_by_index m)\<rparr>))"

definition peers_removed :: "(int \<times> bytes) list \<Rightarrow> int list \<Rightarrow> magicsock \<Rightarrow> magicsock" where
  "peers_removed nodes_by_id ids m = fold (peer_removed nodes_by_id) ids m"

definition set_node_key :: "ms_env \<Rightarrow> key_pair \<Rightarrow> magicsock \<Rightarrow> magicsock" where
  "set_node_key E key m =
     m\<lparr>mg_node_key := key, sm_by_index := [],
       sm_peers := map (\<lambda>(k, p). (k, p\<lparr>p_tunn := tunn_new (me_prims E) key k, p_best := None\<rparr>)) (sm_peers m),
       mg_derps := []\<rparr>"

definition set_packet_filter :: "filter_t \<Rightarrow> magicsock \<Rightarrow> magicsock" where
  "set_packet_filter f m = m\<lparr>sm_filter := Some f\<rparr>"

definition set_derp_map :: "derp_map \<Rightarrow> magicsock \<Rightarrow> magicsock" where
  "set_derp_map dm m = m\<lparr>sm_derp_map := dm, sm_last_stun := None\<rparr>"

definition apply_patch :: "hex_lib \<Rightarrow> (int \<times> bytes) list \<Rightarrow> peer_change \<Rightarrow> magicsock \<Rightarrow> magicsock" where
  "apply_patch H nodes_by_id pc m =
     (case map_of nodes_by_id (pc_node_id pc) of
        None \<Rightarrow> m
      | Some key \<Rightarrow>
          (case map_of (sm_peers m) key of
             None \<Rightarrow> m
           | Some p \<Rightarrow>
               (let q = p\<lparr>p_home_derp := (if pc_derp_region pc \<noteq> 0 then pc_derp_region pc else p_home_derp p),
                          p_endpoints := (case pc_endpoints pc of
                             Some eps \<Rightarrow> List.map_filter parse_socket_addr eps | None \<Rightarrow> p_endpoints p)\<rparr>
                in case Option.bind (pc_disco_key pc) (parse_prefixed H DISCO_PUB_PREFIX) of
                     None \<Rightarrow> put_peer key q m
                   | Some dk \<Rightarrow>
                       put_peer key (q\<lparr>p_disco := Some dk\<rparr>)
                         (m\<lparr>sm_by_disco := AList.update dk key (unindex_disco p (sm_by_disco m))\<rparr>))))"

definition apply_patches :: "hex_lib \<Rightarrow> (int \<times> bytes) list \<Rightarrow> peer_change list \<Rightarrow> magicsock \<Rightarrow> magicsock" where
  "apply_patches H nodes_by_id patches m = fold (apply_patch H nodes_by_id) patches m"

section \<open>Sending\<close>

definition spawn_derp :: "ms_env \<Rightarrow> int \<Rightarrow> magicsock \<Rightarrow> derp_handle option" where
  "spawn_derp E region m =
     (case pick_derp_node (sm_derp_map m) region of
        None \<Rightarrow> None
      | Some node \<Rightarrow>
          (if me_spawn_ok E (mg_draws m)
           then Some \<lparr>dh_queue = [], dh_connected = False, dh_last_used = me_clock E (mg_draws m), dh_node = node\<rparr>
           else None))"

text \<open>\<^verbatim>\<open>SyncSender::try_send\<close> on the channel of a handle: a full queue drops the command.\<close>

definition try_send :: "derp_cmd \<Rightarrow> derp_handle \<Rightarrow> derp_handle" where
  "try_send c h = (if length (dh_queue h) < DERP_QUEUE_LIMIT then h\<lparr>dh_queue := dh_queue h @ [c]\<rparr> else h)"

text \<open>The handle of a region, started when there is none.\<close>

definition derp_entry :: "ms_env \<Rightarrow> int \<Rightarrow> magicsock \<Rightarrow> derp_handle option" where
  "derp_entry E region m =
     (case map_of (mg_derps m) region of
        Some h \<Rightarrow> Some h
      | None \<Rightarrow> spawn_derp E region m)"

definition derp_send :: "ms_env \<Rightarrow> int \<Rightarrow> bytes \<Rightarrow> bytes \<Rightarrow> magicsock \<Rightarrow> magicsock" where
  "derp_send E region dst pkt m =
     (case derp_entry E region m of
        None \<Rightarrow> drawn m
      | Some h \<Rightarrow>
          (let h = try_send (DcSend dst pkt) (h\<lparr>dh_last_used := me_clock E (Suc (mg_draws m))\<rparr>)
           in drawn (drawn (m\<lparr>mg_derps := AList.update region h (mg_derps m)\<rparr>))))"

definition connect_home_derp :: "ms_env \<Rightarrow> int \<Rightarrow> magicsock \<Rightarrow> magicsock" where
  "connect_home_derp E region m =
     (let m = m\<lparr>mg_home_derp := region\<rparr>
      in case derp_entry E region m of
           None \<Rightarrow> drawn m
         | Some h \<Rightarrow>
             (let h = (try_send (DcNotePreferred True) h)\<lparr>dh_last_used := me_clock E (Suc (mg_draws m))\<rparr>
              in drawn (drawn (m\<lparr>mg_derps := AList.update region h (mg_derps m)\<rparr>))))"

definition derp_connected :: "int \<Rightarrow> magicsock \<Rightarrow> bool" where
  "derp_connected region m = (case map_of (mg_derps m) region of Some h \<Rightarrow> dh_connected h | None \<Rightarrow> False)"

text \<open>A direct path that was confirmed recently.\<close>

definition trusted :: "instant \<Rightarrow> peer \<Rightarrow> bool" where
  "trusted now p = (case p_best p of None \<Rightarrow> False | Some b \<Rightarrow> now < ba_trust_until b)"

definition send_wg :: "ms_env \<Rightarrow> bytes \<Rightarrow> bytes \<Rightarrow> instant \<Rightarrow> magicsock \<Rightarrow> magicsock" where
  "send_wg E key pkt now m =
     (case map_of (sm_peers m) key of
        None \<Rightarrow> m
      | Some p \<Rightarrow>
          (if trusted now p then udp_send pkt (ba_addr (the (p_best p))) m
           else if p_home_derp p \<noteq> 0 then derp_send E (p_home_derp p) key pkt m
           else case p_endpoints p of [] \<Rightarrow> m | ep # _ \<Rightarrow> udp_send pkt ep m))"

definition send_reply :: "ms_env \<Rightarrow> bytes \<Rightarrow> ms_path \<Rightarrow> bytes \<Rightarrow> magicsock \<Rightarrow> magicsock" where
  "send_reply E key path pkt m =
     (case path of
        UdpPath addr \<Rightarrow> udp_send pkt addr m
      | DerpPath region _ \<Rightarrow> derp_send E region key pkt m)"

definition send_disco :: "ms_env \<Rightarrow> bytes \<Rightarrow> ms_path \<Rightarrow> message \<Rightarrow> magicsock \<Rightarrow> magicsock" where
  "send_disco E key path msg m =
     (case map_of (sm_peers m) key of
        None \<Rightarrow> m
      | Some p \<Rightarrow>
          (case p_disco p of
             None \<Rightarrow> m
           | Some their_disco \<Rightarrow>
               (let pkt = disco_seal (me_prims E) (me_rnd E (mg_draws m) NONCE_LEN) (mg_disco_key m) their_disco msg
                in send_reply E key path pkt (drawn m))))"

text \<open>
  \<open>refresh_indices\<close>: the entries of a peer are those of its tunnel; entries of other peers with
  one of these indices are overwritten.
\<close>

definition refresh_indices :: "bytes \<Rightarrow> 'a ms_state_scheme \<Rightarrow> 'a ms_state_scheme" where
  "refresh_indices key st =
     (case map_of (sm_peers st) key of
        None \<Rightarrow> st
      | Some p \<Rightarrow>
          (let current = local_indices (p_tunn p)
           in st\<lparr>sm_by_index := fold (\<lambda>i. AList.update i key) current
                   (filter (\<lambda>(i, k). k \<noteq> key \<or> i \<in> set current) (sm_by_index st))\<rparr>))"

section \<open>Path discovery\<close>

definition send_ping :: "ms_env \<Rightarrow> bytes \<Rightarrow> socket_addr \<Rightarrow> instant \<Rightarrow> magicsock \<Rightarrow> magicsock" where
  "send_ping E key addr now m =
     (let txid = me_rnd E (mg_draws m) 12; m = drawn m
      in case map_of (sm_peers m) key of
           None \<Rightarrow> m
         | Some p \<Rightarrow>
             (let pings = (if 32 < length (p_pings p)
                           then filter (\<lambda>(_, _, t). duration_since now t < from_secs 10) (p_pings p)
                           else p_pings p);
                  m = put_peer key (p\<lparr>p_pings := AList.update txid (addr, now) pings\<rparr>) m
              in send_disco E key (UdpPath addr) (Ping txid (Some (kp_public (mg_node_key m)))) m))"

definition ping_targets :: "peer \<Rightarrow> socket_addr list" where
  "ping_targets p = filter (\<lambda>e. \<not> is_unspecified (sa_ip e) \<and> sa_ip e \<noteq> DERP_MAGIC_IP) (p_endpoints p)"

definition ping_all_endpoints :: "ms_env \<Rightarrow> bytes \<Rightarrow> instant \<Rightarrow> magicsock \<Rightarrow> magicsock" where
  "ping_all_endpoints E key now m =
     (case map_of (sm_peers m) key of
        None \<Rightarrow> m
      | Some p \<Rightarrow>
          fold (\<lambda>ep. send_ping E key ep now) (ping_targets p)
            (put_peer key (p\<lparr>p_last_ping_round := Some now\<rparr>) m))"

definition local_endpoints :: "ms_env \<Rightarrow> magicsock \<Rightarrow> socket_addr list" where
  "local_endpoints E m =
     (let lan = (case sm_local_ip m of Some ip \<Rightarrow> Some ip | None \<Rightarrow> me_guess_local_ip E);
          v = (case lan of Some ip \<Rightarrow> [SocketAddr ip (mg_udp_port m)] | None \<Rightarrow> [])
      in case sm_mapped_addr m of
           None \<Rightarrow> v
         | Some a \<Rightarrow> (if a \<in> set v then v else v @ [a]))"

definition send_call_me_maybe :: "ms_env \<Rightarrow> bytes \<Rightarrow> instant \<Rightarrow> magicsock \<Rightarrow> magicsock" where
  "send_call_me_maybe E key now m =
     (case map_of (sm_peers m) key of
        None \<Rightarrow> m
      | Some p \<Rightarrow>
          (if p_home_derp p \<noteq> 0 \<and> p_disco p \<noteq> None then
             (let m = put_peer key (p\<lparr>p_last_cmm := Some now\<rparr>) m;
                  endpoints = local_endpoints E m
              in if endpoints = [] then m
                 else send_disco E key (DerpPath (p_home_derp p) key) (CallMeMaybe endpoints) m)
           else m))"

definition due :: "instant \<Rightarrow> duration \<Rightarrow> instant option \<Rightarrow> bool" where
  "due now interval t = (case t of None \<Rightarrow> True | Some t \<Rightarrow> interval \<le> duration_since now t)"

definition maybe_start_discovery :: "ms_env \<Rightarrow> bytes \<Rightarrow> instant \<Rightarrow> magicsock \<Rightarrow> magicsock" where
  "maybe_start_discovery E key now m =
     (case map_of (sm_peers m) key of
        None \<Rightarrow> m
      | Some p \<Rightarrow>
          (if trusted now p then m
           else
             let ping_due = due now DISCO_PING_INTERVAL (p_last_ping_round p);
                 cmm_due = due now CALL_ME_MAYBE_INTERVAL (p_last_cmm p);
                 m = (if ping_due then ping_all_endpoints E key now m else m)
             in if cmm_due then send_call_me_maybe E key now m else m))"

definition peer_active :: "instant \<Rightarrow> peer \<Rightarrow> bool" where
  "peer_active now p = (case p_last_activity p of
     None \<Rightarrow> False | Some t \<Rightarrow> duration_since now t < SESSION_ACTIVE_TIMEOUT)"

definition peer_path_maintenance :: "ms_env \<Rightarrow> bytes \<Rightarrow> instant \<Rightarrow> magicsock \<Rightarrow> magicsock" where
  "peer_path_maintenance E key now m =
     (case map_of (sm_peers m) key of
        None \<Rightarrow> m
      | Some p \<Rightarrow>
          (let active = peer_active now p;
               p = p\<lparr>p_best := (case p_best p of
                       Some b \<Rightarrow> if ba_trust_until b \<le> now \<and> active then None else Some b
                     | None \<Rightarrow> None)\<rparr>;
               m = put_peer key p m
           in if \<not> active then m
              else case p_best p of
                Some b \<Rightarrow>
                  (if due now HEARTBEAT_INTERVAL (p_last_heartbeat p)
                   then send_ping E key (ba_addr b) now (put_peer key (p\<lparr>p_last_heartbeat := Some now\<rparr>) m)
                   else m)
              | None \<Rightarrow> maybe_start_discovery E key now m))"

section \<open>Packets from the stack\<close>

definition send_all :: "ms_env \<Rightarrow> bytes \<Rightarrow> instant \<Rightarrow> bytes list \<Rightarrow> magicsock \<Rightarrow> magicsock" where
  "send_all E key now out m = fold (\<lambda>pkt. send_wg E key pkt now) out m"

definition send_ip :: "ms_env \<Rightarrow> bytes \<Rightarrow> instant \<Rightarrow> magicsock \<Rightarrow> magicsock option" where
  "send_ip E pkt now m =
     (case Option.bind (ip_dst pkt) (route m) of
        None \<Rightarrow> Some m
      | Some key \<Rightarrow>
          (case map_of (sm_peers m) key of
             None \<Rightarrow> Some m
           | Some p \<Rightarrow>
               map_option (\<lambda>(out, t).
                   maybe_start_discovery E key now
                     (send_all E key now out
                       (refresh_indices key
                         (put_peer key (p\<lparr>p_last_activity := Some now, p_tunn := t\<rparr>) (drawn m)))))
                 (encapsulate (me_prims E) (me_wg E (mg_draws m)) pkt now (p_tunn p))))"

section \<open>Packets from the network\<close>

definition note_path :: "bytes \<Rightarrow> ms_path \<Rightarrow> instant \<Rightarrow> magicsock \<Rightarrow> magicsock" where
  "note_path key path now m =
     (case path of
        DerpPath _ _ \<Rightarrow> m
      | UdpPath addr \<Rightarrow>
          (case map_of (sm_peers m) key of
             None \<Rightarrow> m
           | Some p \<Rightarrow>
               (let fresh = \<lparr>ba_addr = addr, ba_trust_until = now + TRUST_UDP_ADDR, ba_latency = 0\<rparr>
                in case p_best p of
                     Some b \<Rightarrow>
                       (if ba_addr b = addr
                        then put_peer key (p\<lparr>p_best := Some (b\<lparr>ba_trust_until := now + TRUST_UDP_ADDR\<rparr>)\<rparr>) m
                        else if now < ba_trust_until b then m
                        else put_peer key (p\<lparr>p_best := Some fresh\<rparr>) m)
                   | None \<Rightarrow> put_peer key (p\<lparr>p_best := Some fresh\<rparr>) m)))"

fun push_endpoints :: "socket_addr list \<Rightarrow> socket_addr list \<Rightarrow> socket_addr list" where
  "push_endpoints [] eps = eps"
| "push_endpoints (e # es) eps =
     push_endpoints es (if e \<notin> set eps \<and> length eps < MAX_ENDPOINTS then eps @ [e] else eps)"

definition handle_pong :: "bytes \<Rightarrow> bytes \<Rightarrow> instant \<Rightarrow> magicsock \<Rightarrow> magicsock" where
  "handle_pong key txid now m =
     (case map_of (sm_peers m) key of
        None \<Rightarrow> m
      | Some p \<Rightarrow>
          (case map_of (p_pings p) txid of
             None \<Rightarrow> m
           | Some (addr, sent_at) \<Rightarrow>
               (let p = p\<lparr>p_pings := AList.delete txid (p_pings p)\<rparr>;
                    latency = duration_since now sent_at;
                    better = (case p_best p of
                      Some b \<Rightarrow> ba_trust_until b \<le> now \<or> ba_addr b = addr \<or> latency + from_millis 5 < ba_latency b
                    | None \<Rightarrow> True)
                in put_peer key
                     (if better
                      then p\<lparr>p_best := Some \<lparr>ba_addr = addr, ba_trust_until = now + TRUST_UDP_ADDR, ba_latency = latency\<rparr>\<rparr>
                      else p) m)))"

definition handle_ping :: "ms_env \<Rightarrow> bytes \<Rightarrow> ms_path \<Rightarrow> bytes \<Rightarrow> instant \<Rightarrow> magicsock \<Rightarrow> magicsock" where
  "handle_ping E key path txid now m =
     (let src = (case path of
            UdpPath a \<Rightarrow> a
          | DerpPath region _ \<Rightarrow> SocketAddr DERP_MAGIC_IP (word_of_int region));
          m = send_disco E key path (Pong txid src) m
      in case path of
           DerpPath _ _ \<Rightarrow> m
         | UdpPath addr \<Rightarrow>
             (case map_of (sm_peers m) key of
                None \<Rightarrow> m
              | Some p \<Rightarrow>
                  (let known_good = (case p_best p of
                         None \<Rightarrow> False | Some b \<Rightarrow> ba_addr b = addr \<and> now < ba_trust_until b)
                   in if known_good then m else send_ping E key addr now m)))"

definition handle_call_me_maybe ::
    "ms_env \<Rightarrow> bytes \<Rightarrow> socket_addr list \<Rightarrow> instant \<Rightarrow> magicsock \<Rightarrow> magicsock" where
  "handle_call_me_maybe E key endpoints now m =
     (case map_of (sm_peers m) key of
        None \<Rightarrow> m
      | Some p \<Rightarrow>
          ping_all_endpoints E key now
            (put_peer key (p\<lparr>p_endpoints := push_endpoints endpoints (p_endpoints p)\<rparr>) m))"

definition handle_disco :: "ms_env \<Rightarrow> ms_path \<Rightarrow> bytes \<Rightarrow> instant \<Rightarrow> magicsock \<Rightarrow> magicsock" where
  "handle_disco E path pkt now m =
     (case sender_key pkt of
        None \<Rightarrow> m
      | Some sender \<Rightarrow>
          (case map_of (sm_by_disco m) sender of
             None \<Rightarrow> m
           | Some key \<Rightarrow>
               (case disco_open (me_prims E) (mg_disco_key m) sender pkt of
                  Inl _ \<Rightarrow> m
                | Inr (Ping txid _) \<Rightarrow> handle_ping E key path txid now m
                | Inr (Pong txid _) \<Rightarrow> handle_pong key txid now m
                | Inr (CallMeMaybe endpoints) \<Rightarrow> handle_call_me_maybe E key endpoints now m)))"

definition handle_initiation ::
    "ms_env \<Rightarrow> ms_path \<Rightarrow> bytes \<Rightarrow> instant \<Rightarrow> magicsock \<Rightarrow> magicsock option" where
  "handle_initiation E path pkt now m =
     Option.bind (consume_initiation (me_prims E) (mg_node_key m) pkt) (\<lambda>r. case r of
         Inl _ \<Rightarrow> Some m
       | Inr ci \<Rightarrow>
           (let key = ci_peer_public ci
            in case map_of (sm_peers m) key of
                 None \<Rightarrow> Some m
               | Some p \<Rightarrow>
                   map_option (\<lambda>(r, t).
                       let m = put_peer key (p\<lparr>p_tunn := t\<rparr>) (drawn m)
                       in case r of
                            Inl _ \<Rightarrow> m
                          | Inr resp \<Rightarrow>
                              send_reply E key path resp (note_path key path now (refresh_indices key m)))
                     (accept_initiation (me_prims E) (me_wg E (mg_draws m)) ci now (p_tunn p))))"

text \<open>The peer a message is addressed to: the entry of its receiver index.\<close>

definition indexed_peer :: "bytes \<Rightarrow> magicsock \<Rightarrow> (u32 \<times> bytes) option" where
  "indexed_peer pkt m =
     Option.bind (receiver_index pkt) (\<lambda>idx. map_option (\<lambda>key. (idx, key)) (map_of (sm_by_index m) idx))"

definition handle_response ::
    "ms_env \<Rightarrow> ms_path \<Rightarrow> bytes \<Rightarrow> instant \<Rightarrow> magicsock \<Rightarrow> magicsock option" where
  "handle_response E path pkt now m =
     (case indexed_peer pkt m of
        None \<Rightarrow> Some m
      | Some (idx, key) \<Rightarrow>
          (case map_of (sm_peers m) key of
             None \<Rightarrow> Some (m\<lparr>sm_by_index := AList.delete idx (sm_by_index m)\<rparr>)
           | Some p \<Rightarrow>
               map_option (\<lambda>(r, t).
                   let m = put_peer key (p\<lparr>p_tunn := t\<rparr>) m
                   in case r of
                        Inl _ \<Rightarrow> m
                      | Inr flushed \<Rightarrow>
                          send_all E key now flushed (note_path key path now (refresh_indices key m)))
                 (consume_response (me_prims E) pkt now (p_tunn p))))"

definition handle_transport ::
    "ms_env \<Rightarrow> ms_path \<Rightarrow> bytes \<Rightarrow> instant \<Rightarrow> magicsock \<Rightarrow> magicsock" where
  "handle_transport E path pkt now m =
     (case indexed_peer pkt m of
        None \<Rightarrow> m
      | Some (idx, key) \<Rightarrow>
          (case map_of (sm_peers m) key of
             None \<Rightarrow> m\<lparr>sm_by_index := AList.delete idx (sm_by_index m)\<rparr>
           | Some p \<Rightarrow>
               (case consume_transport (me_prims E) pkt now (p_tunn p) of
                  (Inl _, t) \<Rightarrow> put_peer key (p\<lparr>p_tunn := t\<rparr>) m
                | (Inr None, t) \<Rightarrow> note_path key path now (put_peer key (p\<lparr>p_tunn := t\<rparr>) m)
                | (Inr (Some ip), t) \<Rightarrow>
                    (let p = p\<lparr>p_tunn := t, p_last_activity := Some now\<rparr>;
                         m = put_peer key p m
                     in if \<not> allowed_source p ip then m
                        else
                          let m = note_path key path now m;
                              allowed = (case sm_filter m of Some f \<Rightarrow> filter_allows f ip | None \<Rightarrow> False)
                          in if allowed \<and> mg_ip_sink m then m\<lparr>mg_out := mg_out m @ [IpSink ip]\<rparr> else m))))"

definition handle_packet ::
    "ms_env \<Rightarrow> ms_path \<Rightarrow> bytes \<Rightarrow> instant \<Rightarrow> magicsock \<Rightarrow> magicsock option" where
  "handle_packet E path pkt now m =
     (if is_disco pkt then Some (handle_disco E path pkt now m)
      else case message_type pkt of
        None \<Rightarrow> Some m
      | Some t \<Rightarrow>
          (if t = MSG_INITIATION then handle_initiation E path pkt now m
           else if t = MSG_RESPONSE then handle_response E path pkt now m
           else if t = MSG_TRANSPORT then Some (handle_transport E path pkt now m)
           else Some m))"

section \<open>STUN\<close>

definition stun_target :: "magicsock \<Rightarrow> derp_region \<Rightarrow> (int \<times> socket_addr) option" where
  "stun_target m r =
     (if mg_home_derp m \<noteq> 0 \<and> sm_stun_latency m \<noteq> [] \<and> dr_region_id r \<noteq> mg_home_derp m then None
      else
        Option.bind (find (\<lambda>n. dn_ipv4 n \<noteq> []) (dr_nodes r)) (\<lambda>n.
        map_option (\<lambda>ip. (dr_region_id r, SocketAddr (V4 ip)
            (if 0 < dn_stun_port n then word_of_int (dn_stun_port n) else 3478)))
          (parse_ipv4 (dn_ipv4 n))))"

definition stun_targets :: "magicsock \<Rightarrow> (int \<times> socket_addr) list" where
  "stun_targets m =
     List.map_filter (stun_target m)
       (filter (\<lambda>r. \<not> dr_avoid r \<or> dr_region_id r = mg_home_derp m) (map snd (dm_regions (sm_derp_map m))))"

definition send_probe :: "ms_env \<Rightarrow> instant \<Rightarrow> int \<times> socket_addr \<Rightarrow> magicsock \<Rightarrow> magicsock" where
  "send_probe E now target m =
     (let txid = me_rnd E (mg_draws m) 12
      in udp_send (stun_request txid) (snd target)
           (drawn (m\<lparr>sm_stun_pending := AList.update txid (fst target, now) (sm_stun_pending m)\<rparr>)))"

definition stun_maintenance :: "ms_env \<Rightarrow> instant \<Rightarrow> magicsock \<Rightarrow> magicsock" where
  "stun_maintenance E now m =
     (let m = m\<lparr>sm_stun_pending := filter (\<lambda>(_, _, t). duration_since now t < from_secs 5) (sm_stun_pending m)\<rparr>
      in if \<not> due now STUN_INTERVAL (sm_last_stun m) \<or> dm_regions (sm_derp_map m) = [] then m
         else
           let m = m\<lparr>sm_last_stun := Some now\<rparr>
           in fold (send_probe E now) (stun_targets m) m)"

definition handle_stun :: "bytes \<Rightarrow> instant \<Rightarrow> magicsock \<Rightarrow> magicsock" where
  "handle_stun pkt now m =
     (case parse_response pkt of
        None \<Rightarrow> m
      | Some (txid, mapped) \<Rightarrow>
          (case map_of (sm_stun_pending m) txid of
             None \<Rightarrow> m
           | Some (region, sent) \<Rightarrow>
               (let m = m\<lparr>sm_stun_pending := AList.delete txid (sm_stun_pending m),
                          sm_stun_latency := AList.update region (duration_since now sent) (sm_stun_latency m)\<rparr>
                in if sm_mapped_addr m \<noteq> Some mapped then
                     m\<lparr>sm_mapped_addr := Some mapped,
                       mg_out := mg_out m @ (if mg_endpoints_changed m then [EndpointsChanged] else [])\<rparr>
                   else m)))"

text \<open>
  \<^verbatim>\<open>probe_derp_regions\<close> before and after its wait, during which the receive thread runs;
  \<^verbatim>\<open>min_by_key\<close> returns the first minimum.
\<close>

definition probe_start :: "ms_env \<Rightarrow> instant \<Rightarrow> magicsock \<Rightarrow> magicsock" where
  "probe_start E now m = stun_maintenance E now (m\<lparr>sm_last_stun := None, sm_stun_latency := []\<rparr>)"

fun min_by_snd :: "('a \<times> nat) list \<Rightarrow> ('a \<times> nat) option" where
  "min_by_snd [] = None"
| "min_by_snd (x # xs) =
     (case min_by_snd xs of
        None \<Rightarrow> Some x
      | Some y \<Rightarrow> if snd x \<le> snd y then Some x else Some y)"

definition probe_result :: "magicsock \<Rightarrow> int option" where
  "probe_result m = map_option fst (min_by_snd (sm_stun_latency m))"

definition fallback_region :: "string \<Rightarrow> magicsock \<Rightarrow> int option" where
  "fallback_region preferred_code m =
     (let regions = filter (\<lambda>r. \<not> dr_avoid r \<and> dr_nodes r \<noteq> []) (map snd (dm_regions (sm_derp_map m)))
      in case find (\<lambda>r. dr_region_code r = preferred_code) regions of
           Some r \<Rightarrow> Some (dr_region_id r)
         | None \<Rightarrow>
             (case sort_key dr_region_id regions of [] \<Rightarrow> None | r # _ \<Rightarrow> Some (dr_region_id r)))"

section \<open>The threads' steps\<close>

definition udp_datagram :: "ms_env \<Rightarrow> bytes \<Rightarrow> socket_addr \<Rightarrow> instant \<Rightarrow> magicsock \<Rightarrow> magicsock option" where
  "udp_datagram E pkt from now m =
     (if is_stun pkt then Some (handle_stun pkt now m) else handle_packet E (UdpPath from) pkt now m)"

definition tick_peer :: "ms_env \<Rightarrow> instant \<Rightarrow> bytes \<Rightarrow> magicsock \<Rightarrow> magicsock option" where
  "tick_peer E now key m =
     (case map_of (sm_peers m) key of
        None \<Rightarrow> Some m
      | Some p \<Rightarrow>
          map_option (\<lambda>(out, t).
              peer_path_maintenance E key now
                (send_all E key now out
                  (refresh_indices key (put_peer key (p\<lparr>p_tunn := t\<rparr>) (drawn m)))))
            (wg_tick (me_prims E) (me_wg E (mg_draws m)) now (p_tunn p)))"

fun tick_peers :: "ms_env \<Rightarrow> instant \<Rightarrow> bytes list \<Rightarrow> magicsock \<Rightarrow> magicsock option" where
  "tick_peers E now [] m = Some m"
| "tick_peers E now (k # ks) m = Option.bind (tick_peer E now k m) (tick_peers E now ks)"

definition restore_home :: "ms_env \<Rightarrow> magicsock \<Rightarrow> magicsock" where
  "restore_home E m =
     (if mg_home_derp m \<noteq> 0 \<and> map_of (mg_derps m) (mg_home_derp m) = None
      then connect_home_derp E (mg_home_derp m) m else m)"

definition close_idle :: "instant \<Rightarrow> magicsock \<Rightarrow> magicsock" where
  "close_idle now m =
     m\<lparr>mg_derps := filter (\<lambda>(r, h). \<not> (r \<noteq> mg_home_derp m
         \<and> DERP_IDLE_TIMEOUT < duration_since now (dh_last_used h))) (mg_derps m)\<rparr>"

definition ms_tick :: "ms_env \<Rightarrow> instant \<Rightarrow> magicsock \<Rightarrow> magicsock option" where
  "ms_tick E now m =
     map_option (\<lambda>m. close_idle now (restore_home E (stun_maintenance E now m)))
       (tick_peers E now (map fst (sm_peers m)) m)"

definition ms_shut :: "magicsock \<Rightarrow> magicsock" where
  "ms_shut m = m\<lparr>mg_shutdown := True, mg_derps := []\<rparr>"

definition ms_start :: "key_pair \<Rightarrow> key_pair \<Rightarrow> u16 \<Rightarrow> ip_addr option \<Rightarrow> magicsock" where
  "ms_start node_key disco_key bound_port local_ip =
     \<lparr>sm_peers = [], sm_by_disco = [], sm_by_index = [], sm_filter = None,
      sm_derp_map = \<lparr>dm_regions = [], dm_omit_default_regions = False\<rparr>, sm_stun_pending = [],
      sm_stun_latency = [], sm_mapped_addr = None, sm_last_stun = None, sm_local_ip = local_ip,
      mg_node_key = node_key, mg_disco_key = disco_key, mg_udp_port = bound_port, mg_derps = [],
      mg_ip_sink = False, mg_endpoints_changed = False, mg_shutdown = False, mg_home_derp = 0,
      mg_draws = 0, mg_out = []\<rparr>"

definition set_ip_sink :: "magicsock \<Rightarrow> magicsock" where
  "set_ip_sink m = m\<lparr>mg_ip_sink := True\<rparr>"

definition set_endpoints_changed :: "magicsock \<Rightarrow> magicsock" where
  "set_endpoints_changed m = m\<lparr>mg_endpoints_changed := True\<rparr>"

record peer_status =
  ps_name :: string
  ps_key_short :: string
  ps_direct :: "socket_addr option"
  ps_home_derp :: int
  ps_has_session :: bool
  ps_active :: bool

definition status_of :: "hex_lib \<Rightarrow> instant \<Rightarrow> peer \<Rightarrow> peer_status" where
  "status_of H now p =
     \<lparr>ps_name = p_name p, ps_key_short = short_key H (p_key p),
      ps_direct = (if trusted now p then map_option ba_addr (p_best p) else None),
      ps_home_derp = p_home_derp p, ps_has_session = has_session (p_tunn p), ps_active = peer_active now p\<rparr>"

definition peer_statuses :: "hex_lib \<Rightarrow> instant \<Rightarrow> magicsock \<Rightarrow> peer_status list" where
  "peer_statuses H now m = sort_key ps_name (map (status_of H now) (map snd (sm_peers m)))"

end
