(* ===== verification/Magicsock_Inv.thy ===== *)
theory Magicsock_Inv
  imports Magicsock
begin

text \<open>
  The state of the packet mover under arbitrary sequences of its operations. \<open>ms_inv\<close> is the
  invariant; \<open>ms_keeps\<close> is what the helpers of the handlers guarantee: the invariant, no packet
  delivered to the stack, no new direct path. One lemma per helper, composed along the code.
\<close>

section \<open>The invariant\<close>

text \<open>
  A peer is stored under its own key, its tunnel is the one between the node's current key and that
  key and satisfies the tunnel's invariant, and none of its prefixes has length 0. The index table
  names stored peers only, and the queue of a DERP thread is bounded.
\<close>

definition peer_ok :: "key_pair \<Rightarrow> bytes \<Rightarrow> peer \<Rightarrow> bool" where
  "peer_ok local key p \<longleftrightarrow> p_key p = key \<and> tn_peer_public (p_tunn p) = key \<and> tn_local (p_tunn p) = local
     \<and> tunn_inv (p_tunn p) \<and> list_all (\<lambda>c. snd c \<noteq> 0) (p_allowed_ips p)"

definition names_peers :: "(bytes \<times> peer) list \<Rightarrow> ('i \<times> bytes) list \<Rightarrow> bool" where
  "names_peers ps xs \<longleftrightarrow> snd ` set xs \<subseteq> fst ` set ps"

definition ms_inv :: "magicsock \<Rightarrow> bool" where
  "ms_inv m \<longleftrightarrow> distinct (map fst (sm_peers m)) \<and> list_all (\<lambda>(k, p). peer_ok (mg_node_key m) k p) (sm_peers m)
     \<and> names_peers (sm_peers m) (sm_by_index m)
     \<and> list_all (\<lambda>(r, h). length (dh_queue h) \<le> DERP_QUEUE_LIMIT) (mg_derps m)"

definition delivered :: "magicsock \<Rightarrow> bytes list" where
  "delivered m = List.map_filter (\<lambda>x. case x of IpSink ip \<Rightarrow> Some ip | _ \<Rightarrow> None) (mg_out m)"

definition directs :: "magicsock \<Rightarrow> (bytes \<times> socket_addr) set" where
  "directs m = {(k, a). \<exists>p b. map_of (sm_peers m) k = Some p \<and> p_best p = Some b \<and> ba_addr b = a}"

definition ms_keeps :: "magicsock \<Rightarrow> magicsock \<Rightarrow> bool" where
  "ms_keeps m m' \<longleftrightarrow> (ms_inv m \<longrightarrow> ms_inv m') \<and> delivered m' = delivered m \<and> directs m' \<subseteq> directs m
     \<and> sm_filter m' = sm_filter m \<and> mg_ip_sink m' = mg_ip_sink m"

lemma ms_keeps_refl [simp]: "ms_keeps m m"
  by (simp add: ms_keeps_def)

lemma ms_keeps_trans: "ms_keeps a b \<Longrightarrow> ms_keeps b c \<Longrightarrow> ms_keeps a c"
  by (auto simp: ms_keeps_def)

lemma ms_keeps_fold: "(\<And>x m. ms_keeps m (f x m)) \<Longrightarrow> ms_keeps m (fold f xs m)"
proof (induction xs arbitrary: m)
  case (Cons x xs)
  then show ?case using ms_keeps_trans [of m "f x m"] by simp
qed simp

section \<open>Updates of the tables\<close>

lemma set_update: "set (AList.update k v xs) \<subseteq> insert (k, v) (set xs)"
  by (induction xs) auto

lemma fst_set_update: "fst ` set (AList.update k v xs) = insert k (fst ` set xs)"
  using dom_update [of k v xs] by (simp add: dom_map_of_conv_image_fst)

lemma snd_set_update: "snd ` set (AList.update k v xs) \<subseteq> insert v (snd ` set xs)"
  using set_update [of k v xs] by force

lemma snd_set_delete: "snd ` set (AList.delete k xs) \<subseteq> snd ` set xs"
  by (auto simp: AList.delete_eq)

lemma list_all_update: "list_all Q xs \<Longrightarrow> Q (k, v) \<Longrightarrow> list_all Q (AList.update k v xs)"
  using set_update [of k v xs] by (auto simp: list_all_iff)

lemma peer_ok_update [simp]:
  "peer_ok l k (p\<lparr>p_best := b\<rparr>) = peer_ok l k p" "peer_ok l k (p\<lparr>p_pings := x\<rparr>) = peer_ok l k p"
  "peer_ok l k (p\<lparr>p_last_activity := i\<rparr>) = peer_ok l k p" "peer_ok l k (p\<lparr>p_last_cmm := i\<rparr>) = peer_ok l k p"
  "peer_ok l k (p\<lparr>p_last_ping_round := i\<rparr>) = peer_ok l k p" "peer_ok l k (p\<lparr>p_last_heartbeat := i\<rparr>) = peer_ok l k p"
  "peer_ok l k (p\<lparr>p_endpoints := e\<rparr>) = peer_ok l k p" "peer_ok l k (p\<lparr>p_home_derp := r\<rparr>) = peer_ok l k p"
  "peer_ok l k (p\<lparr>p_disco := d\<rparr>) = peer_ok l k p"
  by (simp_all add: peer_ok_def)

lemma peer_ok_tunn: "peer_ok l k p \<Longrightarrow> tunn_frame (p_tunn p) t \<Longrightarrow> tunn_inv t \<Longrightarrow> peer_ok l k (p\<lparr>p_tunn := t\<rparr>)"
  by (simp add: peer_ok_def tunn_frame_def)

lemma ms_inv_peer: "ms_inv m \<Longrightarrow> map_of (sm_peers m) k = Some p \<Longrightarrow> peer_ok (mg_node_key m) k p"
  by (auto simp: ms_inv_def list_all_iff dest!: map_of_SomeD)

lemma ms_inv_put:
  assumes "ms_inv m" "peer_ok (mg_node_key m) k p"
  shows "ms_inv (put_peer k p m)"
  using assms distinct_update [of "sm_peers m" k p] list_all_update [of "\<lambda>(k, p). peer_ok (mg_node_key m) k p" "sm_peers m" k p]
  by (auto simp: ms_inv_def put_peer_def names_peers_def fst_set_update)

lemma ms_inv_out [simp]:
  "ms_inv (m\<lparr>mg_out := x\<rparr>) = ms_inv m" "ms_inv (m\<lparr>mg_draws := n\<rparr>) = ms_inv m"
  "ms_inv (m\<lparr>sm_stun_pending := y\<rparr>) = ms_inv m" "ms_inv (m\<lparr>sm_last_stun := i\<rparr>) = ms_inv m"
  "ms_inv (m\<lparr>mg_home_derp := h\<rparr>) = ms_inv m" "ms_inv (m\<lparr>sm_stun_latency := l\<rparr>) = ms_inv m"
  "ms_inv (m\<lparr>sm_mapped_addr := a\<rparr>) = ms_inv m" "ms_inv (m\<lparr>mg_shutdown := b\<rparr>) = ms_inv m"
  "ms_inv (m\<lparr>sm_filter := f\<rparr>) = ms_inv m" "ms_inv (m\<lparr>sm_derp_map := d\<rparr>) = ms_inv m"
  "ms_inv (m\<lparr>mg_ip_sink := b\<rparr>) = ms_inv m" "ms_inv (m\<lparr>mg_endpoints_changed := b\<rparr>) = ms_inv m"
  "ms_inv (m\<lparr>sm_by_disco := z\<rparr>) = ms_inv m"
  by (simp_all add: ms_inv_def)

lemma delivered_put [simp]: "delivered (put_peer k p m) = delivered m"
  by (simp add: delivered_def put_peer_def)

lemma directs_put:
  "(\<And>b. p_best p = Some b \<Longrightarrow> (k, ba_addr b) \<in> D) \<Longrightarrow> directs m \<subseteq> D \<Longrightarrow> directs (put_peer k p m) \<subseteq> D"
  by (auto simp: directs_def put_peer_def update_Some_unfold)

lemma put_peer_fields [simp]:
  "sm_filter (put_peer k p m) = sm_filter m" "mg_ip_sink (put_peer k p m) = mg_ip_sink m"
  "mg_node_key (put_peer k p m) = mg_node_key m" "sm_by_index (put_peer k p m) = sm_by_index m"
  "sm_by_disco (put_peer k p m) = sm_by_disco m" "mg_out (put_peer k p m) = mg_out m"
  "map_of (sm_peers (put_peer k p m)) = (map_of (sm_peers m))(k \<mapsto> p)"
  by (simp_all add: put_peer_def update_conv')

text \<open>The update of one peer that leaves its direct address and its tunnel's contract alone.\<close>

lemma ms_keeps_put:
  assumes p: "map_of (sm_peers m) k = Some p"
    and ok: "peer_ok (mg_node_key m) k p \<Longrightarrow> peer_ok (mg_node_key m) k q"
    and best: "map_option ba_addr (p_best q) \<in> {None, map_option ba_addr (p_best p)}"
  shows "ms_keeps m (put_peer k q m)"
proof -
  have "directs (put_peer k q m) \<subseteq> directs m"
  proof (rule directs_put)
    fix b assume "p_best q = Some b"
    then obtain b0 where "p_best p = Some b0" "ba_addr b0 = ba_addr b" using best by (cases "p_best p") auto
    then show "(k, ba_addr b) \<in> directs m" using p unfolding directs_def by blast
  qed simp
  then show ?thesis using ms_inv_put [of m k q] ok ms_inv_peer [OF _ p] by (auto simp: ms_keeps_def)
qed

section \<open>Sending\<close>

lemma ms_keeps_drawn [simp]: "ms_keeps m (drawn m)"
  by (simp add: ms_keeps_def drawn_def delivered_def directs_def)

lemma ms_keeps_udp [simp]: "ms_keeps m (udp_send pkt a m)"
  by (simp add: ms_keeps_def udp_send_def delivered_def directs_def List.map_filter_def)

lemma try_send_bound: "length (dh_queue h) \<le> DERP_QUEUE_LIMIT \<Longrightarrow> length (dh_queue (try_send c h)) \<le> DERP_QUEUE_LIMIT"
  by (simp add: try_send_def)

lemma derp_entry_bound: "ms_inv m \<Longrightarrow> derp_entry E r m = Some h \<Longrightarrow> length (dh_queue h) \<le> DERP_QUEUE_LIMIT"
  by (auto simp: derp_entry_def spawn_derp_def ms_inv_def list_all_iff DERP_QUEUE_LIMIT_def
      split: option.splits if_splits dest!: map_of_SomeD)

lemma ms_keeps_derps:
  assumes "ms_inv m \<Longrightarrow> length (dh_queue h) \<le> DERP_QUEUE_LIMIT"
  shows "ms_keeps m (m\<lparr>mg_derps := AList.update r h (mg_derps m)\<rparr>)"
  using assms list_all_update [of "\<lambda>(r, h). length (dh_queue h) \<le> DERP_QUEUE_LIMIT" "mg_derps m" r h]
  by (auto simp: ms_keeps_def ms_inv_def delivered_def directs_def)

lemma derp_send_keeps [simp]: "ms_keeps m (derp_send E r dst pkt m)"
proof (cases "derp_entry E r m")
  case (Some h)
  let ?h = "try_send (DcSend dst pkt) (h\<lparr>dh_last_used := me_clock E (Suc (mg_draws m))\<rparr>)"
  have "ms_keeps m (m\<lparr>mg_derps := AList.update r ?h (mg_derps m)\<rparr>)"
    using derp_entry_bound [OF _ Some] by (intro ms_keeps_derps try_send_bound) simp
  then show ?thesis unfolding derp_send_def
    using Some by (auto simp: Let_def intro: ms_keeps_trans [OF _ ms_keeps_drawn])
qed (simp add: derp_send_def)

lemma connect_home_derp_keeps [simp]: "ms_keeps m (connect_home_derp E r m)"
proof -
  let ?m = "m\<lparr>mg_home_derp := r\<rparr>"
  have m: "ms_keeps m ?m" by (simp add: ms_keeps_def delivered_def directs_def)
  have "ms_keeps ?m (connect_home_derp E r m)"
  proof (cases "derp_entry E r ?m")
    case (Some h)
    let ?h = "(try_send (DcNotePreferred True) h)\<lparr>dh_last_used := me_clock E (Suc (mg_draws ?m))\<rparr>"
    have "ms_keeps ?m (?m\<lparr>mg_derps := AList.update r ?h (mg_derps ?m)\<rparr>)"
      using derp_entry_bound [OF _ Some] by (intro ms_keeps_derps) (simp add: try_send_bound)
    then have "ms_keeps ?m (drawn (drawn (?m\<lparr>mg_derps := AList.update r ?h (mg_derps ?m)\<rparr>)))"
      by (meson ms_keeps_trans ms_keeps_drawn)
    then show ?thesis using Some by (simp add: connect_home_derp_def Let_def)
  qed (simp add: connect_home_derp_def)
  then show ?thesis using m ms_keeps_trans by blast
qed

lemma send_wg_keeps [simp]: "ms_keeps m (send_wg E k pkt now m)"
  by (simp add: send_wg_def split: option.split list.split)

lemma send_all_keeps [simp]: "ms_keeps m (send_all E k now out m)"
  unfolding send_all_def by (rule ms_keeps_fold) simp

lemma send_reply_keeps [simp]: "ms_keeps m (send_reply E k path pkt m)"
  by (simp add: send_reply_def split: ms_path.split)

lemma send_disco_keeps [simp]: "ms_keeps m (send_disco E k path msg m)"
  by (auto simp: send_disco_def Let_def split: option.split intro: ms_keeps_trans [OF ms_keeps_drawn])

section \<open>Path discovery\<close>

lemma send_ping_keeps [simp]: "ms_keeps m (send_ping E k a now m)"
proof (cases "map_of (sm_peers (drawn m)) k")
  case (Some p)
  have "ms_keeps (drawn m) (put_peer k (p\<lparr>p_pings := x\<rparr>) (drawn m))" for x
    by (rule ms_keeps_put [OF Some]) simp_all
  then show ?thesis unfolding send_ping_def Let_def using Some
    by (simp only: option.case) (meson ms_keeps_trans ms_keeps_drawn send_disco_keeps)
qed (simp add: send_ping_def Let_def)

lemma ping_all_endpoints_keeps [simp]: "ms_keeps m (ping_all_endpoints E k now m)"
proof (cases "map_of (sm_peers m) k")
  case (Some p)
  have "ms_keeps m (put_peer k (p\<lparr>p_last_ping_round := Some now\<rparr>) m)" by (rule ms_keeps_put [OF Some]) simp_all
  then show ?thesis unfolding ping_all_endpoints_def using Some
    by (simp only: option.case) (rule ms_keeps_trans, assumption, rule ms_keeps_fold, simp)
qed (simp add: ping_all_endpoints_def)

lemma send_call_me_maybe_keeps [simp]: "ms_keeps m (send_call_me_maybe E k now m)"
proof (cases "map_of (sm_peers m) k")
  case (Some p)
  have "ms_keeps m (put_peer k (p\<lparr>p_last_cmm := Some now\<rparr>) m)" by (rule ms_keeps_put [OF Some]) simp_all
  then show ?thesis using Some ms_keeps_trans [OF _ send_disco_keeps]
    by (auto simp: send_call_me_maybe_def Let_def)
qed (simp add: send_call_me_maybe_def)

lemma maybe_start_discovery_keeps [simp]: "ms_keeps m (maybe_start_discovery E k now m)"
  by (auto simp: maybe_start_discovery_def Let_def split: option.split
      intro: ms_keeps_trans [OF ping_all_endpoints_keeps send_call_me_maybe_keeps])

lemma peer_path_maintenance_keeps [simp]: "ms_keeps m (peer_path_maintenance E k now m)"
proof (cases "map_of (sm_peers m) k")
  case (Some p)
  define q where "q = p\<lparr>p_best := (case p_best p of
      Some b \<Rightarrow> if ba_trust_until b \<le> now \<and> peer_active now p then None else Some b | None \<Rightarrow> None)\<rparr>"
  let ?m = "put_peer k q m" and ?n = "put_peer k (q\<lparr>p_last_heartbeat := Some now\<rparr>) (put_peer k q m)"
  have m: "ms_keeps m ?m" by (rule ms_keeps_put [OF Some]) (auto simp: q_def split: option.split)
  have "map_of (sm_peers ?m) k = Some q" by simp
  then have hb: "ms_keeps ?m ?n" by (rule ms_keeps_put) simp_all
  have unf: "peer_path_maintenance E k now m = (if \<not> peer_active now p then ?m else case p_best q of
      Some b \<Rightarrow> (if due now HEARTBEAT_INTERVAL (p_last_heartbeat q) then send_ping E k (ba_addr b) now ?n else ?m)
    | None \<Rightarrow> maybe_start_discovery E k now ?m)"
    unfolding peer_path_maintenance_def Let_def Some option.case q_def ..
  have "ms_keeps ?m (send_ping E k a now ?n)" for a by (rule ms_keeps_trans [OF hb send_ping_keeps])
  then have "ms_keeps ?m (peer_path_maintenance E k now m)" unfolding unf by (simp split: option.split)
  then show ?thesis using m ms_keeps_trans by blast
qed (simp add: peer_path_maintenance_def)

section \<open>The peer table\<close>

lemma peer_ok_new: "peer_ok local key (new_peer P local key)"
  using tunn_new_inv by (simp add: peer_ok_def new_peer_def tunn_new_def)

lemma peer_ok_apply: "peer_ok l k p \<Longrightarrow> peer_ok l k (apply_node H n p)"
  by (auto simp: peer_ok_def apply_node_def Let_def list_all_iff remdups_adj_set)

lemma best_apply: "map_option ba_addr (p_best (apply_node H n p)) \<in> {None, map_option ba_addr (p_best p)}"
  by (simp add: apply_node_def Let_def)

lemma snd_index_fold: "snd ` set (fold (\<lambda>i. AList.update i k) is xs) \<subseteq> insert k (snd ` set xs)"
proof (induction "is" arbitrary: xs)
  case (Cons i js)
  have "snd ` set (fold (\<lambda>i. AList.update i k) (i # js) xs) \<subseteq> insert k (snd ` set (AList.update i k xs))"
    using Cons.IH [of "AList.update i k xs"] by simp
  also have "\<dots> \<subseteq> insert k (snd ` set xs)" using snd_set_update [of i k xs] by blast
  finally show ?case .
qed auto

lemma ms_inv_put_index:
  assumes "ms_inv m" "peer_ok (mg_node_key m) k p" "snd ` set bi \<subseteq> insert k (fst ` set (sm_peers m))"
  shows "ms_inv (put_peer k p (m\<lparr>sm_by_disco := bd, sm_by_index := bi\<rparr>))"
  using assms distinct_update [of "sm_peers m" k p] list_all_update [of "\<lambda>(k, p). peer_ok (mg_node_key m) k p" "sm_peers m" k p]
  by (simp add: ms_inv_def put_peer_def names_peers_def fst_set_update)

lemma directs_cong: "sm_peers m' = sm_peers m \<Longrightarrow> directs m' = directs m"
  by (simp add: directs_def)

lemma old_directs:
  "map_of old k = Some p \<Longrightarrow> p_best p = Some b \<Longrightarrow> map_of old \<subseteq>\<^sub>m map_of (sm_peers m0) \<Longrightarrow> (k, ba_addr b) \<in> directs m0"
  by (auto simp: directs_def map_le_def dom_def)

lemma set_peers_loop_inv:
  assumes "ms_inv m" "list_all (\<lambda>(k, p). peer_ok (mg_node_key m) k p) old" "local = mg_node_key m"
  shows "ms_inv (set_peers_loop E local ns old m)"
  using assms
proof (induction ns arbitrary: old m)
  case (Cons n ns)
  show ?case
  proof (cases "parse_prefixed (me_hex E) NODE_PUB_PREFIX (nd_key n)")
    case None
    then show ?thesis using Cons by simp
  next
    case (Some key)
    define p where "p = (case map_of old key of Some p \<Rightarrow> p | None \<Rightarrow> new_peer (me_prims E) local key)"
    define q where "q = apply_node (me_hex E) n p"
    define m1 where "m1 = put_peer key q (m\<lparr>sm_by_disco := index_disco key q (sm_by_disco m),
      sm_by_index := index_tunn key (p_tunn q) (sm_by_index m)\<rparr>)"
    have "peer_ok (mg_node_key m) key p"
      using Cons.prems(2,3) peer_ok_new by (auto simp: p_def list_all_iff split: option.split dest!: map_of_SomeD)
    then have q: "peer_ok (mg_node_key m) key q" unfolding q_def by (rule peer_ok_apply)
    have "snd ` set (index_tunn key (p_tunn q) (sm_by_index m)) \<subseteq> insert key (snd ` set (sm_by_index m))"
      unfolding index_tunn_def by (rule snd_index_fold)
    also have "\<dots> \<subseteq> insert key (fst ` set (sm_peers m))"
      using Cons.prems(1) unfolding ms_inv_def names_peers_def by blast
    finally have inv: "ms_inv m1" unfolding m1_def by (rule ms_inv_put_index [OF Cons.prems(1) q])
    have "list_all (\<lambda>(k, p). peer_ok (mg_node_key m1) k p) (AList.delete key old)" "local = mg_node_key m1"
      using Cons.prems(2,3) by (auto simp: m1_def list_all_iff AList.delete_eq)
    moreover have "set_peers_loop E local (n # ns) old m = set_peers_loop E local ns (AList.delete key old) m1"
      using Some by (simp add: m1_def q_def p_def Let_def)
    ultimately show ?thesis using Cons.IH [OF inv] by simp
  qed
qed simp

lemma set_peers_loop_directs:
  assumes "map_of old \<subseteq>\<^sub>m map_of (sm_peers m0)" "directs m \<subseteq> directs m0"
  shows "directs (set_peers_loop E local ns old m) \<subseteq> directs m0"
  using assms
proof (induction ns arbitrary: old m)
  case (Cons n ns)
  show ?case
  proof (cases "parse_prefixed (me_hex E) NODE_PUB_PREFIX (nd_key n)")
    case None
    then show ?thesis using Cons by simp
  next
    case (Some key)
    define p where "p = (case map_of old key of Some p \<Rightarrow> p | None \<Rightarrow> new_peer (me_prims E) local key)"
    define q where "q = apply_node (me_hex E) n p"
    define m1 where "m1 = put_peer key q (m\<lparr>sm_by_disco := index_disco key q (sm_by_disco m),
      sm_by_index := index_tunn key (p_tunn q) (sm_by_index m)\<rparr>)"
    have "(key, ba_addr b) \<in> directs m0" if b: "p_best q = Some b" for b
    proof -
      obtain b0 where b0: "p_best p = Some b0" "ba_addr b0 = ba_addr b"
        using best_apply [of "me_hex E" n p] b unfolding q_def by (cases "p_best p") auto
      then have "map_of old key = Some p" by (auto simp: p_def new_peer_def split: option.splits)
      then show ?thesis using old_directs [OF _ b0(1) Cons.prems(1)] b0(2) by simp
    qed
    then have d: "directs m1 \<subseteq> directs m0" unfolding m1_def using Cons.prems(2)
      by (intro directs_put) (simp_all add: directs_def)
    have "map_of (AList.delete key old) \<subseteq>\<^sub>m map_of (sm_peers m0)"
      using Cons.prems(1) by (auto simp: delete_conv' map_le_def split: if_splits)
    then show ?thesis using Cons.IH [OF _ d] Some by (simp add: m1_def q_def p_def Let_def)
  qed
qed simp

lemma set_peers_loop_frame:
  "delivered (set_peers_loop E l ns old m) = delivered m \<and> sm_filter (set_peers_loop E l ns old m) = sm_filter m
    \<and> mg_ip_sink (set_peers_loop E l ns old m) = mg_ip_sink m"
  by (induction ns arbitrary: old m) (auto simp: Let_def delivered_def put_peer_def split: option.split)

lemma set_peers_keeps [simp]: "ms_keeps m (set_peers E ns m)"
proof -
  let ?m = "m\<lparr>sm_peers := [], sm_by_disco := [], sm_by_index := []\<rparr>"
  have "directs (set_peers E ns m) \<subseteq> directs m"
    unfolding set_peers_def by (rule set_peers_loop_directs) (simp_all add: directs_def)
  moreover have "ms_inv (set_peers E ns m)" if "ms_inv m"
    unfolding set_peers_def using that by (intro set_peers_loop_inv) (simp_all add: ms_inv_def names_peers_def)
  moreover have "delivered ?m = delivered m" by (simp add: delivered_def)
  ultimately show ?thesis using set_peers_loop_frame [of E "mg_node_key m" ns "sm_peers m" ?m]
    by (simp add: ms_keeps_def set_peers_def)
qed

lemma peer_changed_keeps [simp]: "ms_keeps m (peer_changed E n m)"
proof (cases "parse_prefixed (me_hex E) NODE_PUB_PREFIX (nd_key n)")
  case (Some key)
  define p where "p = (case map_of (sm_peers m) key of Some p \<Rightarrow> p | None \<Rightarrow> new_peer (me_prims E) (mg_node_key m) key)"
  define q where "q = apply_node (me_hex E) n p"
  let ?m = "m\<lparr>sm_by_disco := index_disco key q (unindex_disco p (sm_by_disco m))\<rparr>"
  have eq: "peer_changed E n m = put_peer key q ?m" using Some by (simp add: peer_changed_def p_def q_def Let_def)
  have "peer_ok (mg_node_key m) key p" if "ms_inv m"
    using ms_inv_peer [OF that] peer_ok_new by (auto simp: p_def split: option.split)
  then have inv: "ms_inv (put_peer key q ?m)" if "ms_inv m"
    using that by (intro ms_inv_put) (simp_all add: q_def peer_ok_apply)
  have "(key, ba_addr b) \<in> directs m" if b: "p_best q = Some b" for b
  proof -
    obtain b0 where "p_best p = Some b0" "ba_addr b0 = ba_addr b"
      using best_apply [of "me_hex E" n p] b unfolding q_def by (cases "p_best p") auto
    then show ?thesis by (auto simp: p_def new_peer_def directs_def split: option.splits)
  qed
  then have "directs (put_peer key q ?m) \<subseteq> directs m" by (intro directs_put) (simp_all add: directs_def)
  then show ?thesis using inv unfolding eq ms_keeps_def by (simp add: delivered_def)
qed (simp add: peer_changed_def)

lemma peers_changed_keeps [simp]: "ms_keeps m (peers_changed E ns m)"
  unfolding peers_changed_def by (rule ms_keeps_fold) simp

lemma ms_inv_remove:
  assumes "ms_inv m"
  shows "ms_inv (m\<lparr>sm_peers := AList.delete key (sm_peers m), sm_by_disco := d,
      sm_by_index := filter (\<lambda>(_, k). k \<noteq> key) (sm_by_index m)\<rparr>)"
proof -
  have "snd ` set (filter (\<lambda>(_, k). k \<noteq> key) (sm_by_index m)) \<subseteq> fst ` set (AList.delete key (sm_peers m))"
  proof
    fix k assume "k \<in> snd ` set (filter (\<lambda>(_, k). k \<noteq> key) (sm_by_index m))"
    then have "k \<in> snd ` set (sm_by_index m)" "k \<noteq> key" by auto
    then have "k \<in> fst ` set (sm_peers m)" "k \<noteq> key" using assms by (auto simp: ms_inv_def names_peers_def)
    then show "k \<in> fst ` set (AList.delete key (sm_peers m))" by (force simp: AList.delete_eq)
  qed
  then show ?thesis using assms distinct_delete [of "sm_peers m" key]
    by (simp add: ms_inv_def names_peers_def list_all_iff AList.delete_eq)
qed

lemma peer_removed_keeps [simp]: "ms_keeps m (peer_removed ids i m)"
proof -
  have "ms_keeps m (m\<lparr>sm_peers := AList.delete key (sm_peers m), sm_by_disco := d,
      sm_by_index := filter (\<lambda>(_, k). k \<noteq> key) (sm_by_index m)\<rparr>)" for key d
    using ms_inv_remove by (simp add: ms_keeps_def delivered_def directs_def delete_conv') (auto split: if_splits)
  then show ?thesis by (simp add: peer_removed_def split: option.split)
qed

lemma peers_removed_keeps [simp]: "ms_keeps m (peers_removed ids is m)"
  unfolding peers_removed_def by (rule ms_keeps_fold) simp

lemma peer_ok_rekey: "peer_ok l k p \<Longrightarrow> peer_ok key k (p\<lparr>p_tunn := tunn_new P key k, p_best := b\<rparr>)"
  by (simp add: peer_ok_def tunn_new_inv) (simp add: tunn_new_def)

lemma set_node_key_keeps [simp]: "ms_keeps m (set_node_key E key m)"
proof -
  have "map fst (sm_peers (set_node_key E key m)) = map fst (sm_peers m)"
    by (simp add: set_node_key_def comp_def case_prod_beta)
  moreover have "list_all (\<lambda>(k, p). peer_ok key k p) (sm_peers (set_node_key E key m))" if "ms_inv m"
    using that by (auto simp: set_node_key_def ms_inv_def list_all_iff intro: peer_ok_rekey)
  moreover have "directs (set_node_key E key m) = {}"
    by (auto simp: directs_def set_node_key_def dest!: map_of_SomeD)
  ultimately show ?thesis
    by (simp add: ms_keeps_def ms_inv_def names_peers_def delivered_def) (simp add: set_node_key_def)
qed

lemma apply_patch_keeps [simp]: "ms_keeps m (apply_patch H ids pc m)"
proof -
  have "ms_keeps m (put_peer key q (m\<lparr>sm_by_disco := d\<rparr>))"
    if "map_of (sm_peers m) key = Some p" "p_tunn q = p_tunn p" "p_key q = p_key p"
      "p_allowed_ips q = p_allowed_ips p" "p_best q = p_best p" for key p q d
  proof -
    have "ms_keeps m (m\<lparr>sm_by_disco := d\<rparr>)" by (simp add: ms_keeps_def delivered_def directs_def)
    moreover have "ms_keeps (m\<lparr>sm_by_disco := d\<rparr>) (put_peer key q (m\<lparr>sm_by_disco := d\<rparr>))"
      using that by (intro ms_keeps_put [where p = p]) (simp_all add: peer_ok_def)
    ultimately show ?thesis by (rule ms_keeps_trans)
  qed
  from this [where d = "sm_by_disco m"] this show ?thesis
    by (simp add: apply_patch_def Let_def split: option.split)
qed

lemma apply_patches_keeps [simp]: "ms_keeps m (apply_patches H ids pcs m)"
  unfolding apply_patches_def by (rule ms_keeps_fold) simp

section \<open>Tunnel operations\<close>

lemma refresh_indices_keeps [simp]: "ms_keeps m (refresh_indices k m)"
proof (cases "map_of (sm_peers m) k")
  case (Some p)
  let ?cur = "local_indices (p_tunn p)"
  let ?bi = "fold (\<lambda>i. AList.update i k) ?cur (filter (\<lambda>(i, k'). k' \<noteq> k \<or> i \<in> set ?cur) (sm_by_index m))"
  have "snd ` set ?bi \<subseteq> insert k (snd ` set (sm_by_index m))"
    using snd_index_fold [of k ?cur "filter (\<lambda>(i, k'). k' \<noteq> k \<or> i \<in> set ?cur) (sm_by_index m)"] by force
  moreover have "k \<in> fst ` set (sm_peers m)" using Some by (force dest: map_of_SomeD)
  ultimately have "names_peers (sm_peers m) ?bi" if "names_peers (sm_peers m) (sm_by_index m)"
    using that unfolding names_peers_def by blast
  then show ?thesis using Some
    by (simp add: refresh_indices_def Let_def ms_keeps_def ms_inv_def delivered_def directs_def)
qed (simp add: refresh_indices_def)

text \<open>Storing the tunnel after one of its operations.\<close>

lemma put_tunn_keeps:
  assumes "map_of (sm_peers m) k = Some p" "tunn_frame (p_tunn p) t" "tunn_inv (p_tunn p) \<Longrightarrow> tunn_inv t"
  shows "ms_keeps m (put_peer k (p\<lparr>p_tunn := t\<rparr>) m)" "ms_keeps m (put_peer k (p\<lparr>p_tunn := t, p_last_activity := a\<rparr>) m)"
proof -
  have ok: "peer_ok l k p \<Longrightarrow> peer_ok l k (p\<lparr>p_tunn := t\<rparr>)" for l
    using assms(2,3) by (intro peer_ok_tunn) (auto simp: peer_ok_def)
  show "ms_keeps m (put_peer k (p\<lparr>p_tunn := t\<rparr>) m)" by (rule ms_keeps_put [OF assms(1) ok]) simp_all
  show "ms_keeps m (put_peer k (p\<lparr>p_tunn := t, p_last_activity := a\<rparr>) m)"
    by (rule ms_keeps_put [OF assms(1)]) (simp_all add: ok)
qed

lemma drawn_peers [simp]: "sm_peers (drawn m) = sm_peers m"
  by (simp add: drawn_def)

lemma send_ip_keeps:
  assumes "send_ip E pkt now m = Some m'"
  shows "ms_keeps m m'"
proof (cases "Option.bind (ip_dst pkt) (route m)")
  case (Some key)
  show ?thesis
  proof (cases "map_of (sm_peers m) key")
    case p: (Some p)
    then obtain out t where e: "encapsulate (me_prims E) (me_wg E (mg_draws m)) pkt now (p_tunn p) = Some (out, t)"
      and m': "m' = maybe_start_discovery E key now (send_all E key now out
        (refresh_indices key (put_peer key (p\<lparr>p_last_activity := Some now, p_tunn := t\<rparr>) (drawn m))))"
      using assms Some by (auto simp: send_ip_def)
    have eq: "p\<lparr>p_last_activity := Some now, p_tunn := t\<rparr> = p\<lparr>p_tunn := t, p_last_activity := Some now\<rparr>" by simp
    have "ms_keeps (drawn m) (put_peer key (p\<lparr>p_tunn := t, p_last_activity := Some now\<rparr>) (drawn m))"
      using p encapsulate_effect [OF e] by (intro put_tunn_keeps(2)) simp_all
    then show ?thesis unfolding m' eq
      by (meson ms_keeps_trans ms_keeps_drawn refresh_indices_keeps send_all_keeps maybe_start_discovery_keeps)
  qed (use assms Some in \<open>simp add: send_ip_def\<close>)
qed (use assms in \<open>simp add: send_ip_def\<close>)

lemma tick_peer_keeps:
  assumes "tick_peer E now k m = Some m'"
  shows "ms_keeps m m'"
proof (cases "map_of (sm_peers m) k")
  case (Some p)
  then obtain out t where e: "wg_tick (me_prims E) (me_wg E (mg_draws m)) now (p_tunn p) = Some (out, t)"
    and m': "m' = peer_path_maintenance E k now (send_all E k now out
      (refresh_indices k (put_peer k (p\<lparr>p_tunn := t\<rparr>) (drawn m))))"
    using assms by (auto simp: tick_peer_def)
  have "ms_keeps (drawn m) (put_peer k (p\<lparr>p_tunn := t\<rparr>) (drawn m))"
    using put_tunn_keeps(1) [of "drawn m" k p t] Some wg_tick_effect [OF e] by simp
  then show ?thesis unfolding m'
    by (meson ms_keeps_trans ms_keeps_drawn refresh_indices_keeps send_all_keeps peer_path_maintenance_keeps)
qed (use assms in \<open>simp add: tick_peer_def\<close>)

lemma tick_peers_keeps: "tick_peers E now ks m = Some m' \<Longrightarrow> ms_keeps m m'"
proof (induction ks arbitrary: m)
  case (Cons k ks)
  then obtain m1 where "tick_peer E now k m = Some m1" "tick_peers E now ks m1 = Some m'"
    by (auto simp: bind_eq_Some_conv)
  then show ?case using Cons.IH tick_peer_keeps ms_keeps_trans by blast
qed simp

section \<open>STUN and the timer\<close>

lemma stun_maintenance_keeps [simp]: "ms_keeps m (stun_maintenance E now m)"
proof -
  have probe: "ms_keeps m (send_probe E now t m)" for t m
    by (simp add: send_probe_def Let_def udp_send_def drawn_def ms_keeps_def delivered_def directs_def List.map_filter_def)
  have upd: "ms_keeps m (m\<lparr>sm_stun_pending := x\<rparr>)" "ms_keeps m (m\<lparr>sm_stun_pending := x, sm_last_stun := y\<rparr>)" for x y
    by (simp_all add: ms_keeps_def delivered_def directs_def)
  then show ?thesis unfolding stun_maintenance_def Let_def
    by (auto intro: upd ms_keeps_trans [OF upd(2) ms_keeps_fold [OF probe]])
qed

lemma handle_stun_keeps [simp]: "ms_keeps m (handle_stun pkt now m)"
  by (simp add: handle_stun_def Let_def ms_keeps_def delivered_def directs_def List.map_filter_def split: option.split)

lemma restore_home_keeps [simp]: "ms_keeps m (restore_home E m)"
  by (simp add: restore_home_def)

lemma close_idle_keeps [simp]: "ms_keeps m (close_idle now m)"
  by (auto simp: close_idle_def ms_keeps_def ms_inv_def delivered_def directs_def list_all_iff)

lemma ms_tick_keeps: "ms_tick E now m = Some m' \<Longrightarrow> ms_keeps m m'"
  unfolding ms_tick_def
  by (auto dest!: tick_peers_keeps) (meson ms_keeps_trans stun_maintenance_keeps restore_home_keeps close_idle_keeps)

section \<open>Received packets\<close>

text \<open>As \<open>ms_keeps\<close>, but direct addresses in \<open>D\<close> may be new.\<close>

definition ms_adds :: "(bytes \<times> socket_addr) set \<Rightarrow> magicsock \<Rightarrow> magicsock \<Rightarrow> bool" where
  "ms_adds D m m' \<longleftrightarrow> (ms_inv m \<longrightarrow> ms_inv m') \<and> delivered m' = delivered m \<and> directs m' \<subseteq> directs m \<union> D
     \<and> sm_filter m' = sm_filter m \<and> mg_ip_sink m' = mg_ip_sink m"

lemma ms_adds_keeps: "ms_keeps m m' \<Longrightarrow> ms_adds D m m'"
  by (auto simp: ms_adds_def ms_keeps_def)

lemma ms_adds_trans: "ms_adds D a b \<Longrightarrow> ms_adds D b c \<Longrightarrow> ms_adds D a c"
  by (auto simp: ms_adds_def)

lemma ms_adds_put:
  assumes "map_of (sm_peers m) k = Some p" "\<And>l. peer_ok l k p \<Longrightarrow> peer_ok l k q"
    and "\<And>b. p_best q = Some b \<Longrightarrow> (k, ba_addr b) \<in> directs m \<union> D"
  shows "ms_adds D m (put_peer k q m)"
proof -
  have "directs (put_peer k q m) \<subseteq> directs m \<union> D" using assms(3) by (intro directs_put) auto
  then show ?thesis using ms_inv_put [of m k q] assms(2) ms_inv_peer [OF _ assms(1)] by (simp add: ms_adds_def)
qed

lemma note_path_adds:
  "ms_adds ({k} \<times> {a. path = UdpPath a}) m (note_path k path now m)" (is "ms_adds ?D _ _")
proof (cases "\<exists>a p. path = UdpPath a \<and> map_of (sm_peers m) k = Some p")
  case True
  then obtain a p where a: "path = UdpPath a" and p: "map_of (sm_peers m) k = Some p" by blast
  have "ms_adds ?D m (put_peer k (p\<lparr>p_best := Some b\<rparr>) m)" if "ba_addr b = a" for b
    using a that by (intro ms_adds_put [OF p]) auto
  then show ?thesis using a p
    by (simp add: note_path_def Let_def ms_adds_keeps split: option.split)
qed (auto simp: note_path_def ms_adds_keeps split: ms_path.split option.split)

lemma ms_adds_mono: "ms_adds D m m' \<Longrightarrow> D \<subseteq> D' \<Longrightarrow> ms_adds D' m m'"
  by (auto simp: ms_adds_def)

lemma ms_adds_seq: "ms_keeps m a \<Longrightarrow> ms_adds D a b \<Longrightarrow> ms_keeps b c \<Longrightarrow> ms_adds D m c"
  by (auto simp: ms_adds_def ms_keeps_def)

text \<open>
  A WireGuard message that peer \<open>k\<close> authenticated: an accepted initiation, response or transport
  message; and a disco pong of peer \<open>k\<close> that answers a ping sent to address \<open>a\<close>.
\<close>

definition wg_from :: "ms_env \<Rightarrow> bytes \<Rightarrow> instant \<Rightarrow> magicsock \<Rightarrow> bytes \<Rightarrow> bool" where
  "wg_from E pkt now m k \<longleftrightarrow> (\<exists>p. map_of (sm_peers m) k = Some p \<and>
     ((\<exists>ci resp t. consume_initiation (me_prims E) (mg_node_key m) pkt = Some (Inr ci) \<and> ci_peer_public ci = k
         \<and> accept_initiation (me_prims E) (me_wg E (mg_draws m)) ci now (p_tunn p) = Some (Inr resp, t))
      \<or> (\<exists>idx out t. indexed_peer pkt m = Some (idx, k)
         \<and> consume_response (me_prims E) pkt now (p_tunn p) = Some (Inr out, t))
      \<or> (\<exists>idx ip t. indexed_peer pkt m = Some (idx, k)
         \<and> consume_transport (me_prims E) pkt now (p_tunn p) = (Inr ip, t))))"

definition pong_from :: "ms_env \<Rightarrow> bytes \<Rightarrow> magicsock \<Rightarrow> bytes \<Rightarrow> socket_addr \<Rightarrow> bool" where
  "pong_from E pkt m k a \<longleftrightarrow> (\<exists>d txid src p sent. sender_key pkt = Some d \<and> map_of (sm_by_disco m) d = Some k
     \<and> disco_open (me_prims E) (mg_disco_key m) d pkt = Inr (Pong txid src)
     \<and> map_of (sm_peers m) k = Some p \<and> map_of (p_pings p) txid = Some (a, sent))"

definition confirmed :: "ms_env \<Rightarrow> ms_path \<Rightarrow> bytes \<Rightarrow> instant \<Rightarrow> magicsock \<Rightarrow> (bytes \<times> socket_addr) set" where
  "confirmed E path pkt now m = {(k, a). path = UdpPath a \<and> wg_from E pkt now m k \<or> pong_from E pkt m k a}"

text \<open>
  A packet the handler may deliver: decrypted by the tunnel of the peer its index names, with a source
  address in one of that peer's prefixes, and allowed by the installed filter.
\<close>

definition authorised :: "ms_env \<Rightarrow> bytes \<Rightarrow> instant \<Rightarrow> magicsock \<Rightarrow> bytes \<Rightarrow> bool" where
  "authorised E pkt now m ip \<longleftrightarrow> (\<exists>idx key p t src c f. receiver_index pkt = Some idx \<and> map_of (sm_by_index m) idx = Some key
     \<and> map_of (sm_peers m) key = Some p \<and> consume_transport (me_prims E) pkt now (p_tunn p) = (Inr (Some ip), t)
     \<and> ip_src ip = Some src \<and> c \<in> set (p_allowed_ips p) \<and> cidr_hit c src
     \<and> sm_filter m = Some f \<and> filter_allows f ip)"

lemma handle_initiation_adds:
  assumes "handle_initiation E path pkt now m = Some m'"
  shows "ms_adds (confirmed E path pkt now m) m m'"
proof (cases "\<exists>ci p. consume_initiation (me_prims E) (mg_node_key m) pkt = Some (Inr ci) \<and> map_of (sm_peers m) (ci_peer_public ci) = Some p")
  case True
  then obtain ci p where ci: "consume_initiation (me_prims E) (mg_node_key m) pkt = Some (Inr ci)"
    and p: "map_of (sm_peers m) (ci_peer_public ci) = Some p" by blast
  let ?k = "ci_peer_public ci"
  from assms ci p obtain r t where acc: "accept_initiation (me_prims E) (me_wg E (mg_draws m)) ci now (p_tunn p) = Some (r, t)"
    and m': "m' = (case r of Inl _ \<Rightarrow> put_peer ?k (p\<lparr>p_tunn := t\<rparr>) (drawn m)
      | Inr resp \<Rightarrow> send_reply E ?k path resp (note_path ?k path now (refresh_indices ?k (put_peer ?k (p\<lparr>p_tunn := t\<rparr>) (drawn m)))))"
    by (auto simp: handle_initiation_def Let_def)
  have "ms_keeps (drawn m) (put_peer ?k (p\<lparr>p_tunn := t\<rparr>) (drawn m))"
    using p accept_initiation_effect(1,2) [OF acc] by (intro put_tunn_keeps(1)) simp_all
  then have k: "ms_keeps m (put_peer ?k (p\<lparr>p_tunn := t\<rparr>) (drawn m))" by (rule ms_keeps_trans [OF ms_keeps_drawn])
  show ?thesis
  proof (cases r)
    case (Inl e)
    then show ?thesis using m' k by (simp add: ms_adds_keeps)
  next
    case (Inr resp)
    have "{?k} \<times> {a. path = UdpPath a} \<subseteq> confirmed E path pkt now m"
      using ci p acc Inr by (auto simp: confirmed_def wg_from_def)
    then have n: "ms_adds (confirmed E path pkt now m) x (note_path ?k path now x)" for x
      by (rule ms_adds_mono [OF note_path_adds])
    show ?thesis unfolding m' Inr sum.case
      by (rule ms_adds_seq [OF ms_keeps_trans [OF k refresh_indices_keeps] n send_reply_keeps])
  qed
next
  case False
  then have "m' = m" using assms unfolding handle_initiation_def Let_def
    by (cases "consume_initiation (me_prims E) (mg_node_key m) pkt") (auto split: sum.splits option.splits)
  then show ?thesis by (simp add: ms_adds_keeps)
qed

lemma drop_index_keeps [simp]: "ms_keeps m (m\<lparr>sm_by_index := AList.delete i (sm_by_index m)\<rparr>)"
  using snd_set_delete [of i "sm_by_index m"]
  by (auto simp: ms_keeps_def ms_inv_def names_peers_def delivered_def directs_def)

lemma handle_response_adds:
  assumes "handle_response E path pkt now m = Some m'"
  shows "ms_adds (confirmed E path pkt now m) m m'"
proof (cases "\<exists>idx k p. indexed_peer pkt m = Some (idx, k) \<and> map_of (sm_peers m) k = Some p")
  case True
  then obtain idx k p where i: "indexed_peer pkt m = Some (idx, k)" and p: "map_of (sm_peers m) k = Some p" by blast
  from assms i p obtain r t where con: "consume_response (me_prims E) pkt now (p_tunn p) = Some (r, t)"
    and m': "m' = (case r of Inl _ \<Rightarrow> put_peer k (p\<lparr>p_tunn := t\<rparr>) m
      | Inr out \<Rightarrow> send_all E k now out (note_path k path now (refresh_indices k (put_peer k (p\<lparr>p_tunn := t\<rparr>) m))))"
    by (auto simp: handle_response_def Let_def)
  have k: "ms_keeps m (put_peer k (p\<lparr>p_tunn := t\<rparr>) m)"
    using p consume_response_effect [OF con] by (intro put_tunn_keeps(1)) simp_all
  show ?thesis
  proof (cases r)
    case (Inl e)
    then show ?thesis using m' k by (simp add: ms_adds_keeps)
  next
    case (Inr out)
    have "{k} \<times> {a. path = UdpPath a} \<subseteq> confirmed E path pkt now m"
      using i p con Inr by (auto simp: confirmed_def wg_from_def)
    then have n: "ms_adds (confirmed E path pkt now m) x (note_path k path now x)" for x
      by (rule ms_adds_mono [OF note_path_adds])
    show ?thesis unfolding m' Inr sum.case
      by (rule ms_adds_seq [OF ms_keeps_trans [OF k refresh_indices_keeps] n send_all_keeps])
  qed
qed (use assms in \<open>auto simp: handle_response_def ms_adds_keeps split: option.splits\<close>)

lemma handle_pong_adds:
  assumes "sender_key pkt = Some d" "map_of (sm_by_disco m) d = Some k"
    and "disco_open (me_prims E) (mg_disco_key m) d pkt = Inr (Pong txid src)"
  shows "ms_adds (confirmed E path pkt now m) m (handle_pong k txid now m)"
proof (cases "\<exists>p a s. map_of (sm_peers m) k = Some p \<and> map_of (p_pings p) txid = Some (a, s)")
  case True
  then obtain p a s where p: "map_of (sm_peers m) k = Some p" and a: "map_of (p_pings p) txid = Some (a, s)" by blast
  have c: "(k, a) \<in> confirmed E path pkt now m" using assms p a by (auto simp: confirmed_def pong_from_def)
  have "ms_adds (confirmed E path pkt now m) m (put_peer k (p\<lparr>p_pings := x, p_best := Some b\<rparr>) m)" if "ba_addr b = a" for b x
    using c that by (intro ms_adds_put [OF p]) auto
  moreover have "ms_adds (confirmed E path pkt now m) m (put_peer k (p\<lparr>p_pings := x\<rparr>) m)" for x
    by (rule ms_adds_keeps, rule ms_keeps_put [OF p]) simp_all
  ultimately show ?thesis using p a by (simp add: handle_pong_def Let_def)
qed (auto simp: handle_pong_def ms_adds_keeps split: option.split)

lemma handle_ping_keeps [simp]: "ms_keeps m (handle_ping E k path txid now m)"
  by (auto simp: handle_ping_def Let_def split: ms_path.split option.split intro: ms_keeps_trans [OF send_disco_keeps send_ping_keeps])

lemma handle_call_me_maybe_keeps [simp]: "ms_keeps m (handle_call_me_maybe E k eps now m)"
proof (cases "map_of (sm_peers m) k")
  case (Some p)
  have "ms_keeps m (put_peer k (p\<lparr>p_endpoints := push_endpoints eps (p_endpoints p)\<rparr>) m)"
    by (rule ms_keeps_put [OF Some]) simp_all
  then show ?thesis using Some ms_keeps_trans [OF _ ping_all_endpoints_keeps]
    by (simp add: handle_call_me_maybe_def)
qed (simp add: handle_call_me_maybe_def)

lemma handle_disco_adds: "ms_adds (confirmed E path pkt now m) m (handle_disco E path pkt now m)"
  by (auto simp: handle_disco_def ms_adds_keeps intro!: handle_pong_adds split: option.split sum.split message.split)

text \<open>A transport message delivers at most one packet, an authorised one.\<close>

lemma handle_transport_effect:
  "ms_adds (confirmed E path pkt now m) m (handle_transport E path pkt now m)
    \<or> (\<exists>ip n. authorised E pkt now m ip \<and> ms_adds (confirmed E path pkt now m) m n
        \<and> handle_transport E path pkt now m = n\<lparr>mg_out := mg_out n @ [IpSink ip]\<rparr>)"
proof (cases "\<exists>idx k p. indexed_peer pkt m = Some (idx, k) \<and> map_of (sm_peers m) k = Some p")
  case True
  then obtain idx k p where i: "indexed_peer pkt m = Some (idx, k)" and p: "map_of (sm_peers m) k = Some p" by blast
  obtain r t where con: "consume_transport (me_prims E) pkt now (p_tunn p) = (r, t)"
    by (cases "consume_transport (me_prims E) pkt now (p_tunn p)")
  note tk = put_tunn_keeps [OF p consume_transport_frame [OF con] consume_transport_inv [OF _ con]]
  have n: "ms_adds (confirmed E path pkt now m) x (note_path k path now x)" if "r = Inr y" for x y
    using i p con that by (intro ms_adds_mono [OF note_path_adds]) (auto simp: confirmed_def wg_from_def)
  consider (err) e where "r = Inl e" | (keep) "r = Inr None" | (ip) ip where "r = Inr (Some ip)"
    by (metis sum.exhaust option.exhaust)
  then show ?thesis
  proof cases
    case err
    then show ?thesis using i p con tk(1) by (simp add: handle_transport_def ms_adds_keeps)
  next
    case keep
    then show ?thesis using i p con ms_adds_seq [OF tk(1) n [OF keep] ms_keeps_refl]
      by (simp add: handle_transport_def)
  next
    case (ip ip)
    let ?p = "p\<lparr>p_tunn := t, p_last_activity := Some now\<rparr>"
    let ?n = "note_path k path now (put_peer k ?p m)"
    have a: "ms_adds (confirmed E path pkt now m) m ?n" by (rule ms_adds_seq [OF tk(2) n [OF ip] ms_keeps_refl])
    have f: "sm_filter ?n = sm_filter m" using a by (simp add: ms_adds_def)
    have unf: "handle_transport E path pkt now m = (if \<not> allowed_source ?p ip then put_peer k ?p m
      else if (case sm_filter m of Some f \<Rightarrow> filter_allows f ip | None \<Rightarrow> False) \<and> mg_ip_sink ?n
        then ?n\<lparr>mg_out := mg_out ?n @ [IpSink ip]\<rparr> else ?n)"
      using i p con ip f by (simp add: handle_transport_def Let_def)
    have auth: "authorised E pkt now m ip"
      if "allowed_source ?p ip" "case sm_filter m of Some f \<Rightarrow> filter_allows f ip | None \<Rightarrow> False"
      using that i p con ip unfolding authorised_def
      by (auto simp: allowed_source_def indexed_peer_def list_ex_iff bind_eq_Some_conv split: option.splits)
    show ?thesis using a auth tk(2) unfolding unf by (auto simp: ms_adds_keeps)
  qed
qed (auto simp: handle_transport_def ms_adds_keeps split: option.split)

end
