(* ===== verification/Magicsock_Props.thy ===== *)
theory Magicsock_Props
  imports Magicsock_Inv
begin

text \<open>
  Properties of the packet mover: routing, the operations as steps of one state with their invariant,
  what may reach the stack, which direct paths are used, and the way of a packet from one node's stack
  to the other's.
\<close>

section \<open>Operations as steps\<close>

datatype ms_op =
    SetPeers "node list"
  | PeersChanged "node list"
  | PeersRemoved "(int \<times> bytes) list" "int list"
  | ApplyPatches "(int \<times> bytes) list" "peer_change list"
  | SetNodeKey key_pair
  | SetPacketFilter filter_t
  | SetDerpMap derp_map
  | SetIpSink
  | SetEndpointsChanged
  | ConnectHomeDerp int
  | ProbeStart instant
  | SendIp bytes instant
  | UdpDatagram bytes socket_addr instant
  | DerpPacket int bytes bytes instant
  | TickAll instant
  | Shutdown

text \<open>The state after an operation; one that panics leaves the state as it was.\<close>

fun ms_step :: "ms_env \<Rightarrow> ms_op \<Rightarrow> magicsock \<Rightarrow> magicsock" where
  "ms_step E (SetPeers ns) m = set_peers E ns m"
| "ms_step E (PeersChanged ns) m = peers_changed E ns m"
| "ms_step E (PeersRemoved ids is) m = peers_removed ids is m"
| "ms_step E (ApplyPatches ids pcs) m = apply_patches (me_hex E) ids pcs m"
| "ms_step E (SetNodeKey key) m = set_node_key E key m"
| "ms_step E (SetPacketFilter f) m = set_packet_filter f m"
| "ms_step E (SetDerpMap dm) m = set_derp_map dm m"
| "ms_step E SetIpSink m = set_ip_sink m"
| "ms_step E SetEndpointsChanged m = set_endpoints_changed m"
| "ms_step E (ConnectHomeDerp r) m = connect_home_derp E r m"
| "ms_step E (ProbeStart now) m = probe_start E now m"
| "ms_step E (SendIp pkt now) m = (case send_ip E pkt now m of None \<Rightarrow> m | Some m' \<Rightarrow> m')"
| "ms_step E (UdpDatagram pkt from now) m = (case udp_datagram E pkt from now m of None \<Rightarrow> m | Some m' \<Rightarrow> m')"
| "ms_step E (DerpPacket r src pkt now) m = (case handle_packet E (DerpPath r src) pkt now m of None \<Rightarrow> m | Some m' \<Rightarrow> m')"
| "ms_step E (TickAll now) m = (case ms_tick E now m of None \<Rightarrow> m | Some m' \<Rightarrow> m')"
| "ms_step E Shutdown m = ms_shut m"

text \<open>The packet an operation receives, with the path it came by.\<close>

fun received :: "ms_op \<Rightarrow> (ms_path \<times> bytes \<times> instant) option" where
  "received (UdpDatagram pkt from now) = Some (UdpPath from, pkt, now)"
| "received (DerpPacket r src pkt now) = Some (DerpPath r src, pkt, now)"
| "received _ = None"

lemma handle_packet_effect:
  assumes "handle_packet E path pkt now m = Some m'"
  shows "ms_adds (confirmed E path pkt now m) m m' \<or> (\<exists>ip n. authorised E pkt now m ip
    \<and> ms_adds (confirmed E path pkt now m) m n \<and> m' = n\<lparr>mg_out := mg_out n @ [IpSink ip]\<rparr>)"
  using assms handle_disco_adds [of E path pkt now m] handle_initiation_adds [of E path pkt now m m']
    handle_response_adds [of E path pkt now m m'] handle_transport_effect [of E path pkt now m]
  by (auto simp: handle_packet_def ms_adds_keeps split: option.splits if_splits)

lemma delivered_sink: "delivered (n\<lparr>mg_out := mg_out n @ [IpSink ip]\<rparr>) = delivered n @ [ip]"
  by (simp add: delivered_def List.map_filter_def)

lemma directs_out [simp]: "directs (n\<lparr>mg_out := x\<rparr>) = directs n"
  by (simp add: directs_def)

text \<open>What one received packet may change.\<close>

lemma receive_effect:
  assumes "handle_packet E path pkt now m = Some m'"
  shows "ms_inv m \<longrightarrow> ms_inv m'" "directs m' \<subseteq> directs m \<union> confirmed E path pkt now m"
    "delivered m' = delivered m \<or> (\<exists>ip. authorised E pkt now m ip \<and> delivered m' = delivered m @ [ip])"
  using handle_packet_effect [OF assms] by (auto simp: ms_adds_def delivered_sink)

lemma other_steps:
  assumes "received op = None"
  shows "(ms_inv m \<longrightarrow> ms_inv (ms_step E op m)) \<and> delivered (ms_step E op m) = delivered m
    \<and> directs (ms_step E op m) \<subseteq> directs m"
proof -
  have keep: "ms_keeps m m' \<Longrightarrow> (ms_inv m \<longrightarrow> ms_inv m') \<and> delivered m' = delivered m \<and> directs m' \<subseteq> directs m" for m'
    by (simp add: ms_keeps_def)
  have probe: "ms_keeps m (probe_start E now m)" for now
    unfolding probe_start_def
    by (rule ms_keeps_trans [OF _ stun_maintenance_keeps]) (simp add: ms_keeps_def delivered_def directs_def)
  have upd: "(ms_inv m \<longrightarrow> ms_inv m') \<and> delivered m' = delivered m \<and> directs m' \<subseteq> directs m"
    if "sm_peers m' = sm_peers m" "sm_by_index m' = sm_by_index m" "mg_node_key m' = mg_node_key m"
      "mg_derps m' = mg_derps m \<or> mg_derps m' = []" "mg_out m' = mg_out m" for m'
  proof -
    have "ms_inv m \<Longrightarrow> ms_inv m'" using that(4) by (elim disjE) (simp_all add: ms_inv_def that(1-3))
    then show ?thesis using that(1,5) by (simp add: delivered_def directs_def)
  qed
  show ?thesis
  proof (cases op)
    case (SendIp pkt now)
    have "ms_keeps m (ms_step E op m)"
      unfolding SendIp by (cases "send_ip E pkt now m") (auto intro: send_ip_keeps)
    then show ?thesis by (rule keep)
  next
    case (TickAll now)
    have "ms_keeps m (ms_step E op m)"
      unfolding TickAll by (cases "ms_tick E now m") (auto intro: ms_tick_keeps)
    then show ?thesis by (rule keep)
  next
    case (UdpDatagram pkt addr now)
    then show ?thesis using assms by simp
  next
    case (DerpPacket r src pkt now)
    then show ?thesis using assms by simp
  qed ((simp only: ms_step.simps, rule keep, simp add: probe; fail)
    | (simp only: ms_step.simps, rule upd; simp add: set_packet_filter_def set_derp_map_def set_ip_sink_def
        set_endpoints_changed_def ms_shut_def; fail))+
qed

lemma ms_step_inv: "ms_inv m \<Longrightarrow> ms_inv (ms_step E op m)"
proof (cases "received op")
  case None
  then show "ms_inv m \<Longrightarrow> ms_inv (ms_step E op m)" using other_steps by blast
next
  case (Some x)
  then show "ms_inv m \<Longrightarrow> ms_inv (ms_step E op m)"
    using receive_effect(1) handle_stun_keeps [unfolded ms_keeps_def]
    by (cases op) (auto simp: udp_datagram_def split: option.split if_splits)
qed

lemma ms_start_inv: "ms_inv (ms_start nk dk port ip)"
  by (simp add: ms_inv_def ms_start_def names_peers_def)

interpretation ms: step_invariant "\<lambda>m. \<exists>nk dk port ip. m = ms_start nk dk port ip" "ms_step E" ms_inv for E
  by unfold_locales (auto intro: ms_start_inv ms_step_inv)

section \<open>Routing\<close>

text \<open>The walk over the table as a walk over the prefixes that contain the destination.\<close>

definition better :: "u8 \<times> bytes \<Rightarrow> (u8 \<times> bytes) option \<Rightarrow> (u8 \<times> bytes) option" where
  "better x best = (case best of None \<Rightarrow> Some x | Some (b, k) \<Rightarrow> if b < fst x then Some x else Some (b, k))"

definition candidates :: "ip_addr \<Rightarrow> (bytes \<times> peer) list \<Rightarrow> (u8 \<times> bytes) list" where
  "candidates dst ps = concat (map (\<lambda>(k, p). map (\<lambda>c. (snd c, k)) (filter (\<lambda>c. cidr_hit c dst) (p_allowed_ips p))) ps)"

lemma route_ips_fold:
  "route_ips dst key cs best = fold better (map (\<lambda>c. (snd c, key)) (filter (\<lambda>c. cidr_hit c dst) cs)) best"
  by (induction cs arbitrary: best) (auto simp: better_def split: option.splits)

lemma route_peers_fold: "route_peers dst ps best = fold better (candidates dst ps) best"
  by (induction dst ps best rule: route_peers.induct) (simp_all add: candidates_def route_ips_fold)

lemma fold_better_Some:
  "fold better xs (Some y) = Some z \<Longrightarrow> z \<in> insert y (set xs) \<and> (\<forall>x\<in>insert y (set xs). fst x \<le> fst z)"
proof (induction xs arbitrary: y)
  case (Cons x xs)
  have "better x (Some y) = Some (if fst y < fst x then x else y)" by (cases y) (simp add: better_def)
  then show ?case using Cons.IH [of "if fst y < fst x then x else y"] Cons.prems by (auto split: if_splits)
qed simp

lemma fold_better:
  "case fold better xs None of None \<Rightarrow> xs = [] | Some z \<Rightarrow> z \<in> set xs \<and> (\<forall>x\<in>set xs. fst x \<le> fst z)"
proof (cases xs)
  case (Cons x ys)
  have "fold better ys (Some y) \<noteq> None" for y
    by (induction ys arbitrary: y) (auto simp: better_def split: prod.split)
  then obtain z where "fold better ys (Some x) = Some z" by blast
  then show ?thesis using fold_better_Some [of ys x z] Cons by (simp add: better_def)
qed simp

lemma candidatesI:
  assumes "(k, p) \<in> set ps" "c \<in> set (p_allowed_ips p)" "cidr_hit c dst"
  shows "(snd c, k) \<in> set (candidates dst ps)"
proof -
  let ?f = "\<lambda>(k, p). map (\<lambda>c. (snd c, k)) (filter (\<lambda>c. cidr_hit c dst) (p_allowed_ips p))"
  have "set (candidates dst ps) = (\<Union>x\<in>set ps. set (?f x))" by (simp add: candidates_def)
  moreover have "(snd c, k) \<in> set (?f (k, p))" using assms(2,3) by simp
  ultimately show ?thesis using UN_I [OF assms(1)] by metis
qed

lemma candidatesE:
  assumes "x \<in> set (candidates dst ps)"
  obtains k p c where "(k, p) \<in> set ps" "c \<in> set (p_allowed_ips p)" "cidr_hit c dst" "x = (snd c, k)"
  using assms by (auto simp: candidates_def)

text \<open>
  C19: Routing is longest-prefix match: a destination has no route exactly when no peer's prefix contains it,
  and otherwise the chosen peer has a prefix that contains it and no peer has a longer one, whatever
  the order in which the table is walked.
\<close>

theorem route_longest_prefix:
  "case route m dst of
     None \<Rightarrow> \<forall>(k, p)\<in>set (sm_peers m). \<forall>c\<in>set (p_allowed_ips p). \<not> cidr_hit c dst
   | Some key \<Rightarrow> \<exists>p c. (key, p) \<in> set (sm_peers m) \<and> c \<in> set (p_allowed_ips p) \<and> cidr_hit c dst
       \<and> (\<forall>(k', p')\<in>set (sm_peers m). \<forall>c'\<in>set (p_allowed_ips p'). cidr_hit c' dst \<longrightarrow> snd c' \<le> snd c)"
proof (cases "fold better (candidates dst (sm_peers m)) None")
  case None
  then have "set (candidates dst (sm_peers m)) = {}" using fold_better [of "candidates dst (sm_peers m)"] by simp
  then have "\<not> cidr_hit c dst" if "(k, p) \<in> set (sm_peers m)" "c \<in> set (p_allowed_ips p)" for k p c
    using that candidatesI by fastforce
  then show ?thesis using None by (auto simp: route_def route_peers_fold)
next
  case (Some z)
  then have z: "z \<in> set (candidates dst (sm_peers m))" "\<forall>x\<in>set (candidates dst (sm_peers m)). fst x \<le> fst z"
    using fold_better [of "candidates dst (sm_peers m)"] by simp_all
  obtain k p c where kpc: "(k, p) \<in> set (sm_peers m)" "c \<in> set (p_allowed_ips p)" "cidr_hit c dst" "z = (snd c, k)"
    by (rule candidatesE [OF z(1)])
  have "\<forall>(k', p')\<in>set (sm_peers m). \<forall>c'\<in>set (p_allowed_ips p'). cidr_hit c' dst \<longrightarrow> snd c' \<le> snd c"
    using z(2) kpc(4) by (fastforce dest: candidatesI)
  then have "\<exists>p c. (k, p) \<in> set (sm_peers m) \<and> c \<in> set (p_allowed_ips p) \<and> cidr_hit c dst
       \<and> (\<forall>(k', p')\<in>set (sm_peers m). \<forall>c'\<in>set (p_allowed_ips p'). cidr_hit c' dst \<longrightarrow> snd c' \<le> snd c)"
    using kpc by (intro exI [of _ p] exI [of _ c] conjI)
  then show ?thesis using Some kpc(4) by (simp add: route_def route_peers_fold)
qed

definition demo_table :: magicsock where
  "demo_table = (ms_start (kp_from_secret demo_prims (replicate 32 2)) (kp_from_secret demo_prims (replicate 32 3)) 41641 None)
     \<lparr>sm_peers := [([1], (new_peer demo_prims (kp_from_secret demo_prims (replicate 32 2)) [1])\<lparr>p_allowed_ips := [(V4 0x64400000, 10)]\<rparr>),
        ([2], (new_peer demo_prims (kp_from_secret demo_prims (replicate 32 2)) [2])\<lparr>p_allowed_ips := [(V4 0x64400005, 32)]\<rparr>)]\<rparr>"

theorem route_longest_prefix_witness:
  "route demo_table (V4 0x64400005) = Some [2]
   \<and> (\<exists>p c. ([2], p) \<in> set (sm_peers demo_table) \<and> c \<in> set (p_allowed_ips p) \<and> cidr_hit c (V4 0x64400005)
       \<and> (\<forall>(k', p')\<in>set (sm_peers demo_table). \<forall>c'\<in>set (p_allowed_ips p'). cidr_hit c' (V4 0x64400005) \<longrightarrow> snd c' \<le> snd c))"
proof -
  have "route demo_table (V4 0x64400005) = Some [2]" by code_simp
  then show ?thesis using route_longest_prefix [of demo_table "V4 0x64400005"] by simp
qed

section \<open>What reaches the stack\<close>

lemma deliver_step:
  "delivered (ms_step E op m) = delivered m \<or> (\<exists>path pkt now ip. received op = Some (path, pkt, now)
     \<and> authorised E pkt now m ip \<and> delivered (ms_step E op m) = delivered m @ [ip])"
proof (cases "received op")
  case None
  then show ?thesis using other_steps by blast
next
  case (Some x)
  obtain path pkt now where x: "x = (path, pkt, now)" by (cases x)
  have "ms_step E op m = m \<or> ms_step E op m = handle_stun pkt now m \<or> handle_packet E path pkt now m = Some (ms_step E op m)"
    using Some x by (cases op) (auto simp: udp_datagram_def split: option.split)
  then show ?thesis using Some x receive_effect(3) handle_stun_keeps [unfolded ms_keeps_def] by metis
qed

lemma direct_step:
  "directs (ms_step E op m) \<subseteq> directs m
     \<union> (case received op of None \<Rightarrow> {} | Some (path, pkt, now) \<Rightarrow> confirmed E path pkt now m)"
proof (cases "received op")
  case None
  then show ?thesis using other_steps by simp
next
  case (Some x)
  obtain path pkt now where x: "x = (path, pkt, now)" by (cases x)
  have "ms_step E op m = m \<or> ms_step E op m = handle_stun pkt now m \<or> handle_packet E path pkt now m = Some (ms_step E op m)"
    using Some x by (cases op) (auto simp: udp_datagram_def split: option.split)
  then have "directs (ms_step E op m) \<subseteq> directs m \<union> confirmed E path pkt now m"
    using receive_effect(2) handle_stun_keeps [unfolded ms_keeps_def] by (metis le_supI1 order_refl)
  then show ?thesis using Some x by simp
qed

text \<open>
  C3: In every state the operations can reach, a step hands at most one packet to the stack, and only on
  receipt of a transport message: the index names a stored peer, the tunnel with exactly that peer's
  key decrypted and authenticated the packet, its source address lies in one of the peer's prefixes,
  of length at least 1, and the installed packet filter allows it. Before a filter is installed nothing
  is delivered.
\<close>

theorem delivered_packets_authorised:
  "let m = fold (ms_step E) ops (ms_start nk dk port lip); m' = ms_step E op m
   in delivered m' = delivered m
      \<or> (\<exists>path pkt now idx key p t ip src c f.
           received op = Some (path, pkt, now) \<and> delivered m' = delivered m @ [ip]
           \<and> receiver_index pkt = Some idx \<and> map_of (sm_by_index m) idx = Some key
           \<and> map_of (sm_peers m) key = Some p \<and> tn_peer_public (p_tunn p) = key \<and> tn_local (p_tunn p) = mg_node_key m
           \<and> consume_transport (me_prims E) pkt now (p_tunn p) = (Inr (Some ip), t)
           \<and> ip_src ip = Some src \<and> c \<in> set (p_allowed_ips p) \<and> snd c \<noteq> 0 \<and> cidr_hit c src
           \<and> sm_filter m = Some f \<and> filter_allows f ip)"
proof -
  let ?m = "fold (ms_step E) ops (ms_start nk dk port lip)"
  have inv: "ms_inv ?m" by (rule ms.run_from_init) blast
  consider "delivered (ms_step E op ?m) = delivered ?m"
    | (new) path pkt now ip where "received op = Some (path, pkt, now)" "authorised E pkt now ?m ip"
      "delivered (ms_step E op ?m) = delivered ?m @ [ip]"
    using deliver_step [of E op ?m] by blast
  then show ?thesis
  proof cases
    case new
    from new(2) obtain idx key p t src c f where a: "receiver_index pkt = Some idx" "map_of (sm_by_index ?m) idx = Some key"
      "map_of (sm_peers ?m) key = Some p" "consume_transport (me_prims E) pkt now (p_tunn p) = (Inr (Some ip), t)"
      "ip_src ip = Some src" "c \<in> set (p_allowed_ips p)" "cidr_hit c src" "sm_filter ?m = Some f" "filter_allows f ip"
      unfolding authorised_def by blast
    have "peer_ok (mg_node_key ?m) key p" by (rule ms_inv_peer [OF inv a(3)])
    then have "tn_peer_public (p_tunn p) = key" "tn_local (p_tunn p) = mg_node_key ?m" "snd c \<noteq> 0"
      using a(6) by (auto simp: peer_ok_def list_all_iff)
    then show ?thesis unfolding Let_def using new a by blast
  qed (simp add: Let_def)
qed

text \<open>
  C24: A direct path is only ever learnt from evidence: when a step makes an address the direct address
  of a peer, it was so before, or the step received a WireGuard message from that address which the
  peer authenticated, or a disco pong of that peer, sealed with the disco key control gave for it, that
  answers a ping this node sent to that address.
\<close>

theorem direct_paths_confirmed:
  assumes "(k, a) \<in> directs (ms_step E op m)"
  shows "(k, a) \<in> directs m
   \<or> (\<exists>pkt now. received op = Some (UdpPath a, pkt, now) \<and> wg_from E pkt now m k)
   \<or> (\<exists>path pkt now. received op = Some (path, pkt, now) \<and> pong_from E pkt m k a)"
  using subsetD [OF direct_step assms] by (auto simp: confirmed_def split: option.splits)

text \<open>A node with one peer, linked by a session, and the environment of the witnesses.\<close>

definition demo_menv :: ms_env where
  "demo_menv = \<lparr>me_prims = demo_prims, me_hex = demo_hex, me_rnd = (\<lambda>i n. replicate n (word_of_nat i)),
     me_wg = (\<lambda>_. demo_env), me_clock = (\<lambda>_. 0), me_spawn_ok = (\<lambda>_. True), me_guess_local_ip = None\<rparr>"

definition demo_addr :: socket_addr where
  "demo_addr = SocketAddr (V4 0x0a000001) 41641"

definition demo_pkt :: bytes where
  "demo_pkt = [0x45, 0, 0, 20, 0, 0, 0, 0, 64, 1, 0, 0, 100, 64, 0, 1, 100, 64, 0, 2]"

definition demo_peer :: "bytes \<Rightarrow> ip_addr \<Rightarrow> best_addr option \<Rightarrow> peer" where
  "demo_peer key ip best = (new_peer demo_prims (kp_from_secret demo_prims (replicate 32 2)) key)
     \<lparr>p_allowed_ips := [(ip, 32)], p_tunn := demo_linked, p_best := best\<rparr>"

definition demo_ms :: "ip_addr \<Rightarrow> best_addr option \<Rightarrow> magicsock" where
  "demo_ms ip best = (ms_start (kp_from_secret demo_prims (replicate 32 2)) (kp_from_secret demo_prims (replicate 32 3)) 41641 None)
     \<lparr>sm_peers := [(replicate 32 7, demo_peer (replicate 32 7) ip best)], sm_by_index := [(1, replicate 32 7)],
      sm_filter := Some allow_all, mg_ip_sink := True\<rparr>"

theorem direct_paths_confirmed_witness:
  "(replicate 32 7, demo_addr) \<in> directs (demo_ms (V4 0x64400001) None)
   \<or> (\<exists>pkt now. received (UdpDatagram (fst (wg_seal demo_prims demo_session demo_pkt)) demo_addr 0) = Some (UdpPath demo_addr, pkt, now)
        \<and> wg_from demo_menv pkt now (demo_ms (V4 0x64400001) None) (replicate 32 7))
   \<or> (\<exists>path pkt now. received (UdpDatagram (fst (wg_seal demo_prims demo_session demo_pkt)) demo_addr 0) = Some (path, pkt, now)
        \<and> pong_from demo_menv pkt (demo_ms (V4 0x64400001) None) (replicate 32 7) demo_addr)"
proof (rule direct_paths_confirmed)
  let ?m = "ms_step demo_menv (UdpDatagram (fst (wg_seal demo_prims demo_session demo_pkt)) demo_addr 0) (demo_ms (V4 0x64400001) None)"
  have "map_option (\<lambda>p. map_option ba_addr (p_best p)) (map_of (sm_peers ?m) (replicate 32 7)) = Some (Some demo_addr)"
    by code_simp
  then show "(replicate 32 7, demo_addr) \<in> directs ?m" by (auto simp: directs_def)
qed

text \<open>
  C21: Under every sequence of operations from a new node on: peers are stored once each, under their own key, with a
  tunnel between the node's current key and theirs that satisfies the tunnel's invariant and with no
  prefix of length 0; the index table names stored peers only; and no DERP queue exceeds 64 commands.
\<close>

theorem ms_run_invariant: "ms_inv (fold (ms_step E) ops (ms_start nk dk port lip))"
  by (rule ms.run_from_init) blast

section \<open>From stack to stack\<close>

lemma encapsulate_live:
  assumes "tn_current t = Some s" "duration_since now (s_created s) < REJECT_AFTER_TIME"
    and "\<not> s_is_initiator s \<or> duration_since now (s_created s) < REKEY_AFTER_TIME \<and> s_send_counter s + 1 < REKEY_AFTER_MESSAGES"
  shows "\<exists>t'. encapsulate P env pkt now t = Some ([fst (wg_seal P s pkt)], t')"
  using assms by (auto simp: encapsulate_def wg_seal_def Let_def)

lemma refresh_indices_peers [simp]: "sm_peers (refresh_indices k m) = sm_peers m" "mg_out (refresh_indices k m) = mg_out m"
  by (simp_all add: refresh_indices_def Let_def split: option.split)

lemma send_ip_direct:
  assumes "ip_dst pkt = Some dst" "route m dst = Some key" "map_of (sm_peers m) key = Some p"
    and "p_best p = Some b" "now < ba_trust_until b"
    and "encapsulate (me_prims E) (me_wg E (mg_draws m)) pkt now (p_tunn p) = Some ([msg], t)"
  shows "\<exists>m'. send_ip E pkt now m = Some m' \<and> mg_out m' = mg_out m @ [UdpSend msg (ba_addr b)]"
proof -
  let ?p = "p\<lparr>p_last_activity := Some now, p_tunn := t\<rparr>"
  let ?m = "refresh_indices key (put_peer key ?p (drawn m))"
  have tr: "trusted now ?p" "the (p_best ?p) = b" using assms(4,5) by (simp_all add: trusted_def)
  have "send_all E key now [msg] ?m = udp_send msg (ba_addr b) ?m"
    using tr by (simp add: send_all_def send_wg_def)
  moreover have "maybe_start_discovery E key now (udp_send msg (ba_addr b) ?m) = udp_send msg (ba_addr b) ?m"
    using tr by (simp add: maybe_start_discovery_def udp_send_def)
  ultimately have "send_ip E pkt now m = Some (udp_send msg (ba_addr b) ?m)"
    using assms by (simp add: send_ip_def)
  then show ?thesis by (simp add: udp_send_def drawn_def)
qed

lemma sealed_classified:
  assumes "aead_ok P" "length (s_send_key s) = 32"
  shows "message_type (fst (wg_seal P s pkt)) = Some MSG_TRANSPORT" "\<not> is_disco (fst (wg_seal P s pkt))"
    "receiver_index (fst (wg_seal P s pkt)) = Some (s_remote_index s)"
proof -
  obtain m s' where m: "wg_seal P s pkt = (m, s')" by (cases "wg_seal P s pkt")
  note lay = wg_seal_layout [OF m]
  have "16 \<le> length (drop 16 m)"
    using lay length_aead_encrypt [OF assms, of "s_send_counter s" "pkt @ replicate ((length pkt + 15) div 16 * 16 - length pkt) 0" "[]"]
    by (simp add: TAG_LEN_def)
  then have l: "32 \<le> length m" using lay by linarith
  have h: "m ! 0 = MSG_TRANSPORT" "m ! 1 = 0" "m ! 2 = 0" "m ! 3 = 0" "slice 4 8 m = u32_to_le (s_remote_index s)"
    using lay by blast+
  show t: "message_type (fst (wg_seal P s pkt)) = Some MSG_TRANSPORT"
    using h l m by (simp add: message_type_def wg_consts)
  have "take (length DISCO_MAGIC) m \<noteq> DISCO_MAGIC"
    using h(1) l by (cases m) (auto simp: DISCO_MAGIC_def wg_consts)
  then show "\<not> is_disco (fst (wg_seal P s pkt))" using m by (simp add: is_disco_def)
  show "receiver_index (fst (wg_seal P s pkt)) = Some (s_remote_index s)"
    using t m h by (simp add: receiver_index_def wg_consts from_to_bytes)
qed

lemma note_path_frame [simp]:
  "mg_ip_sink (note_path k path now m) = mg_ip_sink m" "sm_filter (note_path k path now m) = sm_filter m"
  "mg_out (note_path k path now m) = mg_out m"
  by (simp_all add: note_path_def Let_def split: ms_path.split option.split)

text \<open>
  C2: A packet crosses the tunnel: when the sender routes its destination to a peer with a live session and
  a confirmed direct address, it sends exactly one datagram to that address; and when the receiver's
  table has the other end of that session under the datagram's index, the counter is fresh, the packet's
  source is allowed for that peer and its filter allows the packet, receiving the datagram (by any path)
  delivers exactly the original packet to the receiver's stack.
\<close>

theorem packet_crosses_tunnel:
  assumes "aead_ok (me_prims E)" "me_prims F = me_prims E"
    and a: "ip_dst pkt = Some dst" "route ma dst = Some kb" "map_of (sm_peers ma) kb = Some pb"
      "p_best pb = Some b" "now < ba_trust_until b" "tn_current (p_tunn pb) = Some sa"
      "duration_since now (s_created sa) < REKEY_AFTER_TIME" "s_send_counter sa + 1 < REKEY_AFTER_MESSAGES"
    and s: "length (s_send_key sa) = 32" "s_recv_key sb = s_send_key sa" "s_remote_index sa = s_local_index sb"
      "fst (check_and_update (s_replay sb) (s_send_counter sa))"
    and b: "map_of (sm_by_index mb) (s_local_index sb) = Some ka" "map_of (sm_peers mb) ka = Some pa"
      "find_slot (p_tunn pa) (s_local_index sb) = Some (sb, w)" "duration_since now' (s_created sb) < REJECT_AFTER_TIME"
      "ip_packet_len pkt = Some (length pkt)" "allowed_source pa pkt" "sm_filter mb = Some f" "filter_allows f pkt" "mg_ip_sink mb"
  shows "\<exists>msg ma' mb'. send_ip E pkt now ma = Some ma' \<and> mg_out ma' = mg_out ma @ [UdpSend msg (ba_addr b)]
    \<and> handle_packet F path msg now' mb = Some mb' \<and> mg_out mb' = mg_out mb @ [IpSink pkt]"
proof -
  let ?msg = "fst (wg_seal (me_prims E) sa pkt)"
  have "duration_since now (s_created sa) < REJECT_AFTER_TIME"
    using a(7) by (simp add: REKEY_AFTER_TIME_def REJECT_AFTER_TIME_def from_secs_def)
  then obtain t' where "encapsulate (me_prims E) (me_wg E (mg_draws ma)) pkt now (p_tunn pb) = Some ([?msg], t')"
    using encapsulate_live [OF a(6)] a(7,8) by blast
  then obtain ma' where A: "send_ip E pkt now ma = Some ma'" "mg_out ma' = mg_out ma @ [UdpSend ?msg (ba_addr b)]"
    using send_ip_direct [OF a(1-5)] by blast
  have "\<exists>rw. check_and_update (s_replay sb) (s_send_counter sa) = (True, rw)"
    using s(4) by (cases "check_and_update (s_replay sb) (s_send_counter sa)") simp
  then obtain t where con: "consume_transport (me_prims F) ?msg now' (p_tunn pa) = (Inr (Some pkt), t)"
    using transport_opens [OF assms(1) s(1-3) b(3,4) _ b(5)] assms(2) by (metis prod.collapse)
  note cl = sealed_classified [OF assms(1) s(1), of pkt]
  have "indexed_peer ?msg mb = Some (s_local_index sb, ka)" using cl(3) s(3) b(1) by (simp add: indexed_peer_def)
  moreover have "allowed_source (pa\<lparr>p_tunn := t, p_last_activity := Some now'\<rparr>) pkt"
    using b(6) by (simp add: allowed_source_def split: option.splits)
  ultimately have "\<exists>mb'. handle_packet F path ?msg now' mb = Some mb' \<and> mg_out mb' = mg_out mb @ [IpSink pkt]"
    using cl(1,2) b(2,7-9) con by (simp add: handle_packet_def handle_transport_def Let_def wg_consts)
  then show ?thesis using A by blast
qed

theorem packet_crosses_tunnel_witness:
  "\<exists>msg ma' mb'. send_ip demo_menv demo_pkt 0 (demo_ms (V4 0x64400002) (Some \<lparr>ba_addr = demo_addr, ba_trust_until = 1, ba_latency = 0\<rparr>)) = Some ma'
    \<and> mg_out ma' = mg_out (demo_ms (V4 0x64400002) (Some \<lparr>ba_addr = demo_addr, ba_trust_until = 1, ba_latency = 0\<rparr>)) @ [UdpSend msg demo_addr]
    \<and> handle_packet demo_menv (DerpPath 1 []) msg 0 (demo_ms (V4 0x64400001) None) = Some mb'
    \<and> mg_out mb' = mg_out (demo_ms (V4 0x64400001) None) @ [IpSink demo_pkt]"
proof -
  let ?b = "\<lparr>ba_addr = demo_addr, ba_trust_until = 1, ba_latency = 0\<rparr>"
  let ?A = "demo_ms (V4 0x64400002) (Some ?b)" and ?B = "demo_ms (V4 0x64400001) None"
  have 1: "ip_dst demo_pkt = Some (V4 0x64400002)" "route ?A (V4 0x64400002) = Some (replicate 32 7)"
    "ip_packet_len demo_pkt = Some (length demo_pkt)" "allowed_source (demo_peer (replicate 32 7) (V4 0x64400001) None) demo_pkt"
    "filter_allows allow_all demo_pkt" by code_simp+
  show ?thesis
    using packet_crosses_tunnel [where E = demo_menv and F = demo_menv and pkt = demo_pkt and ma = ?A and mb = ?B
        and dst = "V4 0x64400002" and kb = "replicate 32 7" and ka = "replicate 32 7" and now = 0 and now' = 0
        and pb = "demo_peer (replicate 32 7) (V4 0x64400002) (Some ?b)" and b = ?b and w = Current
        and pa = "demo_peer (replicate 32 7) (V4 0x64400001) None" and sa = demo_session and sb = demo_session
        and f = allow_all and path = "DerpPath 1 []"]
      1 demo_prims_ok demo_linked_slot demo_fresh
    by (simp add: demo_menv_def crypto_ok_def demo_ms_def demo_peer_def demo_linked_def demo_session_def duration_since_def
        REKEY_AFTER_TIME_def REJECT_AFTER_TIME_def REKEY_AFTER_MESSAGES_def from_secs_def)
qed

end
