(* ===== verification/Derp_Worker.thy ===== *)
theory Derp_Worker
  imports Magicsock_Props
begin

text \<open>
  The thread \<^verbatim>\<open>derp_loop\<close> of crates/tsnode/src/magicsock.rs that owns one DERP connection: it
  connects with a growing pause between attempts, hands received packets to the packet handler, sends
  the commands of its channel, and replaces a connection that no longer answers. Its local variables
  are the record \<open>derp_worker\<close>; one attempt to connect, one turn of the pause and one turn of the inner loop are the events
  of its life, with the operations of the other threads on the socket in between. The channel is the queue of the region's handle
  in the state of the socket while the thread's own handle is there, and what was left in it afterwards.
\<close>

section \<open>The thread\<close>

text \<open>
  \<open>wk_until\<close>: the end of the pause after a failed attempt; \<open>wk_left\<close>: what was in the channel when its handle was removed from
  the table, \<open>None\<close> while the handle is there; \<open>wk_sent\<close> records what was written to the connections that were given up.
\<close>

record derp_worker =
  wk_region :: int
  wk_client :: "derp_client option"
  wk_connected :: bool
  wk_preferred :: bool
  wk_backoff :: duration
  wk_until :: "instant option"
  wk_pending_ping :: "instant option"
  wk_left :: "derp_cmd list option"
  wk_exited :: bool
  wk_panicked :: bool
  wk_sent :: bytes

definition worker_start :: "int \<Rightarrow> derp_worker" where
  "worker_start region =
     \<lparr>wk_region = region, wk_client = None, wk_connected = False, wk_preferred = False, wk_backoff = from_secs 1, wk_until = None,
      wk_pending_ping = None, wk_left = None, wk_exited = False, wk_panicked = False, wk_sent = []\<rparr>"

definition worker_output :: "derp_worker \<Rightarrow> bytes" where
  "worker_output w = wk_sent w @ (case wk_client w of Some c \<Rightarrow> cn_out (dc_conn c) | None \<Rightarrow> [])"

text \<open>\<^verbatim>\<open>break\<close> to the next attempt; \<^verbatim>\<open>break 'outer\<close> and what follows the loop.\<close>

definition worker_reconnect :: "derp_worker \<Rightarrow> derp_worker" where
  "worker_reconnect w = w\<lparr>wk_client := None, wk_connected := False, wk_pending_ping := None, wk_sent := worker_output w\<rparr>"

definition worker_exit :: "derp_worker \<Rightarrow> derp_worker" where
  "worker_exit w = (worker_reconnect w)\<lparr>wk_until := None, wk_exited := True\<rparr>"

section \<open>The channel\<close>

text \<open>The commands in the channel and whether its sender is gone; \<open>put_channel\<close> is the channel after some were received.\<close>

definition channel :: "derp_worker \<Rightarrow> magicsock \<Rightarrow> derp_cmd list \<times> bool" where
  "channel w m =
     (case wk_left w of
        Some cmds \<Rightarrow> (cmds, True)
      | None \<Rightarrow> (case map_of (mg_derps m) (wk_region w) of Some h \<Rightarrow> (dh_queue h, False) | None \<Rightarrow> ([], True)))"

definition put_channel :: "derp_cmd list \<Rightarrow> derp_worker \<Rightarrow> magicsock \<Rightarrow> derp_worker \<times> magicsock" where
  "put_channel cmds w m =
     (if wk_left w = None then (w, m\<lparr>mg_derps := AList.map_entry (wk_region w) (\<lambda>h. h\<lparr>dh_queue := cmds\<rparr>) (mg_derps m)\<rparr>)
      else (w\<lparr>wk_left := Some cmds\<rparr>, m))"

text \<open>Whoever removes a handle from the table sends Close on its channel, if there is room, and drops the sender.\<close>

definition note_removal :: "magicsock \<Rightarrow> magicsock \<Rightarrow> derp_worker \<Rightarrow> derp_worker" where
  "note_removal m m' w =
     (case (wk_left w, map_of (mg_derps m) (wk_region w), map_of (mg_derps m') (wk_region w)) of
        (None, Some h, None) \<Rightarrow> w\<lparr>wk_left := Some (dh_queue (try_send DcClose h))\<rparr>
      | _ \<Rightarrow> w)"

section \<open>Connecting\<close>

definition worker_connect :: "io_kind + derp_client \<Rightarrow> instant \<Rightarrow> derp_worker \<Rightarrow> derp_worker" where
  "worker_connect attempt now w =
     (case attempt of
        Inl _ \<Rightarrow> w\<lparr>wk_until := Some (now + wk_backoff w)\<rparr>
      | Inr c \<Rightarrow>
          w\<lparr>wk_backoff := from_secs 1, wk_connected := True, wk_pending_ping := None,
            wk_client := Some (if wk_preferred w then snd (note_preferred True c) else c)\<rparr>)"

text \<open>
  A turn of the pause: \<open>now\<close> is the clock at the loop's test. \<^verbatim>\<open>recv_timeout\<close> returns the next command, or nothing when none
  has come; packets to send are dropped.
\<close>

definition wait_turn :: "instant \<Rightarrow> instant \<Rightarrow> derp_worker \<Rightarrow> magicsock \<Rightarrow> derp_worker \<times> magicsock" where
  "wait_turn until now w m =
     (if until \<le> now then (w\<lparr>wk_until := None, wk_backoff := min (wk_backoff w * 2) (from_secs 60)\<rparr>, m)
      else case channel w m of
        ([], gone) \<Rightarrow> (if gone then worker_exit w else w, m)
      | (DcSend _ _ # cmds, _) \<Rightarrow> put_channel cmds w m
      | (DcNotePreferred p # cmds, _) \<Rightarrow> put_channel cmds (w\<lparr>wk_preferred := p\<rparr>) m
      | (DcClose # cmds, _) \<Rightarrow> put_channel cmds (worker_exit w) m)"

section \<open>A turn of the inner loop\<close>

datatype drained = Drained | SendFailed | LeaveLoop

text \<open>\<^verbatim>\<open>try_recv\<close> until the channel is empty or the loop ends; \<open>gone\<close>: the sender is dropped. The second result is what is left.\<close>

fun drain_commands ::
    "derp_cmd list \<Rightarrow> bool \<Rightarrow> bool \<times> derp_client \<Rightarrow> drained \<times> derp_cmd list \<times> bool \<times> derp_client" where
  "drain_commands [] gone (preferred, c) = (if gone then LeaveLoop else Drained, [], preferred, c)"
| "drain_commands (DcSend dst pkt # cmds) gone (preferred, c) =
     (case send_packet dst pkt c of
        (Inl _, c) \<Rightarrow> (SendFailed, cmds, preferred, c)
      | (Inr _, c) \<Rightarrow> drain_commands cmds gone (preferred, c))"
| "drain_commands (DcNotePreferred p # cmds) gone (preferred, c) =
     drain_commands cmds gone (p, snd (note_preferred p c))"
| "drain_commands (DcClose # cmds) gone (preferred, c) = (LeaveLoop, cmds, preferred, c)"

text \<open>The end of a turn: the connection is checked.\<close>

definition check_alive :: "bytes \<Rightarrow> instant \<Rightarrow> derp_client \<Rightarrow> derp_worker \<Rightarrow> derp_worker" where
  "check_alive rnd now c w =
     (case wk_pending_ping w of
        Some t \<Rightarrow>
          (if DERP_PING_TIMEOUT < duration_since now t then worker_reconnect (w\<lparr>wk_client := Some c\<rparr>) else w\<lparr>wk_client := Some c\<rparr>)
      | None \<Rightarrow>
          (if DERP_PING_IDLE < duration_since now (dc_last_activity c) then
             (case derp_ping rnd now c of
                (Inl _, c) \<Rightarrow> worker_reconnect (w\<lparr>wk_client := Some c\<rparr>)
              | (Inr _, c) \<Rightarrow> w\<lparr>wk_client := Some c, wk_pending_ping := Some now\<rparr>)
           else w\<lparr>wk_client := Some c\<rparr>))"

text \<open>The second half of a turn: the channel, then the check.\<close>

definition serve_channel :: "bytes \<Rightarrow> instant \<Rightarrow> derp_client \<Rightarrow> derp_worker \<Rightarrow> magicsock \<Rightarrow> derp_worker \<times> magicsock" where
  "serve_channel rnd now c w m =
     (case channel w m of
        (cmds, gone) \<Rightarrow>
          (case drain_commands cmds gone (wk_preferred w, c) of
             (d, rest, preferred, c) \<Rightarrow>
               (case put_channel rest (w\<lparr>wk_preferred := preferred, wk_client := Some c\<rparr>) m of
                  (w, m) \<Rightarrow>
                    (case d of
                       LeaveLoop \<Rightarrow> (worker_exit w, m)
                     | SendFailed \<Rightarrow> (worker_reconnect w, m)
                     | Drained \<Rightarrow> (check_alive rnd now c w, m)))))"

record turn_env =
  tu_clk :: "nat \<Rightarrow> instant"
  tu_recv :: instant
  tu_now :: instant
  tu_end :: instant
  tu_rnd :: bytes

definition worker_turn ::
    "ms_env \<Rightarrow> turn_env \<Rightarrow> derp_client \<Rightarrow> derp_worker \<Rightarrow> magicsock \<Rightarrow> (derp_worker \<times> magicsock) option" where
  "worker_turn E u c w m =
     (if mg_shutdown m then Some (worker_exit w, m)
      else
        case derp_recv (tu_clk u) (from_millis 20) (tu_recv u) c of
          (Inl _, c) \<Rightarrow> Some (worker_reconnect (w\<lparr>wk_client := Some c\<rparr>), m)
        | (Inr (Some EvRestarting), c) \<Rightarrow> Some (worker_reconnect (w\<lparr>wk_client := Some c\<rparr>), m)
        | (Inr (Some (EvPacket src data)), c) \<Rightarrow>
            map_option (serve_channel (tu_rnd u) (tu_end u) c w)
              (handle_packet E (DerpPath (wk_region w) src) data (tu_now u) m)
        | (Inr (Some (EvPong _)), c) \<Rightarrow>
            Some (serve_channel (tu_rnd u) (tu_end u) c (w\<lparr>wk_pending_ping := None\<rparr>) m)
        | (Inr _, c) \<Rightarrow> Some (serve_channel (tu_rnd u) (tu_end u) c w m))"

section \<open>The life of the thread\<close>

datatype worker_ev =
    ConnectEv "io_kind + derp_client" instant
  | WaitEv instant
  | TurnEv turn_env
  | OtherEv ms_op

text \<open>
  What other threads see: the flag \<^verbatim>\<open>connected\<close> shared with the region's handle, and the removal of the handle when the
  thread ends, both only while the table's handle is this thread's (\<^verbatim>\<open>std::ptr::eq\<close> of the flags).
\<close>

definition publish :: "derp_worker \<Rightarrow> magicsock \<Rightarrow> magicsock" where
  "publish w m =
     (if wk_left w \<noteq> None then m
      else if wk_exited w then m\<lparr>mg_derps := AList.delete (wk_region w) (mg_derps m)\<rparr>
      else m\<lparr>mg_derps := AList.map_entry (wk_region w) (\<lambda>h. h\<lparr>dh_connected := wk_connected w\<rparr>) (mg_derps m)\<rparr>)"

definition published :: "derp_worker \<times> magicsock \<Rightarrow> derp_worker \<times> magicsock" where
  "published = (\<lambda>(w, m). (w, publish w m))"

text \<open>
  One event: an attempt to connect, a turn of the pause, a turn of the inner loop, or an operation of another thread. A thread that
  has left the loop does nothing; a packet handler that panics ends it with its flag and its handle left as they are.
\<close>

definition worker_step :: "ms_env \<Rightarrow> worker_ev \<Rightarrow> derp_worker \<times> magicsock \<Rightarrow> derp_worker \<times> magicsock" where
  "worker_step E ev = (\<lambda>(w, m).
     case ev of
       OtherEv op \<Rightarrow> (let m' = ms_step E op m in (if wk_exited w then w else note_removal m m' w, m'))
     | ConnectEv attempt now \<Rightarrow>
         (if wk_exited w \<or> wk_client w \<noteq> None \<or> wk_until w \<noteq> None then (w, m)
          else published (if mg_shutdown m then worker_exit w else worker_connect attempt now w, m))
     | WaitEv now \<Rightarrow>
         (case wk_until w of Some until \<Rightarrow> published (wait_turn until now w m) | None \<Rightarrow> (w, m))
     | TurnEv u \<Rightarrow>
         (case wk_client w of
            Some c \<Rightarrow>
              (case worker_turn E u c w m of
                 Some wm \<Rightarrow> published wm
               | None \<Rightarrow> ((worker_reconnect w)\<lparr>wk_connected := wk_connected w, wk_exited := True, wk_panicked := True\<rparr>, m))
          | None \<Rightarrow> (w, m)))"

section \<open>Its life cycle\<close>

definition worker_inv :: "derp_worker \<Rightarrow> bool" where
  "worker_inv w \<longleftrightarrow>
     from_secs 1 \<le> wk_backoff w \<and> wk_backoff w \<le> from_secs 60
     \<and> (wk_pending_ping w \<noteq> None \<longrightarrow> wk_connected w)
     \<and> (wk_panicked w \<longrightarrow> wk_exited w)
     \<and> (wk_exited w \<or> wk_until w \<noteq> None \<longrightarrow> wk_client w = None)
     \<and> (\<not> wk_panicked w \<longrightarrow> (wk_connected w \<longleftrightarrow> wk_client w \<noteq> None))"

lemma worker_inv_simps:
  "worker_inv w \<Longrightarrow> worker_inv (worker_exit w)" "worker_inv w \<Longrightarrow> worker_inv (worker_reconnect w)"
  "worker_inv (w\<lparr>wk_preferred := p\<rparr>) = worker_inv w" "worker_inv (w\<lparr>wk_left := l\<rparr>) = worker_inv w"
  by (auto simp: worker_inv_def worker_exit_def worker_reconnect_def)

lemma worker_inv_removal: "worker_inv w \<Longrightarrow> worker_inv (note_removal m m' w)"
  by (auto simp: note_removal_def worker_inv_simps split: option.split)

lemma worker_inv_put: "worker_inv w \<Longrightarrow> worker_inv (fst (put_channel cmds w m))"
  by (simp add: put_channel_def worker_inv_simps)

lemma worker_inv_wait: "worker_inv w \<Longrightarrow> worker_inv (fst (wait_turn until now w m))"
  by (auto simp: wait_turn_def worker_inv_simps worker_inv_put split: prod.split list.split derp_cmd.split)
    (auto simp: worker_inv_def from_secs_def from_millis_def)

lemma worker_inv_connect: "worker_inv w \<Longrightarrow> \<not> wk_exited w \<Longrightarrow> wk_client w = None \<Longrightarrow> wk_until w = None \<Longrightarrow> worker_inv (worker_connect a now w)"
  by (cases a) (simp_all add: worker_connect_def worker_inv_def from_secs_def from_millis_def)

lemma worker_inv_client: "worker_inv w \<Longrightarrow> wk_client w \<noteq> None \<Longrightarrow> wk_connected w \<and> \<not> wk_exited w \<and> \<not> wk_panicked w"
  by (auto simp: worker_inv_def)

lemma worker_inv_set_client: "worker_inv w \<Longrightarrow> wk_client w \<noteq> None \<Longrightarrow> worker_inv (w\<lparr>wk_client := Some c\<rparr>)"
  by (auto simp: worker_inv_def)

lemma worker_inv_check:
  assumes "worker_inv w" "wk_client w \<noteq> None"
  shows "worker_inv (check_alive rnd now c w)"
proof -
  have "worker_inv (w\<lparr>wk_client := Some c, wk_pending_ping := Some now\<rparr>)" for c
    using worker_inv_set_client [OF assms, of c] worker_inv_client [OF assms] by (simp add: worker_inv_def)
  then show ?thesis using worker_inv_set_client [OF assms]
    by (auto simp: check_alive_def worker_inv_simps split: option.split prod.split sum.split)
qed

lemma worker_inv_serve:
  assumes "worker_inv w" "wk_client w \<noteq> None"
  shows "worker_inv (fst (serve_channel rnd now c w m))"
proof -
  obtain cmds gone where ch: "channel w m = (cmds, gone)" by (cases "channel w m")
  obtain d rest p c' where dr: "drain_commands cmds gone (wk_preferred w, c) = (d, rest, p, c')" by (metis surj_pair)
  obtain w' m' where pc: "put_channel rest (w\<lparr>wk_preferred := p, wk_client := Some c'\<rparr>) m = (w', m')"
    by (cases "put_channel rest (w\<lparr>wk_preferred := p, wk_client := Some c'\<rparr>) m")
  have w: "worker_inv w'" "wk_client w' \<noteq> None"
    using worker_inv_put [of "w\<lparr>wk_preferred := p, wk_client := Some c'\<rparr>" rest m] pc assms
      worker_inv_set_client [of "w\<lparr>wk_preferred := p\<rparr>" c']
    by (auto simp: worker_inv_simps put_channel_def split: if_splits)
  then show ?thesis using worker_inv_simps(1,2) [OF w(1)] worker_inv_check [OF w]
    by (simp add: serve_channel_def ch dr pc split: drained.split)
qed

lemma worker_inv_turn:
  assumes "worker_inv w" "wk_client w \<noteq> None" "worker_turn E u c w m = Some wm"
  shows "worker_inv (fst wm)"
proof -
  have p: "worker_inv (w\<lparr>wk_pending_ping := None\<rparr>)" "wk_client (w\<lparr>wk_pending_ping := None\<rparr>) \<noteq> None"
    using assms(1,2) by (auto simp: worker_inv_def)
  show ?thesis
    using assms(3) worker_inv_serve [OF assms(1,2)] worker_inv_serve [OF p] worker_inv_simps(1) [OF assms(1)]
      worker_inv_simps(2) [OF worker_inv_set_client [OF assms(1,2)]]
    by (auto simp: worker_turn_def split: if_splits prod.splits sum.splits option.splits derp_event.splits)
qed

lemma worker_inv_panic: "worker_inv w \<Longrightarrow> wk_client w \<noteq> None \<Longrightarrow>
    worker_inv ((worker_reconnect w)\<lparr>wk_connected := wk_connected w, wk_exited := True, wk_panicked := True\<rparr>)"
  by (auto simp: worker_inv_def worker_reconnect_def)

lemma fst_published [simp]: "fst (published wm) = fst wm"
  by (cases wm) (simp add: published_def)

lemma worker_inv_step:
  assumes "worker_inv (fst wm)"
  shows "worker_inv (fst (worker_step E ev wm))"
proof -
  obtain w m where wm: "wm = (w, m)" "worker_inv w" using assms by (cases wm) auto
  show ?thesis
  proof (cases ev)
    case (TurnEv u)
    then show ?thesis using wm worker_inv_turn [OF wm(2)] worker_inv_panic [OF wm(2)]
      by (auto simp: worker_step_def split: option.split)
  qed (use wm in \<open>auto simp: worker_step_def Let_def worker_inv_removal worker_inv_simps worker_inv_connect worker_inv_wait split: option.split\<close>)
qed

interpretation wk: step_invariant "\<lambda>wm. \<exists>region m. wm = (worker_start region, m)" "worker_step E" "\<lambda>wm. worker_inv (fst wm)" for E
  by unfold_locales (auto simp: worker_inv_step, simp add: worker_inv_def worker_start_def from_secs_def from_millis_def)

text \<open>
  Whatever happens to a DERP connection, through every sequence of attempts, pauses, turns and operations of other threads: the pause
  between attempts stays between 1 and 60 seconds, a ping is outstanding only on a connection, a thread that pauses or has left its
  loop holds no connection, and, unless the packet handler panicked, the thread reports a connection exactly while it has one.
\<close>

lemma worker_run_inv: "worker_inv (fst (fold (worker_step E) evs (worker_start region, m)))"
  by (rule wk.run_from_init) blast

section \<open>Handlers only add to the channels\<close>

definition derps_grow :: "magicsock \<Rightarrow> magicsock \<Rightarrow> bool" where
  "derps_grow m m' \<longleftrightarrow> (\<forall>r h. map_of (mg_derps m) r = Some h \<longrightarrow> (\<exists>h' more. map_of (mg_derps m') r = Some h' \<and> dh_queue h' = dh_queue h @ more))"

lemma derps_grow_same [simp, intro]: "mg_derps m' = mg_derps m \<Longrightarrow> derps_grow m m'"
  by (simp add: derps_grow_def)

lemma derps_grow_trans: "derps_grow a b \<Longrightarrow> derps_grow b c \<Longrightarrow> derps_grow a c"
  unfolding derps_grow_def by (metis append_assoc)

lemma derps_grow_from: "mg_derps m = mg_derps m0 \<Longrightarrow> derps_grow m m' = derps_grow m0 m'"
  by (simp add: derps_grow_def)

lemma derps_grow_fold: "(\<And>x m. derps_grow m (f x m)) \<Longrightarrow> derps_grow m (fold f xs m)"
proof (induction xs arbitrary: m)
  case (Cons x xs)
  then show ?case using derps_grow_trans [of m "f x m"] by simp
qed simp

lemma derps_frame [simp]:
  "mg_derps (drawn m) = mg_derps m" "mg_derps (udp_send pkt a m) = mg_derps m" "mg_derps (put_peer k p m) = mg_derps m"
  "mg_derps (refresh_indices k m) = mg_derps m" "mg_derps (note_path k path now m) = mg_derps m"
  by (simp_all add: drawn_def udp_send_def put_peer_def refresh_indices_def note_path_def Let_def split: option.split ms_path.split)

lemma derp_send_grows [simp]: "derps_grow m (derp_send E r dst pkt m)"
  by (auto simp: derps_grow_def derp_send_def derp_entry_def try_send_def Let_def update_conv' split: option.splits)

lemma send_wg_grows [simp]: "derps_grow m (send_wg E k pkt now m)"
  by (simp add: send_wg_def split: option.split list.split)

lemma send_all_grows [simp]: "derps_grow m (send_all E k now out m)"
  unfolding send_all_def by (rule derps_grow_fold) simp

lemma send_reply_grows [simp]: "derps_grow m (send_reply E k path pkt m)"
  by (simp add: send_reply_def split: ms_path.split)

lemma send_disco_grows [simp]: "derps_grow m (send_disco E k path msg m)"
  using derps_grow_trans [OF derps_grow_same send_reply_grows, of "drawn m" m]
  by (simp add: send_disco_def Let_def split: option.split)

lemma send_ping_grows [simp]: "derps_grow m (send_ping E k a now m)"
  using derps_grow_trans [OF derps_grow_same send_disco_grows, of _ m]
  by (simp add: send_ping_def Let_def split: option.split)

lemma ping_all_endpoints_grows [simp]: "derps_grow m (ping_all_endpoints E k now m)"
proof -
  have "derps_grow m (fold (\<lambda>ep. send_ping E k ep now) eps (put_peer k p m))" for eps p
    using derps_grow_fold [of "\<lambda>ep. send_ping E k ep now" "put_peer k p m" eps] derps_grow_from [of "put_peer k p m" m] by simp
  then show ?thesis by (simp add: ping_all_endpoints_def split: option.split)
qed

lemma handle_disco_grows: "derps_grow m (handle_disco E path pkt now m)"
proof -
  have ping: "derps_grow m (handle_ping E k path t now m)" for k t
  proof -
    have "derps_grow m (send_ping E k a now (send_disco E k to msg m))" for a to msg
      by (rule derps_grow_trans [OF send_disco_grows send_ping_grows])
    then show ?thesis by (simp add: handle_ping_def Let_def split: ms_path.split option.split)
  qed
  have pong: "derps_grow m (handle_pong k t now m)" for k t
    by (simp add: handle_pong_def Let_def split: option.split prod.split)
  have "derps_grow m (handle_call_me_maybe E k eps now m)" for k eps
    using derps_grow_trans [OF derps_grow_same ping_all_endpoints_grows, of _ m]
    by (simp add: handle_call_me_maybe_def split: option.split)
  then show ?thesis using ping pong
    by (simp add: handle_disco_def split: option.split sum.split message.split)
qed

lemma handle_packet_grows:
  assumes "handle_packet E path pkt now m = Some m'"
  shows "derps_grow m m'"
proof -
  have reply: "derps_grow m (case a of Inl _ \<Rightarrow> put_peer k p (drawn m)
      | Inr resp \<Rightarrow> send_reply E k path resp (note_path k path now (refresh_indices k (put_peer k p (drawn m)))))" for a :: "'e + bytes" and k p
    using derps_grow_trans [OF derps_grow_same send_reply_grows, of _ m] by (cases a) simp_all
  have init: "derps_grow m n" if i: "handle_initiation E path pkt now m = Some n" for n
  proof -
    obtain r where r: "consume_initiation (me_prims E) (mg_node_key m) pkt = Some r"
      using i by (auto simp: handle_initiation_def bind_eq_Some_conv)
    show ?thesis using i r reply by (cases r) (auto simp: handle_initiation_def Let_def split: option.splits)
  qed
  have flush: "derps_grow m (case a of Inl _ \<Rightarrow> put_peer k p m
      | Inr out \<Rightarrow> send_all E k now out (note_path k path now (refresh_indices k (put_peer k p m))))" for a :: "'e + bytes list" and k p
    using derps_grow_trans [OF derps_grow_same send_all_grows, of _ m] by (cases a) simp_all
  have "handle_response E path pkt now m = Some n \<Longrightarrow> derps_grow m n" for n
    using flush by (auto simp: handle_response_def Let_def split: option.splits)
  moreover have "derps_grow m (handle_transport E path pkt now m)"
    by (auto simp: handle_transport_def Let_def split: sum.splits option.splits prod.splits)
  ultimately show ?thesis using assms init handle_disco_grows [of m E path pkt now]
    by (auto simp: handle_packet_def split: if_splits option.splits)
qed

section \<open>What is queued is sent\<close>

fun cmd_bytes :: "derp_cmd \<Rightarrow> bytes" where
  "cmd_bytes (DcSend dst pkt) = frame_bytes (FRAME_SEND_PACKET, dst @ pkt)"
| "cmd_bytes (DcNotePreferred p) = frame_bytes (FRAME_NOTE_PREFERRED, [if p then 1 else 0])"
| "cmd_bytes DcClose = []"

fun cmd_ok :: "derp_cmd \<Rightarrow> bool" where
  "cmd_ok (DcSend dst pkt) = (length pkt \<le> MAX_PACKET)"
| "cmd_ok (DcNotePreferred p) = True"
| "cmd_ok DcClose = False"

abbreviation "client_out c \<equiv> cn_out (dc_conn c)"

lemma drain_commands_append:
  assumes "list_all cmd_ok cmds" "cn_werr (dc_conn c) = None"
  shows "\<exists>p' c'. drain_commands (cmds @ later) gone (p, c) = drain_commands later gone (p', c')
    \<and> client_out c' = client_out c @ concat (map cmd_bytes cmds) \<and> cn_werr (dc_conn c') = None"
  using assms
proof (induction cmds arbitrary: p c)
  case (Cons cmd cmds)
  let ?c = "c\<lparr>dc_conn := (dc_conn c)\<lparr>cn_out := client_out c @ cmd_bytes cmd\<rparr>\<rparr>"
  show ?case using Cons.prems Cons.IH [of ?c]
    by (cases cmd) (simp_all add: send_packet_def note_preferred_def write_frame_def conn_write_all_def)
qed auto

lemma write_frame_out: "write_frame t b c = (r, c') \<Longrightarrow> cn_werr (dc_conn c) = None \<Longrightarrow>
    r = Inr () \<and> client_out c' = client_out c @ frame_bytes (t, b) \<and> cn_werr (dc_conn c') = None"
  by (auto simp: write_frame_ok)

lemma drain_commands_out:
  assumes "drain_commands cmds gone (p, c) = (d, rest, p', c')" "cn_werr (dc_conn c) = None"
  shows "\<exists>post. client_out c' = client_out c @ post" "cn_werr (dc_conn c') = None" "d = Drained \<Longrightarrow> rest = []"
proof -
  have "(\<exists>post. client_out c' = client_out c @ post) \<and> cn_werr (dc_conn c') = None \<and> (d = Drained \<longrightarrow> rest = [])"
    using assms
  proof (induction cmds gone "(p, c)" arbitrary: p c rule: drain_commands.induct)
    case (2 dst pkt cmds gone preferred c)
    then show ?case
      by (cases "MAX_PACKET < length pkt") (auto simp: send_packet_def write_frame_ok split: prod.splits)
  next
    case (3 q cmds gone preferred c)
    then show ?case by (auto simp: note_preferred_def write_frame_ok)
  qed (auto split: if_splits)
  then show "\<exists>post. client_out c' = client_out c @ post" "cn_werr (dc_conn c') = None" "d = Drained \<Longrightarrow> rest = []" by auto
qed

lemma read_frame_loop_out: "read_frame_loop clk dl i d = (r, d') \<Longrightarrow> client_out d' = client_out d \<and> cn_werr (dc_conn d') = cn_werr (dc_conn d)"
proof (induction clk dl i d arbitrary: r d' rule: read_frame_loop.induct)
  case (1 clk dl i d)
  have fill: "fill d = (x, d2) \<Longrightarrow> client_out d2 = client_out d \<and> cn_werr (dc_conn d2) = cn_werr (dc_conn d)" for x d2
    by (auto simp: fill_def dest!: conn_read_out split: prod.splits sum.splits if_splits)
  show ?case
  proof (cases "take_frame (dc_inbuf d) = Inr None \<and> \<not> dl \<le> clk i")
    case True
    obtain x d2 where f: "fill d = (x, d2)" by (cases "fill d")
    show ?thesis
    proof (cases "x = Inr True")
      case True
      with \<open>take_frame (dc_inbuf d) = Inr None \<and> \<not> dl \<le> clk i\<close> f
      have "read_frame_loop clk dl i d = read_frame_loop clk dl (Suc i) d2" by (subst read_frame_loop.simps) simp
      then have "read_frame_loop clk dl (Suc i) d2 = (r, d')" using "1.prems" by simp
      from "1.IH" [OF _ _ _ f [symmetric] _ _ this] show ?thesis
        using True fill [OF f] \<open>take_frame (dc_inbuf d) = Inr None \<and> \<not> dl \<le> clk i\<close> by simp
    next
      case False
      then have "d' = d2" using "1.prems" f \<open>take_frame (dc_inbuf d) = Inr None \<and> \<not> dl \<le> clk i\<close>
        by (subst (asm) read_frame_loop.simps) (auto split: sum.splits)
      then show ?thesis using fill [OF f] by simp
    qed
  next
    case False
    then show ?thesis using "1.prems"
      by (subst (asm) read_frame_loop.simps) (auto split: sum.splits option.splits if_splits)
  qed
qed

lemma derp_recv_out:
  assumes "derp_recv clk t now c = (Inr r, c1)" "cn_werr (dc_conn c) = None"
  shows "\<exists>pre. client_out c1 = client_out c @ pre" "cn_werr (dc_conn c1) = None"
proof -
  obtain x d where f: "read_frame clk t c = (x, d)" by (cases "read_frame clk t c")
  have d: "client_out d = client_out c" "cn_werr (dc_conn d) = None"
    using read_frame_loop_out [OF f [unfolded read_frame_def]] assms(2) by auto
  then show "\<exists>pre. client_out c1 = client_out c @ pre" "cn_werr (dc_conn c1) = None"
    using assms(1) f by (auto simp: derp_recv_def Let_def write_frame_ok split: sum.splits option.splits if_splits)
qed

lemma put_channel_frame [simp]: "wk_client (fst (put_channel cmds w m)) = wk_client w" "wk_sent (fst (put_channel cmds w m)) = wk_sent w"
  "wk_region (fst (put_channel cmds w m)) = wk_region w" "wk_pending_ping (fst (put_channel cmds w m)) = wk_pending_ping w"
  by (simp_all add: put_channel_def)

lemma worker_output_drop [simp]: "worker_output (worker_reconnect w) = worker_output w" "worker_output (worker_exit w) = worker_output w"
  by (simp_all add: worker_output_def worker_reconnect_def worker_exit_def)

text \<open>The check at the end of a turn writes a ping or nothing.\<close>

lemma check_alive_out:
  assumes "cn_werr (dc_conn c) = None"
  shows "worker_output (check_alive rnd now c w) = wk_sent w @ client_out c
    \<or> worker_output (check_alive rnd now c w) = wk_sent w @ client_out c @ frame_bytes (FRAME_PING, rnd)"
  using assms by (auto simp: check_alive_def worker_output_def worker_reconnect_def derp_ping_def write_frame_ok split: option.split)

text \<open>The second half of a turn sends the commands that were in the queue first, in order, whatever comes after them.\<close>

lemma serve_channel_sends:
  assumes "wk_left w = None" "map_of (mg_derps m) (wk_region w) = Some h" "dh_queue h = cmds @ later" "list_all cmd_ok cmds"
    and "cn_werr (dc_conn c) = None" "serve_channel rnd now c w m = (w', m')"
  shows "\<exists>post. worker_output w' = wk_sent w @ client_out c @ concat (map cmd_bytes cmds) @ post
      \<and> (later = [] \<longrightarrow> post \<in> {[], frame_bytes (FRAME_PING, rnd)})"
    "wk_client w' = None \<or> (\<exists>h'. map_of (mg_derps m') (wk_region w) = Some h' \<and> dh_queue h' = [])" "wk_left w' = None"
    "wk_region w' = wk_region w"
proof -
  obtain d rest p c' where dr: "drain_commands (cmds @ later) False (wk_preferred w, c) = (d, rest, p, c')" by (metis surj_pair)
  obtain p2 c2 where c2: "drain_commands later False (p2, c2) = (d, rest, p, c')" "client_out c2 = client_out c @ concat (map cmd_bytes cmds)"
    "cn_werr (dc_conn c2) = None"
    using drain_commands_append [OF assms(4,5), of later False "wk_preferred w"] dr by auto
  obtain post where post: "client_out c' = client_out c2 @ post" "cn_werr (dc_conn c') = None" "d = Drained \<Longrightarrow> rest = []"
    using drain_commands_out [OF c2(1,3)] by blast
  let ?w = "w\<lparr>wk_preferred := p, wk_client := Some c'\<rparr>"
  let ?m = "m\<lparr>mg_derps := AList.map_entry (wk_region w) (\<lambda>h. h\<lparr>dh_queue := rest\<rparr>) (mg_derps m)\<rparr>"
  have ch: "channel w m = (cmds @ later, False)" using assms(1-3) by (simp add: channel_def)
  have r: "(w', m') = (case d of LeaveLoop \<Rightarrow> worker_exit ?w | SendFailed \<Rightarrow> worker_reconnect ?w | Drained \<Rightarrow> check_alive rnd now c' ?w, ?m)"
    using assms(1,6) by (simp add: serve_channel_def ch dr put_channel_def split: drained.splits)
  have lat: "later = [] \<Longrightarrow> post = [] \<and> d = Drained" using c2(1) post(1) by simp
  have "worker_output ?w = wk_sent w @ client_out c @ concat (map cmd_bytes cmds) @ post" by (simp add: worker_output_def post(1) c2(2))
  then show "\<exists>post. worker_output w' = wk_sent w @ client_out c @ concat (map cmd_bytes cmds) @ post
      \<and> (later = [] \<longrightarrow> post \<in> {[], frame_bytes (FRAME_PING, rnd)})"
    using r lat check_alive_out [OF post(2), of rnd now ?w] by (cases d) (auto simp: post(1) c2(2))
  have left: "wk_left (check_alive rnd now c' ?w) = None" "wk_region (check_alive rnd now c' ?w) = wk_region w"
    using assms(1) by (simp_all add: check_alive_def worker_reconnect_def split: option.split prod.split sum.split)
  show "wk_client w' = None \<or> (\<exists>h'. map_of (mg_derps m') (wk_region w) = Some h' \<and> dh_queue h' = [])" "wk_left w' = None" "wk_region w' = wk_region w"
    using r left post(3) assms(1,2) by (cases d; simp add: worker_exit_def worker_reconnect_def map_of_map_entry)+
qed

lemma worker_turn_sends:
  assumes "wk_left w = None" "map_of (mg_derps m) (wk_region w) = Some h" "list_all cmd_ok (dh_queue h)" "wk_client w = Some c"
    and "\<not> mg_shutdown m" "derp_recv (tu_clk u) (from_millis 20) (tu_recv u) c = (Inr r, c1)" "r \<noteq> Some EvRestarting"
    and "cn_werr (dc_conn c) = None" "worker_turn E u c w m = Some (w', m')"
  shows "\<exists>pre post. worker_output w' = worker_output w @ pre @ concat (map cmd_bytes (dh_queue h)) @ post
      \<and> ((\<forall>src data. r \<noteq> Some (EvPacket src data)) \<longrightarrow> post \<in> {[], frame_bytes (FRAME_PING, tu_rnd u)})"
    "wk_client w' = None \<or> (\<exists>h'. map_of (mg_derps m') (wk_region w) = Some h' \<and> dh_queue h' = [])" "wk_left w' = None"
    "wk_region w' = wk_region w"
proof -
  obtain pre where pre: "client_out c1 = client_out c @ pre" "cn_werr (dc_conn c1) = None" using derp_recv_out [OF assms(6,8)] by blast
  obtain v n h2 later where s: "serve_channel (tu_rnd u) (tu_end u) c1 v n = (w', m')" "wk_left v = None" "wk_region v = wk_region w"
      "wk_sent v = wk_sent w" "map_of (mg_derps n) (wk_region w) = Some h2" "dh_queue h2 = dh_queue h @ later"
      "(\<forall>src data. r \<noteq> Some (EvPacket src data)) \<longrightarrow> later = []"
  proof (cases "\<exists>src data. r = Some (EvPacket src data)")
    case True
    then obtain src data n where "r = Some (EvPacket src data)" "handle_packet E (DerpPath (wk_region w) src) data (tu_now u) m = Some n"
        "serve_channel (tu_rnd u) (tu_end u) c1 w n = (w', m')"
      using assms(5,6,9) by (auto simp: worker_turn_def)
    moreover then obtain h2 later where "map_of (mg_derps n) (wk_region w) = Some h2" "dh_queue h2 = dh_queue h @ later"
      using handle_packet_grows assms(2) unfolding derps_grow_def by blast
    ultimately show ?thesis using that [of w n h2 later] assms(1) by auto
  next
    case False
    then have "serve_channel (tu_rnd u) (tu_end u) c1 w m = (w', m') \<or> serve_channel (tu_rnd u) (tu_end u) c1 (w\<lparr>wk_pending_ping := None\<rparr>) m = (w', m')"
      using assms(5-7,9) by (auto simp: worker_turn_def split: option.splits derp_event.splits)
    then show ?thesis using that [of w m h "[]"] that [of "w\<lparr>wk_pending_ping := None\<rparr>" m h "[]"] assms(1,2) by auto
  qed
  have m: "map_of (mg_derps n) (wk_region v) = Some h2" using s(3,5) by simp
  note o1 = serve_channel_sends [OF s(2) m s(6) assms(3) pre(2) s(1)]
  show "\<exists>pre post. worker_output w' = worker_output w @ pre @ concat (map cmd_bytes (dh_queue h)) @ post
      \<and> ((\<forall>src data. r \<noteq> Some (EvPacket src data)) \<longrightarrow> post \<in> {[], frame_bytes (FRAME_PING, tu_rnd u)})"
    using o1(1) s(4,7) pre(1) assms(4) by (auto simp: worker_output_def)
  show "wk_client w' = None \<or> (\<exists>h'. map_of (mg_derps m') (wk_region w) = Some h' \<and> dh_queue h' = [])" "wk_left w' = None"
    "wk_region w' = wk_region w"
    using o1(2-4) s(3) by simp_all
qed

text \<open>
  C34: A packet queued for a relay is sent to it by the next turn of the region's thread, whatever the turn receives: when the
  thread has a connection that takes writes, the queue of its handle has room and holds no Close and no packet over the limit, the socket is
  not shut down, and the turn meets no read error, no restart notice of the server and no panic of the packet handler, then the
  bytes written by the turn are those of its answer to a ping of the server if any, the commands that were queued before, and
  one frame with the destination's key and the packet, in this order; when the turn receives no packet, nothing but at most one ping
  follows them. After the turn the queue is empty, or the connection was given up.
\<close>

theorem relayed_packet_sent:
  assumes "fold (worker_step E) evs (worker_start region, m0) = (w, m)"
    and "map_of (mg_derps m) (wk_region w) = Some h" "length (dh_queue h) < DERP_QUEUE_LIMIT" "list_all cmd_ok (dh_queue h)"
    and "length pkt \<le> MAX_PACKET" "wk_left w = None" "wk_client w = Some c" "cn_werr (dc_conn c) = None"
    and "\<not> mg_shutdown m" "derp_recv (tu_clk u) (from_millis 20) (tu_recv u) c = (Inr r, c1)" "r \<noteq> Some EvRestarting"
    and "worker_step E (TurnEv u) (w, derp_send E (wk_region w) dst pkt m) = (w', m')" "\<not> wk_panicked w'"
  shows "(\<exists>pre post. worker_output w' = worker_output w @ pre @ concat (map cmd_bytes (dh_queue h)) @ frame_bytes (FRAME_SEND_PACKET, dst @ pkt) @ post
      \<and> ((\<forall>src data. r \<noteq> Some (EvPacket src data)) \<longrightarrow> post \<in> {[], frame_bytes (FRAME_PING, tu_rnd u)}))
    \<and> (wk_client w' = None \<or> (\<exists>h'. map_of (mg_derps m') (wk_region w) = Some h' \<and> dh_queue h' = []))"
proof -
  let ?m = "derp_send E (wk_region w) dst pkt m"
  have inv: "worker_inv w" using worker_run_inv [of E evs region m0] assms(1) by simp
  obtain h1 where h1: "map_of (mg_derps ?m) (wk_region w) = Some h1" "dh_queue h1 = dh_queue h @ [DcSend dst pkt]"
    using assms(2,3) by (simp add: derp_send_def derp_entry_def try_send_def drawn_def update_conv')
  have ok: "list_all cmd_ok (dh_queue h1)" using assms(4,5) h1(2) by simp
  have sd: "\<not> mg_shutdown ?m" using assms(9) by (simp add: derp_send_def drawn_def Let_def split: option.split)
  obtain m1 where t: "worker_turn E u c w ?m = Some (w', m1)" "m' = publish w' m1"
    using assms(7,12,13) by (auto simp: worker_step_def published_def split: option.splits)
  note s = worker_turn_sends [OF assms(6) h1(1) ok assms(7) sd assms(10,11,8) t(1)]
  have "worker_inv w'" using worker_inv_turn [OF inv _ t(1)] assms(7) by simp
  then have "wk_exited w' \<Longrightarrow> wk_client w' = None" by (simp add: worker_inv_def)
  then have "wk_client w' = None \<or> (\<exists>h'. map_of (mg_derps m') (wk_region w) = Some h' \<and> dh_queue h' = [])"
    using s(2-4) t(2) by (auto simp: publish_def map_of_map_entry)
  then show ?thesis using s(1) h1(2) by simp
qed

definition demo_handle :: derp_handle where
  "demo_handle =
     \<lparr>dh_queue = [DcNotePreferred True], dh_connected = False, dh_last_used = 0,
      dh_node = \<lparr>dn_name = [], dn_region_id = 1, dn_host_name = [], dn_cert_name = [], dn_ipv4 = [], dn_ipv6 = [],
        dn_stun_port = 0, dn_stun_only = False, dn_derp_port = 0, dn_insecure_for_tests = False, dn_can_port80 = False\<rparr>\<rparr>"

definition demo_turn :: turn_env where
  "demo_turn = \<lparr>tu_clk = (\<lambda>_. 0), tu_recv = 0, tu_now = 0, tu_end = 0, tu_rnd = []\<rparr>"

definition demo_relay :: magicsock where
  "demo_relay = (ms_start (kp_from_secret demo_prims (replicate 32 2)) (kp_from_secret demo_prims (replicate 32 3)) 41641 None)
     \<lparr>mg_derps := [(1, demo_handle)]\<rparr>"

text \<open>An attempt that fails, a turn of the pause, its end, and an attempt that succeeds; then a packet is queued.\<close>

definition demo_worker :: "derp_worker \<times> magicsock" where
  "demo_worker = fold (worker_step demo_menv) [ConnectEv (Inl TimedOut) 0, WaitEv (from_secs 1), ConnectEv (Inr (demo_derp [])) (from_secs 1)]
     (worker_start 1, demo_relay)"

definition demo_sent :: "derp_worker \<times> magicsock" where
  "demo_sent = worker_step demo_menv (TurnEv demo_turn)
     (fst demo_worker, derp_send demo_menv (wk_region (fst demo_worker)) (replicate 32 5) [1, 2] (snd demo_worker))"

lemma demo_worker_state:
  "map_option (\<lambda>h. (dh_queue h, dh_connected h)) (map_of (mg_derps (snd demo_worker)) (wk_region (fst demo_worker))) = Some ([DcNotePreferred True], True)"
  "wk_left (fst demo_worker) = None" "wk_client (fst demo_worker) = Some (demo_derp [])" "wk_backoff (fst demo_worker) = from_secs 1"
  "cn_werr (dc_conn (demo_derp [])) = None" "\<not> mg_shutdown (snd demo_worker)"
  "derp_recv (tu_clk demo_turn) (from_millis 20) (tu_recv demo_turn) (demo_derp []) = (Inr None, demo_derp [])"
  "\<not> wk_panicked (fst demo_sent)" "wk_client (fst demo_sent) \<noteq> None" "worker_output (fst demo_worker) = []"
  by code_simp+

theorem relayed_packet_sent_witness:
  "\<exists>pre post h'. worker_output (fst demo_sent)
      = pre @ frame_bytes (FRAME_NOTE_PREFERRED, [1]) @ frame_bytes (FRAME_SEND_PACKET, replicate 32 5 @ [1, 2]) @ post
    \<and> map_of (mg_derps (snd demo_sent)) (wk_region (fst demo_worker)) = Some h' \<and> dh_queue h' = []"
proof -
  obtain w m where wm: "demo_worker = (w, m)" by (cases demo_worker)
  obtain w' m' where s: "demo_sent = (w', m')" by (cases demo_sent)
  note st = demo_worker_state [unfolded wm s fst_conv snd_conv]
  obtain h where h: "map_of (mg_derps m) (wk_region w) = Some h" "dh_queue h = [DcNotePreferred True]" using st(1) by auto
  show ?thesis
    using relayed_packet_sent [OF wm [unfolded demo_worker_def] h(1) _ _ _ st(2,3,5,6,7) _ s [unfolded demo_sent_def wm fst_conv snd_conv] st(8)]
      h(2) st(9,10) by (auto simp: s wm DERP_QUEUE_LIMIT_def MAX_PACKET_def)
qed

end
