(* ===== verification/Netstack.thy ===== *)
theory Netstack
  imports Net_Addr
begin

text \<open>
  crates/tsnode/src/netstack.rs: the TCP endpoint of the node. Users hold streams and listeners, a thread
  (\<^verbatim>\<open>poll_loop\<close>) moves their bytes to and from the sockets of the third-party stack smoltcp and its packets to and
  from the tunnel. The objects behind \<^verbatim>\<open>Arc\<close> are entries of two stores, named by their index; smoltcp is the
  record \<open>smol\<close> of its operations on a socket \<open>'k\<close> and on the interface with its socket set \<open>'w\<close>. Each critical
  section of the thread is one step, with the thread's position as part of the state, so that the calls of the users
  come between any two of them.
\<close>

section \<open>The stack below\<close>

definition RX_BUF :: nat where "RX_BUF = 8 * 1024"
definition TX_BUF :: nat where "TX_BUF = 8 * 1024"
definition USER_TX_LIMIT :: nat where "USER_TX_LIMIT = 32 * 1024"
definition USER_RX_LIMIT :: nat where "USER_RX_LIMIT = 16 * 1024"
definition DEAD_PEER_TIMEOUT :: duration where "DEAD_PEER_TIMEOUT = from_secs 120"
definition MTU :: nat where "MTU = 1280"

record tun_device =
  td_rx :: "bytes list"
  td_tx :: "bytes list"

text \<open>The device as smoltcp drives it: a received packet, and a packet to send of a given length filled in by \<open>f\<close>.\<close>

definition tun_receive :: "tun_device \<Rightarrow> (bytes \<times> tun_device) option" where
  "tun_receive d = (case td_rx d of [] \<Rightarrow> None | p # ps \<Rightarrow> Some (p, d\<lparr>td_rx := ps\<rparr>))"

definition tun_transmit :: "nat \<Rightarrow> (bytes \<Rightarrow> bytes) \<Rightarrow> tun_device \<Rightarrow> tun_device" where
  "tun_transmit len f d = d\<lparr>td_tx := td_tx d @ [f (replicate len 0)]\<rparr>"

datatype tcp_state =
    TcpClosed | TcpListen | TcpSynSent | TcpSynReceived | TcpEstablished | TcpFinWait1 | TcpFinWait2
  | TcpCloseWait | TcpClosing | TcpLastAck | TcpTimeWait

record ('k, 'w) smol =
  sl_socket :: "nat \<Rightarrow> nat \<Rightarrow> 'k"
  sl_set_nagle_enabled :: "bool \<Rightarrow> 'k \<Rightarrow> 'k"
  sl_set_keep_alive :: "duration option \<Rightarrow> 'k \<Rightarrow> 'k"
  sl_set_timeout :: "duration option \<Rightarrow> 'k \<Rightarrow> 'k"
  sl_listen :: "u16 \<Rightarrow> 'k \<Rightarrow> bool \<times> 'k"
  sl_connect :: "socket_addr \<Rightarrow> u16 \<Rightarrow> 'k \<times> 'w \<Rightarrow> bool \<times> 'k \<times> 'w"
  sl_state :: "'k \<Rightarrow> tcp_state"
  sl_remote_endpoint :: "'k \<Rightarrow> socket_addr option"
  sl_can_recv :: "'k \<Rightarrow> bool"
  sl_can_send :: "'k \<Rightarrow> bool"
  sl_may_recv :: "'k \<Rightarrow> bool"
  sl_is_open :: "'k \<Rightarrow> bool"
  sl_recv_slice :: "nat \<Rightarrow> 'k \<Rightarrow> bytes option \<times> 'k"
  sl_send_slice :: "bytes \<Rightarrow> 'k \<Rightarrow> nat option \<times> 'k"
  sl_close :: "'k \<Rightarrow> 'k"
  sl_abort :: "'k \<Rightarrow> 'k"
  sl_add :: "'k \<Rightarrow> 'w \<Rightarrow> nat \<times> 'w"
  sl_get :: "nat \<Rightarrow> 'w \<Rightarrow> 'k option"
  sl_put :: "nat \<Rightarrow> 'k \<Rightarrow> 'w \<Rightarrow> 'w"
  sl_remove :: "nat \<Rightarrow> 'w \<Rightarrow> 'w"
  sl_addr_capacity :: nat
  sl_update_ip_addrs :: "(ip_addr \<times> u8) list \<Rightarrow> 'w \<Rightarrow> 'w"
  sl_add_default_route :: "ip_addr \<Rightarrow> 'w \<Rightarrow> 'w"
  sl_poll :: "instant \<Rightarrow> tun_device \<times> 'w \<Rightarrow> tun_device \<times> 'w"
  sl_poll_delay :: "instant \<Rightarrow> 'w \<Rightarrow> duration option"

definition new_tcp_socket :: "('k, 'w) smol \<Rightarrow> 'k" where
  "new_tcp_socket L =
     sl_set_timeout L (Some DEAD_PEER_TIMEOUT) (sl_set_keep_alive L (Some (from_secs 30))
       (sl_set_nagle_enabled L False (sl_socket L RX_BUF TX_BUF)))"

section \<open>State\<close>

record conn_state =
  cs_rx :: bytes
  cs_tx :: bytes
  cs_peer_closed :: bool
  cs_local_closed :: bool
  cs_aborted :: bool
  cs_dead :: bool
  cs_remote :: socket_addr

definition conn_state_new :: "socket_addr \<Rightarrow> conn_state" where
  "conn_state_new remote =
     \<lparr>cs_rx = [], cs_tx = [], cs_peer_closed = False, cs_local_closed = False, cs_aborted = False,
      cs_dead = False, cs_remote = remote\<rparr>"

record listener_shared =
  ls_port :: u16
  ls_queue :: "nat list"
  ls_closed :: bool

record conn_entry =
  ce_handle :: nat
  ce_shared :: nat

record listener_entry =
  le_shared :: nat
  le_handle :: nat

text \<open>The position of the thread; the connections taken from the shared state are a local variable of it.\<close>

datatype thread_pos =
    AtPull | AtConnects "(socket_addr \<times> nat) list" | AtPoll | AtListener nat | AtConn nat | AtFlush | Stopped

record 'w netstack =
  ns_inbound :: "bytes list"
  ns_addrs :: "(ip_addr \<times> u8) list"
  ns_addrs_dirty :: bool
  ns_new_listeners :: "nat list"
  ns_new_connects :: "(socket_addr \<times> nat) list"
  ns_shutdown :: bool
  ns_wake :: bool
  ns_conn_store :: "conn_state list"
  ns_listener_store :: "listener_shared list"
  ns_at :: thread_pos
  ns_device :: tun_device
  ns_now :: instant
  ns_stack :: 'w
  ns_listeners :: "listener_entry list"
  ns_conns :: "conn_entry list"
  ns_outbound :: "bytes list"
  ns_sleep :: duration
  ns_panicked :: bool

definition netstack_start :: "'w \<Rightarrow> 'w netstack" where
  "netstack_start w =
     \<lparr>ns_inbound = [], ns_addrs = [], ns_addrs_dirty = False, ns_new_listeners = [], ns_new_connects = [],
      ns_shutdown = False, ns_wake = False, ns_conn_store = [], ns_listener_store = [], ns_at = AtPull,
      ns_device = \<lparr>td_rx = [], td_tx = []\<rparr>, ns_now = 0, ns_stack = w, ns_listeners = [], ns_conns = [], ns_outbound = [],
      ns_sleep = 0, ns_panicked = False\<rparr>"

section \<open>Calls of the users\<close>

definition wake :: "'w netstack \<Rightarrow> 'w netstack" where
  "wake s = s\<lparr>ns_wake := True\<rparr>"

definition put_conn :: "nat \<Rightarrow> conn_state \<Rightarrow> 'w netstack \<Rightarrow> 'w netstack" where
  "put_conn i c s = s\<lparr>ns_conn_store := (ns_conn_store s)[i := c]\<rparr>"

text \<open>\<^verbatim>\<open>IpCidr::new\<close> panics on a prefix that is longer than the address.\<close>

definition set_addresses :: "(ip_addr \<times> u8) list \<Rightarrow> 'w netstack \<Rightarrow> 'w netstack option" where
  "set_addresses addrs s =
     (if list_all (\<lambda>(ip, prefix). prefix \<le> (if is_ipv4 ip then 32 else 128)) addrs
      then Some (wake (s\<lparr>ns_addrs := addrs, ns_addrs_dirty := True\<rparr>)) else None)"

definition inject :: "bytes \<Rightarrow> 'w netstack \<Rightarrow> 'w netstack" where
  "inject pkt s =
     wake (if length (ns_inbound s) < 256 then s\<lparr>ns_inbound := ns_inbound s @ [pkt]\<rparr> else s)"

definition listen :: "u16 \<Rightarrow> 'w netstack \<Rightarrow> nat \<times> 'w netstack" where
  "listen port s =
     (let i = length (ns_listener_store s)
      in (i, wake (s\<lparr>ns_listener_store := ns_listener_store s @ [\<lparr>ls_port = port, ls_queue = [], ls_closed = False\<rparr>],
            ns_new_listeners := ns_new_listeners s @ [i]\<rparr>)))"

definition connect :: "socket_addr \<Rightarrow> 'w netstack \<Rightarrow> nat \<times> 'w netstack" where
  "connect remote s =
     (let i = length (ns_conn_store s)
      in (i, wake (s\<lparr>ns_conn_store := ns_conn_store s @ [conn_state_new remote],
            ns_new_connects := ns_new_connects s @ [(remote, i)]\<rparr>)))"

definition shutdown_stack :: "'w netstack \<Rightarrow> 'w netstack" where
  "shutdown_stack s = wake (s\<lparr>ns_shutdown := True\<rparr>)"

definition drop_listener :: "nat \<Rightarrow> 'w netstack \<Rightarrow> 'w netstack" where
  "drop_listener l s =
     wake (s\<lparr>ns_listener_store := (ns_listener_store s)[l := (ns_listener_store s ! l)\<lparr>ls_closed := True\<rparr>]\<rparr>)"

text \<open>
  One turn of the loops of \<^verbatim>\<open>accept\<close>, \<^verbatim>\<open>read\<close> and \<^verbatim>\<open>write_all\<close>, under the lock of the object; \<open>Wait\<close> is the wait
  on its condition variable, after which the loop turns again.
\<close>

datatype 'a turn = Done 'a | Wait

definition accept_turn ::
    "nat \<Rightarrow> instant \<Rightarrow> instant \<Rightarrow> 'w netstack \<Rightarrow> nat option turn \<times> 'w netstack" where
  "accept_turn l deadline now s =
     (let sh = ns_listener_store s ! l
      in case ls_queue sh of
           c # q \<Rightarrow> (Done (Some c), s\<lparr>ns_listener_store := (ns_listener_store s)[l := sh\<lparr>ls_queue := q\<rparr>]\<rparr>)
         | [] \<Rightarrow> (if deadline \<le> now then Done None else Wait, s))"

definition read_turn ::
    "nat \<Rightarrow> nat \<Rightarrow> instant \<Rightarrow> instant \<Rightarrow> 'w netstack \<Rightarrow> (io_kind + bytes) turn \<times> 'w netstack" where
  "read_turn i cap deadline now s =
     (let st = ns_conn_store s ! i
      in if cs_rx st \<noteq> [] then
           (let n = min cap (length (cs_rx st));
                s' = put_conn i (st\<lparr>cs_rx := drop n (cs_rx st)\<rparr>) s;
                was_full = USER_RX_LIMIT \<le> length (drop n (cs_rx st)) + n
            in (Done (Inr (take n (cs_rx st))), if was_full then wake s' else s'))
         else if cs_peer_closed st \<or> cs_dead st then (Done (Inr []), s)
         else if deadline \<le> now then (Done (Inl TimedOut), s)
         else (Wait, s))"

text \<open>\<open>Done (Inr n)\<close>: \<open>n\<close> more bytes of \<open>data\<close>, what is left to write, are queued.\<close>

definition write_turn :: "nat \<Rightarrow> bytes \<Rightarrow> 'w netstack \<Rightarrow> (io_kind + nat) turn \<times> 'w netstack" where
  "write_turn i data s =
     (let st = ns_conn_store s ! i
      in if data = [] then (Done (Inr 0), s)
         else if cs_dead st \<or> cs_local_closed st then (Done (Inl BrokenPipe), s)
         else
           (let room = USER_TX_LIMIT - length (cs_tx st)
            in if room = 0 then (Wait, s)
               else
                 (let n = min room (length data)
                  in (Done (Inr n), wake (put_conn i (st\<lparr>cs_tx := cs_tx st @ take n data\<rparr>) s)))))"

definition is_closed :: "nat \<Rightarrow> 'w netstack \<Rightarrow> bool" where
  "is_closed i s = (cs_dead (ns_conn_store s ! i) \<or> cs_peer_closed (ns_conn_store s ! i))"

definition peer_addr :: "nat \<Rightarrow> 'w netstack \<Rightarrow> socket_addr" where
  "peer_addr i s = cs_remote (ns_conn_store s ! i)"

definition close_stream :: "nat \<Rightarrow> 'w netstack \<Rightarrow> 'w netstack" where
  "close_stream i s = wake (put_conn i ((ns_conn_store s ! i)\<lparr>cs_local_closed := True\<rparr>) s)"

definition abort_stream :: "nat \<Rightarrow> 'w netstack \<Rightarrow> 'w netstack" where
  "abort_stream i s = wake (put_conn i ((ns_conn_store s ! i)\<lparr>cs_aborted := True, cs_local_closed := True\<rparr>) s)"

section \<open>The thread\<close>

text \<open>The shared state is taken over: packets, addresses, listeners; connections to open are left to the next steps.\<close>

definition apply_addrs :: "('k, 'w) smol \<Rightarrow> (ip_addr \<times> u8) list \<Rightarrow> 'w \<Rightarrow> 'w" where
  "apply_addrs L addrs w =
     fold (sl_add_default_route L) (map fst addrs) (sl_update_ip_addrs L (take (sl_addr_capacity L) addrs) w)"

definition open_listener :: "('k, 'w) smol \<Rightarrow> nat \<Rightarrow> 'w netstack \<Rightarrow> 'w netstack" where
  "open_listener L l s =
     (case sl_listen L (ls_port (ns_listener_store s ! l)) (new_tcp_socket L) of
        (False, _) \<Rightarrow> s
      | (True, k) \<Rightarrow>
          (case sl_add L k (ns_stack s) of
             (h, w) \<Rightarrow> s\<lparr>ns_stack := w, ns_listeners := ns_listeners s @ [\<lparr>le_shared = l, le_handle = h\<rparr>]\<rparr>))"

definition pull_work :: "('k, 'w) smol \<Rightarrow> 'w netstack \<Rightarrow> 'w netstack" where
  "pull_work L s =
     (if ns_shutdown s then s\<lparr>ns_at := Stopped\<rparr>
      else
        (let s = s\<lparr>ns_wake := False, ns_inbound := [],
                   ns_device := (ns_device s)\<lparr>td_rx := td_rx (ns_device s) @ ns_inbound s\<rparr>\<rparr>;
             s = (if ns_addrs_dirty s
                  then s\<lparr>ns_addrs_dirty := False, ns_stack := apply_addrs L (ns_addrs s) (ns_stack s)\<rparr> else s);
             s = fold (open_listener L) (ns_new_listeners s) (s\<lparr>ns_new_listeners := []\<rparr>)
         in s\<lparr>ns_new_connects := [], ns_at := AtConnects (ns_new_connects s)\<rparr>))"

definition local_port :: "u16 \<Rightarrow> u16" where
  "local_port rnd = 49152 + rnd mod 16000"

definition open_connection :: "('k, 'w) smol \<Rightarrow> u16 \<Rightarrow> socket_addr \<Rightarrow> nat \<Rightarrow> 'w netstack \<Rightarrow> 'w netstack" where
  "open_connection L rnd remote i s =
     (case sl_connect L remote (local_port rnd) (new_tcp_socket L, ns_stack s) of
        (True, k, w) \<Rightarrow>
          (case sl_add L k w of
             (h, w) \<Rightarrow> s\<lparr>ns_stack := w, ns_conns := ns_conns s @ [\<lparr>ce_handle = h, ce_shared = i\<rparr>]\<rparr>)
      | (False, k, w) \<Rightarrow> put_conn i ((ns_conn_store s ! i)\<lparr>cs_dead := True\<rparr>) (s\<lparr>ns_stack := w\<rparr>))"

definition stack_panic :: "'w netstack \<Rightarrow> 'w netstack" where
  "stack_panic s = s\<lparr>ns_at := Stopped, ns_panicked := True\<rparr>"

definition drop_nth :: "nat \<Rightarrow> 'a list \<Rightarrow> 'a list" where
  "drop_nth i xs = take i xs @ drop (Suc i) xs"

text \<open>A listening socket that got a connection: the socket becomes the connection's, the listener gets a new one.\<close>

definition hand_over :: "('k, 'w) smol \<Rightarrow> nat \<Rightarrow> 'k \<Rightarrow> 'w netstack \<Rightarrow> 'w netstack" where
  "hand_over L j k s =
     (let le = ns_listeners s ! j; sh = ns_listener_store s ! le_shared le;
          remote = (case sl_remote_endpoint L k of Some a \<Rightarrow> a | None \<Rightarrow> SocketAddr (V4 0) 0);
          i = length (ns_conn_store s);
          k' = snd (sl_listen L (ls_port sh) (new_tcp_socket L))
      in case sl_add L k' (ns_stack s) of
           (h, w) \<Rightarrow>
             s\<lparr>ns_conn_store := ns_conn_store s @ [conn_state_new remote],
               ns_conns := ns_conns s @ [\<lparr>ce_handle = le_handle le, ce_shared = i\<rparr>],
               ns_listener_store := (ns_listener_store s)[le_shared le := sh\<lparr>ls_queue := ls_queue sh @ [i]\<rparr>],
               ns_stack := w, ns_listeners := (ns_listeners s)[j := le\<lparr>le_handle := h\<rparr>]\<rparr>)"

text \<open>The thread lets go of a closed listener: the streams that nobody accepted go with its queue, and each one closes as it is dropped.\<close>

definition drop_queue :: "nat \<Rightarrow> 'w netstack \<Rightarrow> 'w netstack" where
  "drop_queue l s =
     (let sh = ns_listener_store s ! l
      in fold close_stream (ls_queue sh) (s\<lparr>ns_listener_store := (ns_listener_store s)[l := sh\<lparr>ls_queue := []\<rparr>]\<rparr>))"

definition serve_listener :: "('k, 'w) smol \<Rightarrow> nat \<Rightarrow> 'w netstack \<Rightarrow> 'w netstack" where
  "serve_listener L j s =
     (let le = ns_listeners s ! j; sh = ns_listener_store s ! le_shared le
      in case sl_get L (le_handle le) (ns_stack s) of
           None \<Rightarrow> stack_panic s
         | Some k \<Rightarrow>
             (if ls_closed sh then
                drop_queue (le_shared le)
                  (s\<lparr>ns_stack := sl_remove L (le_handle le) (sl_put L (le_handle le) (sl_abort L k) (ns_stack s)),
                     ns_listeners := drop_nth j (ns_listeners s)\<rparr>)
              else
                (case sl_state L k of
                   TcpListen \<Rightarrow> s
                 | TcpClosed \<Rightarrow> s\<lparr>ns_stack := sl_put L (le_handle le) (snd (sl_listen L (ls_port sh) k)) (ns_stack s)\<rparr>
                 | _ \<Rightarrow> hand_over L j k s)\<lparr>ns_at := AtListener (Suc j)\<rparr>))"

text \<open>Received bytes move to the reader until it has enough; each read of the socket returns at most 1024.\<close>

function drain_socket :: "('k, 'w) smol \<Rightarrow> bytes \<Rightarrow> 'k \<Rightarrow> bytes \<times> 'k" where
  "drain_socket L rx k =
     (if sl_can_recv L k \<and> length rx < USER_RX_LIMIT then
        (case sl_recv_slice L 1024 k of
           (Some b, k) \<Rightarrow> (if b = [] then (rx, k) else drain_socket L (rx @ b) k)
         | (None, k) \<Rightarrow> (rx, k))
      else (rx, k))"
  by pat_completeness auto
termination
  by (relation "measure (\<lambda>(L, rx, k). USER_RX_LIMIT - length rx)") (auto simp: diff_less_mono2 length_greater_0_conv)

declare drain_socket.simps [simp del]

text \<open>
  Queued bytes move to the socket. The first of the two slices of the ring buffer is a non-empty prefix of the queue
  whose length \<open>lay\<close> depends on where the ring wraps.
\<close>

function fill_socket :: "('k, 'w) smol \<Rightarrow> (bytes \<Rightarrow> nat) \<Rightarrow> bytes \<Rightarrow> 'k \<Rightarrow> bytes \<times> 'k" where
  "fill_socket L lay tx k =
     (if sl_can_send L k \<and> tx \<noteq> [] then
        (let a = take (max 1 (lay tx)) tx
         in case sl_send_slice L (take (min (length a) 1024) a) k of
              (Some n, k) \<Rightarrow> (if n = 0 then (tx, k) else fill_socket L lay (drop n tx) k)
            | (None, k) \<Rightarrow> (tx, k))
      else (tx, k))"
  by pat_completeness auto
termination
  by (relation "measure (\<lambda>(L, lay, tx, k). length tx)") (auto simp: length_greater_0_conv)

declare fill_socket.simps [simp del]

definition conn_connecting :: "tcp_state \<Rightarrow> bool" where
  "conn_connecting t \<longleftrightarrow> t = TcpSynSent \<or> t = TcpSynReceived"

definition conn_over :: "tcp_state \<Rightarrow> bool" where
  "conn_over t \<longleftrightarrow> t = TcpClosed \<or> t = TcpTimeWait"

text \<open>One connection is served: its state and its socket after the exchange.\<close>

definition exchange :: "('k, 'w) smol \<Rightarrow> (bytes \<Rightarrow> nat) \<Rightarrow> conn_state \<Rightarrow> 'k \<Rightarrow> conn_state \<times> 'k" where
  "exchange L lay st k =
     (case drain_socket L (cs_rx st) k of
        (rx, k) \<Rightarrow>
          (case fill_socket L lay (cs_tx st) k of
             (tx, k) \<Rightarrow>
               (let k = (if cs_aborted st then sl_abort L k
                         else if cs_local_closed st \<and> tx = [] \<and> sl_is_open L k then sl_close L k else k);
                    st = st\<lparr>cs_rx := rx, cs_tx := tx,
                      cs_peer_closed := (cs_peer_closed st \<or> (\<not> sl_may_recv L k \<and> \<not> conn_connecting (sl_state L k)))\<rparr>;
                    st = (if conn_over (sl_state L k) then st\<lparr>cs_dead := True, cs_peer_closed := True\<rparr> else st)
                in (st, k))))"

definition serve_conn :: "('k, 'w) smol \<Rightarrow> (bytes \<Rightarrow> nat) \<Rightarrow> nat \<Rightarrow> 'w netstack \<Rightarrow> 'w netstack" where
  "serve_conn L lay j s =
     (let ce = ns_conns s ! j
      in case sl_get L (ce_handle ce) (ns_stack s) of
           None \<Rightarrow> stack_panic s
         | Some k \<Rightarrow>
             (case exchange L lay (ns_conn_store s ! ce_shared ce) k of
                (st, k) \<Rightarrow>
                  (let s = put_conn (ce_shared ce) st s
                   in if conn_over (sl_state L k) then
                        s\<lparr>ns_stack := sl_remove L (ce_handle ce) (sl_put L (ce_handle ce) k (ns_stack s)),
                          ns_conns := drop_nth j (ns_conns s)\<rparr>
                      else
                        s\<lparr>ns_stack := sl_put L (ce_handle ce) k (ns_stack s), ns_at := AtConn (Suc j)\<rparr>)))"

definition poll_wait :: "('k, 'w) smol \<Rightarrow> instant \<Rightarrow> 'w \<Rightarrow> duration" where
  "poll_wait L now w =
     min (case sl_poll_delay L now w of Some d \<Rightarrow> d | None \<Rightarrow> from_millis 500) (from_millis 500)"

definition flush_out :: "('k, 'w) smol \<Rightarrow> 'w netstack \<Rightarrow> 'w netstack" where
  "flush_out L s =
     s\<lparr>ns_outbound := ns_outbound s @ td_tx (ns_device s), ns_device := (ns_device s)\<lparr>td_tx := []\<rparr>,
       ns_sleep := (if ns_wake s \<or> ns_shutdown s then 0 else poll_wait L (ns_now s) (ns_stack s)), ns_at := AtPull\<rparr>"

text \<open>One step of the thread; its clock, random numbers and the layout of the ring come with the step.\<close>

record step_env =
  se_now :: instant
  se_rnd :: u16
  se_lay :: "bytes \<Rightarrow> nat"

definition thread_step :: "('k, 'w) smol \<Rightarrow> step_env \<Rightarrow> 'w netstack \<Rightarrow> 'w netstack" where
  "thread_step L e s =
     (case ns_at s of
        AtPull \<Rightarrow> pull_work L s
      | AtConnects [] \<Rightarrow> s\<lparr>ns_at := AtPoll\<rparr>
      | AtConnects ((remote, i) # cs) \<Rightarrow> open_connection L (se_rnd e) remote i (s\<lparr>ns_at := AtConnects cs\<rparr>)
      | AtPoll \<Rightarrow>
          (case sl_poll L (se_now e) (ns_device s, ns_stack s) of
             (d, w) \<Rightarrow> s\<lparr>ns_device := d, ns_now := se_now e, ns_stack := w, ns_at := AtListener 0\<rparr>)
      | AtListener j \<Rightarrow>
          (if j < length (ns_listeners s) then serve_listener L j s else s\<lparr>ns_at := AtConn 0\<rparr>)
      | AtConn j \<Rightarrow>
          (if j < length (ns_conns s) then serve_conn L (se_lay e) j s else s\<lparr>ns_at := AtFlush\<rparr>)
      | AtFlush \<Rightarrow> flush_out L s
      | Stopped \<Rightarrow> s)"

end
