(* ===== verification/Netstack_Props.thy ===== *)
theory Netstack_Props
  imports Netstack
begin

text \<open>
  Properties of the TCP endpoint under every interleaving of its thread with the calls of the users: the bytes of
  every connection pass between the user and the socket complete and in order, the buffers stay bounded, the thread
  never uses a socket it does not have.
\<close>

section \<open>Steps\<close>

datatype ns_ev =
    Inject bytes | SetAddrs "(ip_addr \<times> u8) list" | OpenListener u16 | Connect socket_addr | ShutDown
  | DropListener nat | Accept nat instant instant | ReadTurn nat nat instant instant | WriteTurn nat bytes
  | CloseStream nat | AbortStream nat | ThreadStep step_env

text \<open>A call on a stream needs the stream: calls with an index that was not handed out do nothing.\<close>

fun ns_step :: "('k, 'w) smol \<Rightarrow> ns_ev \<Rightarrow> 'w netstack \<Rightarrow> 'w netstack" where
  "ns_step L (Inject p) s = inject p s"
| "ns_step L (SetAddrs a) s = (case set_addresses a s of Some s' \<Rightarrow> s' | None \<Rightarrow> s)"
| "ns_step L (OpenListener port) s = snd (listen port s)"
| "ns_step L (Connect a) s = snd (connect a s)"
| "ns_step L ShutDown s = shutdown_stack s"
| "ns_step L (DropListener l) s = drop_listener l s"
| "ns_step L (Accept l dl now) s = snd (accept_turn l dl now s)"
| "ns_step L (ReadTurn i cap dl now) s =
     (if i < length (ns_conn_store s) then snd (read_turn i cap dl now s) else s)"
| "ns_step L (WriteTurn i d) s = (if i < length (ns_conn_store s) then snd (write_turn i d s) else s)"
| "ns_step L (CloseStream i) s = (if i < length (ns_conn_store s) then close_stream i s else s)"
| "ns_step L (AbortStream i) s = (if i < length (ns_conn_store s) then abort_stream i s else s)"
| "ns_step L (ThreadStep e) s = thread_step L e s"

text \<open>What a call wrote to a stream, and what it read from it.\<close>

fun wrote :: "ns_ev \<Rightarrow> 'w netstack \<Rightarrow> nat \<Rightarrow> bytes" where
  "wrote (WriteTurn j d) s i =
     (if i = j \<and> j < length (ns_conn_store s)
      then (case fst (write_turn j d s) of Done (Inr n) \<Rightarrow> take n d | _ \<Rightarrow> []) else [])"
| "wrote _ s i = []"

fun got :: "ns_ev \<Rightarrow> 'w netstack \<Rightarrow> nat \<Rightarrow> bytes" where
  "got (ReadTurn j cap dl now) s i =
     (if i = j \<and> j < length (ns_conn_store s)
      then (case fst (read_turn j cap dl now s) of Done (Inr b) \<Rightarrow> b | _ \<Rightarrow> []) else [])"
| "got _ s i = []"

text \<open>A run together with the bytes written to and read from each stream so far.\<close>

type_synonym 'w history = "'w netstack \<times> (nat \<Rightarrow> bytes) \<times> (nat \<Rightarrow> bytes)"

definition hist_step :: "('k, 'w) smol \<Rightarrow> ns_ev \<Rightarrow> 'w history \<Rightarrow> 'w history" where
  "hist_step L ev = (\<lambda>(s, W, R). (ns_step L ev s, \<lambda>i. W i @ wrote ev s i, \<lambda>i. R i @ got ev s i))"

section \<open>What the stack below promises\<close>

text \<open>
  \<open>rxs k\<close> are the bytes a socket has handed out so far, \<open>txs k\<close> those it has accepted. \<^verbatim>\<open>recv_slice\<close> hands out the next
  bytes of the stream, \<^verbatim>\<open>send_slice\<close> accepts a prefix of its argument, nothing else changes them; the socket set keeps
  its sockets under distinct handles.
\<close>

definition socket_ok :: "('k, 'w) smol \<Rightarrow> ('k \<Rightarrow> bytes) \<Rightarrow> ('k \<Rightarrow> bytes) \<Rightarrow> bool" where
  "socket_ok L rxs txs \<longleftrightarrow>
     rxs (new_tcp_socket L) = [] \<and> txs (new_tcp_socket L) = []
     \<and> (\<forall>port k. rxs (snd (sl_listen L port k)) = rxs k \<and> txs (snd (sl_listen L port k)) = txs k)
     \<and> (\<forall>k. rxs (sl_close L k) = rxs k \<and> txs (sl_close L k) = txs k)
     \<and> (\<forall>k. rxs (sl_abort L k) = rxs k \<and> txs (sl_abort L k) = txs k)
     \<and> (\<forall>cap k. case sl_recv_slice L cap k of
           (None, k') \<Rightarrow> rxs k' = rxs k \<and> txs k' = txs k
         | (Some b, k') \<Rightarrow> length b \<le> cap \<and> rxs k' = rxs k @ b \<and> txs k' = txs k)
     \<and> (\<forall>d k. case sl_send_slice L d k of
           (None, k') \<Rightarrow> rxs k' = rxs k \<and> txs k' = txs k
         | (Some n, k') \<Rightarrow> n \<le> length d \<and> rxs k' = rxs k \<and> txs k' = txs k @ take n d)"

definition same_streams :: "('k, 'w) smol \<Rightarrow> ('k \<Rightarrow> bytes) \<Rightarrow> ('k \<Rightarrow> bytes) \<Rightarrow> 'w \<Rightarrow> 'w \<Rightarrow> bool" where
  "same_streams L rxs txs w w' \<longleftrightarrow>
     (\<forall>h. map_option (\<lambda>k. (rxs k, txs k)) (sl_get L h w') = map_option (\<lambda>k. (rxs k, txs k)) (sl_get L h w))"

definition set_ok :: "('k, 'w) smol \<Rightarrow> ('k \<Rightarrow> bytes) \<Rightarrow> ('k \<Rightarrow> bytes) \<Rightarrow> bool" where
  "set_ok L rxs txs \<longleftrightarrow>
     (\<forall>h k w h'. sl_get L h w \<noteq> None \<longrightarrow> sl_get L h' (sl_put L h k w) = (if h' = h then Some k else sl_get L h' w))
     \<and> (\<forall>h w h'. sl_get L h' (sl_remove L h w) = (if h' = h then None else sl_get L h' w))
     \<and> (\<forall>k w. case sl_add L k w of
           (h, w') \<Rightarrow> sl_get L h w = None \<and> (\<forall>h'. sl_get L h' w' = (if h' = h then Some k else sl_get L h' w)))
     \<and> (\<forall>a w. same_streams L rxs txs w (sl_update_ip_addrs L a w))
     \<and> (\<forall>a w. same_streams L rxs txs w (sl_add_default_route L a w))
     \<and> (\<forall>now d w. same_streams L rxs txs w (snd (sl_poll L now (d, w))))
     \<and> (\<forall>a port k w. case sl_connect L a port (k, w) of
           (_, k', w') \<Rightarrow> rxs k' = rxs k \<and> txs k' = txs k \<and> same_streams L rxs txs w w')"

definition smol_ok :: "('k, 'w) smol \<Rightarrow> ('k \<Rightarrow> bytes) \<Rightarrow> ('k \<Rightarrow> bytes) \<Rightarrow> bool" where
  "smol_ok L rxs txs \<longleftrightarrow> socket_ok L rxs txs \<and> set_ok L rxs txs"

lemma socket_okD:
  assumes "socket_ok L rxs txs"
  shows "rxs (new_tcp_socket L) = []" "txs (new_tcp_socket L) = []"
    "rxs (snd (sl_listen L port k)) = rxs k" "txs (snd (sl_listen L port k)) = txs k"
    "rxs (sl_close L k) = rxs k" "txs (sl_close L k) = txs k" "rxs (sl_abort L k) = rxs k" "txs (sl_abort L k) = txs k"
    "sl_recv_slice L cap k = (None, k') \<Longrightarrow> rxs k' = rxs k \<and> txs k' = txs k"
    "sl_recv_slice L cap k = (Some b, k') \<Longrightarrow> length b \<le> cap \<and> rxs k' = rxs k @ b \<and> txs k' = txs k"
    "sl_send_slice L d k = (None, k') \<Longrightarrow> rxs k' = rxs k \<and> txs k' = txs k"
    "sl_send_slice L d k = (Some n, k') \<Longrightarrow> n \<le> length d \<and> rxs k' = rxs k \<and> txs k' = txs k @ take n d"
  using assms unfolding socket_ok_def by (fastforce split: prod.splits option.splits)+

lemma set_okD:
  assumes "set_ok L rxs txs"
  shows "sl_get L h w \<noteq> None \<Longrightarrow> sl_get L h' (sl_put L h k w) = (if h' = h then Some k else sl_get L h' w)"
    "sl_get L h' (sl_remove L h w) = (if h' = h then None else sl_get L h' w)"
    "sl_add L k w = (h, w') \<Longrightarrow> sl_get L h w = None \<and> sl_get L h' w' = (if h' = h then Some k else sl_get L h' w)"
    "same_streams L rxs txs w (sl_update_ip_addrs L a w)" "same_streams L rxs txs w (sl_add_default_route L ip w)"
    "sl_poll L now (d, w) = (d', w') \<Longrightarrow> same_streams L rxs txs w w'"
    "sl_connect L addr port (k, w) = (ok, k', w') \<Longrightarrow> rxs k' = rxs k \<and> txs k' = txs k \<and> same_streams L rxs txs w w'"
proof -
  note a = assms [unfolded set_ok_def]
  show "sl_get L h w \<noteq> None \<Longrightarrow> sl_get L h' (sl_put L h k w) = (if h' = h then Some k else sl_get L h' w)"
    using a [THEN conjunct1] by blast
  note a = a [THEN conjunct2]
  show "sl_get L h' (sl_remove L h w) = (if h' = h then None else sl_get L h' w)" using a [THEN conjunct1] by blast
  note a = a [THEN conjunct2]
  show "sl_add L k w = (h, w') \<Longrightarrow> sl_get L h w = None \<and> sl_get L h' w' = (if h' = h then Some k else sl_get L h' w)"
    using a [THEN conjunct1, THEN spec, of k, THEN spec, of w] by simp
  note a = a [THEN conjunct2]
  show "same_streams L rxs txs w (sl_update_ip_addrs L a w)" "same_streams L rxs txs w (sl_add_default_route L ip w)"
    using a by blast+
  show "sl_poll L now (d, w) = (d', w') \<Longrightarrow> same_streams L rxs txs w w'"
    using a [THEN conjunct2, THEN conjunct2, THEN conjunct1, THEN spec, of now, THEN spec, of d, THEN spec, of w] by simp
  show "sl_connect L addr port (k, w) = (ok, k', w') \<Longrightarrow> rxs k' = rxs k \<and> txs k' = txs k \<and> same_streams L rxs txs w w'"
    using a [THEN conjunct2, THEN conjunct2, THEN conjunct2, THEN spec, of addr, THEN spec, of port, THEN spec, of k, THEN spec, of w] by simp
qed

section \<open>One exchange\<close>

lemma drain_socket_streams:
  assumes "socket_ok L rxs txs" "drain_socket L rx k = (rx', k')"
  shows "(\<exists>b. rx' = rx @ b \<and> rxs k' = rxs k @ b) \<and> txs k' = txs k
    \<and> (length rx < USER_RX_LIMIT + 1024 \<longrightarrow> length rx' < USER_RX_LIMIT + 1024)"
  using assms
proof (induction L rx k rule: drain_socket.induct)
  case (1 L rx k)
  show ?case
  proof (cases "sl_can_recv L k \<and> length rx < USER_RX_LIMIT")
    case True
    obtain ob k1 where r: "sl_recv_slice L 1024 k = (ob, k1)" by fastforce
    show ?thesis
    proof (cases ob)
      case None
      then show ?thesis using 1(2,3) True r socket_okD(9) [OF 1(2)] by (auto simp: drain_socket.simps [of L rx k])
    next
      case (Some b)
      note law = socket_okD(10) [OF 1(2) r [unfolded Some]]
      show ?thesis
      proof (cases "b = []")
        case True
        then show ?thesis using 1(3) \<open>sl_can_recv L k \<and> _\<close> r Some law by (auto simp: drain_socket.simps [of L rx k])
      next
        case False
        then have "drain_socket L (rx @ b) k1 = (rx', k')"
          using 1(3) True r Some by (simp add: drain_socket.simps [of L rx k])
        from 1(1) [OF True r [unfolded Some, symmetric] refl False 1(2) this]
        show ?thesis using law True by auto
      qed
    qed
  next
    case False
    then show ?thesis using 1(3) by (auto simp: drain_socket.simps [of L rx k])
  qed
qed

lemma fill_socket_streams:
  assumes "socket_ok L rxs txs" "fill_socket L lay tx k = (tx', k')"
  shows "(\<exists>b. tx = b @ tx' \<and> txs k' = txs k @ b) \<and> rxs k' = rxs k"
  using assms
proof (induction L lay tx k rule: fill_socket.induct)
  case (1 L lay tx k)
  let ?a = "take (max 1 (lay tx)) tx" 
  let ?d = "take (min (length ?a) 1024) ?a"
  show ?case
  proof (cases "sl_can_send L k \<and> tx \<noteq> []")
    case True
    obtain on k1 where r: "sl_send_slice L ?d k = (on, k1)" by fastforce
    show ?thesis
    proof (cases on)
      case None
      then show ?thesis using 1(2,3) True r socket_okD(11) [OF 1(2)] by (auto simp: fill_socket.simps [of L lay tx k])
    next
      case (Some n)
      note law = socket_okD(12) [OF 1(2) r [unfolded Some]]
      show ?thesis
      proof (cases "n = 0")
        case True
        then show ?thesis using 1(3) \<open>sl_can_send L k \<and> _\<close> r Some law by (auto simp: fill_socket.simps [of L lay tx k])
      next
        case False
        then have f: "fill_socket L lay (drop n tx) k1 = (tx', k')"
          using 1(3) True r Some by (simp add: fill_socket.simps [of L lay tx k])
        have "take n ?d = take n tx" using law by (simp add: min_def split: if_splits)
        moreover from 1(1) [OF True refl r [unfolded Some, symmetric] refl False 1(2) f]
        obtain b where "drop n tx = b @ tx'" "txs k' = txs k1 @ b" "rxs k' = rxs k1" by blast
        ultimately show ?thesis using law append_take_drop_id [of n tx] by (intro conjI exI [of _ "take n tx @ b"]) simp_all
      qed
    qed
  next
    case False
    then show ?thesis using 1(3) by (auto simp: fill_socket.simps [of L lay tx k])
  qed
qed

lemma exchange_streams:
  assumes "socket_ok L rxs txs" "exchange L lay st k = (st', k')"
  shows "(\<exists>b. cs_rx st' = cs_rx st @ b \<and> rxs k' = rxs k @ b) \<and> (\<exists>b. cs_tx st = b @ cs_tx st' \<and> txs k' = txs k @ b)
    \<and> (length (cs_rx st) < USER_RX_LIMIT + 1024 \<longrightarrow> length (cs_rx st') < USER_RX_LIMIT + 1024)"
proof -
  obtain rx k1 where d: "drain_socket L (cs_rx st) k = (rx, k1)" by fastforce
  obtain tx k2 where f: "fill_socket L lay (cs_tx st) k1 = (tx, k2)" by fastforce
  have "cs_rx st' = rx \<and> cs_tx st' = tx \<and> rxs k' = rxs k2 \<and> txs k' = txs k2"
    using assms(2) d f socket_okD(5-8) [OF assms(1)] by (auto simp: exchange_def Let_def)
  then show ?thesis using drain_socket_streams [OF assms(1) d] fill_socket_streams [OF assms(1) f] by simp
qed

section \<open>The invariant\<close>

definition pending :: "'w netstack \<Rightarrow> nat list" where
  "pending s = map snd (ns_new_connects s) @ (case ns_at s of AtConnects cs \<Rightarrow> map snd cs | _ \<Rightarrow> [])"

definition handles :: "'w netstack \<Rightarrow> nat list" where
  "handles s = map le_handle (ns_listeners s) @ map ce_handle (ns_conns s)"

definition stream_ids :: "'w netstack \<Rightarrow> nat list" where
  "stream_ids s = map ce_shared (ns_conns s) @ pending s"

text \<open>The bytes of a connection: accepted by the socket and still queued, read by the user and still buffered.\<close>

definition conn_flow ::
    "('k, 'w) smol \<Rightarrow> ('k \<Rightarrow> bytes) \<Rightarrow> ('k \<Rightarrow> bytes) \<Rightarrow> 'w history \<Rightarrow> conn_entry \<Rightarrow> bool" where
  "conn_flow L rxs txs = (\<lambda>(s, W, R) ce. \<exists>k. sl_get L (ce_handle ce) (ns_stack s) = Some k
     \<and> txs k @ cs_tx (ns_conn_store s ! ce_shared ce) = W (ce_shared ce)
     \<and> R (ce_shared ce) @ cs_rx (ns_conn_store s ! ce_shared ce) = rxs k)"

definition fresh_socket :: "('k, 'w) smol \<Rightarrow> ('k \<Rightarrow> bytes) \<Rightarrow> ('k \<Rightarrow> bytes) \<Rightarrow> 'w \<Rightarrow> nat \<Rightarrow> bool" where
  "fresh_socket L rxs txs w h \<longleftrightarrow> (\<exists>k. sl_get L h w = Some k \<and> rxs k = [] \<and> txs k = [])"

definition buffers_ok :: "conn_state \<Rightarrow> bool" where
  "buffers_ok st \<longleftrightarrow> length (cs_rx st) < USER_RX_LIMIT + 1024 \<and> length (cs_tx st) \<le> USER_TX_LIMIT"

definition stack_inv :: "('k, 'w) smol \<Rightarrow> ('k \<Rightarrow> bytes) \<Rightarrow> ('k \<Rightarrow> bytes) \<Rightarrow> 'w history \<Rightarrow> bool" where
  "stack_inv L rxs txs = (\<lambda>(s, W, R).
     \<not> ns_panicked s \<and> distinct (handles s) \<and> distinct (stream_ids s)
     \<and> (\<forall>le\<in>set (ns_listeners s). fresh_socket L rxs txs (ns_stack s) (le_handle le))
     \<and> (\<forall>ce\<in>set (ns_conns s). conn_flow L rxs txs (s, W, R) ce)
     \<and> (\<forall>i\<in>set (stream_ids s). i < length (ns_conn_store s))
     \<and> (\<forall>i\<in>set (pending s). R i = [] \<and> cs_rx (ns_conn_store s ! i) = [] \<and> cs_tx (ns_conn_store s ! i) = W i)
     \<and> (\<forall>i. length (ns_conn_store s) \<le> i \<longrightarrow> W i = [] \<and> R i = [])
     \<and> list_all buffers_ok (ns_conn_store s) \<and> length (ns_inbound s) \<le> 256)"

lemma same_streamsD:
  "same_streams L rxs txs w w' \<Longrightarrow> sl_get L h w = Some k \<Longrightarrow> \<exists>k'. sl_get L h w' = Some k' \<and> rxs k' = rxs k \<and> txs k' = txs k"
  "same_streams L rxs txs w w' \<Longrightarrow> sl_get L h w = None \<Longrightarrow> sl_get L h w' = None"
proof -
  assume a: "same_streams L rxs txs w w'"
  have e: "map_option (\<lambda>k. (rxs k, txs k)) (sl_get L h w') = map_option (\<lambda>k. (rxs k, txs k)) (sl_get L h w)"
    using a by (simp add: same_streams_def)
  show "sl_get L h w = Some k \<Longrightarrow> \<exists>k'. sl_get L h w' = Some k' \<and> rxs k' = rxs k \<and> txs k' = txs k"
    "sl_get L h w = None \<Longrightarrow> sl_get L h w' = None" using e by auto
qed

lemma same_streams_trans: "same_streams L rxs txs w w' \<Longrightarrow> same_streams L rxs txs w' w'' \<Longrightarrow> same_streams L rxs txs w w''"
  by (simp add: same_streams_def)

lemma fresh_same: "same_streams L rxs txs w w' \<Longrightarrow> fresh_socket L rxs txs w h \<Longrightarrow> fresh_socket L rxs txs w' h"
  unfolding fresh_socket_def by (elim exE conjE, drule (1) same_streamsD(1)) auto

text \<open>Calls of the users: every stream may grow at one end and be consumed at the other.\<close>

definition stream_moves :: "'w history \<Rightarrow> 'w history \<Rightarrow> nat \<Rightarrow> bool" where
  "stream_moves = (\<lambda>(s, W, R) (s', W', R') i. \<exists>t r. W' i = W i @ t \<and> R' i = R i @ r
     \<and> cs_tx (ns_conn_store s' ! i) = cs_tx (ns_conn_store s ! i) @ t
     \<and> cs_rx (ns_conn_store s ! i) = r @ cs_rx (ns_conn_store s' ! i))"

lemma stack_inv_user:
  assumes inv: "stack_inv L rxs txs (s, W, R)"
    and frame: "ns_panicked s' = ns_panicked s" "ns_listeners s' = ns_listeners s" "ns_conns s' = ns_conns s" "ns_stack s' = ns_stack s"
      "pending s' = pending s" "length (ns_conn_store s') = length (ns_conn_store s)"
    and moves: "\<And>i. i < length (ns_conn_store s) \<Longrightarrow> stream_moves (s, W, R) (s', W', R') i"
      "\<And>i. length (ns_conn_store s) \<le> i \<Longrightarrow> W' i = W i \<and> R' i = R i"
    and bounds: "list_all buffers_ok (ns_conn_store s')" "length (ns_inbound s') \<le> 256"
  shows "stack_inv L rxs txs (s', W', R')"
proof -
  have ids: "handles s' = handles s" "stream_ids s' = stream_ids s" using frame by (simp_all add: handles_def stream_ids_def)
  have "conn_flow L rxs txs (s', W', R') ce" if "ce \<in> set (ns_conns s)" for ce
  proof -
    have "ce_shared ce < length (ns_conn_store s)" using inv that by (simp add: stack_inv_def stream_ids_def)
    moreover have "conn_flow L rxs txs (s, W, R) ce" using inv that by (simp add: stack_inv_def)
    ultimately show ?thesis using moves(1) frame(4) by (fastforce simp: conn_flow_def stream_moves_def)
  qed
  moreover have "R' i = [] \<and> cs_rx (ns_conn_store s' ! i) = [] \<and> cs_tx (ns_conn_store s' ! i) = W' i" if "i \<in> set (pending s)" for i
  proof -
    have "i < length (ns_conn_store s)" using inv that by (simp add: stack_inv_def stream_ids_def)
    from moves(1) [OF this] show ?thesis using inv that by (auto simp: stack_inv_def stream_moves_def)
  qed
  ultimately show ?thesis using inv frame ids moves(2) bounds by (simp add: stack_inv_def)
qed

text \<open>Steps of the thread that leave the streams alone.\<close>

lemma stack_inv_world:
  assumes inv: "stack_inv L rxs txs (s, W, R)"
    and frame: "ns_panicked s' = ns_panicked s" "ns_listeners s' = ns_listeners s" "ns_conns s' = ns_conns s"
      "pending s' = pending s" "ns_conn_store s' = ns_conn_store s" "length (ns_inbound s') \<le> 256"
    and same: "same_streams L rxs txs (ns_stack s) (ns_stack s')"
  shows "stack_inv L rxs txs (s', W, R)"
proof -
  have ids: "handles s' = handles s" "stream_ids s' = stream_ids s" using frame by (simp_all add: handles_def stream_ids_def)
  have "conn_flow L rxs txs (s', W, R) ce" if "conn_flow L rxs txs (s, W, R) ce" for ce
    using that same_streamsD(1) [OF same] frame(5) by (fastforce simp: conn_flow_def)
  then show ?thesis using inv frame ids fresh_same [OF same] by (simp add: stack_inv_def)
qed

lemma same_streams_refl [simp]: "same_streams L rxs txs w w"
  by (simp add: same_streams_def)

section \<open>The invariant is kept by the users\<close>

lemma stack_inv_quiet:
  assumes "stack_inv L rxs txs (s, W, R)"
    and "ns_panicked s' = ns_panicked s" "ns_listeners s' = ns_listeners s" "ns_conns s' = ns_conns s" "ns_stack s' = ns_stack s"
      "pending s' = pending s" "ns_conn_store s' = ns_conn_store s" "length (ns_inbound s') \<le> 256"
  shows "stack_inv L rxs txs (s', W, R)"
  using assms by (intro stack_inv_world [OF assms(1)]) simp_all

lemma stack_inv_bounds:
  "stack_inv L rxs txs (s, W, R) \<Longrightarrow> length (ns_inbound s) \<le> 256"
  "stack_inv L rxs txs (s, W, R) \<Longrightarrow> list_all buffers_ok (ns_conn_store s)"
  "stack_inv L rxs txs (s, W, R) \<Longrightarrow> i < length (ns_conn_store s) \<Longrightarrow> buffers_ok (ns_conn_store s ! i)"
  by (simp_all add: stack_inv_def list_all_length)

lemma list_all_update_nth: "list_all P xs \<Longrightarrow> P x \<Longrightarrow> list_all P (xs[i := x])"
  by (auto simp: list_all_iff dest: set_update_subset_insert [THEN subsetD])

text \<open>An update of one connection whose bytes grow by \<open>t\<close> at the writing end and lose \<open>r\<close> at the reading end.\<close>

lemma stack_inv_put:
  assumes inv: "stack_inv L rxs txs (s, W, R)" and j: "j < length (ns_conn_store s)"
    and st: "cs_tx st = cs_tx (ns_conn_store s ! j) @ t" "cs_rx (ns_conn_store s ! j) = r @ cs_rx st"
    and room: "length (cs_tx st) \<le> USER_TX_LIMIT"
    and s': "s' = put_conn j st s \<or> s' = wake (put_conn j st s)"
  shows "stack_inv L rxs txs (s', \<lambda>i. W i @ (if i = j then t else []), \<lambda>i. R i @ (if i = j then r else []))"
proof (rule stack_inv_user [OF inv])
  have store: "ns_conn_store s' = (ns_conn_store s)[j := st]" using s' by (auto simp: put_conn_def wake_def)
  have "buffers_ok st" using stack_inv_bounds(3) [OF inv j] st(2) room by (simp add: buffers_ok_def)
  then show "list_all buffers_ok (ns_conn_store s')"
    unfolding store by (intro list_all_update_nth stack_inv_bounds(2) [OF inv])
  show "length (ns_inbound s') \<le> 256" using stack_inv_bounds(1) [OF inv] s' by (auto simp: put_conn_def wake_def)
  fix i
  show "stream_moves (s, W, R) (s', \<lambda>i. W i @ (if i = j then t else []), \<lambda>i. R i @ (if i = j then r else [])) i"
    using st j by (simp add: stream_moves_def store)
qed (use s' j in \<open>auto simp: put_conn_def wake_def pending_def\<close>)

lemma stack_inv_flags:
  assumes "stack_inv L rxs txs (s, W, R)" "j < length (ns_conn_store s)"
    "cs_tx st = cs_tx (ns_conn_store s ! j)" "cs_rx st = cs_rx (ns_conn_store s ! j)"
  shows "stack_inv L rxs txs (put_conn j st s, W, R)" "stack_inv L rxs txs (wake (put_conn j st s), W, R)"
proof -
  have "length (cs_tx st) \<le> USER_TX_LIMIT" using stack_inv_bounds(3) [OF assms(1,2)] assms(3) by (simp add: buffers_ok_def)
  then show "stack_inv L rxs txs (put_conn j st s, W, R)" "stack_inv L rxs txs (wake (put_conn j st s), W, R)"
    using stack_inv_put [OF assms(1,2), of st "[]" "[]" "put_conn j st s"]
      stack_inv_put [OF assms(1,2), of st "[]" "[]" "wake (put_conn j st s)"] assms(3,4) by simp_all
qed

lemma stack_inv_connect:
  assumes inv: "stack_inv L rxs txs (s, W, R)"
  shows "stack_inv L rxs txs (snd (connect a s), W, R)"
proof -
  let ?n = "length (ns_conn_store s)" and ?s = "snd (connect a s)"
  have s': "ns_conn_store ?s = ns_conn_store s @ [conn_state_new a]" "ns_listeners ?s = ns_listeners s" "ns_conns ?s = ns_conns s"
    "ns_stack ?s = ns_stack s" "ns_panicked ?s = ns_panicked s" "ns_inbound ?s = ns_inbound s"
    by (simp_all add: connect_def wake_def Let_def)
  have new: "cs_rx (conn_state_new a) = []" "cs_tx (conn_state_new a) = []" by (simp_all add: conn_state_new_def)
  have p: "set (pending ?s) = insert ?n (set (pending s))" "distinct (pending ?s) \<longleftrightarrow> distinct (pending s) \<and> ?n \<notin> set (pending s)"
    by (auto simp: pending_def connect_def wake_def Let_def split: thread_pos.split)
  have lt: "i < ?n" if "i \<in> set (stream_ids s)" for i using inv that by (simp add: stack_inv_def)
  then have "?n \<notin> set (stream_ids s)" by blast
  then have d: "distinct (stream_ids ?s)" using inv p by (auto simp: stack_inv_def stream_ids_def s')
  have "conn_flow L rxs txs (?s, W, R) ce" if "ce \<in> set (ns_conns s)" for ce
  proof -
    have "ce_shared ce < ?n" using lt that by (simp add: stream_ids_def)
    moreover have "conn_flow L rxs txs (s, W, R) ce" using inv that by (simp add: stack_inv_def)
    ultimately show ?thesis by (simp add: conn_flow_def s' nth_append)
  qed
  moreover have "\<forall>i\<in>set (pending ?s). R i = [] \<and> cs_rx (ns_conn_store ?s ! i) = [] \<and> cs_tx (ns_conn_store ?s ! i) = W i"
  proof
    fix i assume "i \<in> set (pending ?s)"
    then consider "i = ?n" | "i \<in> set (pending s)" "i < ?n" using p lt by (auto simp: stream_ids_def)
    then show "R i = [] \<and> cs_rx (ns_conn_store ?s ! i) = [] \<and> cs_tx (ns_conn_store ?s ! i) = W i"
      using inv by cases (auto simp: stack_inv_def s' nth_append new)
  qed
  ultimately show ?thesis
    using inv d p(1) by (auto simp: stack_inv_def handles_def stream_ids_def s' buffers_ok_def new USER_RX_LIMIT_def dest: less_SucI)
qed

lemma stack_inv_user_step:
  assumes inv: "stack_inv L rxs txs (s, W, R)" and u: "\<forall>e. ev \<noteq> ThreadStep e"
  shows "stack_inv L rxs txs (hist_step L ev (s, W, R))"
proof (cases ev)
  case (Connect a)
  then show ?thesis using stack_inv_connect [OF inv] by (simp add: hist_step_def)
next
  case (ReadTurn j cap dl now)
  let ?st = "ns_conn_store s ! j"
  let ?n = "min cap (length (cs_rx ?st))"
  show ?thesis
  proof (cases "j < length (ns_conn_store s) \<and> cs_rx ?st \<noteq> []")
    case True
    then have "length (cs_tx ?st) \<le> USER_TX_LIMIT" using stack_inv_bounds(3) [OF inv] by (simp add: buffers_ok_def)
    then show ?thesis
      using True ReadTurn stack_inv_put [OF inv, of j "?st\<lparr>cs_rx := drop ?n (cs_rx ?st)\<rparr>" "[]" "take ?n (cs_rx ?st)"
          "snd (read_turn j cap dl now s)"]
      by (simp add: hist_step_def read_turn_def Let_def if_distrib [of "\<lambda>x. R _ @ x"] cong: if_cong)
  next
    case False
    then have "hist_step L ev (s, W, R) = (s, W, R)"
      using ReadTurn by (auto simp: hist_step_def read_turn_def Let_def fun_eq_iff)
    then show ?thesis using inv by simp
  qed
next
  case (WriteTurn j d)
  let ?st = "ns_conn_store s ! j"
  let ?n = "min (USER_TX_LIMIT - length (cs_tx ?st)) (length d)"
  show ?thesis
  proof (cases "j < length (ns_conn_store s) \<and> d \<noteq> [] \<and> \<not> cs_dead ?st \<and> \<not> cs_local_closed ?st \<and> length (cs_tx ?st) < USER_TX_LIMIT")
    case True
    then have "length (cs_tx ?st @ take ?n d) \<le> USER_TX_LIMIT" by auto
    then show ?thesis
      using True WriteTurn stack_inv_put [OF inv, of j "?st\<lparr>cs_tx := cs_tx ?st @ take ?n d\<rparr>" "take ?n d" "[]" "snd (write_turn j d s)"]
      by (simp del: length_append add: hist_step_def write_turn_def Let_def cong: if_cong)
  next
    case False
    then have "hist_step L ev (s, W, R) = (s, W, R)"
      using WriteTurn by (auto simp: hist_step_def write_turn_def Let_def fun_eq_iff)
    then show ?thesis using inv by simp
  qed
next
  case (CloseStream j)
  then show ?thesis using inv stack_inv_flags(2) [OF inv] by (auto simp: hist_step_def close_stream_def)
next
  case (AbortStream j)
  then show ?thesis using inv stack_inv_flags(2) [OF inv] by (auto simp: hist_step_def abort_stream_def)
next
  case (ThreadStep e)
  then show ?thesis using u by blast
qed (use inv stack_inv_bounds(1) [OF inv] in \<open>auto simp: hist_step_def inject_def set_addresses_def listen_def shutdown_stack_def
    drop_listener_def accept_turn_def wake_def Let_def pending_def split: list.split intro!: stack_inv_quiet [OF inv]\<close>)

section \<open>The invariant is kept by the thread\<close>

lemma pending_simps:
  "pending (s\<lparr>ns_stack := w\<rparr>) = pending s" "pending (s\<lparr>ns_conns := c\<rparr>) = pending s"
  "pending (s\<lparr>ns_listeners := l\<rparr>) = pending s" "pending (s\<lparr>ns_conn_store := st\<rparr>) = pending s"
  by (simp_all add: pending_def)

lemma handles_have_sockets: "stack_inv L rxs txs (s, W, R) \<Longrightarrow> h \<in> set (handles s) \<Longrightarrow> sl_get L h (ns_stack s) \<noteq> None"
  by (fastforce simp: stack_inv_def handles_def fresh_socket_def conn_flow_def)

lemma handles_disjoint:
  assumes "stack_inv L rxs txs (s, W, R)" "le \<in> set (ns_listeners s)" "ce \<in> set (ns_conns s)"
  shows "le_handle le \<noteq> ce_handle ce"
proof -
  have "le_handle ` set (ns_listeners s) \<inter> ce_handle ` set (ns_conns s) = {}"
    using assms(1) by (simp add: stack_inv_def handles_def)
  then show ?thesis using imageI [OF assms(2)] imageI [OF assms(3)] by (metis IntI empty_iff)
qed

lemma conn_flow_cong:
  "sl_get L (ce_handle ce) (ns_stack s') = sl_get L (ce_handle ce) (ns_stack s) \<Longrightarrow>
   ns_conn_store s' ! ce_shared ce = ns_conn_store s ! ce_shared ce \<Longrightarrow>
   conn_flow L rxs txs (s', W, R) ce = conn_flow L rxs txs (s, W, R) ce"
  by (simp add: conn_flow_def)

lemma fresh_socket_cong: "sl_get L h w' = sl_get L h w \<Longrightarrow> fresh_socket L rxs txs w' h = fresh_socket L rxs txs w h"
  by (simp add: fresh_socket_def)

lemma stack_inv_open_listener:
  assumes ok: "smol_ok L rxs txs" and inv: "stack_inv L rxs txs (s, W, R)"
  shows "stack_inv L rxs txs (open_listener L l s, W, R)"
proof -
  note sok = ok [unfolded smol_ok_def, THEN conjunct1] and wok = ok [unfolded smol_ok_def, THEN conjunct2]
  obtain b k where k: "sl_listen L (ls_port (ns_listener_store s ! l)) (new_tcp_socket L) = (b, k)" by fastforce
  obtain h w where a: "sl_add L k (ns_stack s) = (h, w)" by fastforce
  note law = set_okD(3) [OF wok a]
  have new: "h \<notin> set (handles s)" using handles_have_sockets [OF inv] law by blast
  have get: "sl_get L x w = sl_get L x (ns_stack s)" if "x \<in> set (handles s)" for x using law [of x] new that by auto
  show ?thesis
  proof (cases b)
    case True
    let ?s = "open_listener L l s"
    have s': "?s = s\<lparr>ns_stack := w, ns_listeners := ns_listeners s @ [\<lparr>le_shared = l, le_handle = h\<rparr>]\<rparr>"
      using k a True by (simp add: open_listener_def)
    have "distinct (handles ?s)" using inv new by (auto simp: s' handles_def stack_inv_def)
    moreover have "pending ?s = pending s" "stream_ids ?s = stream_ids s" by (simp_all add: s' pending_def stream_ids_def)
    moreover have "conn_flow L rxs txs (?s, W, R) ce" if "ce \<in> set (ns_conns s)" for ce
      using inv that get [of "ce_handle ce"] conn_flow_cong [of L ce ?s s] by (simp add: s' handles_def stack_inv_def)
    moreover have "fresh_socket L rxs txs w h"
      using law [of h] socket_okD(1-4) [OF sok] k by (simp add: fresh_socket_def) (metis snd_conv)
    moreover have "fresh_socket L rxs txs w (le_handle le)" if "le \<in> set (ns_listeners s)" for le
      using inv that get [of "le_handle le"] fresh_socket_cong [of L "le_handle le" w] by (simp add: handles_def stack_inv_def)
    ultimately show ?thesis using inv by (simp add: stack_inv_def s')
  next
    case False
    then show ?thesis using k inv by (simp add: open_listener_def)
  qed
qed

lemma open_listener_frame [simp]:
  "ns_at (open_listener L l s) = ns_at s" "ns_new_connects (open_listener L l s) = ns_new_connects s"
  "ns_shutdown (open_listener L l s) = ns_shutdown s" "ns_conn_store (open_listener L l s) = ns_conn_store s"
  by (simp_all add: open_listener_def split: prod.split bool.split)

lemma turn_stores [simp]:
  "ns_listener_store (snd (write_turn c d s)) = ns_listener_store s" "length (ns_conn_store (snd (write_turn c d s))) = length (ns_conn_store s)"
  "ns_listener_store (snd (read_turn c n dl now s)) = ns_listener_store s" "length (ns_conn_store (snd (read_turn c n dl now s))) = length (ns_conn_store s)"
  "ns_listener_store (close_stream c s) = ns_listener_store s" "length (ns_conn_store (close_stream c s)) = length (ns_conn_store s)"
  by (simp_all add: write_turn_def read_turn_def close_stream_def Let_def wake_def put_conn_def)

lemma fold_open_listener_stores [simp]:
  "ns_listener_store (fold (open_listener L) ls s) = ns_listener_store s"
  "ns_conn_store (fold (open_listener L) ls s) = ns_conn_store s"
  by (induction ls arbitrary: s) (simp_all add: open_listener_def split: prod.splits bool.splits)

lemma fold_open_listener:
  assumes "smol_ok L rxs txs" "stack_inv L rxs txs (s, W, R)"
  shows "stack_inv L rxs txs (fold (open_listener L) ls s, W, R) \<and> ns_at (fold (open_listener L) ls s) = ns_at s
    \<and> ns_new_connects (fold (open_listener L) ls s) = ns_new_connects s \<and> ns_conn_store (fold (open_listener L) ls s) = ns_conn_store s"
  using assms(2) by (induction ls arbitrary: s) (simp_all add: stack_inv_open_listener [OF assms(1)])

lemma apply_addrs_same: "set_ok L rxs txs \<Longrightarrow> same_streams L rxs txs w (apply_addrs L a w)"
proof -
  assume ok: "set_ok L rxs txs"
  have "same_streams L rxs txs w (fold (sl_add_default_route L) ips w)" for ips w
    by (induction ips arbitrary: w) (auto intro: same_streams_trans [OF set_okD(5) [OF ok]])
  then show ?thesis unfolding apply_addrs_def by (rule same_streams_trans [OF set_okD(4) [OF ok]])
qed

lemma stack_inv_pull:
  assumes ok: "smol_ok L rxs txs" and inv: "stack_inv L rxs txs (s, W, R)" and at: "ns_at s = AtPull"
  shows "stack_inv L rxs txs (pull_work L s, W, R)"
proof (cases "ns_shutdown s")
  case True
  then show ?thesis using inv at stack_inv_bounds(1) [OF inv]
    by (intro stack_inv_quiet [OF inv]) (simp_all add: pull_work_def pending_def)
next
  case False
  define s1 where "s1 = s\<lparr>ns_wake := False, ns_inbound := [], ns_device := (ns_device s)\<lparr>td_rx := td_rx (ns_device s) @ ns_inbound s\<rparr>\<rparr>"
  define s2 where "s2 = (if ns_addrs_dirty s1 then s1\<lparr>ns_addrs_dirty := False, ns_stack := apply_addrs L (ns_addrs s1) (ns_stack s1)\<rparr> else s1)"
  define s3 where "s3 = fold (open_listener L) (ns_new_listeners s2) (s2\<lparr>ns_new_listeners := []\<rparr>)"
  have "stack_inv L rxs txs (s2\<lparr>ns_new_listeners := []\<rparr>, W, R)"
    using apply_addrs_same [OF ok [unfolded smol_ok_def, THEN conjunct2]]
    by (intro stack_inv_world [OF inv]) (simp_all add: s1_def s2_def pending_def)
  from fold_open_listener [OF ok this, of "ns_new_listeners s2"]
  have s3: "stack_inv L rxs txs (s3, W, R)" "ns_at s3 = AtPull" using at by (simp_all add: s3_def s2_def s1_def)
  have "pull_work L s = s3\<lparr>ns_new_connects := [], ns_at := AtConnects (ns_new_connects s3)\<rparr>"
    using False by (simp add: pull_work_def Let_def s1_def s2_def s3_def)
  then show ?thesis using s3 stack_inv_bounds(1) [OF s3(1)] by (simp add: stack_inv_quiet [OF s3(1)] pending_def)
qed

lemma stack_inv_open_connection:
  assumes ok: "smol_ok L rxs txs" and inv: "stack_inv L rxs txs (s, W, R)" and at: "ns_at s = AtConnects ((remote, i) # cs)"
  shows "stack_inv L rxs txs (open_connection L rnd remote i (s\<lparr>ns_at := AtConnects cs\<rparr>), W, R)"
proof -
  note sok = ok [unfolded smol_ok_def, THEN conjunct1] and wok = ok [unfolded smol_ok_def, THEN conjunct2]
  let ?s0 = "s\<lparr>ns_at := AtConnects cs\<rparr>"
  obtain b k w where c: "sl_connect L remote (local_port rnd) (new_tcp_socket L, ns_stack s) = (b, k, w)" by (metis surj_pair)
  note conn = set_okD(7) [OF wok c]
  let ?s1 = "s\<lparr>ns_stack := w\<rparr>"
  have inv1: "stack_inv L rxs txs (?s1, W, R)"
    using conn stack_inv_bounds(1) [OF inv] by (intro stack_inv_world [OF inv]) (simp_all add: pending_def)
  have ids: "set (pending ?s1) = insert i (set (pending ?s0))" "distinct (pending ?s1) \<Longrightarrow> distinct (pending ?s0) \<and> i \<notin> set (pending ?s0)"
    using at by (auto simp: pending_def)
  have i: "i < length (ns_conn_store s)" "R i = []" "cs_rx (ns_conn_store s ! i) = []" "cs_tx (ns_conn_store s ! i) = W i"
    "i \<notin> ce_shared ` set (ns_conns s)"
    using inv1 ids(1) by (auto simp: stack_inv_def stream_ids_def)
  show ?thesis
  proof (cases b)
    case True
    obtain h w' where a: "sl_add L k w = (h, w')" by fastforce
    note law = set_okD(3) [OF wok a]
    have "handles ?s1 = handles s" by (simp add: handles_def)
    then have new: "h \<notin> set (handles s)" using handles_have_sockets [OF inv1, of h] law by auto
    have get: "sl_get L x w' = sl_get L x w" if "x \<in> set (handles s)" for x using law [of x] new that by auto
    define s2 where "s2 = ?s0\<lparr>ns_stack := w', ns_conns := ns_conns s @ [\<lparr>ce_handle = h, ce_shared = i\<rparr>]\<rparr>"
    have s2: "open_connection L rnd remote i ?s0 = s2" using c a True by (simp add: open_connection_def s2_def)
    have s': "ns_stack s2 = w'" "ns_conns s2 = ns_conns s @ [\<lparr>ce_handle = h, ce_shared = i\<rparr>]" "ns_listeners s2 = ns_listeners s"
      "ns_conn_store s2 = ns_conn_store s" "ns_inbound s2 = ns_inbound s" "ns_panicked s2 = ns_panicked s" "pending s2 = pending ?s0"
      by (simp_all add: s2_def pending_def)
    have "distinct (handles s2)" using inv new by (auto simp: s' handles_def stack_inv_def)
    moreover have "distinct (stream_ids s2)"
    proof -
      have "stream_ids s2 = map ce_shared (ns_conns s) @ i # pending ?s0" by (simp add: s' stream_ids_def)
      moreover have "distinct (map ce_shared (ns_conns s) @ pending ?s1)" using inv1 by (simp add: stack_inv_def stream_ids_def)
      ultimately show ?thesis using ids by simp
    qed
    moreover have "conn_flow L rxs txs (s2, W, R) ce" if "ce \<in> set (ns_conns s)" for ce
      using inv1 that get [of "ce_handle ce"] conn_flow_cong [of L ce s2 ?s1] by (simp add: s' handles_def stack_inv_def)
    moreover have "conn_flow L rxs txs (s2, W, R) \<lparr>ce_handle = h, ce_shared = i\<rparr>"
      using law [of h] conn socket_okD(1,2) [OF sok] i by (simp add: conn_flow_def s')
    moreover have "fresh_socket L rxs txs w' (le_handle le)" if "le \<in> set (ns_listeners s)" for le
      using inv1 that get [of "le_handle le"] fresh_socket_cong [of L "le_handle le" w' w] by (simp add: handles_def stack_inv_def)
    moreover have "set (stream_ids s2) \<subseteq> set (stream_ids ?s1)" using ids(1) by (auto simp: s' stream_ids_def)
    ultimately show ?thesis unfolding s2 using inv1 ids(1) by (auto simp: stack_inv_def s')
  next
    case False
    have "stack_inv L rxs txs (s\<lparr>ns_at := AtConnects cs, ns_stack := w\<rparr>, W, R)"
      using inv1 ids conn_flow_cong [of L _ "s\<lparr>ns_at := AtConnects cs, ns_stack := w\<rparr>" ?s1]
      by (auto simp: stack_inv_def stream_ids_def handles_def pending_def)
    from stack_inv_flags(1) [OF this, of i "(ns_conn_store s ! i)\<lparr>cs_dead := True\<rparr>"] show ?thesis
      using False c i(1) by (simp add: open_connection_def)
  qed
qed

lemma set_drop_nth:
  assumes "distinct (map f xs)" "j < length xs"
  shows "x \<in> set (drop_nth j xs) \<longleftrightarrow> x \<in> set xs \<and> f x \<noteq> f (xs ! j)"
proof -
  have xs: "xs = take j xs @ xs ! j # drop (Suc j) xs" using assms(2) by (rule id_take_nth_drop)
  have "distinct (map f (take j xs) @ f (xs ! j) # map f (drop (Suc j) xs))" using assms(1) by (subst (asm) xs) simp
  moreover have "set xs = set (take j xs) \<union> insert (xs ! j) (set (drop (Suc j) xs))" by (subst xs) simp
  ultimately show ?thesis unfolding drop_nth_def by (auto simp: image_iff)
qed

lemma map_drop_nth: "map f (drop_nth j xs) = drop_nth j (map f xs)"
  by (simp add: drop_nth_def take_map drop_map)

lemma distinct_drop_nth: "distinct xs \<Longrightarrow> distinct (drop_nth j xs)"
  by (simp add: drop_nth_def set_take_disj_set_drop_if_distinct)

lemma set_drop_nth_subset: "set (drop_nth j xs) \<subseteq> set xs"
  by (auto simp: drop_nth_def dest: in_set_takeD in_set_dropD)

lemma stack_inv_close_listener:
  assumes wok: "set_ok L rxs txs" and inv: "stack_inv L rxs txs (s, W, R)" and j: "j < length (ns_listeners s)"
    and k: "sl_get L (le_handle (ns_listeners s ! j)) (ns_stack s) = Some k0"
  shows "stack_inv L rxs txs (s\<lparr>ns_stack := sl_remove L (le_handle (ns_listeners s ! j)) (sl_put L (le_handle (ns_listeners s ! j)) k (ns_stack s)),
      ns_listeners := drop_nth j (ns_listeners s)\<rparr>, W, R)" (is "stack_inv L rxs txs (?s, W, R)")
proof -
  let ?h = "le_handle (ns_listeners s ! j)"
  define s2 where "s2 = ?s"
  have s': "ns_conns s2 = ns_conns s" "ns_listeners s2 = drop_nth j (ns_listeners s)" "ns_conn_store s2 = ns_conn_store s"
    "ns_inbound s2 = ns_inbound s" "ns_panicked s2 = ns_panicked s" "pending s2 = pending s"
    by (simp_all add: s2_def pending_def)
  have get: "sl_get L x (ns_stack s2) = sl_get L x (ns_stack s)" if "x \<noteq> ?h" for x
    using set_okD(1) [OF wok, of ?h "ns_stack s"] set_okD(2) [OF wok] k that by (simp add: s2_def)
  have d: "distinct (map le_handle (ns_listeners s))"
    using inv by (auto simp: stack_inv_def handles_def)
  have ce: "ce_handle ce \<noteq> ?h" if "ce \<in> set (ns_conns s)" for ce
    using handles_disjoint [OF inv nth_mem [OF j] that] by simp
  have "conn_flow L rxs txs (s2, W, R) ce" if "ce \<in> set (ns_conns s)" for ce
    using inv that get [OF ce [OF that]] conn_flow_cong [of L ce s2 s] by (simp add: stack_inv_def s')
  moreover have "fresh_socket L rxs txs (ns_stack s2) (le_handle le)" if "le \<in> set (drop_nth j (ns_listeners s))" for le
    using inv that set_drop_nth [OF d j] get [of "le_handle le"] fresh_socket_cong [of L "le_handle le" "ns_stack s2" "ns_stack s"]
    by (simp add: stack_inv_def)
  moreover have "distinct (handles s2)"
    using inv distinct_drop_nth [OF d] set_drop_nth_subset [of j "map le_handle (ns_listeners s)"]
    by (auto simp: stack_inv_def handles_def map_drop_nth s')
  ultimately show ?thesis unfolding s2_def [symmetric] using inv by (simp add: stack_inv_def stream_ids_def s')
qed

lemma distinct_swap_out:
  assumes "distinct (xs @ ys)" "j < length xs" "h \<notin> set (xs @ ys)"
  shows "distinct (xs[j := h] @ ys @ [xs ! j])"
proof -
  have xs: "xs = take j xs @ xs ! j # drop (Suc j) xs" using assms(2) by (rule id_take_nth_drop)
  have "distinct (take j xs @ xs ! j # drop (Suc j) xs @ ys)" "h \<notin> set (take j xs @ xs ! j # drop (Suc j) xs @ ys)"
    using assms(1,3) xs by (metis append.assoc append_Cons)+
  then show ?thesis using assms(2) by (auto simp: upd_conv_take_nth_drop)
qed

lemma stack_inv_hand_over:
  assumes ok: "smol_ok L rxs txs" and inv: "stack_inv L rxs txs (s, W, R)" and j: "j < length (ns_listeners s)"
    and k: "sl_get L (le_handle (ns_listeners s ! j)) (ns_stack s) = Some k"
  shows "stack_inv L rxs txs (hand_over L j k s, W, R)"
proof -
  note sok = ok [unfolded smol_ok_def, THEN conjunct1] and wok = ok [unfolded smol_ok_def, THEN conjunct2]
  let ?le = "ns_listeners s ! j" and ?n = "length (ns_conn_store s)"
  define k' where "k' = snd (sl_listen L (ls_port (ns_listener_store s ! le_shared ?le)) (new_tcp_socket L))"
  obtain h w where a: "sl_add L k' (ns_stack s) = (h, w)" by fastforce
  note law = set_okD(3) [OF wok a]
  define s2 where "s2 = hand_over L j k s"
  obtain remote where s': "ns_stack s2 = w" "ns_conns s2 = ns_conns s @ [\<lparr>ce_handle = le_handle ?le, ce_shared = ?n\<rparr>]"
      "ns_listeners s2 = (ns_listeners s)[j := ?le\<lparr>le_handle := h\<rparr>]" "ns_conn_store s2 = ns_conn_store s @ [conn_state_new remote]"
      "ns_inbound s2 = ns_inbound s" "ns_panicked s2 = ns_panicked s" "pending s2 = pending s"
    unfolding s2_def hand_over_def Let_def k'_def [symmetric] a by (simp add: pending_def)
  have new: "h \<notin> set (handles s)" using handles_have_sockets [OF inv, of h] law [of h] by auto
  have get: "sl_get L x w = sl_get L x (ns_stack s)" if "x \<in> set (handles s)" for x using law [of x] new that by auto
  have le: "?le \<in> set (ns_listeners s)" using j by simp
  have lt: "i < ?n" if "i \<in> set (stream_ids s)" for i using inv that by (simp add: stack_inv_def)
  have "distinct (handles s2)"
    using distinct_swap_out [of "map le_handle (ns_listeners s)" "map ce_handle (ns_conns s)" j h] inv new j
    by (simp add: handles_def s' map_update stack_inv_def)
  moreover have "distinct (stream_ids s2)" using inv lt by (fastforce simp: stream_ids_def s' stack_inv_def)
  moreover have "conn_flow L rxs txs (s2, W, R) ce" if "ce \<in> set (ns_conns s)" for ce
    using inv that lt [of "ce_shared ce"] get [of "ce_handle ce"] conn_flow_cong [of L ce s2 s]
    by (simp add: s' handles_def stream_ids_def stack_inv_def nth_append)
  moreover have "conn_flow L rxs txs (s2, W, R) \<lparr>ce_handle = le_handle ?le, ce_shared = ?n\<rparr>"
  proof -
    have "rxs k = [] \<and> txs k = []" using inv le k by (auto simp: stack_inv_def fresh_socket_def)
    moreover have "W ?n = [] \<and> R ?n = []" using inv by (simp add: stack_inv_def)
    ultimately show ?thesis using get [of "le_handle ?le"] le k by (simp add: conn_flow_def s' handles_def conn_state_new_def)
  qed
  moreover have "fresh_socket L rxs txs w h" using law [of h] socket_okD(1-4) [OF sok] by (simp add: fresh_socket_def k'_def)
  moreover have "fresh_socket L rxs txs w (le_handle l)" if "l \<in> set (ns_listeners s)" for l
    using inv that get [of "le_handle l"] fresh_socket_cong [of L "le_handle l" w "ns_stack s"] by (simp add: handles_def stack_inv_def)
  moreover have "\<forall>i\<in>set (pending s). R i = [] \<and> cs_rx (ns_conn_store s2 ! i) = [] \<and> cs_tx (ns_conn_store s2 ! i) = W i"
    using inv lt by (auto simp: stack_inv_def stream_ids_def s' nth_append)
  moreover have "\<forall>i\<in>set (stream_ids s2). i < length (ns_conn_store s2)" using lt by (auto simp: stream_ids_def s' less_SucI)
  moreover have "buffers_ok (conn_state_new remote)" by (simp add: buffers_ok_def conn_state_new_def USER_RX_LIMIT_def)
  ultimately show ?thesis unfolding s2_def [symmetric] using inv
    by (auto simp: stack_inv_def s' dest!: set_update_subset_insert [THEN subsetD])
qed

lemma stack_inv_at: "stack_inv L rxs txs (s, W, R) \<Longrightarrow> (\<forall>cs. ns_at s \<noteq> AtConnects cs) \<Longrightarrow> (\<forall>cs. p \<noteq> AtConnects cs) \<Longrightarrow>
    stack_inv L rxs txs (s\<lparr>ns_at := p\<rparr>, W, R)"
  by (rule stack_inv_quiet) (auto simp: pending_def stack_inv_bounds split: thread_pos.split)

lemma hand_over_at [simp]: "ns_at (hand_over L j k s) = ns_at s"
  by (simp add: hand_over_def Let_def split: prod.split)

text \<open>Closing streams sets flags only, and so does dropping the queue of a listener.\<close>

lemma close_streams_frame [simp]:
  "ns_listener_store (fold close_stream is s) = ns_listener_store s" "length (ns_conn_store (fold close_stream is s)) = length (ns_conn_store s)"
  "ns_at (fold close_stream is s) = ns_at s"
  by (induction "is" arbitrary: s) (simp_all add: close_stream_def wake_def put_conn_def)

lemma drop_queue_frame [simp]: "length (ns_conn_store (drop_queue l s)) = length (ns_conn_store s)"
  by (simp add: drop_queue_def Let_def)

lemma stack_inv_close_streams:
  "stack_inv L rxs txs (s, W, R) \<Longrightarrow> stack_inv L rxs txs (fold close_stream is s, W, R)"
proof (induction "is" arbitrary: s)
  case (Cons i "is")
  have "stack_inv L rxs txs (close_stream i s, W, R)"
  proof (cases "i < length (ns_conn_store s)")
    case True
    then show ?thesis using stack_inv_flags(2) [OF Cons.prems True] by (simp add: close_stream_def)
  next
    case False
    then have "close_stream i s = wake s" by (simp add: close_stream_def put_conn_def list_update_beyond)
    then show ?thesis using stack_inv_bounds(1) [OF Cons.prems]
      by (auto simp: wake_def pending_def intro!: stack_inv_quiet [OF Cons.prems])
  qed
  then show ?case using Cons.IH by simp
qed simp

lemma stack_inv_drop_queue: "stack_inv L rxs txs (s, W, R) \<Longrightarrow> stack_inv L rxs txs (drop_queue l s, W, R)"
  unfolding drop_queue_def Let_def
  by (intro stack_inv_close_streams, rule stack_inv_quiet) (auto simp: pending_def stack_inv_bounds)

lemma stack_inv_serve_listener:
  assumes ok: "smol_ok L rxs txs" and inv: "stack_inv L rxs txs (s, W, R)" and j: "j < length (ns_listeners s)" "ns_at s = AtListener j"
  shows "stack_inv L rxs txs (serve_listener L j s, W, R)"
proof -
  note sok = ok [unfolded smol_ok_def, THEN conjunct1] and wok = ok [unfolded smol_ok_def, THEN conjunct2]
  let ?le = "ns_listeners s ! j"
  let ?sh = "ns_listener_store s ! le_shared ?le"
  obtain k where k: "sl_get L (le_handle ?le) (ns_stack s) = Some k"
    using handles_have_sockets [OF inv, of "le_handle ?le"] j(1) by (auto simp: handles_def)
  let ?w = "sl_put L (le_handle ?le) (snd (sl_listen L (ls_port ?sh) k)) (ns_stack s)"
  have "same_streams L rxs txs (ns_stack s) ?w"
    using set_okD(1) [OF wok, of "le_handle ?le" "ns_stack s"] k socket_okD(3,4) [OF sok] by (auto simp: same_streams_def)
  then have relisten: "stack_inv L rxs txs (s\<lparr>ns_stack := ?w\<rparr>, W, R)"
    using stack_inv_bounds(1) [OF inv] by (intro stack_inv_world [OF inv]) (simp_all add: pending_def)
  have next_at: "stack_inv L rxs txs (s'\<lparr>ns_at := AtListener (Suc j)\<rparr>, W, R)" if "stack_inv L rxs txs (s', W, R)" "ns_at s' = AtListener j" for s'
    using stack_inv_at [OF that(1)] that(2) by simp
  note over = next_at [OF stack_inv_hand_over [OF ok inv j(1) k]]
  show ?thesis
  proof (cases "ls_closed ?sh")
    case True
    then show ?thesis using stack_inv_drop_queue [OF stack_inv_close_listener [OF wok inv j(1) k]] k by (simp add: serve_listener_def Let_def)
  next
    case False
    then show ?thesis using k over next_at [OF inv] next_at [OF relisten] j(2)
      by (simp add: serve_listener_def Let_def split: tcp_state.split)
  qed
qed

text \<open>A connection is served: its bytes move between its buffers and its socket, nothing else changes.\<close>

lemma stack_inv_exchange:
  assumes ok: "smol_ok L rxs txs" and inv: "stack_inv L rxs txs (s, W, R)" and j: "j < length (ns_conns s)"
    and k: "sl_get L (ce_handle (ns_conns s ! j)) (ns_stack s) = Some k"
    and ex: "exchange L lay (ns_conn_store s ! ce_shared (ns_conns s ! j)) k = (st, k')"
  shows "stack_inv L rxs txs (put_conn (ce_shared (ns_conns s ! j)) st
      (s\<lparr>ns_stack := sl_put L (ce_handle (ns_conns s ! j)) k' (ns_stack s)\<rparr>), W, R)" (is "stack_inv L rxs txs (?s, W, R)")
proof -
  note sok = ok [unfolded smol_ok_def, THEN conjunct1] and wok = ok [unfolded smol_ok_def, THEN conjunct2]
  let ?ce = "ns_conns s ! j"
  let ?i = "ce_shared ?ce" and ?h = "ce_handle ?ce"
  define s2 where "s2 = ?s"
  have s': "ns_conns s2 = ns_conns s" "ns_listeners s2 = ns_listeners s" "ns_conn_store s2 = (ns_conn_store s)[?i := st]"
    "ns_inbound s2 = ns_inbound s" "ns_panicked s2 = ns_panicked s" "pending s2 = pending s" "handles s2 = handles s" "stream_ids s2 = stream_ids s"
    by (simp_all add: s2_def put_conn_def pending_def handles_def stream_ids_def)
  have get: "sl_get L x (ns_stack s2) = (if x = ?h then Some k' else sl_get L x (ns_stack s))" for x
    using set_okD(1) [OF wok, of ?h "ns_stack s"] k by (simp add: s2_def put_conn_def)
  have ce: "?ce \<in> set (ns_conns s)" and i: "?i < length (ns_conn_store s)"
    using j inv by (auto simp: stack_inv_def stream_ids_def)
  have d: "distinct (map ce_handle (ns_conns s))" "distinct (map ce_shared (ns_conns s))"
    "?i \<notin> set (pending s)"
    using inv ce by (auto simp: stack_inv_def handles_def stream_ids_def)
  note mv = exchange_streams [OF sok ex]
  have "conn_flow L rxs txs (s, W, R) ?ce" using inv ce by (simp add: stack_inv_def)
  then have flow: "conn_flow L rxs txs (s2, W, R) ?ce"
    using mv k i by (auto simp: conn_flow_def s' get)
  have "conn_flow L rxs txs (s2, W, R) c" if c: "c \<in> set (ns_conns s)" for c
  proof (cases "c = ?ce")
    case False
    then have "ce_handle c \<noteq> ?h" "ce_shared c \<noteq> ?i" using d(1,2) c ce by (auto simp: distinct_map dest: inj_onD)
    then show ?thesis using inv c conn_flow_cong [of L c s2 s] get by (simp add: stack_inv_def s')
  qed (use flow in simp)
  moreover have "fresh_socket L rxs txs (ns_stack s2) (le_handle l)" if "l \<in> set (ns_listeners s)" for l
    using inv that handles_disjoint [OF inv that ce] get [of "le_handle l"] fresh_socket_cong [of L "le_handle l" "ns_stack s2" "ns_stack s"]
    by (simp add: stack_inv_def)
  moreover have "buffers_ok st"
    using mv stack_inv_bounds(3) [OF inv i] by (auto simp: buffers_ok_def)
  moreover have "cs_rx (ns_conn_store s2 ! x) = cs_rx (ns_conn_store s ! x) \<and> cs_tx (ns_conn_store s2 ! x) = cs_tx (ns_conn_store s ! x)"
    if "x \<in> set (pending s)" for x
  proof -
    have "x \<noteq> ?i" using d(3) that by auto
    then show ?thesis by (simp add: s')
  qed
  ultimately show ?thesis unfolding s2_def [symmetric] using inv
    by (simp add: stack_inv_def s' list_all_update_nth)
qed

lemma stack_inv_drop_conn:
  assumes wok: "set_ok L rxs txs" and inv: "stack_inv L rxs txs (s, W, R)" and j: "j < length (ns_conns s)"
  shows "stack_inv L rxs txs (s\<lparr>ns_stack := sl_remove L (ce_handle (ns_conns s ! j)) (ns_stack s), ns_conns := drop_nth j (ns_conns s)\<rparr>, W, R)"
    (is "stack_inv L rxs txs (?s, W, R)")
proof -
  let ?h = "ce_handle (ns_conns s ! j)"
  define s2 where "s2 = ?s"
  have s': "ns_conns s2 = drop_nth j (ns_conns s)" "ns_listeners s2 = ns_listeners s" "ns_conn_store s2 = ns_conn_store s"
    "ns_inbound s2 = ns_inbound s" "ns_panicked s2 = ns_panicked s" "pending s2 = pending s"
    by (simp_all add: s2_def pending_def)
  have get: "sl_get L x (ns_stack s2) = sl_get L x (ns_stack s)" if "x \<noteq> ?h" for x
    using set_okD(2) [OF wok] that by (simp add: s2_def)
  have d: "distinct (map ce_handle (ns_conns s))" "distinct (map ce_shared (ns_conns s))"
    using inv j by (auto simp: stack_inv_def handles_def stream_ids_def)
  have "conn_flow L rxs txs (s2, W, R) c" if "c \<in> set (drop_nth j (ns_conns s))" for c
    using inv that set_drop_nth [OF d(1) j] get [of "ce_handle c"] conn_flow_cong [of L c s2 s] by (simp add: stack_inv_def s')
  moreover have "fresh_socket L rxs txs (ns_stack s2) (le_handle l)" if "l \<in> set (ns_listeners s)" for l
    using inv that handles_disjoint [OF inv that nth_mem [OF j]] get [of "le_handle l"]
      fresh_socket_cong [of L "le_handle l" "ns_stack s2" "ns_stack s"] by (simp add: stack_inv_def)
  moreover have "distinct (handles s2)" "distinct (stream_ids s2)" "set (stream_ids s2) \<subseteq> set (stream_ids s)"
    using inv distinct_drop_nth [OF d(1)] distinct_drop_nth [OF d(2)] set_drop_nth_subset [of j "map ce_handle (ns_conns s)"]
      set_drop_nth_subset [of j "map ce_shared (ns_conns s)"]
    by (auto simp: stack_inv_def handles_def stream_ids_def map_drop_nth s')
  ultimately show ?thesis unfolding s2_def [symmetric] using inv by (auto simp: stack_inv_def s')
qed

lemma stack_inv_serve_conn:
  assumes ok: "smol_ok L rxs txs" and inv: "stack_inv L rxs txs (s, W, R)" and j: "j < length (ns_conns s)" "ns_at s = AtConn j"
  shows "stack_inv L rxs txs (serve_conn L lay j s, W, R)"
proof -
  let ?ce = "ns_conns s ! j"
  obtain k where k: "sl_get L (ce_handle ?ce) (ns_stack s) = Some k"
    using handles_have_sockets [OF inv, of "ce_handle ?ce"] j(1) by (auto simp: handles_def)
  obtain st k' where ex: "exchange L lay (ns_conn_store s ! ce_shared ?ce) k = (st, k')" by fastforce
  let ?s = "put_conn (ce_shared ?ce) st (s\<lparr>ns_stack := sl_put L (ce_handle ?ce) k' (ns_stack s)\<rparr>)"
  note e = stack_inv_exchange [OF ok inv j(1) k ex]
  have fields: "ns_conns ?s = ns_conns s" "ns_at ?s = ns_at s" "ns_stack ?s = sl_put L (ce_handle ?ce) k' (ns_stack s)"
    by (simp_all add: put_conn_def)
  have eq: "put_conn (ce_shared ?ce) st s\<lparr>ns_stack := x\<rparr> = ?s\<lparr>ns_stack := x\<rparr>" for x by (simp add: put_conn_def)
  show ?thesis
  proof (cases "conn_over (sl_state L k')")
    case True
    then have "serve_conn L lay j s = ?s\<lparr>ns_stack := sl_remove L (ce_handle ?ce) (ns_stack ?s), ns_conns := drop_nth j (ns_conns ?s)\<rparr>"
      using k ex by (simp add: serve_conn_def Let_def put_conn_def)
    then show ?thesis
      using stack_inv_drop_conn [OF ok [unfolded smol_ok_def, THEN conjunct2] e, of j] j(1) by (simp only: fields)
  next
    case False
    then have "serve_conn L lay j s = ?s\<lparr>ns_at := AtConn (Suc j)\<rparr>"
      using k ex by (simp add: serve_conn_def Let_def put_conn_def)
    then show ?thesis using stack_inv_at [OF e] j(2) fields(2) by simp
  qed
qed

lemma stack_inv_thread_step:
  assumes ok: "smol_ok L rxs txs" and inv: "stack_inv L rxs txs (s, W, R)"
  shows "stack_inv L rxs txs (thread_step L e s, W, R)"
proof (cases "ns_at s")
  case AtPull
  then show ?thesis using stack_inv_pull [OF ok inv] by (simp add: thread_step_def)
next
  case (AtConnects cs)
  show ?thesis
  proof (cases cs)
    case Nil
    then show ?thesis using AtConnects stack_inv_bounds(1) [OF inv]
      by (intro stack_inv_quiet [OF inv]) (simp_all add: thread_step_def pending_def)
  next
    case (Cons c cs')
    then show ?thesis using AtConnects stack_inv_open_connection [OF ok inv, of "fst c" "snd c" cs']
      by (cases c) (simp add: thread_step_def)
  qed
next
  case AtPoll
  obtain d w where p: "sl_poll L (se_now e) (ns_device s, ns_stack s) = (d, w)" by fastforce
  have "same_streams L rxs txs (ns_stack s) w" using set_okD(6) [OF _ p] ok by (simp add: smol_ok_def)
  then show ?thesis using AtPoll p stack_inv_bounds(1) [OF inv]
    by (intro stack_inv_world [OF inv]) (simp_all add: thread_step_def pending_def)
next
  case (AtListener j)
  then show ?thesis using stack_inv_serve_listener [OF ok inv _ AtListener] stack_inv_at [OF inv] by (simp add: thread_step_def)
next
  case (AtConn j)
  then show ?thesis using stack_inv_serve_conn [OF ok inv _ AtConn] stack_inv_at [OF inv] by (simp add: thread_step_def)
next
  case AtFlush
  then show ?thesis using stack_inv_bounds(1) [OF inv]
    by (intro stack_inv_quiet [OF inv]) (simp_all add: thread_step_def flush_out_def pending_def)
next
  case Stopped
  then show ?thesis using inv by (simp add: thread_step_def)
qed

lemma stack_inv_hist_step:
  assumes ok: "smol_ok L rxs txs" and inv: "stack_inv L rxs txs h"
  shows "stack_inv L rxs txs (hist_step L ev h)"
proof -
  obtain s W R where h: "h = (s, W, R)" by (metis surj_pair)
  show ?thesis
  proof (cases "\<exists>e. ev = ThreadStep e")
    case True
    then show ?thesis using stack_inv_thread_step [OF ok inv [unfolded h]] by (auto simp: hist_step_def h)
  next
    case False
    then show ?thesis using stack_inv_user_step [OF inv [unfolded h]] by (simp add: h)
  qed
qed

definition history_start :: "'w \<Rightarrow> 'w history" where
  "history_start w = (netstack_start w, \<lambda>_. [], \<lambda>_. [])"

lemma stack_inv_start: "stack_inv L rxs txs (history_start w)"
  by (simp add: history_start_def stack_inv_def netstack_start_def handles_def stream_ids_def pending_def)

interpretation nst: step_invariant "\<lambda>h. \<exists>w. h = history_start w" "hist_step L" "\<lambda>h. smol_ok L rxs txs \<longrightarrow> stack_inv L rxs txs h"
  for L :: "('k, 'w) smol" and rxs txs
proof
  show "\<exists>w. h = history_start w \<Longrightarrow> smol_ok L rxs txs \<longrightarrow> stack_inv L rxs txs h" for h :: "'w history"
    using stack_inv_start by auto
  show "smol_ok L rxs txs \<longrightarrow> stack_inv L rxs txs h \<Longrightarrow> smol_ok L rxs txs \<longrightarrow> stack_inv L rxs txs (hist_step L ev h)"
    for ev and h :: "'w history"
    by (intro impI stack_inv_hist_step) simp_all
qed

section \<open>What the users can rely on\<close>

text \<open>
  C5: The bytes of every connection pass the stack complete and in order, whatever the interleaving of its thread with the
  calls on all streams and listeners: at every moment the bytes the socket has accepted followed by those still queued are exactly
  the bytes written to the stream, and the bytes read from the stream followed by those still buffered are exactly the bytes the
  socket has handed out.
\<close>

theorem stream_bytes_conserved:
  assumes "smol_ok L rxs txs" "fold (hist_step L) evs (history_start w) = (s, W, R)" "ce \<in> set (ns_conns s)"
  shows "\<exists>k. sl_get L (ce_handle ce) (ns_stack s) = Some k
    \<and> txs k @ cs_tx (ns_conn_store s ! ce_shared ce) = W (ce_shared ce)
    \<and> R (ce_shared ce) @ cs_rx (ns_conn_store s ! ce_shared ce) = rxs k"
  using nst.run_from_init [of "history_start w" L rxs txs evs] assms by (auto simp: stack_inv_def conn_flow_def)

text \<open>
  C22: Whatever the users do and whatever the network delivers, the thread of the stack never asks for a socket that is not in
  the set (which would panic), at most 256 packets wait for it, and the buffers of every connection stay below their limits (the
  received bytes by at most one read of 1024 bytes above).
\<close>

theorem netstack_run_invariant:
  assumes "smol_ok L rxs txs" "fold (hist_step L) evs (history_start w) = (s, W, R)"
  shows "\<not> ns_panicked s \<and> length (ns_inbound s) \<le> 256 \<and> list_all buffers_ok (ns_conn_store s)
    \<and> distinct (handles s) \<and> (\<forall>h\<in>set (handles s). sl_get L h (ns_stack s) \<noteq> None)"
proof -
  have inv: "stack_inv L rxs txs (s, W, R)" using nst.run_from_init [of "history_start w" L rxs txs evs] assms by auto
  then show ?thesis using handles_have_sockets [OF inv] by (simp add: stack_inv_def)
qed

text \<open>A stack whose sockets accept everything and receive the packets of the device as bytes.\<close>

record demo_socket =
  sk_in :: bytes
  sk_rx :: bytes
  sk_tx :: bytes

definition demo_smol :: "(demo_socket, (nat \<times> demo_socket) list) smol" where
  "demo_smol =
     \<lparr>sl_socket = (\<lambda>_ _. \<lparr>sk_in = [], sk_rx = [], sk_tx = []\<rparr>), sl_set_nagle_enabled = (\<lambda>_ k. k), sl_set_keep_alive = (\<lambda>_ k. k),
      sl_set_timeout = (\<lambda>_ k. k), sl_listen = (\<lambda>_ k. (True, k)), sl_connect = (\<lambda>_ _ (k, w). (True, k, w)), sl_state = (\<lambda>_. TcpEstablished),
      sl_remote_endpoint = (\<lambda>_. None), sl_can_recv = (\<lambda>k. sk_in k \<noteq> []), sl_can_send = (\<lambda>_. True), sl_may_recv = (\<lambda>_. True),
      sl_is_open = (\<lambda>_. True),
      sl_recv_slice = (\<lambda>cap k. (Some (take cap (sk_in k)), k\<lparr>sk_in := drop cap (sk_in k), sk_rx := sk_rx k @ take cap (sk_in k)\<rparr>)),
      sl_send_slice = (\<lambda>d k. (Some (length d), k\<lparr>sk_tx := sk_tx k @ d\<rparr>)), sl_close = (\<lambda>k. k), sl_abort = (\<lambda>k. k),
      sl_add = (\<lambda>k w. (Suc (Max (set (0 # map fst w))), (Suc (Max (set (0 # map fst w))), k) # w)), sl_get = (\<lambda>h w. map_of w h),
      sl_put = (\<lambda>h k w. AList.update h k w), sl_remove = (\<lambda>h w. AList.delete h w), sl_addr_capacity = 2,
      sl_update_ip_addrs = (\<lambda>_ w. w), sl_add_default_route = (\<lambda>_ w. w),
      sl_poll = (\<lambda>_ (d, w). (d\<lparr>td_rx := []\<rparr>, map (\<lambda>(h, k). (h, k\<lparr>sk_in := sk_in k @ concat (td_rx d)\<rparr>)) w)),
      sl_poll_delay = (\<lambda>_ _. None)\<rparr>"

lemma demo_smol_ok: "smol_ok demo_smol sk_rx sk_tx"
proof -
  have "map_of w (Suc (Max (insert 0 (fst ` set w)))) = None" for w :: "(nat \<times> demo_socket) list"
  proof (rule ccontr)
    assume "\<not> ?thesis"
    then have "Suc (Max (insert 0 (fst ` set w))) \<in> insert 0 (fst ` set w)" by (auto simp: map_of_eq_None_iff)
    then have "Suc (Max (insert 0 (fst ` set w))) \<le> Max (insert 0 (fst ` set w))" by (intro Max_ge) auto
    then show False by simp
  qed
  then show ?thesis
    by (auto simp: smol_ok_def socket_ok_def set_ok_def same_streams_def demo_smol_def new_tcp_socket_def update_conv' delete_conv'
        map_of_map option.map_comp comp_def)
qed

definition demo_run :: "(nat \<times> demo_socket) list history" where
  "demo_run = (let t = ThreadStep \<lparr>se_now = 0, se_rnd = 0, se_lay = (\<lambda>_. 2)\<rparr>
     in fold (hist_step demo_smol)
          [Inject [7, 8], Connect (SocketAddr (V4 1) 23), t, t, t, t, t, WriteTurn 0 [1, 2, 3], t, WriteTurn 0 [4], ReadTurn 0 1 0 0]
          (history_start []))"

lemma demo_run_state:
  "ns_conns (fst demo_run) = [\<lparr>ce_handle = 1, ce_shared = 0\<rparr>]" "fst (snd demo_run) 0 = [1, 2, 3, 4]" "snd (snd demo_run) 0 = [7]"
  "cs_tx (ns_conn_store (fst demo_run) ! 0) = [4]" "cs_rx (ns_conn_store (fst demo_run) ! 0) = [8]"
  by code_simp+

theorem stream_bytes_conserved_witness:
  "\<exists>k. sl_get demo_smol 1 (ns_stack (fst demo_run)) = Some k \<and> sk_tx k @ [4] = [1, 2, 3, 4] \<and> [7] @ [8] = sk_rx k"
proof -
  obtain s W R where r: "demo_run = (s, W, R)" by (metis surj_pair)
  show ?thesis
    using stream_bytes_conserved [OF demo_smol_ok r [unfolded demo_run_def Let_def]] demo_run_state by (simp add: r)
qed

theorem netstack_run_invariant_witness:
  "\<not> ns_panicked (fst demo_run) \<and> length (ns_inbound (fst demo_run)) \<le> 256 \<and> list_all buffers_ok (ns_conn_store (fst demo_run))
    \<and> distinct (handles (fst demo_run)) \<and> list_all (\<lambda>h. sl_get demo_smol h (ns_stack (fst demo_run)) \<noteq> None) (handles (fst demo_run))"
proof -
  obtain s W R where r: "demo_run = (s, W, R)" by (metis surj_pair)
  show ?thesis
    using netstack_run_invariant [OF demo_smol_ok r [unfolded demo_run_def Let_def]] by (simp add: r list_all_iff)
qed

section \<open>After the thread has stopped\<close>

definition stuck :: "nat \<Rightarrow> 'w netstack \<Rightarrow> bool" where
  "stuck i s \<longleftrightarrow> ns_at s = Stopped \<and> i < length (ns_conn_store s)
     \<and> (let st = ns_conn_store s ! i in \<not> cs_dead st \<and> \<not> cs_local_closed st \<and> USER_TX_LIMIT \<le> length (cs_tx st))"

lemma stuck_put:
  "stuck i s \<Longrightarrow> (j = i \<Longrightarrow> \<not> cs_dead st \<and> \<not> cs_local_closed st \<and> USER_TX_LIMIT \<le> length (cs_tx st)) \<Longrightarrow> stuck i (put_conn j st s)"
  by (cases "j = i") (simp_all add: stuck_def put_conn_def)

lemma stuck_wake [simp]: "stuck i (wake s) = stuck i s"
  by (simp add: stuck_def wake_def)

lemma stuck_step:
  assumes "stuck i s" "ev \<noteq> CloseStream i" "ev \<noteq> AbortStream i"
  shows "stuck i (ns_step L ev s)"
proof (cases ev)
  case (ReadTurn j cap dl now)
  then show ?thesis using assms(1) stuck_put [OF assms(1), of j] by (auto simp: read_turn_def Let_def stuck_def [of i s])
next
  case (WriteTurn j d)
  then show ?thesis using assms(1) stuck_put [OF assms(1), of j] by (auto simp: write_turn_def Let_def stuck_def [of i s])
next
  case (CloseStream j)
  then show ?thesis using assms stuck_put [OF assms(1), of j] by (auto simp: close_stream_def)
next
  case (AbortStream j)
  then show ?thesis using assms stuck_put [OF assms(1), of j] by (auto simp: abort_stream_def)
next
  case (Connect a)
  then show ?thesis using assms(1) by (simp add: connect_def Let_def stuck_def nth_append wake_def)
next
  case (ThreadStep e)
  then show ?thesis using assms(1) by (simp add: thread_step_def stuck_def)
qed (use assms(1) in \<open>auto simp: inject_def set_addresses_def listen_def shutdown_stack_def drop_listener_def accept_turn_def Let_def
    stuck_def wake_def split: list.split\<close>)

lemma stuck_run: "stuck i s \<Longrightarrow> CloseStream i \<notin> set evs \<Longrightarrow> AbortStream i \<notin> set evs \<Longrightarrow> stuck i (fold (ns_step L) evs s)"
proof (induction evs arbitrary: s)
  case (Cons ev evs)
  then have "stuck i (ns_step L ev s)" by (intro stuck_step) auto
  then show ?case using Cons.IH Cons.prems by simp
qed simp

text \<open>
  Once the thread of the stack has stopped, \<^verbatim>\<open>write_all\<close> on an open stream with a full queue never returns: after every
  sequence of further calls that does not close the stream itself, the next turn of its loop waits again. The thread leaves its
  loop without marking the connections dead.
\<close>

theorem write_never_returns_after_shutdown:
  assumes "ns_at s = Stopped" "i < length (ns_conn_store s)" "\<not> is_closed i s" "\<not> cs_local_closed (ns_conn_store s ! i)"
    and "USER_TX_LIMIT \<le> length (cs_tx (ns_conn_store s ! i))" "data \<noteq> []" "CloseStream i \<notin> set evs" "AbortStream i \<notin> set evs"
  shows "write_turn i data (fold (ns_step L) evs s) = (Wait, fold (ns_step L) evs s)"
proof -
  have "stuck i s" using assms(1-5) by (simp add: stuck_def is_closed_def Let_def)
  then have "stuck i (fold (ns_step L) evs s)"
    using assms(7,8) by (rule stuck_run)
  then show ?thesis using assms(6) by (simp add: write_turn_def stuck_def Let_def)
qed

definition demo_full :: "(nat \<times> demo_socket) list netstack" where
  "demo_full = (netstack_start [])\<lparr>ns_at := Stopped, ns_conn_store :=
     [(conn_state_new (SocketAddr (V4 1) 23))\<lparr>cs_tx := replicate USER_TX_LIMIT 0\<rparr>]\<rparr>"

theorem write_never_returns_after_shutdown_witness:
  "write_turn 0 [1] (fold (ns_step demo_smol) [WriteTurn 0 [1], ReadTurn 0 1 0 0] demo_full)
    = (Wait, fold (ns_step demo_smol) [WriteTurn 0 [1], ReadTurn 0 1 0 0] demo_full)"
  by (rule write_never_returns_after_shutdown) (simp_all add: demo_full_def is_closed_def conn_state_new_def)

section \<open>A connection that ends while its reader is behind\<close>

text \<open>
  Received bytes can be lost at the end of a connection: when the reader is behind by the whole buffer and the socket has
  reached the state TIME-WAIT with bytes still in it, serving the connection removes the socket without reading them, and the reader
  sees the end of the stream after the buffered bytes.
\<close>

theorem unread_bytes_lost:
  assumes "smol_ok L rxs txs" "j < length (ns_conns s)" "ce = ns_conns s ! j" "ce_shared ce < length (ns_conn_store s)"
    and "sl_get L (ce_handle ce) (ns_stack s) = Some k" "sl_state L k = TcpTimeWait" "sl_can_recv L k" "\<not> sl_is_open L k"
    and "st = ns_conn_store s ! ce_shared ce" "USER_RX_LIMIT \<le> length (cs_rx st)" "cs_tx st = []" "\<not> cs_aborted st"
    and "s' = serve_conn L lay j s" "st' = ns_conn_store s' ! ce_shared ce"
  shows "sl_get L (ce_handle ce) (ns_stack s') = None \<and> cs_rx st' = cs_rx st \<and> cs_dead st'
    \<and> fst (read_turn (ce_shared ce) cap deadline now (put_conn (ce_shared ce) (st'\<lparr>cs_rx := []\<rparr>) s')) = Done (Inr [])"
proof -
  have ex: "exchange L lay st k = (st\<lparr>cs_peer_closed := True, cs_dead := True\<rparr>, k)"
    using assms(6,8,10-12)
    by (simp add: exchange_def drain_socket.simps [of L "cs_rx st"] fill_socket.simps [of L lay "[]"] conn_over_def Let_def)
  have s': "s' = (put_conn (ce_shared ce) (st\<lparr>cs_peer_closed := True, cs_dead := True\<rparr>) s)
      \<lparr>ns_stack := sl_remove L (ce_handle ce) (sl_put L (ce_handle ce) k (ns_stack s)), ns_conns := drop_nth j (ns_conns s)\<rparr>"
    using assms(3,5,6,9,13) ex by (simp add: serve_conn_def conn_over_def Let_def put_conn_def)
  have "sl_get L (ce_handle ce) (ns_stack s') = None"
    using set_okD(2) [OF assms(1) [unfolded smol_ok_def, THEN conjunct2]] by (simp add: s')
  moreover have "st' = st\<lparr>cs_peer_closed := True, cs_dead := True\<rparr>" using assms(4,14) by (simp add: s' put_conn_def)
  ultimately show ?thesis using assms(4) by (simp add: read_turn_def Let_def put_conn_def s')
qed

definition demo_ended :: "(demo_socket, (nat \<times> demo_socket) list) smol" where
  "demo_ended = demo_smol\<lparr>sl_state := (\<lambda>_. TcpTimeWait), sl_is_open := (\<lambda>_. False)\<rparr>"

lemma demo_ended_ok: "smol_ok demo_ended sk_rx sk_tx"
proof -
  have "smol_ok demo_ended sk_rx sk_tx = smol_ok demo_smol sk_rx sk_tx"
    by (simp add: smol_ok_def socket_ok_def set_ok_def same_streams_def demo_ended_def new_tcp_socket_def)
  then show ?thesis using demo_smol_ok by simp
qed

definition demo_behind :: "(nat \<times> demo_socket) list netstack" where
  "demo_behind = (netstack_start [(1, \<lparr>sk_in = [9], sk_rx = replicate USER_RX_LIMIT 0, sk_tx = []\<rparr>)])
     \<lparr>ns_at := AtConn 0, ns_conns := [\<lparr>ce_handle = 1, ce_shared = 0\<rparr>], ns_conn_store :=
        [(conn_state_new (SocketAddr (V4 1) 23))\<lparr>cs_rx := replicate USER_RX_LIMIT 0\<rparr>]\<rparr>"

theorem unread_bytes_lost_witness:
  "sl_get demo_ended 1 (ns_stack (serve_conn demo_ended (\<lambda>_. 1) 0 demo_behind)) = None
    \<and> cs_rx (ns_conn_store (serve_conn demo_ended (\<lambda>_. 1) 0 demo_behind) ! 0) = replicate USER_RX_LIMIT 0"
  using unread_bytes_lost [OF demo_ended_ok, where j = 0 and s = demo_behind and ce = "\<lparr>ce_handle = 1, ce_shared = 0\<rparr>"
      and k = "\<lparr>sk_in = [9], sk_rx = replicate USER_RX_LIMIT 0, sk_tx = []\<rparr>"
      and st = "(conn_state_new (SocketAddr (V4 1) 23))\<lparr>cs_rx := replicate USER_RX_LIMIT 0\<rparr>" and lay = "\<lambda>_. 1", OF _ _ _ _ _ _ _ _ _ _ _ refl refl]
  by (simp add: demo_behind_def demo_ended_def demo_smol_def conn_state_new_def netstack_start_def)

section \<open>Streams that can no longer be written to\<close>

text \<open>Once the connection is over or the stream was closed on this side, it stays so.\<close>

definition unwritable :: "nat \<Rightarrow> 'w netstack \<Rightarrow> bool" where
  "unwritable i s \<longleftrightarrow> i < length (ns_conn_store s) \<and> (cs_dead (ns_conn_store s ! i) \<or> cs_local_closed (ns_conn_store s ! i))"

lemma unwritable_frame [simp]: "unwritable i (wake s) = unwritable i s" "unwritable i (s\<lparr>ns_at := p\<rparr>) = unwritable i s"
  "unwritable i (s\<lparr>ns_stack := w\<rparr>) = unwritable i s" "unwritable i (s\<lparr>ns_conns := c\<rparr>) = unwritable i s"
  "unwritable i (s\<lparr>ns_panicked := q\<rparr>) = unwritable i s"
  by (simp_all add: unwritable_def wake_def)

lemma unwritable_put:
  "unwritable i s \<Longrightarrow> (j = i \<Longrightarrow> cs_dead st \<or> cs_local_closed st) \<Longrightarrow> unwritable i (put_conn j st s)"
  by (cases "j = i") (simp_all add: unwritable_def put_conn_def)

lemma unwritable_same: "unwritable i s \<Longrightarrow> ns_conn_store s' = ns_conn_store s \<Longrightarrow> unwritable i s'"
  by (simp add: unwritable_def)

lemma exchange_keeps_unwritable:
  "exchange L lay st k = (st', k') \<Longrightarrow> cs_dead st \<or> cs_local_closed st \<Longrightarrow> cs_dead st' \<or> cs_local_closed st'"
  by (auto simp: exchange_def Let_def split: prod.splits if_splits)

lemma unwritable_serve:
  assumes "unwritable i s"
  shows "unwritable i (serve_conn L lay j s)"
proof -
  have "exchange L lay (ns_conn_store s ! i) k = (st, k') \<Longrightarrow> cs_dead st \<or> cs_local_closed st" for k st k'
    using exchange_keeps_unwritable assms by (metis unwritable_def)
  then have "exchange L lay (ns_conn_store s ! n) k = (st, k') \<Longrightarrow> unwritable i (put_conn n st s)" for k st k' n
    by (rule unwritable_put [OF assms]) simp
  then show ?thesis using assms
    by (auto simp: serve_conn_def stack_panic_def Let_def split: option.splits prod.splits)
qed

lemma unwritable_drop_queue: "unwritable i s \<Longrightarrow> unwritable i (drop_queue l s)"
proof -
  have "unwritable i (fold close_stream is s)" if "unwritable i s" for "is" and s :: "'a netstack"
    using that
  proof (induction "is" arbitrary: s)
    case (Cons j "is")
    then show ?case using unwritable_put [OF Cons.prems, of j] by (auto simp: close_stream_def)
  qed simp
  then show "unwritable i s \<Longrightarrow> ?thesis" by (simp add: drop_queue_def Let_def unwritable_def)
qed

lemma unwritable_hand_over: "unwritable i s \<Longrightarrow> unwritable i (hand_over L j k s)"
  by (simp add: hand_over_def unwritable_def nth_append Let_def split: prod.split)

lemma unwritable_thread: "unwritable i s \<Longrightarrow> unwritable i (thread_step L e s)"
proof (cases "ns_at s")
  case (AtConnects cs)
  assume "unwritable i s"
  then show ?thesis using AtConnects
    by (cases cs) (auto simp: thread_step_def open_connection_def intro: unwritable_same intro!: unwritable_put split: prod.splits bool.splits)
next
  case (AtListener j)
  assume "unwritable i s"
  then have "unwritable i (serve_listener L j s)" using unwritable_hand_over [of i s]
    by (auto simp: serve_listener_def stack_panic_def Let_def intro!: unwritable_drop_queue intro: unwritable_same
        split: option.split tcp_state.split)
  then show ?thesis using AtListener \<open>unwritable i s\<close> by (auto simp: thread_step_def intro: unwritable_same)
next
  case (AtConn j)
  assume "unwritable i s"
  then show ?thesis using AtConn unwritable_serve by (auto simp: thread_step_def)
qed (auto simp: thread_step_def pull_work_def flush_out_def unwritable_def Let_def split: prod.splits)

lemma unwritable_step: "unwritable i s \<Longrightarrow> unwritable i (ns_step L ev s)"
proof (cases ev)
  case (ReadTurn j cap dl now)
  assume u: "unwritable i s"
  then show ?thesis using ReadTurn unwritable_put [OF u, of j] by (auto simp: read_turn_def Let_def unwritable_def [of i s])
next
  case (WriteTurn j d)
  assume u: "unwritable i s"
  then show ?thesis using WriteTurn unwritable_put [OF u, of j] by (auto simp: write_turn_def Let_def unwritable_def [of i s])
next
  case (CloseStream j)
  assume u: "unwritable i s"
  then show ?thesis using CloseStream unwritable_put [OF u, of j] by (auto simp: close_stream_def)
next
  case (AbortStream j)
  assume u: "unwritable i s"
  then show ?thesis using AbortStream unwritable_put [OF u, of j] by (auto simp: abort_stream_def)
next
  case (Connect a)
  assume "unwritable i s"
  then show ?thesis using Connect by (simp add: connect_def Let_def unwritable_def nth_append wake_def)
next
  case (ThreadStep e)
  assume "unwritable i s"
  then show ?thesis using ThreadStep unwritable_thread by simp
qed (auto simp: inject_def set_addresses_def listen_def shutdown_stack_def drop_listener_def accept_turn_def Let_def
    unwritable_def wake_def split: list.split)

lemma write_turn_unwritable:
  assumes "fst (write_turn i rest s) = turn.Done (Inl e)" "i < length (ns_conn_store s)"
  shows "unwritable i (snd (write_turn i rest s))"
  using assms by (auto simp: write_turn_def Let_def unwritable_def split: if_splits)

lemma unwritable_write: "unwritable i s \<Longrightarrow> rest \<noteq> [] \<Longrightarrow> write_turn i rest s = (turn.Done (Inl BrokenPipe), s)"
  by (auto simp: write_turn_def unwritable_def Let_def)

end
