(* ===== verification/Control_Time.thy ===== *)
theory Control_Time
  imports Http1 "HOL-Library.Signed_Division"
begin

text \<open>
  The time stamps of the control server: \<^verbatim>\<open>parse_rfc3339_secs\<close> and \<^verbatim>\<open>days_from_civil\<close> of
  crates/tsnode/src/node.rs, and their equivalence with the calendar as it is defined, one day after
  the other.
\<close>

section \<open>Slices of text\<close>

text \<open>
  A text is its UTF-8 bytes. \<^verbatim>\<open>s.get(a..b)\<close> is \<open>None\<close> unless both ends are in range and at the start of a
  character; indexing \<^verbatim>\<open>s[a..b]\<close> panics there.
\<close>

definition is_char_boundary :: "string \<Rightarrow> nat \<Rightarrow> bool" where
  "is_char_boundary s i \<longleftrightarrow>
     i = 0 \<or> i = length s \<or> (i < length s \<and> \<not> (128 \<le> (of_char (s ! i) :: nat) \<and> (of_char (s ! i) :: nat) < 192))"

definition str_get :: "string \<Rightarrow> nat \<Rightarrow> nat \<Rightarrow> string option" where
  "str_get s a b =
     (if a \<le> b \<and> is_char_boundary s a \<and> is_char_boundary s b then Some (take (b - a) (drop a s)) else None)"

text \<open>\<^verbatim>\<open>str::rfind\<close> of a set of ASCII characters.\<close>

definition rfind :: "(char \<Rightarrow> bool) \<Rightarrow> string \<Rightarrow> nat option" where
  "rfind P s =
     (if list_ex P s then Some (length s - 1 - length (takeWhile (\<lambda>c. \<not> P c) (rev s))) else None)"

definition parse_i64 :: "string \<Rightarrow> int option" where
  "parse_i64 s =
     (case s of
        CHR ''-'' # ds \<Rightarrow>
          (if ds = [] then None else map_option (\<lambda>n. - int n) (digits_value 10 (2 ^ 63 + 1) 0 ds))
      | _ \<Rightarrow> map_option int (parse_uint (2 ^ 63) s))"

section \<open>The parser\<close>

definition days_from_civil :: "int \<Rightarrow> int \<Rightarrow> int \<Rightarrow> int" where
  "days_from_civil y m d =
     (let y = (if m \<le> 2 then y - 1 else y);
          era = (if 0 \<le> y then y else y - 399) sdiv 400;
          yoe = y - era * 400;
          doy = (153 * (if 2 < m then m - 3 else m + 9) + 2) sdiv 5 + d - 1;
          doe = yoe * 365 + yoe sdiv 4 - yoe sdiv 100 + doy
      in era * 146097 + doe - 719468)"

text \<open>
  \<^verbatim>\<open>let v: i64 = s[a..b].parse().ok()?\<close> and then \<open>k\<close>. The outer option of the results is the panic of a slice that
  cuts a character, the inner one the \<^verbatim>\<open>None\<close> of the function.
\<close>

definition field :: "string \<Rightarrow> nat \<Rightarrow> nat \<Rightarrow> (int \<Rightarrow> int option option) \<Rightarrow> int option option" where
  "field s a b k =
     (case str_get s a b of
        None \<Rightarrow> None
      | Some t \<Rightarrow> (case parse_i64 t of None \<Rightarrow> Some None | Some v \<Rightarrow> k v))"

definition zone_offset :: "string \<Rightarrow> int option" where
  "zone_offset s =
     (case rfind (\<lambda>c. c = CHR ''+'' \<or> c = CHR ''-'') s of
        None \<Rightarrow> Some 0
      | Some pos \<Rightarrow>
          (if 18 < pos then
             (let sign = (if s ! pos = CHR ''+'' then 1 else -1)
              in case Option.bind (str_get s (pos + 1) (pos + 3)) parse_i64 of
                   None \<Rightarrow> None
                 | Some h \<Rightarrow>
                     (case Option.bind (str_get s (pos + 4) (pos + 6)) parse_i64 of
                        None \<Rightarrow> None
                      | Some mi \<Rightarrow> Some (sign * (h * 3600 + mi * 60))))
           else Some 0))"

definition parse_rfc3339_secs :: "string \<Rightarrow> int option option" where
  "parse_rfc3339_secs s =
     (let s = trim s
      in if length s < 19 then Some None
         else field s 0 4 (\<lambda>year. field s 5 7 (\<lambda>month. field s 8 10 (\<lambda>day.
              field s 11 13 (\<lambda>hour. field s 14 16 (\<lambda>mi. field s 17 19 (\<lambda>sec.
                Some (map_option
                  (\<lambda>tz. days_from_civil year month day * 86400 + hour * 3600 + mi * 60 + sec - tz)
                  (zone_offset s))))))))) "

section \<open>The calendar\<close>

definition leap :: "int \<Rightarrow> bool" where
  "leap y \<longleftrightarrow> 4 dvd y \<and> (\<not> 100 dvd y \<or> 400 dvd y)"

definition month_len :: "int \<Rightarrow> int \<Rightarrow> int" where
  "month_len y m = (if m = 2 then (if leap y then 29 else 28) else if m \<in> {4, 6, 9, 11} then 30 else 31)"

fun next_day :: "int \<times> int \<times> int \<Rightarrow> int \<times> int \<times> int" where
  "next_day (y, m, d) =
     (if d < month_len y m then (y, m, d + 1) else if m < 12 then (y, m + 1, 1) else (y + 1, 1, 1))"

fun valid_date :: "int \<times> int \<times> int \<Rightarrow> bool" where
  "valid_date (y, m, d) \<longleftrightarrow> 1 \<le> m \<and> m \<le> 12 \<and> 1 \<le> d \<and> d \<le> month_len y m"

text \<open>The date \<open>n\<close> days after 1970-01-01.\<close>

definition civil :: "nat \<Rightarrow> int \<times> int \<times> int" where
  "civil n = (next_day ^^ n) (1970, 1, 1)"

text \<open>Days before a year that begins in March.\<close>

definition march_days :: "int \<Rightarrow> int" where
  "march_days y = 365 * y + y div 4 - y div 100 + y div 400"

lemma sdiv_nonneg: "0 \<le> (a::int) \<Longrightarrow> 0 < b \<Longrightarrow> a sdiv b = a div b"
  by (cases "a = 0") (simp_all add: signed_divide_int_def)

lemma era_div: "(if 0 \<le> (y::int) then y else y - 399) sdiv 400 = y div 400"
proof (cases "0 \<le> y")
  case False
  have "399 - y = 400 * - (y div 400) + (399 - y mod 400)" by (simp add: minus_mod_eq_mult_div [symmetric])
  then have "(399 - y) div 400 = - (y div 400)" by (rule int_div_pos_eq) simp_all
  then show ?thesis using False by (simp add: signed_divide_int_def sgn_if)
qed (simp add: sdiv_nonneg)

lemma div_pred:
  assumes "0 < (k::int)"
  shows "y div k = (y - 1) div k + (if k dvd y then 1 else 0)"
proof (cases "k dvd y")
  case True
  then obtain c where "y = k * c" ..
  then have "y - 1 = k * (c - 1) + (k - 1)" by (simp add: algebra_simps)
  then have "(y - 1) div k = c - 1" by (rule int_div_pos_eq) (use assms in simp_all)
  then show ?thesis using True \<open>y = k * c\<close> assms by simp
next
  case False
  then have "0 < y mod k" using assms by (simp add: dvd_eq_mod_eq_0 order_less_le)
  moreover have "y - 1 = k * (y div k) + (y mod k - 1)" by simp
  ultimately have "(y - 1) div k = y div k"
    by (intro int_div_pos_eq [of _ _ _ "y mod k - 1"]) (use assms pos_mod_bound [of k y] in linarith)+
  then show ?thesis using False by simp
qed

lemma march_era:
  "y div 400 * 146097 + (y mod 400 * 365 + y mod 400 div 4 - y mod 400 div 100) = march_days y"
proof -
  define q r where "q = y div 400" and "r = y mod 400"
  have y: "y = r + q * 400" by (simp add: q_def r_def)
  have "(r + q * 100 * 4) div 4 = q * 100 + r div 4" "(r + q * 4 * 100) div 100 = q * 4 + r div 100"
    by (simp_all only: div_mult_self1 zero_neq_numeral [symmetric] not_False_eq_True)
  then have "y div 4 = q * 100 + r div 4" "y div 100 = q * 4 + r div 100" by (simp_all add: y)
  then show ?thesis unfolding march_days_def q_def [symmetric] r_def [symmetric] by (simp add: y)
qed

lemma days_march:
  assumes "1 \<le> m" "m \<le> 12"
  shows "days_from_civil y m d =
    march_days (if m \<le> 2 then y - 1 else y) + (153 * (if 2 < m then m - 3 else m + 9) + 2) div 5 + d - 719469"
proof -
  let ?y = "if m \<le> 2 then y - 1 else y"
  have "?y - ?y div 400 * 400 = ?y mod 400" by (rule minus_div_mult_eq_mod)
  then show ?thesis
    using assms march_era [of ?y, symmetric] unfolding days_from_civil_def Let_def era_div by (simp add: sdiv_nonneg)
qed

lemma march_step: "march_days y = march_days (y - 1) + (if leap y then 366 else 365)"
proof -
  have sum: "365 * y + (a + (if A then 1 else 0)) - (b + (if B then 1 else 0)) + (c + (if C then 1 else 0))
      = 365 * (y - 1) + a - b + c + (if A \<and> (\<not> B \<or> C) then 366 else 365)"
    if "C \<Longrightarrow> B" "B \<Longrightarrow> A" for a b c and A B C using that by auto
  show ?thesis
    unfolding march_days_def leap_def div_pred [of 4 y, simplified] div_pred [of 100 y, simplified] div_pred [of 400 y, simplified]
    by (rule sum) (erule dvd_trans [rotated], simp)+
qed

lemma days_next_day:
  assumes "valid_date dt" "next_day dt = (y', m', d')" "dt = (y, m, d)"
  shows "days_from_civil y' m' d' = days_from_civil y m d + 1"
proof -
  have m: "1 \<le> m" "m \<le> 12" "d \<le> month_len y m" using assms by simp_all
  then consider "m = 1" | "m = 2" | "m = 3" | "m = 4" | "m = 5" | "m = 6" | "m = 7" | "m = 8" | "m = 9" | "m = 10"
    | "m = 11" | "m = 12" by (atomize_elim, presburger)
  then show ?thesis
    using assms(2,3) m march_step [of y] by cases (auto simp: days_march month_len_def split: if_splits)
qed

lemma valid_next_day: "valid_date dt \<Longrightarrow> valid_date (next_day dt)"
  by (cases dt) (auto simp: month_len_def)

lemma civil_valid: "valid_date (civil n)"
  by (induction n) (simp_all add: civil_def valid_next_day month_len_def del: next_day.simps)

lemma civil_year: "1970 \<le> fst (civil n)"
proof (induction n)
  case (Suc n)
  then show ?case by (cases "civil n") (auto simp: civil_def)
qed (simp add: civil_def)

lemma days_civil: "civil n = (y, m, d) \<Longrightarrow> days_from_civil y m d = int n"
proof (induction n arbitrary: y m d)
  case 0
  then show ?case by (simp add: civil_def) code_simp
next
  case (Suc n)
  obtain y0 m0 d0 where c: "civil n = (y0, m0, d0)" by (cases "civil n") auto
  then have "next_day (y0, m0, d0) = (y, m, d)" using Suc.prems by (simp add: civil_def)
  then show ?case using days_next_day [OF civil_valid [of n], unfolded c, OF _ refl] Suc.IH [OF c] by simp
qed

section \<open>The text\<close>

definition two :: "nat \<Rightarrow> string" where
  "two n = [char_of (48 + n div 10), char_of (48 + n mod 10)]"

definition four :: "nat \<Rightarrow> string" where
  "four n = two (n div 100) @ two (n mod 100)"

datatype zone = Zulu | East nat nat | West nat nat

fun zone_text :: "zone \<Rightarrow> string" where
  "zone_text Zulu = ''Z''"
| "zone_text (East h m) = ''+'' @ two h @ '':'' @ two m"
| "zone_text (West h m) = ''-'' @ two h @ '':'' @ two m"

fun zone_secs :: "zone \<Rightarrow> int" where
  "zone_secs Zulu = 0"
| "zone_secs (East h m) = int h * 3600 + int m * 60"
| "zone_secs (West h m) = - (int h * 3600 + int m * 60)"

fun zone_ok :: "zone \<Rightarrow> bool" where
  "zone_ok Zulu \<longleftrightarrow> True"
| "zone_ok (East h m) \<longleftrightarrow> h < 100 \<and> m < 100"
| "zone_ok (West h m) \<longleftrightarrow> h < 100 \<and> m < 100"

text \<open>A time stamp: the date, the time of day, a fraction of a second, the zone.\<close>

definition rfc3339 :: "nat \<Rightarrow> nat \<Rightarrow> nat \<Rightarrow> nat \<Rightarrow> nat \<Rightarrow> nat \<Rightarrow> string \<Rightarrow> zone \<Rightarrow> string" where
  "rfc3339 y m d h mi s frac z =
     four y @ ''-'' @ two m @ ''-'' @ two d @ ''T'' @ two h @ '':'' @ two mi @ '':'' @ two s @ frac @ zone_text z"

definition frac_char :: "char \<Rightarrow> bool" where
  "frac_char c \<longleftrightarrow> c = CHR ''.'' \<or> 48 \<le> (of_char c :: nat) \<and> (of_char c :: nat) \<le> 57"

definition ascii :: "string \<Rightarrow> bool" where
  "ascii s \<longleftrightarrow> list_all (\<lambda>c. (of_char c :: nat) < 128) s"

lemma ascii_boundary: "ascii s \<Longrightarrow> is_char_boundary s i \<longleftrightarrow> i \<le> length s"
proof -
  assume "ascii s"
  then have "i < length s \<Longrightarrow> (of_char (s ! i) :: nat) < 128" by (simp add: ascii_def list_all_length)
  then show ?thesis by (auto simp: is_char_boundary_def)
qed

lemma ascii_get: "ascii s \<Longrightarrow> a \<le> b \<Longrightarrow> b \<le> length s \<Longrightarrow> str_get s a b = Some (take (b - a) (drop a s))"
  by (simp add: str_get_def ascii_boundary)

lemma rfind_append: "list_all (\<lambda>c. \<not> P c) t \<Longrightarrow> rfind P (s @ t) = rfind P s"
proof -
  assume t: "list_all (\<lambda>c. \<not> P c) t"
  then have "takeWhile (\<lambda>c. \<not> P c) (rev t @ rev s) = rev t @ takeWhile (\<lambda>c. \<not> P c) (rev s)"
    by (intro takeWhile_append2) (auto simp: list_all_iff)
  then show ?thesis using t by (auto simp: rfind_def list_ex_iff list_all_iff)
qed

lemma rfind_less: "rfind P s = Some p \<Longrightarrow> p < length s"
  by (cases s) (auto simp: rfind_def split: if_splits)

lemma rfind_last: "P c \<Longrightarrow> rfind P (s @ [c]) = Some (length s)"
  by (simp add: rfind_def)

lemma trim_id: "s \<noteq> [] \<Longrightarrow> \<not> is_ws (hd s) \<Longrightarrow> \<not> is_ws (last s) \<Longrightarrow> trim s = s"
  by (simp add: trim_def dropWhile_eq_self_iff [THEN iffD2] hd_rev)

lemma digit_char:
  assumes "n < 10"
  shows "(of_char (char_of (48 + n) :: char) :: nat) = 48 + n" "char_of (48 + n) \<noteq> CHR ''+''" "char_of (48 + n) \<noteq> CHR ''-''"
    "CHR ''+'' \<noteq> char_of (48 + n)" "CHR ''-'' \<noteq> char_of (48 + n)"
proof -
  show c: "(of_char (char_of (48 + n) :: char) :: nat) = 48 + n" using assms by simp
  have "(of_char (CHR ''+'') :: nat) = 43" "(of_char (CHR ''-'') :: nat) = 45" by simp_all
  then show "char_of (48 + n) \<noteq> CHR ''+''" "char_of (48 + n) \<noteq> CHR ''-''" using c by (auto simp del: of_char_of)
  then show "CHR ''+'' \<noteq> char_of (48 + n)" "CHR ''-'' \<noteq> char_of (48 + n)" by metis+
qed

lemma parse_digits:
  assumes "s = char_of (48 + n) # cs" "n < 10"
  shows "parse_i64 s = map_option int (digits_value 10 (2 ^ 63) n cs)"
proof -
  obtain c where c: "s = c # cs" "c \<noteq> CHR ''+''" "c \<noteq> CHR ''-''" "to_digit 10 c = Some n"
    using assms digit_char [OF assms(2)] to_digit_char [OF assms(2)] by blast
  then have "parse_i64 s = map_option int (parse_uint (2 ^ 63) s)" by (auto simp: parse_i64_def split: char.split bool.split)
  then show ?thesis using c assms(2) by (simp add: parse_uint_def from_str_radix_def)
qed

lemma parse_two: "n < 100 \<Longrightarrow> parse_i64 (two n) = Some (int n)"
proof -
  assume n: "n < 100"
  have "n div 10 * 10 + n mod 10 = n" by simp
  then show ?thesis using n parse_digits [of "two n" "n div 10"] by (simp add: two_def to_digit_char)
qed

lemma parse_four: "n < 10000 \<Longrightarrow> parse_i64 (four n) = Some (int n)"
proof -
  assume n: "n < 10000"
  let ?a = "n div 100" and ?b = "n mod 100"
  have a: "?a div 10 * 10 + ?a mod 10 = ?a" and b: "(?a * 10 + ?b div 10) * 10 + ?b mod 10 = n"
    using mult_div_mod_eq [of 10 ?b] mult_div_mod_eq [of 100 n] by (simp_all add: algebra_simps)
  have "?b < 100" "?a < 100" using n by auto
  then have d: "?a div 10 < 10" "?a mod 10 < 10" "?b div 10 < 10" "?b mod 10 < 10" by auto
  have "digits_value 10 (2 ^ 63) (?a div 10) [char_of (48 + ?a mod 10), char_of (48 + ?b div 10), char_of (48 + ?b mod 10)]
      = Some n"
    unfolding digits_value.simps to_digit_char [OF d(2)] to_digit_char [OF d(3)] to_digit_char [OF d(4)] option.case a b
    using n \<open>?a < 100\<close> d(3) by simp
  then show ?thesis using parse_digits [OF _ d(1), of "four n"] by (simp add: four_def two_def)
qed

lemma two_simps [simp]: "length (two n) = 2" "length (four n) = 4"
  by (simp_all add: two_def four_def)

lemma two_chars: "n < 100 \<Longrightarrow> c \<in> set (two n) \<Longrightarrow> frac_char c"
  by (auto simp: two_def frac_char_def)

lemma four_chars: "n < 10000 \<Longrightarrow> c \<in> set (four n) \<Longrightarrow> frac_char c"
  using two_chars [of "n div 100" c] two_chars [of "n mod 100" c] by (auto simp: four_def)

lemma frac_charD: "frac_char c \<Longrightarrow> (of_char c :: nat) < 128 \<and> c \<noteq> CHR ''+'' \<and> c \<noteq> CHR ''-'' \<and> \<not> is_ws c"
  by (auto simp: frac_char_def is_ws_def)

lemmas digit_chars = two_chars [THEN frac_charD] four_chars [THEN frac_charD]

text \<open>The fields up to the seconds are at fixed places, whatever follows.\<close>

definition stamp_head :: "nat \<Rightarrow> nat \<Rightarrow> nat \<Rightarrow> nat \<Rightarrow> nat \<Rightarrow> nat \<Rightarrow> string" where
  "stamp_head y m d h mi s = four y @ ''-'' @ two m @ ''-'' @ two d @ ''T'' @ two h @ '':'' @ two mi @ '':'' @ two s"

lemma stamp_head_length: "length (stamp_head y m d h mi s) = 19"
  by (simp add: stamp_head_def)

lemma field_get:
  assumes "ascii s" "b \<le> length s" "a \<le> b" "take (b - a) (drop a s) = t" "parse_i64 t = Some v"
  shows "field s a b k = k v"
  using assms by (simp add: field_def ascii_get)

lemma zone_offset_zulu:
  assumes "length pre = 19" "list_all frac_char frac"
  shows "zone_offset (pre @ frac @ ''Z'') = Some 0"
proof -
  have "list_all (\<lambda>c. \<not> (c = CHR ''+'' \<or> c = CHR ''-'')) (frac @ ''Z'')"
    using assms(2) frac_charD by (auto simp: list_all_iff)
  from rfind_append [OF this, of pre] show ?thesis
    using rfind_less [of "\<lambda>c. c = CHR ''+'' \<or> c = CHR ''-''" pre] assms(1)
    by (auto simp: zone_offset_def split: option.split)
qed

lemma zone_offset_sign:
  assumes "18 < length pre" "ascii pre" "h < 100" "m < 100" "c = CHR ''+'' \<or> c = CHR ''-''"
  shows "zone_offset (pre @ c # two h @ '':'' @ two m)
    = Some ((if c = CHR ''+'' then 1 else -1) * (int h * 3600 + int m * 60))"
proof -
  let ?t = "two h @ '':'' @ two m"
  have "list_all (\<lambda>c. \<not> (c = CHR ''+'' \<or> c = CHR ''-'')) ?t"
    using digit_chars(1) assms(3,4) by (auto simp: list_all_iff)
  then have r: "rfind (\<lambda>c. c = CHR ''+'' \<or> c = CHR ''-'') (pre @ c # ?t) = Some (length pre)"
    using rfind_append [of _ ?t "pre @ [c]"] rfind_last [of _ c pre] assms(5) by simp
  have a: "ascii (pre @ c # ?t)" using assms digit_chars(1) by (auto simp: ascii_def list_all_iff)
  have g: "str_get (pre @ c # ?t) (length pre + 1) (length pre + 3) = Some (two h)"
    "str_get (pre @ c # ?t) (length pre + 4) (length pre + 6) = Some (two m)"
    using ascii_get [OF a] by (simp_all add: two_def)
  show ?thesis unfolding zone_offset_def r using assms(1,3,4) g by (simp add: parse_two nth_append)
qed

lemma civil_small: "civil n = (y, m, d) \<Longrightarrow> 1 \<le> m \<and> m \<le> 12 \<and> 1 \<le> d \<and> d \<le> 31"
  using civil_valid [of n] by (auto simp: month_len_def split: if_splits)

lemma zone_text_last: "zone_ok z \<Longrightarrow> zone_text z \<noteq> [] \<and> \<not> is_ws (last (zone_text z)) \<and> ascii (zone_text z)"
proof -
  have "two n \<noteq> []" "last (two n) \<in> set (two n)" for n by (simp_all add: two_def)
  moreover have "\<not> is_ws (CHR ''Z'')" by code_simp
  ultimately show "zone_ok z \<Longrightarrow> ?thesis"
    using digit_chars(1) by (cases z) (auto simp: ascii_def list_all_iff)
qed

lemma zone_offset_text:
  assumes "zone_ok z" "length pre = 19" "ascii pre" "list_all frac_char frac"
  shows "zone_offset (pre @ frac @ zone_text z) = Some (zone_secs z)"
proof -
  have "ascii (pre @ frac)" using assms(3,4) frac_charD by (auto simp: ascii_def list_all_iff)
  then show ?thesis
    using assms zone_offset_zulu [OF assms(2,4)] zone_offset_sign [of "pre @ frac"] by (cases z) simp_all
qed

text \<open>
  C31: The time stamps of the control server are read as the calendar defines them: the text of the date \<open>n\<close> days after
  1970-01-01 (counted day by day with the lengths of the months and the leap years), of a time of day, with any fraction and
  any zone, is parsed to the seconds since 1970-01-01 in universal time.
\<close>

theorem rfc3339_parsed:
  assumes "civil n = (int y, int m, int d)" "y < 10000" "h < 24" "mi < 60" "s \<le> 60" "list_all frac_char frac" "zone_ok z"
  shows "parse_rfc3339_secs (rfc3339 y m d h mi s frac z)
    = Some (Some (int n * 86400 + int h * 3600 + int mi * 60 + int s - zone_secs z))"
proof -
  let ?pre = "stamp_head y m d h mi s" and ?s = "rfc3339 y m d h mi s frac z"
  have md: "m < 100" "d < 100" "h < 100" "mi < 100" "s < 100" using civil_small [OF assms(1)] assms(3-5) by auto
  have s: "?s = ?pre @ frac @ zone_text z" by (simp add: rfc3339_def stamp_head_def)
  have pre: "ascii ?pre" using digit_chars md assms(2) by (auto simp: stamp_head_def ascii_def list_all_iff)
  then have a: "ascii ?s" using zone_text_last [OF assms(7)] assms(6) frac_charD by (auto simp: s ascii_def list_all_iff)
  have len: "19 \<le> length ?s" by (simp add: s stamp_head_length)
  have "hd ?s \<in> set (four y)" by (simp add: s stamp_head_def four_def two_def)
  then have t: "trim ?s = ?s" using zone_text_last [OF assms(7)] digit_chars(2) [OF assms(2)] len by (intro trim_id) (auto simp: s)
  have "take 4 (drop 0 ?s) = four y" "take 2 (drop 5 ?s) = two m" "take 2 (drop 8 ?s) = two d" "take 2 (drop 11 ?s) = two h"
    "take 2 (drop 14 ?s) = two mi" "take 2 (drop 17 ?s) = two s" by (simp_all add: rfc3339_def)
  then show ?thesis
    unfolding parse_rfc3339_secs_def t Let_def
    using field_get [OF a, where a = 0 and b = 4] field_get [OF a, where a = 5 and b = 7] field_get [OF a, where a = 8 and b = 10]
      field_get [OF a, where a = 11 and b = 13] field_get [OF a, where a = 14 and b = 16] field_get [OF a, where a = 17 and b = 19]
      len md parse_four [OF assms(2)] days_civil [OF assms(1)] zone_offset_text [OF assms(7) stamp_head_length pre assms(6)]
    by (simp add: parse_two s)
qed

theorem rfc3339_parsed_witness:
  "parse_rfc3339_secs ''1970-03-01T08:59:60.25+09:00'' = Some (Some (59 * 86400))"
proof -
  have "civil 59 = (1970, 3, 1)" by code_simp
  moreover have "rfc3339 1970 3 1 8 59 60 ''.25'' (East 9 0) = ''1970-03-01T08:59:60.25+09:00''" by code_simp
  moreover have "list_all frac_char ''.25''" by code_simp
  ultimately show ?thesis using rfc3339_parsed [of 59 1970 3 1 8 59 60 "''.25''" "East 9 0"] by simp
qed

text \<open>A time stamp from which a slice cuts a character makes the parser panic.\<close>

lemma rfc3339_panics: "parse_rfc3339_secs (''202'' @ [CHR 0xC3, CHR 0xA9] @ ''-09-07T09:00:00Z'') = None"
  by code_simp

end
