(* ===== verification/Shell.thy ===== *)
theory Shell
  imports Http1
begin

text \<open>
  The console shell of crates/adapter-core/src/shell.rs. The traits \<^verbatim>\<open>Console\<close> and
  \<^verbatim>\<open>Platform\<close> are what the shell is written against: the console is the list \<open>sh_in\<close> of
  the results its reads will return, one for each turn of a read loop, and the text \<open>sh_out\<close>
  written so far; the platform is a record of its methods on a state of any type. What other threads
  decide, the successive answers of \<^verbatim>\<open>node_state()\<close>, is the list \<open>sh_polls\<close>. A run ends with
  \<open>Rebooted\<close>, because \<^verbatim>\<open>reboot()\<close> does not return, or with \<open>Waiting\<close>, when the
  lists are used up and the shell waits for more.
\<close>

section \<open>The interfaces\<close>

record ap_info =
  ap_ssid :: string
  ap_rssi :: int
  ap_secure :: bool

record wifi_network =
  wn_ssid :: string
  wn_password :: string

record saved_config =
  sc_networks :: "wifi_network list"
  sc_hostname :: string
  sc_auth_key :: "string option"
  sc_tcp_port :: "u16 option"
  sc_baud_rate :: "u32 option"
  sc_usb_interface :: "u8 option"
  sc_usb_driver :: "string option"

definition default_config :: saved_config where
  "default_config =
     \<lparr>sc_networks = [], sc_hostname = [], sc_auth_key = None, sc_tcp_port = None, sc_baud_rate = None,
      sc_usb_interface = None, sc_usb_driver = None\<rparr>"

datatype node_state =
    Off
  | Connecting
  | NeedsLogin string
  | Running "string list" string
  | Error string

record status_snapshot =
  sn_firmware :: string
  sn_setup_mode :: bool
  sn_wifi :: string
  sn_node :: "node_state option"
  sn_derp :: string
  sn_peers :: string
  sn_usb :: string
  sn_heap :: string

text \<open>
  \<open>pl_clock k\<close> is the k-th reading of \<^verbatim>\<open>Instant::now()\<close>; \<open>pl_um\<close> is the number of
  values of \<^verbatim>\<open>usize\<close>.
\<close>

record 'p platform =
  pl_status :: "'p \<Rightarrow> status_snapshot"
  pl_scan_wifi :: "'p \<Rightarrow> (string + ap_info list) \<times> 'p"
  pl_connect_wifi :: "string \<Rightarrow> string \<Rightarrow> 'p \<Rightarrow> (string + string) \<times> 'p"
  pl_reconnect_wifi :: "'p \<Rightarrow> (string + string) \<times> 'p"
  pl_config :: "'p \<Rightarrow> saved_config option"
  pl_save_config :: "saved_config \<Rightarrow> 'p \<Rightarrow> (string + unit) \<times> 'p"
  pl_start_node :: "'p \<Rightarrow> (string + unit) \<times> 'p"
  pl_is_registered :: "'p \<Rightarrow> bool"
  pl_factory_reset :: "'p \<Rightarrow> (string + unit) \<times> 'p"
  pl_clock :: "nat \<Rightarrow> instant"
  pl_um :: nat

record 'p shell =
  sh_in :: "u8 option list"
  sh_polls :: "node_state list"
  sh_out :: string
  sh_swallow_lf :: bool
  sh_reads :: nat
  sh_plat :: 'p

definition PROMPT :: string where "PROMPT = ''> ''"
definition LOGIN_WAIT :: duration where "LOGIN_WAIT = from_secs 600"

definition shell_new :: "u8 option list \<Rightarrow> node_state list \<Rightarrow> 'p \<Rightarrow> 'p shell" where
  "shell_new inp polls p =
     \<lparr>sh_in = inp, sh_polls = polls, sh_out = [], sh_swallow_lf = False, sh_reads = 0, sh_plat = p\<rparr>"

section \<open>Sequencing\<close>

datatype 'a outcome = Done 'a | Rebooted | Waiting

definition sh_return :: "'a \<Rightarrow> 'p shell \<Rightarrow> 'a outcome \<times> 'p shell" where
  "sh_return a sh = (Done a, sh)"

definition sh_bind ::
    "('p shell \<Rightarrow> 'a outcome \<times> 'p shell) \<Rightarrow> ('a \<Rightarrow> 'p shell \<Rightarrow> 'b outcome \<times> 'p shell)
      \<Rightarrow> 'p shell \<Rightarrow> 'b outcome \<times> 'p shell" where
  "sh_bind m f sh =
     (case m sh of
        (Done a, sh) \<Rightarrow> f a sh
      | (Rebooted, sh) \<Rightarrow> (Rebooted, sh)
      | (Waiting, sh) \<Rightarrow> (Waiting, sh))"

lemma sh_bind_cong [fundef_cong]:
  "m sh = m' sh' \<Longrightarrow> (\<And>a t. m' sh' = (Done a, t) \<Longrightarrow> f a t = f' a t) \<Longrightarrow> sh_bind m f sh = sh_bind m' f' sh'"
  by (simp add: sh_bind_def split: prod.split outcome.split)

text \<open>A call of a method of the platform, and a method that only reads.\<close>

definition call :: "('p \<Rightarrow> 'a \<times> 'p) \<Rightarrow> 'p shell \<Rightarrow> 'a outcome \<times> 'p shell" where
  "call f sh = (case f (sh_plat sh) of (r, p) \<Rightarrow> (Done r, sh\<lparr>sh_plat := p\<rparr>))"

definition query :: "('p \<Rightarrow> 'a) \<Rightarrow> 'p shell \<Rightarrow> 'a outcome \<times> 'p shell" where
  "query g sh = (Done (g (sh_plat sh)), sh)"

definition get_config :: "'p platform \<Rightarrow> 'p shell \<Rightarrow> saved_config outcome \<times> 'p shell" where
  "get_config E = query (\<lambda>p. case pl_config E p of Some c \<Rightarrow> c | None \<Rightarrow> default_config)"

definition out :: "string \<Rightarrow> 'p shell \<Rightarrow> unit outcome \<times> 'p shell" where
  "out s sh = (Done (), sh\<lparr>sh_out := sh_out sh @ s\<rparr>)"

definition line :: "string \<Rightarrow> 'p shell \<Rightarrow> unit outcome \<times> 'p shell" where
  "line s = out (s @ crlf_text)"

definition reboot :: "'p shell \<Rightarrow> 'a outcome \<times> 'p shell" where
  "reboot sh = (Rebooted, sh)"

definition read_byte :: "'p shell \<Rightarrow> u8 option outcome \<times> 'p shell" where
  "read_byte sh = (case sh_in sh of [] \<Rightarrow> (Waiting, sh) | x # xs \<Rightarrow> (Done x, sh\<lparr>sh_in := xs\<rparr>))"

section \<open>Line editing\<close>

definition emit :: "string \<Rightarrow> 'p shell \<Rightarrow> 'p shell" where
  "emit s sh = sh\<lparr>sh_out := sh_out sh @ s\<rparr>"

definition BACK :: string where "BACK = [CHR 0x08, CHR '' '', CHR 0x08]"

text \<open>The body of the loop for a byte: the line so far and what is echoed, or the line entered.\<close>

datatype key_result = Editing bytes string | Entered string string

definition key_press :: "bool \<Rightarrow> bool \<Rightarrow> bytes \<Rightarrow> u8 \<Rightarrow> key_result" where
  "key_press echo swallow_lf l b =
     (if b = LF \<and> swallow_lf then Editing l []
      else if b = CR \<or> b = LF then Entered (trim (from_utf8_lossy l)) crlf_text
      else if b = 0x08 \<or> b = 0x7f then (if l \<noteq> [] then Editing (butlast l) (if echo then BACK else []) else Editing l [])
      else if b = 0x03 then Entered [] (''^C'' @ crlf_text)
      else if 0x20 \<le> b \<and> b \<le> 0x7e \<and> length l < 200 then Editing (l @ [b]) (if echo then bytes_str [b] else ''*'')
      else Editing l [])"

text \<open>
  One element of the list is used up by each turn of the loop; a turn that finds the deadline passed
  does not read.
\<close>

fun read_loop ::
    "'p platform \<Rightarrow> bool \<Rightarrow> instant option \<Rightarrow> u8 option list \<Rightarrow> bytes \<Rightarrow> 'p shell
      \<Rightarrow> string option outcome \<times> 'p shell" where
  "read_loop E echo dl [] l sh = (Waiting, sh\<lparr>sh_in := []\<rparr>)"
| "read_loop E echo dl (x # xs) l sh =
     (let idle = (dl \<noteq> None \<and> l = []);
          now = pl_clock E (sh_reads sh);
          sh = sh\<lparr>sh_in := xs, sh_reads := (if idle then Suc (sh_reads sh) else sh_reads sh)\<rparr>
      in if idle \<and> the dl \<le> now then (Done None, sh)
         else case x of
           None \<Rightarrow> read_loop E echo dl xs l sh
         | Some b \<Rightarrow>
             (case key_press echo (sh_swallow_lf sh) l b of
                Editing l txt \<Rightarrow> read_loop E echo dl xs l (emit txt (sh\<lparr>sh_swallow_lf := (b = CR)\<rparr>))
              | Entered r txt \<Rightarrow> (Done (Some r), emit txt (sh\<lparr>sh_swallow_lf := (b = CR)\<rparr>))))"

definition read_line ::
    "'p platform \<Rightarrow> bool \<Rightarrow> duration option \<Rightarrow> 'p shell \<Rightarrow> string option outcome \<times> 'p shell" where
  "read_line E echo idle_timeout sh =
     (case idle_timeout of
        None \<Rightarrow> read_loop E echo None (sh_in sh) [] sh
      | Some t \<Rightarrow>
          read_loop E echo (Some (pl_clock E (sh_reads sh) + t)) (sh_in sh) [] (sh\<lparr>sh_reads := Suc (sh_reads sh)\<rparr>))"

definition ask :: "'p platform \<Rightarrow> string \<Rightarrow> bool \<Rightarrow> 'p shell \<Rightarrow> string outcome \<times> 'p shell" where
  "ask E prompt echo =
     sh_bind (out prompt) (\<lambda>_.
     sh_bind (read_line E echo None) (\<lambda>r.
     sh_return (case r of Some l \<Rightarrow> l | None \<Rightarrow> [])))"

section \<open>Configuration commands\<close>

definition set_field ::
    "'p platform \<Rightarrow> (saved_config \<Rightarrow> saved_config) \<Rightarrow> 'p shell \<Rightarrow> unit outcome \<times> 'p shell" where
  "set_field E f =
     sh_bind (get_config E) (\<lambda>c.
     sh_bind (call (pl_save_config E (f c))) (\<lambda>r.
     case r of Inr _ \<Rightarrow> line ''saved'' | Inl e \<Rightarrow> line (''save failed: '' @ e)))"

definition set_wifi :: "'p platform \<Rightarrow> string \<Rightarrow> string \<Rightarrow> 'p shell \<Rightarrow> bool outcome \<times> 'p shell" where
  "set_wifi E ssid password =
     (if password \<noteq> [] \<and> (length password < 8 \<or> 63 < length password) then
        sh_bind (line ''password must be 8..63 characters (or empty for an open network)'') (\<lambda>_. sh_return False)
      else
        sh_bind (line (''Connecting to '' @ ssid @ ''...'')) (\<lambda>_.
        sh_bind (call (pl_connect_wifi E ssid password)) (\<lambda>r.
        case r of
          Inr ip \<Rightarrow>
            sh_bind (line (''Connected ('' @ ip @ '')'')) (\<lambda>_.
            sh_bind (get_config E) (\<lambda>c.
            sh_bind (call (pl_save_config E (c\<lparr>sc_networks :=
                filter (\<lambda>n. wn_ssid n \<noteq> ssid) (sc_networks c) @ [\<lparr>wn_ssid = ssid, wn_password = password\<rparr>]\<rparr>))) (\<lambda>r.
            case r of
              Inl e \<Rightarrow> sh_bind (line (''save failed: '' @ e)) (\<lambda>_. sh_return False)
            | Inr _ \<Rightarrow> sh_return True)))
        | Inl e \<Rightarrow> sh_bind (line (''Wi-Fi failed: '' @ e)) (\<lambda>_. sh_return False))))"

definition wifi_forget :: "'p platform \<Rightarrow> string \<Rightarrow> 'p shell \<Rightarrow> unit outcome \<times> 'p shell" where
  "wifi_forget E ssid =
     sh_bind (get_config E) (\<lambda>c.
       let networks = filter (\<lambda>n. wn_ssid n \<noteq> ssid) (sc_networks c)
       in if length networks = length (sc_networks c) then line ''no such network''
          else
            sh_bind (call (pl_save_config E (c\<lparr>sc_networks := networks\<rparr>))) (\<lambda>r.
            case r of Inr _ \<Rightarrow> line ''forgotten'' | Inl e \<Rightarrow> line (''save failed: '' @ e)))"

fun lines :: "string list \<Rightarrow> 'p shell \<Rightarrow> unit outcome \<times> 'p shell" where
  "lines [] = sh_return ()"
| "lines (l # ls) = sh_bind (line l) (\<lambda>_. lines ls)"

definition wifi_list :: "'p platform \<Rightarrow> 'p shell \<Rightarrow> unit outcome \<times> 'p shell" where
  "wifi_list E =
     sh_bind (get_config E) (\<lambda>c.
     sh_bind (if sc_networks c = [] then line ''no known networks'' else sh_return ()) (\<lambda>_.
     lines (map (\<lambda>n. ''  '' @ wn_ssid n) (sc_networks c))))"

text \<open>\<^verbatim>\<open>dedup_by\<close> drops an element whose name is that of the last one kept.\<close>

fun dedup_ssid :: "ap_info list \<Rightarrow> ap_info list" where
  "dedup_ssid (a # b # xs) = (if ap_ssid b = ap_ssid a then dedup_ssid (a # xs) else a # dedup_ssid (b # xs))"
| "dedup_ssid xs = xs"

definition scan_list :: "ap_info list \<Rightarrow> ap_info list" where
  "scan_list aps =
     take 15 (filter (\<lambda>a. ap_ssid a \<noteq> []) (dedup_ssid (sort_key (\<lambda>a. - ap_rssi a) aps)))"

text \<open>Formatting: padding counts characters, not bytes.\<close>

definition char_count :: "string \<Rightarrow> nat" where
  "char_count s = length (filter (\<lambda>b. \<not> is_cont b) (str_bytes s))"

definition pad_left :: "nat \<Rightarrow> string \<Rightarrow> string" where
  "pad_left n s = replicate (n - char_count s) CHR '' '' @ s"

definition pad_right :: "nat \<Rightarrow> string \<Rightarrow> string" where
  "pad_right n s = s @ replicate (n - char_count s) CHR '' ''"

definition scan_line :: "nat \<Rightarrow> ap_info \<Rightarrow> string" where
  "scan_line i ap =
     ''  '' @ pad_left 2 (dec_string (i + 1)) @ '') '' @ pad_right 32 (ap_ssid ap) @ '' ('' @ i32_string (ap_rssi ap)
       @ '' dBm'' @ (if ap_secure ap then [] else '', open'') @ '')''"

definition scan :: "'p platform \<Rightarrow> 'p shell \<Rightarrow> ap_info list outcome \<times> 'p shell" where
  "scan E =
     sh_bind (line ''Scanning Wi-Fi...'') (\<lambda>_.
     sh_bind (call (pl_scan_wifi E)) (\<lambda>r.
     case r of
       Inr aps \<Rightarrow>
         (let aps = scan_list aps
          in sh_bind (lines (map (\<lambda>(i, ap). scan_line i ap) (enumerate 0 aps))) (\<lambda>_.
             sh_bind (if aps = [] then line ''  no networks found'' else sh_return ()) (\<lambda>_.
             sh_return aps)))
     | Inl e \<Rightarrow> sh_bind (line (''scan failed: '' @ e)) (\<lambda>_. sh_return [])))"

section \<open>Status and help\<close>

definition mode_text :: "status_snapshot \<Rightarrow> string" where
  "mode_text st = (if sn_setup_mode st then ''setup mode'' else ''normal mode'')"

definition join :: "string \<Rightarrow> string list \<Rightarrow> string" where
  "join sep ws = concat (case ws of [] \<Rightarrow> [] | w # ws \<Rightarrow> w # map (\<lambda>v. sep @ v) ws)"

definition banner :: "'p platform \<Rightarrow> 'p shell \<Rightarrow> unit outcome \<times> 'p shell" where
  "banner E =
     sh_bind (query (pl_status E)) (\<lambda>st.
     lines
       [[],
        ''usb-serial-over-tailscale '' @ sn_firmware st @ '' - '' @ mode_text st,
        ''Type 'help' for commands, 'setup' for the setup wizard.''])"

fun node_text :: "node_state \<Rightarrow> string" where
  "node_text Off = ''not started''"
| "node_text Connecting = ''connecting to control plane''"
| "node_text (NeedsLogin url) = ''waiting for approval at '' @ url"
| "node_text (Running addresses dns_name) = ''running as '' @ dns_name @ '' '' @ join '' '' addresses"
| "node_text (Error e) = ''error: '' @ e"

definition config_text :: "saved_config \<Rightarrow> string" where
  "config_text c =
     ''Config:    networks='' @ join '','' (map wn_ssid (sc_networks c)) @ '' hostname='' @ sc_hostname c
     @ '' port='' @ dec_string (case sc_tcp_port c of Some p \<Rightarrow> unat p | None \<Rightarrow> 35932)
     @ '' baud='' @ dec_string (case sc_baud_rate c of Some b \<Rightarrow> unat b | None \<Rightarrow> 115200)
     @ '' usbif='' @ dec_string (case sc_usb_interface c of Some i \<Rightarrow> unat i | None \<Rightarrow> 0)
     @ '' usbdrv='' @ (case sc_usb_driver c of Some d \<Rightarrow> d | None \<Rightarrow> ''auto'')
     @ '' authkey='' @ (if sc_auth_key c \<noteq> None then ''set'' else ''none'')"

definition status :: "'p platform \<Rightarrow> 'p shell \<Rightarrow> unit outcome \<times> 'p shell" where
  "status E =
     sh_bind (query (pl_status E)) (\<lambda>st.
     sh_bind (lines
       [''Firmware:  '' @ sn_firmware st @ '' ('' @ mode_text st @ '')'',
        ''Wi-Fi:     '' @ sn_wifi st,
        ''Tailscale: '' @ node_text (case sn_node st of Some n \<Rightarrow> n | None \<Rightarrow> Off),
        ''DERP:      '' @ sn_derp st,
        ''Peers:     '' @ sn_peers st,
        ''USB:       '' @ sn_usb st,
        ''Memory:    '' @ sn_heap st]) (\<lambda>_.
     sh_bind (query (pl_config E)) (\<lambda>c.
     case c of
       Some c \<Rightarrow> line (config_text c)
     | None \<Rightarrow> line ''Config:    none'')))"

definition shell_help :: "'p shell \<Rightarrow> unit outcome \<times> 'p shell" where
  "shell_help = lines
     [''setup              wizard: Wi-Fi only if the rest is already set up'',
      ''setup all          wizard for everything (Wi-Fi, hostname, Tailscale login)'',
      ''status             show Wi-Fi / Tailscale / USB state'',
      ''scan               list Wi-Fi networks'',
      ''wifi <ssid> [pw]   add a Wi-Fi network and connect to it'',
      ''wifi list          list known networks; wifi forget <ssid> removes one'',
      ''connect            reconnect to the strongest known network'',
      ''hostname <name>    set the tailnet hostname'',
      ''authkey <key>      optional auth key for headless login'',
      ''login              register with Tailscale (prints approval URL)'',
      ''port <n>           TCP port of the serial bridge (default 35932)'',
      ''baud <rate>        USB serial baud rate (default 115200)'',
      ''usbif <n>          USB interface of the target console (default 0; Debug Probe UART is 1)'',
      ''usbdrv <name>      force the USB serial driver (auto/cdc/ftdi/cp210x/ch34x)'',
      ''reset              erase configuration and identity'',
      ''reboot             restart'']"

section \<open>Login\<close>

text \<open>What the loop prints for a state it has not seen last, and the URL it has shown.\<close>

definition show_state ::
    "string option \<Rightarrow> node_state \<Rightarrow> 'p shell \<Rightarrow> string option outcome \<times> 'p shell" where
  "show_state shown st =
     (case st of
        NeedsLogin url \<Rightarrow>
          (if shown \<noteq> Some url then
             sh_bind (lines [''Open this URL in a browser to approve the device:'', ''  '' @ url, ''Waiting for approval...''])
               (\<lambda>_. sh_return (Some url))
           else sh_return shown)
      | Error e \<Rightarrow> sh_bind (line (''  '' @ e @ '' (retrying)'')) (\<lambda>_. sh_return shown)
      | _ \<Rightarrow> sh_return shown)"

fun login_loop ::
    "'p platform \<Rightarrow> instant \<Rightarrow> string option \<Rightarrow> node_state option \<Rightarrow> node_state list \<Rightarrow> 'p shell
      \<Rightarrow> bool outcome \<times> 'p shell" where
  "login_loop E deadline shown last_st ps sh =
     (let now = pl_clock E (sh_reads sh);
          sh = sh\<lparr>sh_reads := Suc (sh_reads sh)\<rparr>
      in if deadline \<le> now then
           sh_bind (line ''timed out waiting for approval; run 'login' again later'') (\<lambda>_. sh_return False) sh
         else case ps of
           [] \<Rightarrow> (Waiting, sh)
         | st # ps \<Rightarrow>
             (let sh = sh\<lparr>sh_polls := ps\<rparr>
              in if last_st \<noteq> Some st then
                   (case st of
                      Running addresses dns_name \<Rightarrow>
                        sh_bind (line (''Tailscale is up: '' @ dns_name @ '' '' @ join '' '' addresses))
                          (\<lambda>_. sh_return True) sh
                    | _ \<Rightarrow> sh_bind (show_state shown st) (\<lambda>shown. login_loop E deadline shown (Some st) ps) sh)
                 else
                   sh_bind read_byte (\<lambda>r.
                     if r = Some 0x71 \<or> r = Some 0x03 then
                       sh_bind (line ''stopped waiting; the node keeps trying in the background'') (\<lambda>_. sh_return False)
                     else login_loop E deadline shown last_st ps) sh))"

declare login_loop.simps [simp del]

definition login :: "'p platform \<Rightarrow> 'p shell \<Rightarrow> bool outcome \<times> 'p shell" where
  "login E =
     sh_bind (query (pl_config E)) (\<lambda>cfg.
       if cfg = None \<or> sc_networks (the cfg) = [] then
         sh_bind (line ''configure Wi-Fi first (setup or wifi <ssid> <pw>)'') (\<lambda>_. sh_return False)
       else
         sh_bind (call (pl_start_node E)) (\<lambda>r.
         case r of
           Inl e \<Rightarrow> sh_bind (line (''cannot start node: '' @ e)) (\<lambda>_. sh_return False)
         | Inr _ \<Rightarrow>
             sh_bind (line ''Registering with Tailscale... (press q to stop waiting)'') (\<lambda>_ sh.
               login_loop E (pl_clock E (sh_reads sh) + LOGIN_WAIT) None None (sh_polls sh)
                 (sh\<lparr>sh_reads := Suc (sh_reads sh)\<rparr>))))"

section \<open>Invariants of the shell\<close>

lemma dedup_ssid_subset: "set (dedup_ssid aps) \<subseteq> set aps"
  by (induction aps rule: dedup_ssid.induct) auto

lemma scan_list_subset: "a \<in> set (scan_list aps) \<Longrightarrow> a \<in> set aps \<and> ap_ssid a \<noteq> []"
  using dedup_ssid_subset [of "sort_key (\<lambda>a. - ap_rssi a) aps"] by (auto simp: scan_list_def dest!: in_set_takeD)

text \<open>
  \<open>keeps I m\<close>: the operation \<open>m\<close> keeps \<open>I\<close>, however it ends. The rules follow the
  control structure; the locale below gives the rule of every operation from laws about the
  platform's methods. Its first instance bounds the input that is left, which makes the loops of the
  wizard and of \<open>run\<close> end.
\<close>

lemma sh_bind_Done:
  assumes "sh_bind m f sh = (Done b, t)"
  obtains a u where "m sh = (Done a, u)" "f a u = (Done b, t)"
  using assms by (auto simp: sh_bind_def split: prod.splits outcome.splits)

definition keeps :: "('p shell \<Rightarrow> bool) \<Rightarrow> ('p shell \<Rightarrow> 'a outcome \<times> 'p shell) \<Rightarrow> bool" where
  "keeps I m \<longleftrightarrow> (\<forall>sh. I sh \<longrightarrow> I (snd (m sh)))"

named_theorems keeping

lemma keepsI: "(\<And>sh. I sh \<Longrightarrow> I (snd (m sh))) \<Longrightarrow> keeps I m"
  by (simp add: keeps_def)

lemma keepsD: "keeps I m \<Longrightarrow> I sh \<Longrightarrow> I (snd (m sh))"
  by (simp add: keeps_def)

lemma bind_keeps:
  assumes "keeps I m" "I sh" "\<And>a t. m sh = (Done a, t) \<Longrightarrow> I t \<Longrightarrow> I (snd (f a t))"
  shows "I (snd (sh_bind m f sh))"
proof -
  obtain r t where r: "m sh = (r, t)" by (cases "m sh")
  have "I t" using keepsD [OF assms(1,2)] r by simp
  then show ?thesis using assms(3) [of _ t] r by (cases r) (simp_all add: sh_bind_def)
qed

lemma keeps_bind: "keeps I m \<Longrightarrow> (\<And>a. keeps I (f a)) \<Longrightarrow> keeps I (sh_bind m f)"
  by (rule keepsI, rule bind_keeps) (simp_all add: keepsD)

lemma keeps_return [keeping]: "keeps I (sh_return a)"
  by (simp add: keeps_def sh_return_def)

lemma keeps_return_bind: "keeps I (f a) \<Longrightarrow> keeps I (sh_bind (sh_return a) f)"
  by (simp add: keeps_def sh_bind_def sh_return_def)

lemma keeps_reboot [keeping]: "keeps I reboot"
  by (simp add: keeps_def reboot_def)

lemma keeps_query [keeping]: "keeps I (query g)"
  by (simp add: keeps_def query_def)

lemma keeps_if [keeping]: "(b \<Longrightarrow> keeps I m) \<Longrightarrow> (\<not> b \<Longrightarrow> keeps I n) \<Longrightarrow> keeps I (if b then m else n)"
  by simp

lemma keeps_sum [keeping]:
  "(\<And>e. keeps I (f e)) \<Longrightarrow> (\<And>a. keeps I (g a)) \<Longrightarrow> keeps I (case r of Inl e \<Rightarrow> f e | Inr a \<Rightarrow> g a)"
  by (cases r) simp_all

lemma keeps_option [keeping]:
  "(r = None \<Longrightarrow> keeps I m) \<Longrightarrow> (\<And>a. r = Some a \<Longrightarrow> keeps I (f a)) \<Longrightarrow> keeps I (case r of None \<Rightarrow> m | Some a \<Rightarrow> f a)"
  by (cases r) simp_all

lemma keeps_prod [keeping]: "(\<And>a b. x = (a, b) \<Longrightarrow> keeps I (f a b)) \<Longrightarrow> keeps I (case x of (a, b) \<Rightarrow> f a b)"
  by (cases x) simp

lemma keeps_bool [keeping]: "(b \<Longrightarrow> keeps I m) \<Longrightarrow> (\<not> b \<Longrightarrow> keeps I n) \<Longrightarrow> keeps I (case b of True \<Rightarrow> m | False \<Rightarrow> n)"
  by (cases b) simp_all

lemma keeps_list [keeping]:
  "keeps I m \<Longrightarrow> (\<And>a as. keeps I (f a as)) \<Longrightarrow> keeps I (case r of [] \<Rightarrow> m | a # as \<Rightarrow> f a as)"
  by (cases r) simp_all

lemma emit_in [simp]: "sh_in (emit s sh) = sh_in sh"
  by (simp add: emit_def)

text \<open>What a line from the console can hold: printable ASCII.\<close>

definition printable :: "u8 \<Rightarrow> bool" where
  "printable b \<longleftrightarrow> 0x20 \<le> b \<and> b \<le> 0x7e"

definition typed :: "string \<Rightarrow> bool" where
  "typed s \<longleftrightarrow> list_all printable (str_bytes s)"

lemma bytes_str_inverse [simp]: "str_bytes (bytes_str b) = b"
proof -
  have "(of_char (char_of (unat a)) :: u8) = a" for a :: u8
  proof -
    have "(of_char (char_of (unat a)) :: u8) = of_nat (of_char (char_of (unat a) :: char))" by (simp add: of_char_def)
    also have "\<dots> = a" using unsigned_less [of a] by (simp add: of_char_of)
    finally show ?thesis .
  qed
  then show ?thesis by (simp add: bytes_str_def str_bytes_def comp_def)
qed

lemma typed_append [simp]: "typed (a @ b) \<longleftrightarrow> typed a \<and> typed b"
  by (simp add: typed_def str_bytes_def)

lemma typed_space: "typed '' ''"
  by (simp add: typed_def str_bytes_def printable_def)

lemma typed_subset: "typed s \<Longrightarrow> set t \<subseteq> set s \<Longrightarrow> typed t"
  by (auto simp: typed_def str_bytes_def list_all_iff)

lemma typed_Nil [simp]: "typed []"
  by (simp add: typed_def str_bytes_def)

lemma trim_subset: "set (trim s) \<subseteq> set s"
  unfolding trim_def by (auto dest!: set_dropWhileD)

lemma from_utf8_lossy_ascii: "list_all printable l \<Longrightarrow> from_utf8_lossy l = bytes_str l"
proof (induction l)
  case Nil
  show ?case by (simp add: from_utf8_lossy.simps [of "[]"] bytes_str_def)
next
  case (Cons b l)
  have "b < 0x80" using Cons.prems by (auto simp: printable_def elim: order_le_less_trans)
  then have "utf8_step (b # l) = (True, 1)" by simp
  then show ?case using Cons by (simp add: from_utf8_lossy.simps [of "b # l"] bytes_str_def)
qed

definition returns :: "('a \<Rightarrow> bool) \<Rightarrow> ('p shell \<Rightarrow> 'a outcome \<times> 'p shell) \<Rightarrow> bool" where
  "returns Q m \<longleftrightarrow> (\<forall>sh a t. m sh = (Done a, t) \<longrightarrow> Q a)"

lemma keeps_bind_returns:
  "keeps I m \<Longrightarrow> returns Q m \<Longrightarrow> (\<And>a. Q a \<Longrightarrow> keeps I (f a)) \<Longrightarrow> keeps I (sh_bind m f)"
  by (rule keepsI, rule bind_keeps) (auto simp: returns_def intro: keepsD)

lemma read_loop_typed:
  "list_all printable l \<Longrightarrow> read_loop E echo dl xs l sh = (Done (Some r), t) \<Longrightarrow> typed r"
proof (induction xs arbitrary: dl l sh)
  case (Cons x xs)
  have e: "typed (trim (from_utf8_lossy l))"
    using Cons.prems(1) by (intro typed_subset [OF _ trim_subset]) (simp add: from_utf8_lossy_ascii typed_def)
  have k: "list_all printable l'" if "key_press echo w l b = Editing l' out1" for w b l' out1
    using that Cons.prems(1) by (auto simp: key_press_def printable_def list_all_iff dest: in_set_butlastD split: if_splits)
  have d: "typed r'" if "key_press echo w l b = Entered r' out1" for w b r' out1
    using that e by (auto simp: key_press_def split: if_splits)
  show ?case using Cons.prems(2) Cons.IH [OF k] Cons.IH [OF Cons.prems(1)] d
    by (auto simp: Let_def split: if_splits option.splits key_result.splits)
qed simp

lemma read_line_typed: "returns (\<lambda>r. case r of None \<Rightarrow> True | Some l \<Rightarrow> typed l) (read_line E echo idle)"
  by (auto simp: returns_def read_line_def dest: read_loop_typed [of "[]", rotated] split: option.splits)

lemma ask_typed: "returns typed (ask E p echo)"
  unfolding returns_def ask_def
proof (intro allI impI, elim sh_bind_Done)
  fix sh a t u r v
  assume "read_line E echo None v = (Done r, u)" "sh_return (case r of Some l \<Rightarrow> l | None \<Rightarrow> []) u = (Done a, t)"
  then show "typed a" using read_line_typed [of E echo None] by (auto simp: returns_def sh_return_def split: option.splits)
qed

definition pw_ok :: "string \<Rightarrow> bool" where
  "pw_ok pw \<longleftrightarrow> typed pw \<and> (pw = [] \<or> 8 \<le> length pw \<and> length pw \<le> 63)"

locale shell_invariant =
  fixes E :: "'p platform" and I :: "'p shell \<Rightarrow> bool" and good :: "saved_config \<Rightarrow> bool" and net :: "string \<Rightarrow> bool"
  assumes frame: "I sh \<Longrightarrow> I (sh\<lparr>sh_polls := ps, sh_out := msg, sh_swallow_lf := w, sh_reads := k\<rparr>)"
    and input: "I sh \<Longrightarrow> length xs \<le> length (sh_in sh) \<Longrightarrow> I (sh\<lparr>sh_in := xs\<rparr>)"
    and scan_wifi: "I sh \<Longrightarrow> I (sh\<lparr>sh_plat := snd (pl_scan_wifi E (sh_plat sh))\<rparr>)"
    and scanned: "I sh \<Longrightarrow> fst (pl_scan_wifi E (sh_plat sh)) = Inr aps \<Longrightarrow> a \<in> set aps \<Longrightarrow> ap_ssid a \<noteq> [] \<Longrightarrow> net (ap_ssid a)"
    and typed_net: "typed s \<Longrightarrow> s \<noteq> [] \<Longrightarrow> net s"
    and connect_wifi: "I sh \<Longrightarrow> I (sh\<lparr>sh_plat := snd (pl_connect_wifi E ssid pw (sh_plat sh))\<rparr>)"
    and reconnect_wifi: "I sh \<Longrightarrow> I (sh\<lparr>sh_plat := snd (pl_reconnect_wifi E (sh_plat sh))\<rparr>)"
    and start_node: "I sh \<Longrightarrow> I (sh\<lparr>sh_plat := snd (pl_start_node E (sh_plat sh))\<rparr>)"
    and factory_reset: "I sh \<Longrightarrow> I (sh\<lparr>sh_plat := snd (pl_factory_reset E (sh_plat sh))\<rparr>)"
    and save_config: "I sh \<Longrightarrow> good c \<Longrightarrow> I (sh\<lparr>sh_plat := snd (pl_save_config E c (sh_plat sh))\<rparr>)"
    and config: "I sh \<Longrightarrow> pl_config E (sh_plat sh) = Some c \<Longrightarrow> good c"
    and good_default: "good default_config"
    and good_hostname: "good c \<Longrightarrow> good (c\<lparr>sc_hostname := h\<rparr>)"
    and good_auth_key: "good c \<Longrightarrow> key \<noteq> [] \<Longrightarrow> good (c\<lparr>sc_auth_key := Some key\<rparr>)"
    and good_tcp_port: "good c \<Longrightarrow> p \<noteq> 0 \<Longrightarrow> good (c\<lparr>sc_tcp_port := Some p\<rparr>)"
    and good_baud_rate: "good c \<Longrightarrow> b \<noteq> 0 \<Longrightarrow> good (c\<lparr>sc_baud_rate := Some b\<rparr>)"
    and good_usb_interface: "good c \<Longrightarrow> good (c\<lparr>sc_usb_interface := i\<rparr>)"
    and good_usb_driver:
      "good c \<Longrightarrow> d \<in> {None, Some ''cdc'', Some ''ftdi'', Some ''cp210x'', Some ''ch34x''} \<Longrightarrow> good (c\<lparr>sc_usb_driver := d\<rparr>)"
    and good_forget: "good c \<Longrightarrow> good (c\<lparr>sc_networks := filter (\<lambda>n. wn_ssid n \<noteq> ssid) (sc_networks c)\<rparr>)"
    and good_network:
      "good c \<Longrightarrow> net ssid \<Longrightarrow> pw_ok pw \<Longrightarrow>
       good (c\<lparr>sc_networks := filter (\<lambda>n. wn_ssid n \<noteq> ssid) (sc_networks c) @ [\<lparr>wn_ssid = ssid, wn_password = pw\<rparr>]\<rparr>)"
begin

lemma reads: "I sh \<Longrightarrow> I (sh\<lparr>sh_reads := k\<rparr>)"
  using frame [where ps = "sh_polls sh" and msg = "sh_out sh" and w = "sh_swallow_lf sh" and k = k and sh = sh] by simp

lemma polls: "I sh \<Longrightarrow> I (sh\<lparr>sh_polls := ps\<rparr>)"
  using frame [where ps = ps and msg = "sh_out sh" and w = "sh_swallow_lf sh" and k = "sh_reads sh" and sh = sh] by simp

lemma keeps_out [keeping]: "keeps I (out s)"
proof (rule keepsI)
  show "I (snd (out s sh))" if "I sh" for sh
    using frame [OF that, where ps = "sh_polls sh" and msg = "sh_out sh @ s" and w = "sh_swallow_lf sh" and k = "sh_reads sh"] by (simp add: out_def)
qed

lemma keeps_line [keeping]: "keeps I (line s)"
  by (simp add: line_def keeps_out)

lemma keeps_lines [keeping]: "keeps I (lines ls)"
  by (induction ls) (auto intro: keeping keeps_bind)

lemma keeps_read_byte [keeping]: "keeps I read_byte"
  by (auto simp: keeps_def read_byte_def input split: list.split)

lemma keeps_call [keeping]:
  "keeps I (call (pl_scan_wifi E))" "keeps I (call (pl_connect_wifi E ssid pw))" "keeps I (call (pl_reconnect_wifi E))"
  "keeps I (call (pl_start_node E))" "keeps I (call (pl_factory_reset E))" "good c \<Longrightarrow> keeps I (call (pl_save_config E c))"
  using scan_wifi connect_wifi reconnect_wifi start_node factory_reset save_config
  by (simp_all add: keeps_def call_def case_prod_unfold)

lemma keeps_get_config [keeping]:
  assumes "\<And>c. good c \<Longrightarrow> keeps I (f c)"
  shows "keeps I (sh_bind (get_config E) f)"
proof (rule keepsI)
  fix sh assume sh: "I sh"
  let ?c = "case pl_config E (sh_plat sh) of Some c \<Rightarrow> c | None \<Rightarrow> default_config"
  have "good ?c" using config [OF sh] good_default by (simp split: option.split)
  from keepsD [OF assms [OF this] sh] show "I (snd (sh_bind (get_config E) f sh))"
    by (simp add: sh_bind_def get_config_def query_def)
qed

lemma swallow: "I sh \<Longrightarrow> I (sh\<lparr>sh_swallow_lf := w\<rparr>)"
  using frame [where ps = "sh_polls sh" and msg = "sh_out sh" and w = w and k = "sh_reads sh" and sh = sh] by simp

lemma emitted: "I sh \<Longrightarrow> I (emit msg sh)"
  using keepsD [OF keeps_out, of sh msg] by (simp add: out_def emit_def)

lemma read_loop_keeps: "I sh \<Longrightarrow> length xs \<le> length (sh_in sh) \<Longrightarrow> I (snd (read_loop E echo dl xs l sh))"
proof (induction xs arbitrary: dl l sh)
  case Nil
  then show ?case using input [of sh "[]"] by simp
next
  case (Cons x xs)
  define t where "t = sh\<lparr>sh_in := xs, sh_reads := (if dl \<noteq> None \<and> l = [] then Suc (sh_reads sh) else sh_reads sh)\<rparr>"
  have t: "I t" "sh_in t = xs" unfolding t_def using input [OF Cons.prems(1), of xs] Cons.prems(2) by (simp_all add: reads)
  show ?case unfolding read_loop.simps Let_def t_def [symmetric]
    using t by (simp add: Cons.IH swallow emitted
      split: option.split key_result.split)
qed

lemma keeps_read_line [keeping]: "keeps I (read_line E echo idle)"
  by (intro keepsI) (simp add: read_line_def read_loop_keeps reads split: option.split)

lemma keeps_ask [keeping]: "keeps I (ask E p echo)"
  unfolding ask_def by (intro keeping keeps_bind)

lemma keeps_scan [keeping]: "keeps I (scan E)"
  unfolding scan_def Let_def by (intro keeping keeps_bind)

lemma keeps_set_wifi [keeping]: "net ssid \<Longrightarrow> typed password \<Longrightarrow> keeps I (set_wifi E ssid password)"
  unfolding set_wifi_def by (intro keeping keeps_bind good_network) (auto simp: pw_ok_def)

lemma keeps_ask_bind [keeping]: "(\<And>a. typed a \<Longrightarrow> keeps I (f a)) \<Longrightarrow> keeps I (sh_bind (ask E p echo) f)"
  by (rule keeps_bind_returns [OF keeps_ask ask_typed])

lemma keeps_password_bind [keeping]:
  "(\<And>a. typed a \<Longrightarrow> keeps I (f a)) \<Longrightarrow> keeps I (sh_bind (if b then ask E p echo else sh_return []) f)"
  by (cases b) (simp_all add: keeps_ask_bind keeps_return_bind)

lemma keeps_scan_bind [keeping]:
  assumes "\<And>aps. \<forall>a\<in>set aps. net (ap_ssid a) \<Longrightarrow> keeps I (f aps)"
  shows "keeps I (sh_bind (scan E) f)"
proof (rule keepsI, rule bind_keeps [OF keeps_scan])
  fix sh aps t assume sh: "I sh" and a: "scan E sh = (Done aps, t)" "I t"
  obtain aps0 where "aps = scan_list aps0" "fst (pl_scan_wifi E (sh_plat sh)) = Inr aps0 \<or> aps0 = []"
    using a(1) unfolding scan_def Let_def
    by (auto simp: sh_bind_def line_def out_def call_def sh_return_def scan_list_def split: prod.splits outcome.splits sum.splits if_splits)
  then have "\<forall>a\<in>set aps. net (ap_ssid a)"
    using scanned [OF sh] scan_list_subset [where aps = aps0] by fastforce
  from keepsD [OF assms [OF this] a(2)] show "I (snd (f aps t))" .
qed

lemma keeps_read_bind [keeping]:
  "(\<And>r. case r of None \<Rightarrow> True | Some l \<Rightarrow> typed l \<Longrightarrow> keeps I (f r)) \<Longrightarrow> keeps I (sh_bind (read_line E echo idle) f)"
  by (rule keeps_bind_returns [OF keeps_read_line read_line_typed])

lemma keeps_show_state [keeping]: "keeps I (show_state shown st)"
  unfolding show_state_def by (cases st) (simp_all add: keeping keeps_bind)

lemma keeps_login_loop: "keeps I (login_loop E dl shown last_st ps)"
proof (induction ps arbitrary: shown last_st)
  case Nil
  have a: "keeps I (sh_bind (line s) (\<lambda>_. sh_return r))" for s and r :: bool by (intro keeping keeps_bind)
  show ?case
    by (intro keepsI) (simp add: login_loop.simps [of E dl shown last_st "[]"] Let_def keepsD [OF a] reads)
next
  case (Cons st ps)
  have a: "keeps I (sh_bind (line s) (\<lambda>_. sh_return r))" for s and r :: bool by (intro keeping keeps_bind)
  have b: "keeps I (sh_bind (show_state shown st) (\<lambda>shown. login_loop E dl shown (Some st) ps))" by (intro keeping keeps_bind Cons.IH)
  have c: "keeps I (sh_bind read_byte (\<lambda>r. if r = Some 0x71 \<or> r = Some 0x03
      then sh_bind (line ''stopped waiting; the node keeps trying in the background'') (\<lambda>_. sh_return False)
      else login_loop E dl shown last_st ps))"
    by (intro keeping keeps_bind Cons.IH)
  show ?case
  proof (rule keepsI)
    fix sh assume "I sh"
    then have "I (sh\<lparr>sh_reads := k\<rparr>)" "I (sh\<lparr>sh_reads := k, sh_polls := ps\<rparr>)" for k by (simp_all add: reads polls)
    then show "I (snd (login_loop E dl shown last_st (st # ps) sh))"
      using b by (cases st) (simp_all add: login_loop.simps [of E dl shown last_st "_ # ps"] Let_def keepsD [OF a] keepsD [OF c] keepsD)
  qed
qed

lemma keeps_login [keeping]: "keeps I (login E)"
proof -
  have "keeps I (\<lambda>sh. login_loop E (pl_clock E (sh_reads sh) + LOGIN_WAIT) None None (sh_polls sh)
      (sh\<lparr>sh_reads := Suc (sh_reads sh)\<rparr>))"
    by (intro keepsI keepsD [OF keeps_login_loop] reads)
  then show ?thesis unfolding login_def by (intro keeping keeps_bind)
qed

end

interpretation sl: shell_invariant E "\<lambda>sh. length (sh_in sh) \<le> n" "\<lambda>_. True" "\<lambda>_. True" for E n
  by unfold_locales auto

lemma left_le: "(\<And>n. keeps (\<lambda>sh. length (sh_in sh) \<le> n) m) \<Longrightarrow> m sh = (Done a, t) \<Longrightarrow> length (sh_in t) \<le> length (sh_in sh)"
  unfolding keeps_def by (metis order_refl snd_conv)

lemma read_loop_less: "read_loop E echo dl xs l sh = (Done r, t) \<Longrightarrow> length (sh_in t) < length xs"
proof (induction xs arbitrary: dl l sh)
  case (Cons x xs)
  then show ?case by (auto simp: Let_def emit_def less_Suc_eq split: if_splits option.splits key_result.splits)
qed simp

lemma read_line_less: "read_line E echo idle sh = (Done r, t) \<Longrightarrow> length (sh_in t) < length (sh_in sh)"
  by (auto simp: read_line_def dest: read_loop_less split: option.splits)

text \<open>An operation that reads at least once before it returns.\<close>

definition uses_input :: "('p shell \<Rightarrow> 'a outcome \<times> 'p shell) \<Rightarrow> bool" where
  "uses_input m \<longleftrightarrow> (\<forall>sh a t. m sh = (Done a, t) \<longrightarrow> length (sh_in t) < length (sh_in sh))"

lemma uses_input_left:
  assumes "uses_input m" "returns Q m" "\<And>a n. Q a \<Longrightarrow> keeps (\<lambda>sh. length (sh_in sh) \<le> n) (f a)"
  shows "uses_input (sh_bind m f)"
  unfolding uses_input_def
proof (intro allI impI, elim sh_bind_Done)
  fix sh b t a u assume m: "m sh = (Done a, u)" and f: "f a u = (Done b, t)"
  show "length (sh_in t) < length (sh_in sh)"
    using assms(1,2) m left_le [OF assms(3) f] unfolding uses_input_def returns_def by fastforce
qed

lemma uses_input_right:
  assumes "\<And>n. keeps (\<lambda>sh. length (sh_in sh) \<le> n) m" "\<And>a. uses_input (f a)"
  shows "uses_input (sh_bind m f)"
  unfolding uses_input_def
proof (intro allI impI, elim sh_bind_Done)
  fix sh b t a u assume m: "m sh = (Done a, u)" and f: "f a u = (Done b, t)"
  show "length (sh_in t) < length (sh_in sh)"
    using assms(2) f left_le [OF assms(1) m] unfolding uses_input_def by fastforce
qed

lemma uses_input_read_line: "uses_input (read_line E echo idle)"
  using read_line_less by (fastforce simp: uses_input_def)

lemma uses_input_ask: "uses_input (ask E p echo)"
  unfolding ask_def
  by (rule uses_input_right, intro keeping, rule uses_input_left, rule uses_input_read_line, rule read_line_typed, intro keeping)

section \<open>The setup wizard\<close>

definition is_ascii_alphanumeric :: "char \<Rightarrow> bool" where
  "is_ascii_alphanumeric c =
     (let n = of_char c :: nat in 48 \<le> n \<and> n \<le> 57 \<or> 65 \<le> n \<and> n \<le> 90 \<or> 97 \<le> n \<and> n \<le> 122)"

definition valid_hostname :: "string \<Rightarrow> bool" where
  "valid_hostname h \<longleftrightarrow>
     h \<noteq> [] \<and> length h \<le> 63 \<and> list_all (\<lambda>c. is_ascii_alphanumeric c \<or> c = CHR ''-'') h
     \<and> hd h \<noteq> CHR ''-'' \<and> last h \<noteq> CHR ''-''"

definition pick_network :: "nat \<Rightarrow> ap_info list \<Rightarrow> string \<Rightarrow> string \<times> bool" where
  "pick_network um aps sel =
     (case parse_uint um sel of
        Some n \<Rightarrow>
          (if 1 \<le> n \<and> n \<le> length aps then (ap_ssid (aps ! (n - 1)), ap_secure (aps ! (n - 1))) else (sel, True))
      | None \<Rightarrow> (sel, True))"

text \<open>
  One turn of the network loop: \<open>None\<close> starts the next turn, \<open>Some None\<close> is the user quitting,
  which ends the wizard, and \<open>Some (Some ok)\<close> leaves the loop with or without a network.
\<close>

definition wifi_turn :: "'p platform \<Rightarrow> 'p shell \<Rightarrow> bool option option outcome \<times> 'p shell" where
  "wifi_turn E =
     sh_bind (scan E) (\<lambda>aps.
     sh_bind (ask E ''Select network number, or type an SSID (Enter to rescan, q to quit): '' True) (\<lambda>sel.
       if sel = [] then sh_return None
       else if sel = ''q'' then
         sh_bind (line ''Setup aborted; type 'setup' to start again.'') (\<lambda>_. sh_return (Some None))
       else
         case pick_network (pl_um E) aps sel of (ssid, secure) \<Rightarrow>
           sh_bind (if secure then ask E (''Password for '' @ ssid @ '': '') False else sh_return []) (\<lambda>password.
           sh_bind (set_wifi E ssid password) (\<lambda>ok.
             if ok then sh_return (Some (Some True))
             else
               sh_bind (ask E ''Try again? [Y/n] '' True) (\<lambda>again.
                 sh_return (if eq_ignore_ascii_case again ''n'' then Some (Some False) else None))))))"

context shell_invariant
begin

lemma pick_network_net: "\<forall>a\<in>set aps. net (ap_ssid a) \<Longrightarrow> typed sel \<Longrightarrow> sel \<noteq> [] \<Longrightarrow> pick_network um aps sel = (ssid, secure) \<Longrightarrow> net ssid"
  using typed_net by (auto simp: pick_network_def split: option.splits if_splits)

lemma keeps_wifi_turn [keeping]: "keeps I (wifi_turn E)"
  unfolding wifi_turn_def by (intro keeping keeps_bind) (auto intro: pick_network_net)

end

lemma wifi_turn_reads: "uses_input (wifi_turn E)"
  unfolding wifi_turn_def
  by (rule uses_input_right, intro keeping keeps_bind, rule uses_input_left, rule uses_input_ask, rule ask_typed, intro keeping keeps_bind) simp_all

function wifi_loop :: "'p platform \<Rightarrow> 'p shell \<Rightarrow> bool option outcome \<times> 'p shell" where
  "wifi_loop E sh =
     sh_bind (wifi_turn E) (\<lambda>r sh. case r of None \<Rightarrow> wifi_loop E sh | Some ok \<Rightarrow> sh_return ok sh) sh"
  by pat_completeness auto
termination
  by (relation "measure (\<lambda>(E, sh). length (sh_in sh))") (use wifi_turn_reads in \<open>auto simp: uses_input_def\<close>)

declare wifi_loop.simps [simp del]

function host_loop :: "'p platform \<Rightarrow> string \<Rightarrow> 'p shell \<Rightarrow> string outcome \<times> 'p shell" where
  "host_loop E default_host sh =
     sh_bind (ask E (''Hostname on the tailnet ['' @ default_host @ '']: '') True) (\<lambda>h sh.
       let h = (if h = [] then default_host else h)
       in if valid_hostname h then sh_return h sh
          else sh_bind (line ''use 1..63 letters, digits or hyphens'') (\<lambda>_. host_loop E default_host) sh) sh"
  by pat_completeness auto
termination
proof (relation "measure (\<lambda>(E, d, sh). length (sh_in sh))", goal_cases)
  case (2 E d sh h t x u v)
  then show ?case using uses_input_ask [of E "''Hostname on the tailnet ['' @ d @ '']: ''" True] by (auto simp: uses_input_def line_def out_def)
qed simp

declare host_loop.simps [simp del]

text \<open>The part of the wizard after the Wi-Fi step: the host name and the login.\<close>

definition wizard_host :: "'p platform \<Rightarrow> saved_config \<Rightarrow> 'p shell \<Rightarrow> unit outcome \<times> 'p shell" where
  "wizard_host E existing =
     sh_bind (host_loop E (if sc_hostname existing = [] then ''target-console'' else sc_hostname existing)) (\<lambda>host.
     sh_bind (get_config E) (\<lambda>c.
     sh_bind (call (pl_save_config E (c\<lparr>sc_hostname := host\<rparr>))) (\<lambda>r.
     case r of
       Inl e \<Rightarrow> line (''save failed: '' @ e)
     | Inr _ \<Rightarrow>
         sh_bind (login E) (\<lambda>ok.
           if ok then
             sh_bind (ask E ''Setup complete. Reboot into normal mode now? [Y/n] '' True) (\<lambda>a.
               if \<not> eq_ignore_ascii_case a ''n'' then
                 sh_bind (line ''Rebooting. Connect the adapter's USB port to the target board.'') (\<lambda>_. reboot)
               else sh_return ())
           else sh_return ()))))"

definition wizard :: "'p platform \<Rightarrow> bool \<Rightarrow> 'p shell \<Rightarrow> unit outcome \<times> 'p shell" where
  "wizard E full =
     sh_bind (line []) (\<lambda>_.
     sh_bind (line (if full then ''=== Setup (all) ==='' else ''=== Setup ==='')) (\<lambda>_.
     sh_bind (get_config E) (\<lambda>existing.
     sh_bind (wifi_loop E) (\<lambda>r.
     case r of
       None \<Rightarrow> sh_return ()
     | Some False \<Rightarrow> line ''Wi-Fi not configured; run 'setup' again later.''
     | Some True \<Rightarrow>
         sh_bind (query (pl_is_registered E)) (\<lambda>registered.
           if \<not> full \<and> sc_hostname existing \<noteq> [] \<and> registered then
             sh_bind (line ''Wi-Fi updated; hostname and Tailscale login are already set up ('setup all' redoes everything).'') (\<lambda>_.
             sh_bind (query (pl_status E)) (\<lambda>st.
             if sn_setup_mode st then line ''Type 'reboot' to switch to normal mode.'' else sh_return ()))
           else wizard_host E existing)))))"

section \<open>Commands\<close>

definition cmd_setup :: "'p platform \<Rightarrow> string list \<Rightarrow> 'p shell \<Rightarrow> unit outcome \<times> 'p shell" where
  "cmd_setup E args =
     (if args = [] then wizard E False
      else if args = [''all''] \<or> args = [''full''] then wizard E True
      else line ''usage: setup | setup all'')"

definition cmd_connect :: "'p platform \<Rightarrow> 'p shell \<Rightarrow> unit outcome \<times> 'p shell" where
  "cmd_connect E =
     sh_bind (call (pl_reconnect_wifi E)) (\<lambda>r.
     case r of
       Inr ip \<Rightarrow> line (''Connected ('' @ ip @ '')'')
     | Inl e \<Rightarrow> line (''Wi-Fi failed: '' @ e))"

definition cmd_wifi :: "'p platform \<Rightarrow> string list \<Rightarrow> 'p shell \<Rightarrow> unit outcome \<times> 'p shell" where
  "cmd_wifi E args =
     (case args of
        [] \<Rightarrow> line ''usage: wifi <ssid> [password] | wifi list | wifi forget <ssid>''
      | [a] \<Rightarrow>
          (if a = ''list'' then wifi_list E
           else sh_bind (set_wifi E a []) (\<lambda>_. sh_return ()))
      | a # b # rest \<Rightarrow>
          (if a = ''forget'' \<and> rest = [] then wifi_forget E b
           else sh_bind (set_wifi E a (join '' '' (b # rest))) (\<lambda>_. sh_return ())))"

definition first_arg :: "(string \<Rightarrow> 'a option) \<Rightarrow> string list \<Rightarrow> 'a option" where
  "first_arg f args = (case args of [] \<Rightarrow> None | a # _ \<Rightarrow> f a)"

definition cmd_hostname :: "'p platform \<Rightarrow> string list \<Rightarrow> 'p shell \<Rightarrow> unit outcome \<times> 'p shell" where
  "cmd_hostname E args =
     (case args of
        [h] \<Rightarrow> set_field E (\<lambda>c. c\<lparr>sc_hostname := h\<rparr>)
      | _ \<Rightarrow> line ''usage: hostname <name>'')"

definition cmd_authkey :: "'p platform \<Rightarrow> string list \<Rightarrow> 'p shell \<Rightarrow> unit outcome \<times> 'p shell" where
  "cmd_authkey E args =
     (if length args = 1 \<and> strip_prefix ''tskey-'' (hd args) \<noteq> None
      then set_field E (\<lambda>c. c\<lparr>sc_auth_key := Some (hd args)\<rparr>)
      else line ''usage: authkey tskey-auth-... (optional; otherwise 'login' prints an approval URL)'')"

definition cmd_port :: "'p platform \<Rightarrow> string list \<Rightarrow> 'p shell \<Rightarrow> unit outcome \<times> 'p shell" where
  "cmd_port E args =
     (case first_arg (parse_uint 65536) args of
        Some p \<Rightarrow>
          (if p \<noteq> 0 then set_field E (\<lambda>c. c\<lparr>sc_tcp_port := Some (word_of_nat p)\<rparr>)
           else line ''usage: port <1-65535>'')
      | None \<Rightarrow> line ''usage: port <1-65535>'')"

definition cmd_usbdrv :: "'p platform \<Rightarrow> string list \<Rightarrow> 'p shell \<Rightarrow> unit outcome \<times> 'p shell" where
  "cmd_usbdrv E args =
     (case first_arg Some args of
        None \<Rightarrow> line ''usage: usbdrv <auto|cdc|ftdi|cp210x|ch34x>''
      | Some d \<Rightarrow>
          (if d = ''auto'' then set_field E (\<lambda>c. c\<lparr>sc_usb_driver := None\<rparr>)
           else if d = ''cdc'' \<or> d = ''ftdi'' \<or> d = ''cp210x'' \<or> d = ''ch34x''
             then set_field E (\<lambda>c. c\<lparr>sc_usb_driver := Some d\<rparr>)
           else line ''usage: usbdrv <auto|cdc|ftdi|cp210x|ch34x>''))"

definition cmd_usbif :: "'p platform \<Rightarrow> string list \<Rightarrow> 'p shell \<Rightarrow> unit outcome \<times> 'p shell" where
  "cmd_usbif E args =
     (case first_arg (parse_uint 256) args of
        Some i \<Rightarrow> set_field E (\<lambda>c. c\<lparr>sc_usb_interface := Some (word_of_nat i)\<rparr>)
      | None \<Rightarrow> line ''usage: usbif <interface index> (0 is the first CDC interface; the Raspberry Pi Debug Probe's UART is 1)'')"

definition cmd_baud :: "'p platform \<Rightarrow> string list \<Rightarrow> 'p shell \<Rightarrow> unit outcome \<times> 'p shell" where
  "cmd_baud E args =
     (case first_arg (parse_uint (2 ^ 32)) args of
        Some b \<Rightarrow>
          (if b \<noteq> 0 then set_field E (\<lambda>c. c\<lparr>sc_baud_rate := Some (word_of_nat b)\<rparr>)
           else line ''usage: baud <rate>'')
      | None \<Rightarrow> line ''usage: baud <rate>'')"

definition cmd_reset :: "'p platform \<Rightarrow> 'p shell \<Rightarrow> unit outcome \<times> 'p shell" where
  "cmd_reset E =
     sh_bind (ask E ''Erase configuration and node identity? [y/N] '' True) (\<lambda>a.
       if eq_ignore_ascii_case a ''y'' then
         sh_bind (call (pl_factory_reset E)) (\<lambda>r.
         case r of
           Inr _ \<Rightarrow> sh_bind (line ''Erased. Rebooting...'') (\<lambda>_. reboot)
         | Inl e \<Rightarrow> line (''reset failed: '' @ e))
       else sh_return ())"

definition quoted :: "string \<Rightarrow> string" where
  "quoted s = [CHR 0x27] @ s @ [CHR 0x27]"

definition dispatch :: "'p platform \<Rightarrow> string \<Rightarrow> 'p shell \<Rightarrow> unit outcome \<times> 'p shell" where
  "dispatch E cmd =
     (case split_whitespace cmd of
        [] \<Rightarrow> sh_return ()
      | verb # args \<Rightarrow>
          (if verb = ''help'' \<or> verb = ''?'' then shell_help
           else if verb = ''status'' then status E
           else if verb = ''setup'' then cmd_setup E args
           else if verb = ''scan'' then sh_bind (scan E) (\<lambda>_. sh_return ())
           else if verb = ''connect'' then cmd_connect E
           else if verb = ''wifi'' then cmd_wifi E args
           else if verb = ''hostname'' then cmd_hostname E args
           else if verb = ''authkey'' then cmd_authkey E args
           else if verb = ''port'' then cmd_port E args
           else if verb = ''usbdrv'' then cmd_usbdrv E args
           else if verb = ''usbif'' then cmd_usbif E args
           else if verb = ''baud'' then cmd_baud E args
           else if verb = ''login'' then sh_bind (login E) (\<lambda>_. sh_return ())
           else if verb = ''reboot'' then sh_bind (line ''Rebooting...'') (\<lambda>_. reboot)
           else if verb = ''reset'' then cmd_reset E
           else line (''unknown command '' @ quoted verb @ ''; try '' @ quoted ''help'')))"

lemma word_of_nat_neq_0: "0 < n \<Longrightarrow> n < 2 ^ LENGTH('a) \<Longrightarrow> (word_of_nat n :: 'a::len word) \<noteq> 0"
  by (auto simp: word_of_nat_eq_0_iff dest: dvd_imp_le)

lemma split_by_subset: "w \<in> set (split_by p s) \<Longrightarrow> set w \<subseteq> set s"
proof (induction s arbitrary: w)
  case (Cons a s)
  have "set v \<subseteq> set s" if "split_by p s = v # vs" for v vs using Cons.IH [of v] that by simp
  then show ?case using Cons by (cases "split_by p s") (fastforce split: if_splits)+
qed simp

lemma split_whitespace_typed: "typed s \<Longrightarrow> \<forall>w\<in>set (split_whitespace s). typed w \<and> w \<noteq> []"
  by (auto simp: split_whitespace_def intro: typed_subset dest: split_by_subset)

lemma typed_join: "\<forall>w\<in>set ws. typed w \<Longrightarrow> typed sep \<Longrightarrow> typed (join sep ws)"
proof (cases ws)
  case (Cons w vs)
  have "\<forall>w\<in>set vs. typed w \<Longrightarrow> typed sep \<Longrightarrow> typed (concat (map (\<lambda>v. sep @ v) vs))" by (induction vs) auto
  then show "\<forall>w\<in>set ws. typed w \<Longrightarrow> typed sep \<Longrightarrow> typed (join sep ws)" by (simp add: Cons join_def)
qed (simp add: join_def)

lemma first_arg_less: "first_arg (parse_uint b) args = Some n \<Longrightarrow> 0 < b \<Longrightarrow> n < b"
  by (auto simp: first_arg_def dest: parse_uint_less split: list.splits)

context shell_invariant
begin

lemma keeps_wifi_loop [keeping]: "keeps I (wifi_loop E)"
proof (rule keepsI)
  show "I sh \<Longrightarrow> I (snd (wifi_loop E sh))" for sh
  proof (induction "length (sh_in sh)" arbitrary: sh rule: less_induct)
    case less
    show ?case unfolding wifi_loop.simps [of E sh]
    proof (rule bind_keeps [OF keeps_wifi_turn less.prems])
      fix r t assume "wifi_turn E sh = (Done r, t)" "I t"
      then show "I (snd (case r of None \<Rightarrow> wifi_loop E t | Some ok \<Rightarrow> sh_return ok t))"
        using less.hyps [of t] wifi_turn_reads [of E] by (auto simp: uses_input_def sh_return_def split: option.split)
    qed
  qed
qed

lemma keeps_host_loop [keeping]: "keeps I (host_loop E d)"
proof (rule keepsI)
  show "I sh \<Longrightarrow> I (snd (host_loop E d sh))" for sh
  proof (induction "length (sh_in sh)" arbitrary: sh rule: less_induct)
    case less
    show ?case unfolding host_loop.simps [of E d sh] Let_def
    proof (rule bind_keeps [OF keeps_ask less.prems])
      fix h t
      assume a: "ask E (''Hostname on the tailnet ['' @ d @ '']: '') True sh = (Done h, t)" "I t"
      let ?t = "t\<lparr>sh_out := sh_out t @ ''use 1..63 letters, digits or hyphens'' @ crlf_text\<rparr>"
      have "I ?t" using keepsD [OF keeps_line a(2), of "''use 1..63 letters, digits or hyphens''"] by (simp add: line_def out_def)
      then have "I (snd (host_loop E d ?t))"
        using less.hyps [of ?t] a(1) uses_input_ask [of E "''Hostname on the tailnet ['' @ d @ '']: ''" True]
        by (simp add: uses_input_def)
      then show "I (snd (if valid_hostname (if h = [] then d else h) then sh_return (if h = [] then d else h) t
          else sh_bind (line ''use 1..63 letters, digits or hyphens'') (\<lambda>_. host_loop E d) t))"
        using a(2) by (simp add: sh_return_def sh_bind_def line_def out_def)
    qed
  qed
qed

lemma keeps_wizard [keeping]: "keeps I (wizard E full)"
  unfolding wizard_def wizard_host_def by (intro keeping keeps_bind good_hostname)

lemma keeps_set_field: "(\<And>c. good c \<Longrightarrow> good (f c)) \<Longrightarrow> keeps I (set_field E f)"
  unfolding set_field_def by (intro keeping keeps_bind)

lemma keeps_settings [keeping]:
  "keeps I (cmd_hostname E args)" "keeps I (cmd_authkey E args)" "keeps I (cmd_usbif E args)" "keeps I (cmd_usbdrv E args)"
  unfolding cmd_hostname_def cmd_authkey_def cmd_usbif_def cmd_usbdrv_def
  by (intro keeping keeps_bind keeps_set_field good_hostname good_auth_key good_usb_interface good_usb_driver; force)+

lemma keeps_cmd_port [keeping]: "keeps I (cmd_port E args)"
  unfolding cmd_port_def
  by (intro keeping keeps_bind keeps_set_field good_tcp_port word_of_nat_neq_0) (auto dest: first_arg_less)

lemma keeps_cmd_baud [keeping]: "keeps I (cmd_baud E args)"
  unfolding cmd_baud_def
  by (intro keeping keeps_bind keeps_set_field good_baud_rate word_of_nat_neq_0) (auto dest: first_arg_less)

lemma keeps_wifi_set [keeping]:
  "net a \<Longrightarrow> typed b \<Longrightarrow> keeps I (sh_bind (set_wifi E a b) (\<lambda>_. sh_return ()))"
  by (intro keeping keeps_bind)

lemma keeps_cmd_wifi [keeping]:
  assumes "\<forall>w\<in>set args. typed w \<and> w \<noteq> []"
  shows "keeps I (cmd_wifi E args)"
proof -
  have "keeps I (wifi_list E)" "keeps I (wifi_forget E ssid)" for ssid
    unfolding wifi_list_def wifi_forget_def Let_def by (intro keeping keeps_bind good_forget)+
  then show ?thesis using assms
    by (auto simp: cmd_wifi_def keeps_line keeps_wifi_set typed_net typed_join typed_space split: list.split)
qed

lemma keeps_dispatch [keeping]:
  assumes "typed cmd"
  shows "keeps I (dispatch E cmd)"
proof (cases "split_whitespace cmd")
  case Nil
  then show ?thesis by (simp add: dispatch_def keeps_return)
next
  case (Cons verb args)
  then have args: "\<forall>w\<in>set args. typed w \<and> w \<noteq> []" using split_whitespace_typed [OF assms] by simp
  show ?thesis unfolding dispatch_def shell_help_def status_def cmd_setup_def cmd_connect_def cmd_reset_def Cons list.case
    by (intro keeping keeps_bind args)
qed

end

section \<open>The command loop\<close>

text \<open>
  One turn of the loop of \<^verbatim>\<open>run\<close>; the loop has no exit, so a run ends only when the device
  reboots or the input is used up.
\<close>

definition run_turn :: "'p platform \<Rightarrow> bool \<Rightarrow> 'p shell \<Rightarrow> unit outcome \<times> 'p shell" where
  "run_turn E quiet =
     sh_bind (if \<not> quiet then out PROMPT else sh_return ()) (\<lambda>_.
     sh_bind (read_line E True (if quiet then Some (from_secs 3600) else None)) (\<lambda>r.
     case r of
       None \<Rightarrow> sh_return ()
     | Some cmd \<Rightarrow>
         (if cmd = [] then
            (if quiet then
               sh_bind (out PROMPT) (\<lambda>_.
               sh_bind (read_line E True None) (\<lambda>r.
               case r of None \<Rightarrow> sh_return () | Some cmd \<Rightarrow> dispatch E cmd))
             else sh_return ())
          else dispatch E cmd)))"

lemma run_turn_reads: "uses_input (run_turn E quiet)"
  unfolding run_turn_def
  by (rule uses_input_right, intro keeping keeps_bind, rule uses_input_left, rule uses_input_read_line, rule read_line_typed,
      intro keeping keeps_bind) (auto split: option.splits)

function run_loop :: "'p platform \<Rightarrow> bool \<Rightarrow> 'p shell \<Rightarrow> unit outcome \<times> 'p shell" where
  "run_loop E quiet sh = sh_bind (run_turn E quiet) (\<lambda>_. run_loop E quiet) sh"
  by pat_completeness auto
termination
  by (relation "measure (\<lambda>(E, quiet, sh). length (sh_in sh))") (use run_turn_reads in \<open>auto simp: uses_input_def\<close>)

declare run_loop.simps [simp del]

definition run :: "'p platform \<Rightarrow> bool \<Rightarrow> bool \<Rightarrow> 'p shell \<Rightarrow> unit outcome \<times> 'p shell" where
  "run E auto_wizard quiet =
     sh_bind (if \<not> quiet then banner E else sh_return ()) (\<lambda>_.
     sh_bind
       (if auto_wizard then
          sh_bind (out ''Press Enter to start setup, or type a command: '') (\<lambda>_.
          sh_bind (read_line E True None) (\<lambda>r.
            let first = (case r of Some l \<Rightarrow> l | None \<Rightarrow> [])
            in if first = [] then wizard E False else dispatch E first))
        else sh_return ()) (\<lambda>_.
     run_loop E quiet))"

context shell_invariant
begin

lemma keeps_run_loop [keeping]: "keeps I (run_loop E quiet)"
proof (rule keepsI)
  show "I sh \<Longrightarrow> I (snd (run_loop E quiet sh))" for sh
  proof (induction "length (sh_in sh)" arbitrary: sh rule: less_induct)
    case less
    have k: "keeps I (run_turn E quiet)" unfolding run_turn_def by (intro keeping keeps_bind) (auto split: option.splits)
    show ?case unfolding run_loop.simps [of E quiet sh]
    proof (rule bind_keeps [OF k less.prems])
      fix a t assume "run_turn E quiet sh = (Done a, t)" "I t"
      then show "I (snd (run_loop E quiet t))"
        using less.hyps [of t] run_turn_reads [of E quiet] by (simp add: uses_input_def)
    qed
  qed
qed

lemma keeps_run: "keeps I (run E auto_wizard quiet)"
  unfolding run_def banner_def Let_def by (intro keeping keeps_bind) (auto split: option.splits)

end

end
