(* ===== verification/Key_Store.thy ===== *)
theory Key_Store
  imports Shell "HOL-Library.AList" "HOL-Library.List_Lexorder" "HOL-Library.Char_ord"
begin

text \<open>
  Persistent storage: the trait \<^verbatim>\<open>Store\<close> of crates/tsnode/src/node.rs as a record of its
  methods and a locale of what its users rely on, its implementations (the JSON-file store of
  tools/hostnode/src/main.rs, the NVS store of firmware/src/nvs_store.rs), and the device
  configuration that firmware/src/nvs_store.rs keeps in such a store.
\<close>

section \<open>The interface\<close>

record 's store =
  st_get :: "string \<Rightarrow> 's \<Rightarrow> string option"
  st_set :: "string \<Rightarrow> string \<Rightarrow> 's \<Rightarrow> (io_kind + unit) \<times> 's"
  st_remove :: "string \<Rightarrow> 's \<Rightarrow> (io_kind + unit) \<times> 's"

definition KEY_MACHINE :: string where "KEY_MACHINE = ''machine_key''"
definition KEY_NODE :: string where "KEY_NODE = ''node_key''"
definition KEY_DISCO :: string where "KEY_DISCO = ''disco_key''"
definition KEY_REGISTERED :: string where "KEY_REGISTERED = ''registered''"
definition KEY_HOME_DERP :: string where "KEY_HOME_DERP = ''home_derp''"

section \<open>The file store of the host tool\<close>

text \<open>
  \<open>io k\<close> is the result of the k-th write of the file; the map in memory is changed whether or
  not the file could be written.
\<close>

datatype flush_result = FlushOk | CreateFailed io_kind | WriteFailed io_kind nat

record file_store =
  fs_data :: "(string \<times> string) list"
  fs_disk :: "string option"
  fs_count :: nat

definition replace_char :: "char \<Rightarrow> string \<Rightarrow> string \<Rightarrow> string" where
  "replace_char c by s = concat (map (\<lambda>x. if x = c then by else [x]) s)"

definition json_esc :: "string \<Rightarrow> string" where
  "json_esc s = replace_char CHR 0x22 [CHR 0x5C, CHR 0x22] (replace_char CHR 0x5C [CHR 0x5C, CHR 0x5C] s)"

definition json_line :: "(string \<times> string) list \<Rightarrow> bool \<Rightarrow> string \<Rightarrow> string" where
  "json_line m comma k =
     '' '' @ '' '' @ [CHR 0x22] @ json_esc k @ [CHR 0x22] @ '': '' @ [CHR 0x22] @ json_esc (the (map_of m k)) @ [CHR 0x22]
     @ (if comma then '','' else []) @ [CHR 0x0A]"

fun json_lines :: "(string \<times> string) list \<Rightarrow> string list \<Rightarrow> string" where
  "json_lines m [] = []"
| "json_lines m (k # ks) = json_line m (ks \<noteq> []) k @ json_lines m ks"

definition json_map :: "(string \<times> string) list \<Rightarrow> string" where
  "json_map m = ''{'' @ [CHR 0x0A] @ json_lines m (sort (remdups (map fst m))) @ ''}''"

definition fs_flush :: "(nat \<Rightarrow> flush_result) \<Rightarrow> file_store \<Rightarrow> (io_kind + unit) \<times> file_store" where
  "fs_flush io s =
     (let txt = json_map (fs_data s); n = fs_count s; s = s\<lparr>fs_count := Suc n\<rparr>
      in case io n of
           FlushOk \<Rightarrow> (Inr (), s\<lparr>fs_disk := Some txt\<rparr>)
         | CreateFailed e \<Rightarrow> (Inl e, s)
         | WriteFailed e k \<Rightarrow> (Inl e, s\<lparr>fs_disk := Some (take k txt)\<rparr>))"

definition file_store_ops :: "(nat \<Rightarrow> flush_result) \<Rightarrow> file_store store" where
  "file_store_ops io =
     \<lparr>st_get = (\<lambda>k s. map_of (fs_data s) k),
      st_set = (\<lambda>k v s. fs_flush io (s\<lparr>fs_data := AList.update k v (fs_data s)\<rparr>)),
      st_remove = (\<lambda>k s. fs_flush io (s\<lparr>fs_data := AList.delete k (fs_data s)\<rparr>))\<rparr>"

section \<open>The NVS store of the device\<close>

text \<open>The methods of \<^verbatim>\<open>EspNvs\<close> the store calls; a read names the size of its buffer.\<close>

definition MAX_VALUE :: nat where "MAX_VALUE = 4000"

record 'n nvs =
  nv_get_str :: "string \<Rightarrow> nat \<Rightarrow> 'n \<Rightarrow> io_kind + string option"
  nv_set_str :: "string \<Rightarrow> string \<Rightarrow> 'n \<Rightarrow> (io_kind + unit) \<times> 'n"
  nv_remove :: "string \<Rightarrow> 'n \<Rightarrow> (io_kind + bool) \<times> 'n"

definition nvs_store :: "'n nvs \<Rightarrow> 'n store" where
  "nvs_store N =
     \<lparr>st_get = (\<lambda>k s. case nv_get_str N k MAX_VALUE s of Inr (Some v) \<Rightarrow> Some v | _ \<Rightarrow> None),
      st_set = (\<lambda>k v s. case nv_set_str N k v s of (Inr _, s) \<Rightarrow> (Inr (), s) | (Inl _, s) \<Rightarrow> (Inl OtherError, s)),
      st_remove = (\<lambda>k s. case nv_remove N k s of (Inr _, s) \<Rightarrow> (Inr (), s) | (Inl _, s) \<Rightarrow> (Inl OtherError, s))\<rparr>"

section \<open>The device configuration\<close>

definition K_SSID :: string where "K_SSID = ''wifi_ssid''"
definition K_PASS :: string where "K_PASS = ''wifi_password''"
definition K_NETS :: string where "K_NETS = ''wifi_list''"
definition K_AUTH :: string where "K_AUTH = ''auth_key''"
definition K_HOST :: string where "K_HOST = ''hostname''"
definition K_PORT :: string where "K_PORT = ''tcp_port''"
definition K_BAUD :: string where "K_BAUD = ''baud_rate''"
definition K_USBIF :: string where "K_USBIF = ''usb_if''"
definition K_USBDRV :: string where "K_USBDRV = ''usb_drv''"

lemmas store_keys = K_SSID_def K_PASS_def K_NETS_def K_AUTH_def K_HOST_def K_PORT_def K_BAUD_def K_USBIF_def K_USBDRV_def
  KEY_MACHINE_def KEY_NODE_def KEY_DISCO_def KEY_REGISTERED_def KEY_HOME_DERP_def

definition ALL_KEYS :: "string list" where
  "ALL_KEYS = [K_SSID, K_PASS, K_NETS, K_AUTH, K_HOST, K_PORT, K_BAUD, K_USBIF, K_USBDRV,
     KEY_MACHINE, KEY_NODE, KEY_DISCO, KEY_REGISTERED, KEY_HOME_DERP]"

definition TAB :: char where "TAB = CHR 0x09"
definition NL :: char where "NL = CHR 0x0A"

text \<open>\<^verbatim>\<open>str::lines\<close>: a line end is a line feed with an optional carriage return before it.\<close>

definition strip_cr :: "string \<Rightarrow> string" where
  "strip_cr l = (if l \<noteq> [] \<and> last l = CHR 0x0D then butlast l else l)"

function str_lines :: "string \<Rightarrow> string list" where
  "str_lines s =
     (if s = [] then []
      else case dropWhile (\<lambda>c. c \<noteq> NL) s of
        [] \<Rightarrow> [s]
      | _ # r \<Rightarrow> strip_cr (takeWhile (\<lambda>c. c \<noteq> NL) s) # str_lines r)"
  by pat_completeness auto
termination
proof (relation "measure length", goal_cases)
  case (2 s c r)
  then show ?case using length_dropWhile_le [of "\<lambda>c. c \<noteq> NL" s] by simp
qed simp

declare str_lines.simps [simp del]

definition parse_network :: "string \<Rightarrow> wifi_network option" where
  "parse_network l =
     (case split_once TAB l of
        None \<Rightarrow> None
      | Some (ssid, pw) \<Rightarrow> (if ssid = [] then None else Some \<lparr>wn_ssid = ssid, wn_password = pw\<rparr>))"

definition parse_networks :: "string \<Rightarrow> wifi_network list" where
  "parse_networks t = List.map_filter parse_network (str_lines t)"

definition format_networks :: "wifi_network list \<Rightarrow> string" where
  "format_networks nets = concat (map (\<lambda>n. wn_ssid n @ [TAB] @ wn_password n @ [NL]) nets)"

definition parse_word :: "string \<Rightarrow> 'a::len word option" where
  "parse_word s = map_option word_of_nat (parse_uint (2 ^ LENGTH('a)) s)"

definition unwrap_or_default :: "string option \<Rightarrow> string" where
  "unwrap_or_default x = (case x of Some v \<Rightarrow> v | None \<Rightarrow> [])"

definition non_empty :: "string option \<Rightarrow> string option" where
  "non_empty x = (case x of Some v \<Rightarrow> if v \<noteq> [] then Some v else None | None \<Rightarrow> None)"

text \<open>The networks, with the migration from the single-network keys.\<close>

definition load_networks :: "'s store \<Rightarrow> 's \<Rightarrow> wifi_network list" where
  "load_networks S s =
     (let networks = (case st_get S K_NETS s of Some t \<Rightarrow> parse_networks t | None \<Rightarrow> [])
      in case non_empty (st_get S K_SSID s) of
           None \<Rightarrow> networks
         | Some ssid \<Rightarrow>
             (if \<not> list_ex (\<lambda>n. wn_ssid n = ssid) networks
              then networks @ [\<lparr>wn_ssid = ssid, wn_password = unwrap_or_default (st_get S K_PASS s)\<rparr>]
              else networks))"

definition load_config :: "'s store \<Rightarrow> 's \<Rightarrow> saved_config option" where
  "load_config S s =
     (let networks = load_networks S s
      in if networks = [] then None
         else Some
           \<lparr>sc_networks = networks, sc_hostname = unwrap_or_default (st_get S K_HOST s),
            sc_auth_key = non_empty (st_get S K_AUTH s),
            sc_tcp_port = Option.bind (st_get S K_PORT s) parse_word,
            sc_baud_rate = Option.bind (st_get S K_BAUD s) parse_word,
            sc_usb_interface = Option.bind (st_get S K_USBIF s) parse_word,
            sc_usb_driver = non_empty (st_get S K_USBDRV s)\<rparr>)"

text \<open>The question mark: go on only after success.\<close>

definition and_then :: "('s \<Rightarrow> (io_kind + unit) \<times> 's) \<Rightarrow> ('s \<Rightarrow> (io_kind + unit) \<times> 's) \<Rightarrow> 's \<Rightarrow> (io_kind + unit) \<times> 's" where
  "and_then f g s = (case f s of (Inl e, s) \<Rightarrow> (Inl e, s) | (Inr _, s) \<Rightarrow> g s)"

text \<open>\<^verbatim>\<open>let _ = ...\<close>: the result is dropped.\<close>

definition ignoring :: "('s \<Rightarrow> (io_kind + unit) \<times> 's) \<Rightarrow> 's \<Rightarrow> (io_kind + unit) \<times> 's" where
  "ignoring f s = (Inr (), snd (f s))"

definition set_or_remove :: "'s store \<Rightarrow> string \<Rightarrow> string option \<Rightarrow> 's \<Rightarrow> (io_kind + unit) \<times> 's" where
  "set_or_remove S key value =
     (case value of
        Some v \<Rightarrow> st_set S key v
      | None \<Rightarrow> ignoring (st_remove S key))"

definition identity_changed :: "'s store \<Rightarrow> saved_config \<Rightarrow> 's \<Rightarrow> bool" where
  "identity_changed S cfg s =
     (case load_config S s of
        Some old \<Rightarrow> sc_auth_key cfg \<noteq> None \<and> sc_auth_key old \<noteq> sc_auth_key cfg
      | None \<Rightarrow> True)"

definition dec_word :: "'a::len word \<Rightarrow> string" where
  "dec_word w = dec_string (unat w)"

definition save_config :: "'s store \<Rightarrow> saved_config \<Rightarrow> 's \<Rightarrow> (io_kind + unit) \<times> 's" where
  "save_config S cfg s =
     (let changed = identity_changed S cfg s
      in foldr and_then
           [st_set S K_NETS (format_networks (sc_networks cfg)),
            ignoring (st_remove S K_SSID),
            ignoring (st_remove S K_PASS),
            st_set S K_HOST (sc_hostname cfg),
            set_or_remove S K_AUTH (sc_auth_key cfg),
            set_or_remove S K_PORT (map_option dec_word (sc_tcp_port cfg)),
            set_or_remove S K_BAUD (map_option dec_word (sc_baud_rate cfg)),
            set_or_remove S K_USBIF (map_option dec_word (sc_usb_interface cfg)),
            set_or_remove S K_USBDRV (sc_usb_driver cfg)]
           (\<lambda>s. if changed
                then and_then (ignoring (st_remove S KEY_REGISTERED)) (ignoring (st_remove S KEY_HOME_DERP)) s
                else (Inr (), s)) s)"

definition is_registered :: "'s store \<Rightarrow> 's \<Rightarrow> bool" where
  "is_registered S s \<longleftrightarrow> st_get S KEY_REGISTERED s = Some ''1''"

definition forget_auth_key :: "'s store \<Rightarrow> 's \<Rightarrow> (io_kind + unit) \<times> 's" where
  "forget_auth_key S = st_remove S K_AUTH"

text \<open>\<open>erase\<close> is \<^verbatim>\<open>nvs_flash_erase\<close>.\<close>

definition factory_reset :: "'s store \<Rightarrow> ('s \<Rightarrow> bool \<times> 's) \<Rightarrow> 's \<Rightarrow> (io_kind + unit) \<times> 's" where
  "factory_reset S erase s =
     (case erase (fold (\<lambda>k s. snd (st_remove S k s)) ALL_KEYS s) of
        (True, s) \<Rightarrow> (Inr (), s)
      | (False, s) \<Rightarrow> (Inl OtherError, s))"

section \<open>The platform of the device\<close>

text \<open>
  \<^verbatim>\<open>EspPlatform\<close> over its store: \<open>dv_wifi\<close> is the Wi-Fi driver's state and \<open>dv_nets\<close>
  the networks it was last told about, \<open>dv_node\<close> whether the node was started. The driver, the
  starter of the node, the status text and the eraser are parameters.
\<close>

record ('s, 'w) device =
  dv_store :: 's
  dv_wifi :: 'w
  dv_nets :: "wifi_network list"
  dv_node :: bool

record ('s, 'w) drivers =
  dr_status :: "('s, 'w) device \<Rightarrow> status_snapshot"
  dr_scan :: "'w \<Rightarrow> (string + ap_info list) \<times> 'w"
  dr_connect :: "string \<Rightarrow> string \<Rightarrow> 'w \<Rightarrow> (string + string) \<times> 'w"
  dr_connect_best :: "wifi_network list \<Rightarrow> 'w \<Rightarrow> (string + string) \<times> 'w"
  dr_start_node :: "saved_config \<Rightarrow> 's \<Rightarrow> (string + unit) \<times> 's"
  dr_erase :: "'s \<Rightarrow> bool \<times> 's"
  dr_clock :: "nat \<Rightarrow> instant"
  dr_io_text :: "io_kind \<Rightarrow> string"

definition map_err :: "('e \<Rightarrow> string) \<Rightarrow> 'e + 'a \<Rightarrow> string + 'a" where
  "map_err f r = (case r of Inl e \<Rightarrow> Inl (f e) | Inr a \<Rightarrow> Inr a)"

definition esp_save_config ::
    "'s store \<Rightarrow> ('s, 'w) drivers \<Rightarrow> saved_config \<Rightarrow> ('s, 'w) device \<Rightarrow> (string + unit) \<times> ('s, 'w) device" where
  "esp_save_config S D cfg d =
     (case save_config S cfg (dv_store d) of
        (Inl e, s) \<Rightarrow> (Inl (dr_io_text D e), d\<lparr>dv_store := s\<rparr>)
      | (Inr _, s) \<Rightarrow> (Inr (), d\<lparr>dv_store := s, dv_nets := sc_networks cfg\<rparr>))"

definition esp_reconnect_wifi ::
    "'s store \<Rightarrow> ('s, 'w) drivers \<Rightarrow> ('s, 'w) device \<Rightarrow> (string + string) \<times> ('s, 'w) device" where
  "esp_reconnect_wifi S D d =
     (let nets = (case load_config S (dv_store d) of Some c \<Rightarrow> sc_networks c | None \<Rightarrow> dv_nets d);
          (r, w) = dr_connect_best D nets (dv_wifi d)
      in (r, d\<lparr>dv_nets := nets, dv_wifi := w\<rparr>))"

definition esp_start_node ::
    "'s store \<Rightarrow> ('s, 'w) drivers \<Rightarrow> ('s, 'w) device \<Rightarrow> (string + unit) \<times> ('s, 'w) device" where
  "esp_start_node S D d =
     (if dv_node d then (Inr (), d)
      else case load_config S (dv_store d) of
        None \<Rightarrow> (Inl ''not configured'', d)
      | Some cfg \<Rightarrow>
          (case dr_start_node D cfg (dv_store d) of
             (Inl e, s) \<Rightarrow> (Inl e, d\<lparr>dv_store := s\<rparr>)
           | (Inr _, s) \<Rightarrow> (Inr (), d\<lparr>dv_store := s, dv_node := True\<rparr>)))"

definition esp_factory_reset ::
    "'s store \<Rightarrow> ('s, 'w) drivers \<Rightarrow> ('s, 'w) device \<Rightarrow> (string + unit) \<times> ('s, 'w) device" where
  "esp_factory_reset S D d =
     (let (r, s) = factory_reset S (dr_erase D) (dv_store d)
      in (map_err (dr_io_text D) r, d\<lparr>dv_store := s\<rparr>))"

definition esp_platform :: "'s store \<Rightarrow> ('s, 'w) drivers \<Rightarrow> ('s, 'w) device platform" where
  "esp_platform S D =
     \<lparr>pl_status = dr_status D,
      pl_scan_wifi = (\<lambda>d. let (r, w) = dr_scan D (dv_wifi d) in (r, d\<lparr>dv_wifi := w\<rparr>)),
      pl_connect_wifi = (\<lambda>ssid pw d. let (r, w) = dr_connect D ssid pw (dv_wifi d) in (r, d\<lparr>dv_wifi := w\<rparr>)),
      pl_reconnect_wifi = esp_reconnect_wifi S D,
      pl_config = (\<lambda>d. load_config S (dv_store d)),
      pl_save_config = esp_save_config S D,
      pl_start_node = esp_start_node S D,
      pl_is_registered = (\<lambda>d. is_registered S (dv_store d)),
      pl_factory_reset = esp_factory_reset S D,
      pl_clock = dr_clock D, pl_um = 2 ^ 32\<rparr>"

end
