(* ===== verification/Node.thy ===== *)
theory Node
  imports Control Control_Time Magicsock Netstack Key_Store "HOL-Library.List_Lexorder" "HOL-Library.Char_ord"
begin

text \<open>
  crates/tsnode/src/node.rs: the node composes the control client, the packet mover, the TCP endpoint and the store.
  \<^verbatim>\<open>Inner\<close> is the record \<open>node_inner\<close>; the turns of the control thread are functions on it. What the control client
  returns (with the text of its errors, which the thread inspects), random keys and clock readings come as arguments; a
  panic of the thread is \<open>None\<close>.
\<close>

section \<open>Configuration and state\<close>

definition MAP_KEEPALIVE_TIMEOUT :: duration where "MAP_KEEPALIVE_TIMEOUT = from_secs 150"

record node_config =
  nc_control_url :: string
  nc_auth_key :: "string option"
  nc_hostname :: string
  nc_version :: string
  nc_udp_port :: u16
  nc_local_ip :: "ip_addr option"
  nc_worker_stack :: nat
  nc_control_stack :: nat
  nc_fallback_region_code :: string

definition node_config_default :: "string \<Rightarrow> node_config" where
  "node_config_default pkg_version =
     \<lparr>nc_control_url = ''https://controlplane.tailscale.com'', nc_auth_key = None, nc_hostname = ''tsnode'',
      nc_version = pkg_version, nc_udp_port = 41641, nc_local_ip = None, nc_worker_stack = 32 * 1024,
      nc_control_stack = 64 * 1024, nc_fallback_region_code = ''tok''\<rparr>"

datatype node_state =
    Starting | ConnectingControl | Registering | NeedsLogin string | Running | NodeError string

record node_status =
  nst_state :: node_state
  nst_addresses :: "ip_addr list"
  nst_dns_name :: string
  nst_home_derp :: int
  nst_derp_connected :: bool
  nst_endpoints :: "socket_addr list"
  nst_peers :: "peer_status list"
  nst_last_error :: "string option"
  nst_map_updates :: u64

record ('s, 'w) node_inner =
  no_cfg :: node_config
  no_store :: 's
  no_ms :: magicsock
  no_ns :: "'w netstack"
  no_node_key :: key_pair
  no_machine_key :: key_pair
  no_status :: node_status
  no_shutdown :: bool
  no_dirty :: bool
  no_by_id :: "(int \<times> bytes) list"
  no_filter_sets :: "(string \<times> filter_rule list) list"
  no_clock_offset :: int

text \<open>The store, the packet mover's environment, the text of a system error, and the clock.\<close>

record 's node_env =
  ne_store :: "'s store"
  ne_ms :: ms_env
  ne_text :: "io_kind \<Rightarrow> string"

record io_error =
  ie_kind :: io_kind
  ie_msg :: string

definition sys_error :: "'s node_env \<Rightarrow> io_kind \<Rightarrow> io_error" where
  "sys_error E k = \<lparr>ie_kind = k, ie_msg = ne_text E k\<rparr>"

section \<open>Keys\<close>

definition load_or_create_key ::
    "'s node_env \<Rightarrow> bytes \<Rightarrow> string \<Rightarrow> 's \<Rightarrow> (io_kind + key_pair) \<times> 's" where
  "load_or_create_key E rnd name st =
     (case Option.bind (st_get (ne_store E) name st) (from_secret_hex (me_hex (ne_ms E)) (me_prims (ne_ms E))) of
        Some k \<Rightarrow> (Inr k, st)
      | None \<Rightarrow>
          (let k = kp_generate (me_prims (ne_ms E)) rnd
           in case st_set (ne_store E) name (secret_hex (me_hex (ne_ms E)) k) st of
                (Inl e, st) \<Rightarrow> (Inl e, st)
              | (Inr _, st) \<Rightarrow> (Inr k, st)))"

section \<open>Start, status, shutdown\<close>

definition status_new :: node_status where
  "status_new =
     \<lparr>nst_state = Starting, nst_addresses = [], nst_dns_name = [], nst_home_derp = 0, nst_derp_connected = False,
      nst_endpoints = [], nst_peers = [], nst_last_error = None, nst_map_updates = 0\<rparr>"

text \<open>
  \<open>bound\<close>: the port of the UDP socket or the error of the packet mover's start, \<open>spawned\<close>: the results of starting the
  threads of the TCP endpoint and of the control loop, \<open>w\<close>: the new interface of the stack.
\<close>

definition node_start ::
    "'s node_env \<Rightarrow> bytes \<times> bytes \<times> bytes \<Rightarrow> io_kind + u16 \<Rightarrow> (io_kind + unit) \<times> (io_kind + unit) \<Rightarrow> 'w
      \<Rightarrow> node_config \<Rightarrow> 's \<Rightarrow> (io_kind + ('s, 'w) node_inner) \<times> 's" where
  "node_start E rnds bound spawned w cfg st =
     (case load_or_create_key E (fst rnds) KEY_MACHINE st of
        (Inl e, st) \<Rightarrow> (Inl e, st)
      | (Inr machine_key, st) \<Rightarrow>
          (case load_or_create_key E (fst (snd rnds)) KEY_NODE st of
             (Inl e, st) \<Rightarrow> (Inl e, st)
           | (Inr node_key, st) \<Rightarrow>
               (case load_or_create_key E (snd (snd rnds)) KEY_DISCO st of
                  (Inl e, st) \<Rightarrow> (Inl e, st)
                | (Inr disco_key, st) \<Rightarrow>
                    (case (bound, spawned) of
                       (Inl e, _) \<Rightarrow> (Inl e, st)
                     | (Inr port, Inl e, _) \<Rightarrow> (Inl e, st)
                     | (Inr port, Inr _, Inl e) \<Rightarrow> (Inl e, st)
                     | (Inr port, Inr _, Inr _) \<Rightarrow>
                         (Inr \<lparr>no_cfg = cfg, no_store = st,
                               no_ms = set_endpoints_changed (set_ip_sink (ms_start node_key disco_key port (nc_local_ip cfg))),
                               no_ns = netstack_start w, no_node_key = node_key, no_machine_key = machine_key,
                               no_status = status_new, no_shutdown = False, no_dirty = False, no_by_id = [],
                               no_filter_sets = [], no_clock_offset = 0\<rparr>, st)))))"

text \<open>The two closures: a packet from a peer goes to the TCP endpoint, its packets go to the packet mover.\<close>

definition deliver_sink :: "magicsock \<Rightarrow> ('s, 'w) node_inner \<Rightarrow> ('s, 'w) node_inner" where
  "deliver_sink m n =
     (let new = drop (length (mg_out (no_ms n))) (mg_out m);
          ips = List.map_filter (\<lambda>out. case out of IpSink p \<Rightarrow> Some p | _ \<Rightarrow> None) new
      in n\<lparr>no_ms := m, no_ns := fold inject ips (no_ns n)\<rparr>)"

fun send_outbound :: "ms_env \<Rightarrow> instant \<Rightarrow> bytes list \<Rightarrow> magicsock \<Rightarrow> magicsock option" where
  "send_outbound E now [] m = Some m"
| "send_outbound E now (p # ps) m = Option.bind (send_ip E p now m) (send_outbound E now ps)"

definition node_status_of :: "'s node_env \<Rightarrow> instant \<Rightarrow> ('s, 'w) node_inner \<Rightarrow> node_status" where
  "node_status_of E now n =
     (let home = mg_home_derp (no_ms n)
      in (no_status n)\<lparr>nst_peers := peer_statuses (me_hex (ne_ms E)) now (no_ms n),
           nst_endpoints := local_endpoints (ne_ms E) (no_ms n), nst_home_derp := home,
           nst_derp_connected := (home \<noteq> 0 \<and> derp_connected home (no_ms n))\<rparr>)"

definition node_listen :: "u16 \<Rightarrow> ('s, 'w) node_inner \<Rightarrow> nat \<times> ('s, 'w) node_inner" where
  "node_listen port n = (case listen port (no_ns n) of (l, ns) \<Rightarrow> (l, n\<lparr>no_ns := ns\<rparr>))"

definition node_shutdown :: "('s, 'w) node_inner \<Rightarrow> ('s, 'w) node_inner" where
  "node_shutdown n = n\<lparr>no_shutdown := True, no_ms := ms_shut (no_ms n), no_ns := shutdown_stack (no_ns n)\<rparr>"

definition set_state :: "node_state \<Rightarrow> ('s, 'w) node_inner \<Rightarrow> ('s, 'w) node_inner" where
  "set_state state n =
     (if nst_state (no_status n) \<noteq> state then
        n\<lparr>no_status := (no_status n)\<lparr>nst_state := state,
            nst_last_error := (case state of NodeError e \<Rightarrow> Some e | _ \<Rightarrow> nst_last_error (no_status n))\<rparr>\<rparr>
      else n)"

definition sleep_backoff :: "duration \<Rightarrow> duration" where
  "sleep_backoff d = min (d * 2) (from_secs 60)"

section \<open>Map messages\<close>

text \<open>A \<^verbatim>\<open>BTreeMap\<close> with string keys: an association list in the order of its keys.\<close>

fun bt_insert :: "string \<Rightarrow> 'v \<Rightarrow> (string \<times> 'v) list \<Rightarrow> (string \<times> 'v) list" where
  "bt_insert k v [] = [(k, v)]"
| "bt_insert k v ((k', v') # m) =
     (if k < k' then (k, v) # (k', v') # m else if k = k' then (k, v) # m else (k', v') # bt_insert k v m)"

definition is_keep_alive :: "map_response \<Rightarrow> bool" where
  "is_keep_alive r \<longleftrightarrow>
     mr_keep_alive r \<and> mr_node r = None \<and> mr_peers r = None \<and> mr_peers_changed r = None \<and> mr_peers_changed_patch r = None"

definition clamp_i32 :: "int \<Rightarrow> int" where
  "clamp_i32 x = max (- (2 ^ 31)) (min (2 ^ 31 - 1) x)"

text \<open>The offset of the wall clock from the control server's; a time stamp on which the parser panics ends the thread.\<close>

definition note_control_time :: "int \<Rightarrow> string option \<Rightarrow> ('s, 'w) node_inner \<Rightarrow> ('s, 'w) node_inner option" where
  "note_control_time local t n =
     (case t of
        None \<Rightarrow> Some n
      | Some t \<Rightarrow>
          (case parse_rfc3339_secs t of
             None \<Rightarrow> None
           | Some None \<Rightarrow> Some n
           | Some (Some ct) \<Rightarrow> Some (n\<lparr>no_clock_offset := clamp_i32 (ct - local)\<rparr>)))"

definition trim_end_matches :: "char \<Rightarrow> string \<Rightarrow> string" where
  "trim_end_matches c s = rev (dropWhile (\<lambda>x. x = c) (rev s))"

definition node_cidrs :: "string list \<Rightarrow> (ip_addr \<times> u8) list" where
  "node_cidrs addrs =
     List.map_filter (\<lambda>a. map_option (\<lambda>ip. (ip, if is_ipv4 ip then 10 else 48))
       (parse_ip (takeWhile (\<lambda>c. c \<noteq> CHR ''/'') a))) addrs"

definition note_self :: "node option \<Rightarrow> ('s, 'w) node_inner \<Rightarrow> ('s, 'w) node_inner option" where
  "note_self self n =
     (case self of
        None \<Rightarrow> Some n
      | Some nd \<Rightarrow>
          (let cidrs = node_cidrs (nd_addresses nd)
           in map_option (\<lambda>ns. n\<lparr>no_ns := ns,
                  no_status := (no_status n)\<lparr>nst_addresses := map fst cidrs,
                    nst_dns_name := trim_end_matches CHR ''.'' (nd_name nd)\<rparr>\<rparr>)
                (set_addresses cidrs (no_ns n))))"

text \<open>
  \<open>meanwhile\<close>: what the other threads do to the packet mover while \<^verbatim>\<open>probe_derp_regions\<close> waits for STUN answers.
\<close>

definition note_derp_map ::
    "'s node_env \<Rightarrow> instant \<Rightarrow> (magicsock \<Rightarrow> magicsock) \<Rightarrow> derp_map option \<Rightarrow> ('s, 'w) node_inner \<Rightarrow> ('s, 'w) node_inner" where
  "note_derp_map E now meanwhile dm n =
     (case dm of
        None \<Rightarrow> n
      | Some dm \<Rightarrow>
          (let m = set_derp_map dm (no_ms n); known = mg_home_derp m
           in if known \<noteq> 0 then n\<lparr>no_ms := connect_home_derp (ne_ms E) known m, no_dirty := True\<rparr>
              else
                (let m = meanwhile (probe_start (ne_ms E) now m)
                 in case (case probe_result m of
                            Some r \<Rightarrow> Some r
                          | None \<Rightarrow> fallback_region (nc_fallback_region_code (no_cfg n)) m) of
                      None \<Rightarrow> n\<lparr>no_ms := m\<rparr>
                    | Some r \<Rightarrow>
                        n\<lparr>no_ms := connect_home_derp (ne_ms E) r m,
                          no_store := snd (st_set (ne_store E) KEY_HOME_DERP (i32_string r) (no_store n)), no_dirty := True\<rparr>)))"

definition index_nodes :: "hex_lib \<Rightarrow> node list \<Rightarrow> (int \<times> bytes) list \<Rightarrow> (int \<times> bytes) list" where
  "index_nodes H nodes by_id =
     fold (\<lambda>nd m. case parse_prefixed H NODE_PUB_PREFIX (nd_key nd) of Some k \<Rightarrow> AList.update (nd_id nd) k m | None \<Rightarrow> m)
       nodes by_id"

definition note_peers :: "'s node_env \<Rightarrow> node list option \<Rightarrow> ('s, 'w) node_inner \<Rightarrow> ('s, 'w) node_inner" where
  "note_peers E peers n =
     (case peers of
        None \<Rightarrow> n
      | Some ps \<Rightarrow>
          n\<lparr>no_by_id := index_nodes (me_hex (ne_ms E)) ps [], no_ms := set_peers (ne_ms E) ps (no_ms n)\<rparr>)"

definition note_changed :: "'s node_env \<Rightarrow> node list option \<Rightarrow> ('s, 'w) node_inner \<Rightarrow> ('s, 'w) node_inner" where
  "note_changed E changed n =
     (case changed of
        None \<Rightarrow> n
      | Some ps \<Rightarrow>
          n\<lparr>no_by_id := index_nodes (me_hex (ne_ms E)) ps (no_by_id n), no_ms := peers_changed (ne_ms E) ps (no_ms n)\<rparr>)"

definition note_removed :: "int list option \<Rightarrow> ('s, 'w) node_inner \<Rightarrow> ('s, 'w) node_inner" where
  "note_removed removed n =
     (case removed of
        None \<Rightarrow> n
      | Some ids \<Rightarrow>
          n\<lparr>no_ms := peers_removed (no_by_id n) ids (no_ms n), no_by_id := fold AList.delete ids (no_by_id n)\<rparr>)"

definition note_patches :: "'s node_env \<Rightarrow> peer_change list option \<Rightarrow> ('s, 'w) node_inner \<Rightarrow> ('s, 'w) node_inner" where
  "note_patches E patches n =
     (case patches of
        None \<Rightarrow> n
      | Some ps \<Rightarrow> n\<lparr>no_ms := apply_patches (me_hex (ne_ms E)) (no_by_id n) ps (no_ms n)\<rparr>)"

definition merge_filters ::
    "(string \<times> filter_rule list option) list \<Rightarrow> (string \<times> filter_rule list) list \<Rightarrow> (string \<times> filter_rule list) list" where
  "merge_filters named sets =
     fold (\<lambda>(name, rules) m. case rules of Some r \<Rightarrow> bt_insert name r m | None \<Rightarrow> AList.delete name m) named sets"

definition note_filters ::
    "filter_rule list option \<Rightarrow> (string \<times> filter_rule list option) list option \<Rightarrow> ('s, 'w) node_inner \<Rightarrow> ('s, 'w) node_inner" where
  "note_filters base named n =
     (let sets = (case base of Some rules \<Rightarrow> [(''*'', rules)] | None \<Rightarrow> no_filter_sets n);
          sets = (case named of Some ns \<Rightarrow> merge_filters ns sets | None \<Rightarrow> sets)
      in if base = None \<and> named = None then n
         else n\<lparr>no_filter_sets := sets,
                no_ms := set_packet_filter (filter_compile (concat (map snd sets))) (no_ms n)\<rparr>)"

definition handle_map_response ::
    "'s node_env \<Rightarrow> int \<Rightarrow> instant \<Rightarrow> (magicsock \<Rightarrow> magicsock) \<Rightarrow> map_response \<Rightarrow> ('s, 'w) node_inner
      \<Rightarrow> ('s, 'w) node_inner option" where
  "handle_map_response E local now meanwhile r n =
     (if is_keep_alive r then Some n
      else
        Option.bind (note_control_time local (mr_control_time r)
            (n\<lparr>no_status := (no_status n)\<lparr>nst_map_updates := nst_map_updates (no_status n) + 1\<rparr>\<rparr>))
          (\<lambda>n. Option.bind (note_self (mr_node r) n)
            (\<lambda>n. Some (note_filters (mr_packet_filter r) (mr_packet_filters r)
              (note_patches E (mr_peers_changed_patch r)
                (note_removed (mr_peers_removed r)
                  (note_changed E (mr_peers_changed r)
                    (note_peers E (mr_peers r)
                      (note_derp_map E now meanwhile (mr_derp_map r) n)))))))))"

section \<open>Registration\<close>

definition register_request_of :: "'s node_env \<Rightarrow> ('s, 'w) node_inner \<Rightarrow> register_request" where
  "register_request_of E n =
     \<lparr>rq_version = CAPABILITY_VERSION, rq_node_key = fmt_node_pub (me_hex (ne_ms E)) (kp_public (no_node_key n)),
      rq_old_node_key = fmt_node_pub (me_hex (ne_ms E)) (replicate 32 0),
      rq_auth = non_empty (nc_auth_key (no_cfg n)), rq_expiry = ZERO_TIME, rq_followup = [],
      rq_hostinfo = hostinfo_new (nc_hostname (no_cfg n)) (nc_version (no_cfg n)) 0, rq_ephemeral = False\<rparr>"

definition rotated_request :: "'s node_env \<Rightarrow> key_pair \<Rightarrow> register_request \<Rightarrow> register_request" where
  "rotated_request E key rq =
     rq\<lparr>rq_old_node_key := rq_node_key rq, rq_node_key := fmt_node_pub (me_hex (ne_ms E)) (kp_public key)\<rparr>"

text \<open>
  \<open>reply\<close> is \<^verbatim>\<open>client.register\<close>: the answer to each request. The results: \<open>True\<close> when authorised, \<open>False\<close> while the
  approval is waited for.
\<close>

definition node_register ::
    "'s node_env \<Rightarrow> (register_request \<Rightarrow> io_error + register_response) \<Rightarrow> bytes \<Rightarrow> ('s, 'w) node_inner
      \<Rightarrow> (io_error + bool) \<times> ('s, 'w) node_inner" where
  "node_register E reply rnd n =
     (let req = register_request_of E n
      in case reply req of
           Inl e \<Rightarrow> (Inl e, n)
         | Inr resp \<Rightarrow>
             (if rr_error resp \<noteq> [] then (Inl \<lparr>ie_kind = PermissionDenied, ie_msg = rr_error resp\<rparr>, n)
              else if rr_node_key_expired resp then
                (let key = kp_generate (me_prims (ne_ms E)) rnd
                 in case reply (rotated_request E key req) of
                      Inl e \<Rightarrow> (Inl e, n)
                    | Inr resp2 \<Rightarrow>
                        (if rr_error resp2 \<noteq> [] then (Inl \<lparr>ie_kind = PermissionDenied, ie_msg = rr_error resp2\<rparr>, n)
                         else
                           (case st_set (ne_store E) KEY_NODE (secret_hex (me_hex (ne_ms E)) key) (no_store n) of
                              (Inl e, st) \<Rightarrow> (Inl (sys_error E e), n\<lparr>no_store := st\<rparr>)
                            | (Inr _, st) \<Rightarrow>
                                (Inr (rr_machine_authorized resp2),
                                 n\<lparr>no_store := st, no_ms := set_node_key (ne_ms E) key (no_ms n), no_node_key := key\<rparr>))))
              else if rr_machine_authorized resp then (Inr True, n)
              else if rr_auth_url resp \<noteq> [] then (Inr False, set_state (NeedsLogin (rr_auth_url resp)) n)
              else (Inl \<lparr>ie_kind = OtherError, ie_msg = ''register: not authorized and no auth URL''\<rparr>, n)))"

section \<open>The map stream\<close>

text \<open>The latencies in seconds; \<^verbatim>\<open>as_secs_f64\<close> rounds them to a double.\<close>

definition derp_latency :: "magicsock \<Rightarrow> (string \<times> real) list" where
  "derp_latency m = map (\<lambda>(r, d). (i32_string r, real d / 10 ^ 9)) (sm_stun_latency m)"

definition map_request_of ::
    "'s node_env \<Rightarrow> (socket_addr \<Rightarrow> string) \<Rightarrow> bool \<Rightarrow> ('s, 'w) node_inner \<Rightarrow> map_request" where
  "map_request_of E show_addr streaming_req n =
     (let m = no_ms n;
          hi = hostinfo_new (nc_hostname (no_cfg n)) (nc_version (no_cfg n)) (mg_home_derp m)
      in \<lparr>mq_version = CAPABILITY_VERSION, mq_compress = [], mq_keep_alive = streaming_req,
          mq_node_key = fmt_node_pub (me_hex (ne_ms E)) (kp_public (no_node_key n)),
          mq_disco_key = fmt_disco_pub (me_hex (ne_ms E)) (kp_public (mg_disco_key m)), mq_stream = streaming_req,
          mq_hostinfo = hi\<lparr>hi_net_info := map_option (\<lambda>ni. ni\<lparr>ni_derp_latency := derp_latency m\<rparr>) (hi_net_info hi)\<rparr>,
          mq_endpoints = map show_addr (local_endpoints (ne_ms E) m), mq_omit_peers = (\<not> streaming_req), mq_read_only = False\<rparr>)"

text \<open>
  What one turn of the stream loop meets: the next message, the clock, whether another thread reported new endpoints
  meanwhile, and the result of the endpoint update should it be sent.
\<close>

record stream_in =
  si_next :: "io_error + map_response option"
  si_now :: instant
  si_local :: int
  si_meanwhile :: "magicsock \<Rightarrow> magicsock"
  si_dirty :: bool
  si_lite :: "io_error + unit"

record ('s, 'w) streaming =
  sg_node :: "('s, 'w) node_inner"
  sg_last_lite :: instant
  sg_last_msg :: instant

definition lite_update :: "stream_in \<Rightarrow> ('s, 'w) streaming \<Rightarrow> ('s, 'w) streaming" where
  "lite_update i g =
     (if no_dirty (sg_node g) \<and> from_secs 3 < duration_since (si_now i) (sg_last_lite g) then
        g\<lparr>sg_last_lite := si_now i,
          sg_node := (sg_node g)\<lparr>no_dirty := (case si_lite i of Inl _ \<Rightarrow> True | Inr _ \<Rightarrow> False)\<rparr>\<rparr>
      else g)"

text \<open>One turn: \<open>Inl\<close> the loop's result, \<open>Inr\<close> its next state; \<open>None\<close> a panic.\<close>

definition stream_turn ::
    "'s node_env \<Rightarrow> stream_in \<Rightarrow> ('s, 'w) streaming
      \<Rightarrow> ((io_error + unit) \<times> ('s, 'w) node_inner + ('s, 'w) streaming) option" where
  "stream_turn E i g =
     (if no_shutdown (sg_node g) then Some (Inl (Inr (), sg_node g))
      else
        (let n = (sg_node g)\<lparr>no_dirty := (no_dirty (sg_node g) \<or> si_dirty i)\<rparr>; g = g\<lparr>sg_node := n\<rparr>
         in case si_next i of
              Inr (Some r) \<Rightarrow>
                map_option (\<lambda>n. Inr (lite_update i (g\<lparr>sg_node := n, sg_last_msg := si_now i\<rparr>)))
                  (handle_map_response E (si_local i) (si_now i) (si_meanwhile i) r n)
            | Inr None \<Rightarrow> Some (Inl (Inl \<lparr>ie_kind = UnexpectedEof, ie_msg = ''map stream closed''\<rparr>, n))
            | Inl e \<Rightarrow>
                (if ie_kind e = TimedOut then
                   (if MAP_KEEPALIVE_TIMEOUT < duration_since (si_now i) (sg_last_msg g)
                    then Some (Inl (Inl \<lparr>ie_kind = TimedOut, ie_msg = ''no keep-alive from control''\<rparr>, n))
                    else Some (Inr (lite_update i g)))
                 else Some (Inl (Inl e, n)))))"

text \<open>The loop over the inputs to come; when they are used up it is still running.\<close>

fun stream_loop ::
    "'s node_env \<Rightarrow> stream_in list \<Rightarrow> ('s, 'w) streaming
      \<Rightarrow> ((io_error + unit) \<times> ('s, 'w) node_inner + ('s, 'w) streaming) option" where
  "stream_loop E [] g = Some (Inr g)"
| "stream_loop E (i # is) g =
     (case stream_turn E i g of
        None \<Rightarrow> None
      | Some (Inl r) \<Rightarrow> Some (Inl r)
      | Some (Inr g) \<Rightarrow> stream_loop E is g)"

definition restore_home_derp :: "'s node_env \<Rightarrow> ('s, 'w) node_inner \<Rightarrow> ('s, 'w) node_inner" where
  "restore_home_derp E n =
     (if mg_home_derp (no_ms n) = 0 then
        (case Option.bind (st_get (ne_store E) KEY_HOME_DERP (no_store n)) parse_i32 of
           Some r \<Rightarrow> n\<lparr>no_ms := connect_home_derp (ne_ms E) r (no_ms n)\<rparr>
         | None \<Rightarrow> n)
      else n)"

definition run_map_stream ::
    "'s node_env \<Rightarrow> io_error + unit \<Rightarrow> instant \<Rightarrow> stream_in list \<Rightarrow> ('s, 'w) node_inner
      \<Rightarrow> ((io_error + unit) \<times> ('s, 'w) node_inner + ('s, 'w) streaming) option" where
  "run_map_stream E opened now ins n =
     (let n = restore_home_derp E n
      in case opened of
           Inl e \<Rightarrow> Some (Inl (Inl e, n))
         | Inr _ \<Rightarrow>
             stream_loop E ins
               \<lparr>sg_node = (set_state Running n)\<lparr>no_dirty := False\<rparr>, sg_last_lite = now, sg_last_msg = now\<rparr>)"

section \<open>The control loop\<close>

fun str_contains :: "string \<Rightarrow> string \<Rightarrow> bool" where
  "str_contains p [] = (p = [])"
| "str_contains p (c # cs) = (strip_prefix p (c # cs) \<noteq> None \<or> str_contains p cs)"

definition registration_lost :: "string \<Rightarrow> bool" where
  "registration_lost msg \<longleftrightarrow>
     str_contains ''HTTP 401'' msg \<or> str_contains ''HTTP 403'' msg \<or> str_contains ''not registered'' msg
     \<or> str_contains ''expired'' msg"

record control_in =
  ci_connect :: "io_error + unit"
  ci_ask :: "register_request \<Rightarrow> io_error + register_response"
  ci_rnd :: bytes
  ci_opened :: "io_error + unit"
  ci_opened_at :: instant
  ci_stream :: "stream_in list"

text \<open>The end of a turn: what the result of the stream does to the registration and to the pause before the next turn.\<close>

definition stream_ended ::
    "'s node_env \<Rightarrow> io_error + unit \<Rightarrow> ('s, 'w) node_inner \<Rightarrow> duration \<Rightarrow> duration \<times> ('s, 'w) node_inner" where
  "stream_ended E r n backoff =
     (case r of
        Inr _ \<Rightarrow> (from_secs 2, n)
      | Inl e \<Rightarrow>
          (if registration_lost (ie_msg e)
           then (sleep_backoff (from_secs 2), n\<lparr>no_store := snd (st_remove (ne_store E) KEY_REGISTERED (no_store n))\<rparr>)
           else (sleep_backoff backoff, set_state (NodeError (''map: '' @ ie_msg e)) n)))"

text \<open>
  One turn of the loop: \<open>Inl\<close> the pause and the node for the next turn, \<open>Inr\<close> a stream that is still running after the
  inputs, with the pause of the turn; \<open>None\<close> a panic.
\<close>

definition control_turn ::
    "'s node_env \<Rightarrow> control_in \<Rightarrow> duration \<Rightarrow> ('s, 'w) node_inner
      \<Rightarrow> (duration \<times> ('s, 'w) node_inner + duration \<times> ('s, 'w) streaming) option" where
  "control_turn E c backoff n =
     (let n = set_state ConnectingControl n
      in case ci_connect c of
           Inl e \<Rightarrow> Some (Inl (sleep_backoff backoff, set_state (NodeError (''control: '' @ ie_msg e)) n))
         | Inr _ \<Rightarrow>
             (let go = (\<lambda>n. case run_map_stream E (ci_opened c) (ci_opened_at c) (ci_stream c) n of
                     None \<Rightarrow> None
                   | Some (Inl (r, n)) \<Rightarrow> Some (Inl (stream_ended E r n backoff))
                   | Some (Inr g) \<Rightarrow> Some (Inr (backoff, g)))
              in if st_get (ne_store E) KEY_REGISTERED (no_store n) = Some ''1'' then go n
                 else
                   (case node_register E (ci_ask c) (ci_rnd c) (set_state Registering n) of
                      (Inl e, n) \<Rightarrow> Some (Inl (sleep_backoff backoff, set_state (NodeError (''register: '' @ ie_msg e)) n))
                    | (Inr False, n) \<Rightarrow> Some (Inl (backoff, n))
                    | (Inr True, n) \<Rightarrow>
                        go (n\<lparr>no_store := snd (st_set (ne_store E) KEY_REGISTERED ''1'' (no_store n))\<rparr>))))"

text \<open>The thread: \<open>Inl\<close> between two turns, \<open>Inr\<close> in a stream; \<open>None\<close> after a panic.\<close>

type_synonym ('s, 'w) control_thread = "(duration \<times> ('s, 'w) node_inner + duration \<times> ('s, 'w) streaming) option"

definition control_loop :: "'s node_env \<Rightarrow> control_in \<Rightarrow> ('s, 'w) control_thread \<Rightarrow> ('s, 'w) control_thread" where
  "control_loop E c t =
     (case t of
        Some (Inl (backoff, n)) \<Rightarrow> (if no_shutdown n then t else control_turn E c backoff n)
      | Some (Inr (backoff, g)) \<Rightarrow>
          (case stream_loop E (ci_stream c) g of
             None \<Rightarrow> None
           | Some (Inl (r, n)) \<Rightarrow> Some (Inl (stream_ended E r n backoff))
           | Some (Inr g) \<Rightarrow> Some (Inr (backoff, g)))
      | None \<Rightarrow> None)"

definition control_start :: "('s, 'w) node_inner \<Rightarrow> ('s, 'w) control_thread" where
  "control_start n = Some (Inl (from_secs 2, n))"

end
