(* ===== verification/Key_Store_Props.thy ===== *)
theory Key_Store_Props
  imports Key_Store
begin

text \<open>
  The contract of a key-value store as a locale, its instance for the file store of the host tool,
  and what the device configuration gets from it: a saved configuration is read back, every command
  sequence on the console keeps the stored configuration well formed, and settings made before a
  network is known are lost.
\<close>

section \<open>The contract\<close>

text \<open>A store stands for the map from keys to values that its reads show.\<close>

definition view :: "'s store \<Rightarrow> 's \<Rightarrow> string \<rightharpoonup> string" where
  "view S s = (\<lambda>k. st_get S k s)"

locale kv_store =
  fixes S :: "'s store"
  assumes set_ok: "fst (st_set S k v s) = Inr () \<Longrightarrow> view S (snd (st_set S k v s)) = (view S s)(k \<mapsto> v)"
    and set_any: "view S (snd (st_set S k v s)) \<in> {view S s, (view S s)(k \<mapsto> v)}"
    and remove_ok: "fst (st_remove S k s) = Inr () \<Longrightarrow> view S (snd (st_remove S k s)) = (view S s)(k := None)"
    and remove_any: "view S (snd (st_remove S k s)) \<in> {view S s, (view S s)(k := None)}"

lemma map_of_delete: "map_of (AList.delete k m) = (map_of m)(k := None)"
  by (simp add: delete_conv')

lemma fs_flush_data [simp]: "fs_data (snd (fs_flush io s)) = fs_data s"
  by (simp add: fs_flush_def Let_def split: flush_result.split)

interpretation fs: kv_store "file_store_ops io" for io
  by unfold_locales (simp_all add: view_def file_store_ops_def update_conv' map_of_delete fun_upd_def)

section \<open>Networks as text\<close>

definition net_name :: "string \<Rightarrow> bool" where
  "net_name ssid \<longleftrightarrow> ssid \<noteq> [] \<and> TAB \<notin> set ssid \<and> NL \<notin> set ssid"

definition networks_good :: "wifi_network list \<Rightarrow> bool" where
  "networks_good nets \<longleftrightarrow>
     distinct (map wn_ssid nets) \<and> list_all (\<lambda>n. net_name (wn_ssid n) \<and> pw_ok (wn_password n)) nets"

lemma str_lines_line: "NL \<notin> set l \<Longrightarrow> str_lines (l @ NL # r) = strip_cr l # str_lines r"
  by (subst str_lines.simps) (simp add: takeWhile_append dropWhile_append)

lemma typed_chars: "typed s \<Longrightarrow> TAB \<notin> set s \<and> NL \<notin> set s \<and> CHR 0x0D \<notin> set s"
proof -
  assume "typed s"
  then have "printable (of_char c)" if "c \<in> set s" for c
    using that by (auto simp: typed_def str_bytes_def list_all_iff)
  from this [of TAB] this [of NL] this [of "CHR 0x0D"] show ?thesis
    by (auto simp: printable_def TAB_def NL_def)
qed

lemma parse_network_line:
  assumes "net_name (wn_ssid n)" "pw_ok (wn_password n)"
  shows "parse_network (strip_cr (wn_ssid n @ [TAB] @ wn_password n)) = Some n"
proof -
  have "CHR 0x0D \<notin> set (wn_password n)" using assms(2) typed_chars by (simp add: pw_ok_def)
  then have "wn_password n \<noteq> [] \<Longrightarrow> last (wn_password n) \<noteq> CHR 0x0D" using last_in_set by metis
  then have "strip_cr (wn_ssid n @ [TAB] @ wn_password n) = wn_ssid n @ TAB # wn_password n"
    by (auto simp: strip_cr_def TAB_def)
  moreover have "split_once TAB (wn_ssid n @ TAB # wn_password n) = Some (wn_ssid n, wn_password n)"
    using assms(1) by (simp add: net_name_def)
  ultimately show ?thesis using assms(1) by (simp add: parse_network_def net_name_def)
qed

lemma parse_format_networks: "list_all (\<lambda>n. net_name (wn_ssid n) \<and> pw_ok (wn_password n)) nets \<Longrightarrow> parse_networks (format_networks nets) = nets"
proof (induction nets)
  case Nil
  show ?case by (simp add: parse_networks_def format_networks_def str_lines.simps [of "[]"] List.map_filter_simps)
next
  case (Cons n nets)
  have nl: "NL \<notin> set (wn_ssid n @ [TAB] @ wn_password n)"
    using Cons.prems typed_chars [of "wn_password n"] by (auto simp: net_name_def pw_ok_def TAB_def NL_def)
  have "format_networks (n # nets) = (wn_ssid n @ [TAB] @ wn_password n) @ NL # format_networks nets"
    by (simp add: format_networks_def)
  then show ?case using Cons parse_network_line [of n]
    by (simp only: parse_networks_def str_lines_line [OF nl] List.map_filter_simps) simp
qed

section \<open>Well-formed configurations\<close>

definition driver_ok :: "string option \<Rightarrow> bool" where
  "driver_ok d \<longleftrightarrow> d \<in> {None, Some ''cdc'', Some ''ftdi'', Some ''cp210x'', Some ''ch34x''}"

definition config_good :: "saved_config \<Rightarrow> bool" where
  "config_good c \<longleftrightarrow>
     networks_good (sc_networks c) \<and> sc_auth_key c \<noteq> Some [] \<and> sc_tcp_port c \<noteq> Some 0
     \<and> sc_baud_rate c \<noteq> Some 0 \<and> driver_ok (sc_usb_driver c)"

text \<open>What holds of a loaded configuration even when the names of networks found by a scan hold anything.\<close>

definition config_sane :: "saved_config \<Rightarrow> bool" where
  "config_sane c \<longleftrightarrow>
     list_all (\<lambda>n. net_name (wn_ssid n)) (sc_networks c) \<and> sc_auth_key c \<noteq> Some [] \<and> sc_tcp_port c \<noteq> Some 0
     \<and> sc_baud_rate c \<noteq> Some 0 \<and> driver_ok (sc_usb_driver c)"

text \<open>
  The same of what a store shows, value by value, so that an interrupted save keeps it too; \<open>Q\<close> is what is asked of the
  networks.
\<close>

definition view_ok :: "(wifi_network list \<Rightarrow> bool) \<Rightarrow> (string \<rightharpoonup> string) \<Rightarrow> bool" where
  "view_ok Q g \<longleftrightarrow>
     (case g K_NETS of None \<Rightarrow> True | Some t \<Rightarrow> Q (parse_networks t))
     \<and> (case non_empty (g K_SSID) of None \<Rightarrow> True | Some ssid \<Rightarrow> net_name ssid \<and> pw_ok (unwrap_or_default (g K_PASS)))
     \<and> Option.bind (g K_PORT) parse_word \<noteq> Some (0 :: u16)
     \<and> Option.bind (g K_BAUD) parse_word \<noteq> Some (0 :: u32)
     \<and> driver_ok (non_empty (g K_USBDRV))"

definition config_ok :: "(wifi_network list \<Rightarrow> bool) \<Rightarrow> saved_config \<Rightarrow> bool" where
  "config_ok Q c \<longleftrightarrow>
     Q (sc_networks c) \<and> sc_auth_key c \<noteq> Some [] \<and> sc_tcp_port c \<noteq> Some 0 \<and> sc_baud_rate c \<noteq> Some 0 \<and> driver_ok (sc_usb_driver c)"

definition view_good :: "(string \<rightharpoonup> string) \<Rightarrow> bool" where
  "view_good = view_ok networks_good"

definition view_sane :: "(string \<rightharpoonup> string) \<Rightarrow> bool" where
  "view_sane = view_ok (\<lambda>_. True)"

lemma config_good_ok: "config_good = config_ok networks_good"
  by (simp add: fun_eq_iff config_good_def config_ok_def)

lemma view_ok_iff:
  "view_ok Q g \<longleftrightarrow>
     (\<forall>t. g K_NETS = Some t \<longrightarrow> Q (parse_networks t))
     \<and> (\<forall>ssid. non_empty (g K_SSID) = Some ssid \<longrightarrow> net_name ssid \<and> pw_ok (unwrap_or_default (g K_PASS)))
     \<and> Option.bind (g K_PORT) parse_word \<noteq> Some (0 :: u16)
     \<and> Option.bind (g K_BAUD) parse_word \<noteq> Some (0 :: u32)
     \<and> driver_ok (non_empty (g K_USBDRV))"
  by (simp add: view_ok_def split: option.split)

text \<open>What the networks of a configuration may be: closed under saving and loading, forgetting and adding.\<close>

definition network_rule :: "(wifi_network list \<Rightarrow> bool) \<Rightarrow> (string \<Rightarrow> bool) \<Rightarrow> bool" where
  "network_rule Q net \<longleftrightarrow>
     Q [] \<and> (\<forall>ssid. net_name ssid \<longrightarrow> net ssid)
     \<and> (\<forall>nets. Q nets \<longrightarrow> Q (parse_networks (format_networks nets)))
     \<and> (\<forall>nets ssid. Q nets \<longrightarrow> Q (filter (\<lambda>n. wn_ssid n \<noteq> ssid) nets))
     \<and> (\<forall>nets ssid pw. Q nets \<longrightarrow> net ssid \<longrightarrow> pw_ok pw
          \<longrightarrow> Q (filter (\<lambda>n. wn_ssid n \<noteq> ssid) nets @ [\<lparr>wn_ssid = ssid, wn_password = pw\<rparr>]))"

lemma network_rule_good: "network_rule networks_good net_name"
  by (auto simp: network_rule_def networks_good_def parse_format_networks distinct_map_filter list_all_iff)

lemma network_rule_any: "network_rule (\<lambda>_. True) (\<lambda>_. True)"
  by (simp add: network_rule_def)

lemma load_config_ok:
  assumes "network_rule Q net" "view_ok Q (view S s)" "load_config S s = Some c"
  shows "config_ok Q c"
proof -
  let ?old = "case st_get S K_NETS s of Some t \<Rightarrow> parse_networks t | None \<Rightarrow> []"
  have old: "Q ?old"
    using assms(1,2) by (auto simp: view_ok_iff view_def network_rule_def split: option.split)
  have "Q (load_networks S s)"
  proof (cases "non_empty (st_get S K_SSID s)")
    case None
    then show ?thesis using old by (simp add: load_networks_def Let_def)
  next
    case (Some ssid)
    then have n: "net ssid" "pw_ok (unwrap_or_default (st_get S K_PASS s))"
      using assms(1,2) by (auto simp: view_ok_iff view_def network_rule_def)
    have "Q (filter (\<lambda>n. wn_ssid n \<noteq> ssid) ?old @ [\<lparr>wn_ssid = ssid, wn_password = unwrap_or_default (st_get S K_PASS s)\<rparr>])"
      using assms(1) old n by (simp add: network_rule_def)
    moreover have same: "filter (\<lambda>n. wn_ssid n \<noteq> ssid) nets = nets" if "\<not> list_ex (\<lambda>n. wn_ssid n = ssid) nets" for nets
      using that by (auto simp: filter_id_conv list_ex_iff)
    ultimately show ?thesis using old Some same [of ?old] by (auto simp: load_networks_def Let_def)
  qed
  then show ?thesis using assms(2,3)
    by (auto simp: load_config_def Let_def config_ok_def view_ok_iff view_def non_empty_def split: if_splits option.splits)
qed

lemma str_lines_NL: "l \<in> set (str_lines t) \<Longrightarrow> NL \<notin> set l"
proof (induction t rule: str_lines.induct)
  case (1 t)
  have w: "NL \<notin> set (strip_cr (takeWhile (\<lambda>c. c \<noteq> NL) t))"
    by (auto simp: strip_cr_def dest: in_set_butlastD set_takeWhileD)
  show ?case
  proof (cases "t = []")
    case True
    then show ?thesis using "1.prems" by (simp add: str_lines.simps)
  next
    case False
    show ?thesis
    proof (cases "dropWhile (\<lambda>c. c \<noteq> NL) t")
      case Nil
      have "str_lines t = [t]" using False by (subst str_lines.simps) (simp only: Nil if_False list.case)
      then show ?thesis using "1.prems" Nil by (auto simp: dropWhile_eq_Nil_conv)
    next
      case (Cons x r)
      then have "l = strip_cr (takeWhile (\<lambda>c. c \<noteq> NL) t) \<or> l \<in> set (str_lines r)"
        using "1.prems" False by (subst (asm) str_lines.simps) auto
      then show ?thesis using w "1.IH" [OF False Cons] by blast
    qed
  qed
qed

lemma parsed_names: "list_all (\<lambda>n. net_name (wn_ssid n)) (parse_networks t)"
proof -
  have "net_name (wn_ssid n)" if l: "l \<in> set (str_lines t)" "parse_network l = Some n" for l n
    using str_lines_NL [OF l(1)] l(2)
    by (auto simp: parse_network_def net_name_def split: option.splits if_splits dest!: split_once_SomeD)
  then show ?thesis by (auto simp: parse_networks_def list_all_iff List.map_filter_def)
qed

lemma load_config_sane:
  assumes "view_sane (view S s)" "load_config S s = Some c"
  shows "config_sane c"
proof -
  have ok: "config_ok (\<lambda>_. True) c" using load_config_ok [OF network_rule_any assms(1) [unfolded view_sane_def] assms(2)] .
  have "list_all (\<lambda>n. net_name (wn_ssid n)) (load_networks S s)"
    using assms(1) parsed_names by (auto simp: load_networks_def view_sane_def view_ok_iff view_def Let_def split: option.split)
  then show ?thesis using ok assms(2)
    by (auto simp: config_sane_def config_ok_def load_config_def Let_def split: if_splits)
qed

lemma parse_dec_word [simp]: "parse_word (dec_word w) = Some w"
  using unsigned_less [of w] by (simp add: parse_word_def dec_word_def parse_uint_dec)

section \<open>Saving\<close>

text \<open>An operation on the store that keeps what the store shows well formed, even when it fails.\<close>

definition safe :: "(wifi_network list \<Rightarrow> bool) \<Rightarrow> 's store \<Rightarrow> ('s \<Rightarrow> 'r \<times> 's) \<Rightarrow> bool" where
  "safe Q S f \<longleftrightarrow> (\<forall>s. view_ok Q (view S s) \<longrightarrow> view_ok Q (view S (snd (f s))))"

named_theorems safe_intros

lemma safe_and_then [safe_intros]: "safe Q S f \<Longrightarrow> safe Q S g \<Longrightarrow> safe Q S (and_then f g)"
  unfolding safe_def and_then_def by (auto split: prod.split sum.split)

lemma safe_ignoring [safe_intros]: "safe Q S f \<Longrightarrow> safe Q S (ignoring f)"
  by (simp add: safe_def ignoring_def)

lemma safe_foldr: "list_all (safe Q S) fs \<Longrightarrow> safe Q S g \<Longrightarrow> safe Q S (foldr and_then fs g)"
  by (induction fs) (simp_all add: safe_and_then)

lemma keys_neq [simp]: "distinct ALL_KEYS" "distinct (rev ALL_KEYS)"
  by (simp_all add: ALL_KEYS_def store_keys)

lemmas keys_distinct [simp] = keys_neq [unfolded ALL_KEYS_def rev.simps append.simps, simplified distinct.simps list.set insert_iff empty_iff simp_thms de_Morgan_disj]

lemma view_ok_None: "view_ok Q g \<Longrightarrow> view_ok Q (g(k := None))"
  by (auto simp: view_ok_iff non_empty_def unwrap_or_default_def driver_ok_def pw_ok_def split: if_splits)

lemma view_ok_other: "view_ok Q g \<Longrightarrow> k \<in> {K_HOST, K_AUTH, K_USBIF} \<Longrightarrow> view_ok Q (g(k \<mapsto> v))"
  by (auto simp: view_ok_iff)

lemma view_ok_nets: "view_ok Q g \<Longrightarrow> network_rule Q net \<Longrightarrow> Q nets \<Longrightarrow> view_ok Q (g(K_NETS \<mapsto> format_networks nets))"
  by (auto simp: view_ok_iff network_rule_def)

lemma view_ok_port: "view_ok Q g \<Longrightarrow> p \<noteq> 0 \<Longrightarrow> view_ok Q (g(K_PORT \<mapsto> dec_word (p :: u16)))"
  by (auto simp: view_ok_iff)

lemma view_ok_baud: "view_ok Q g \<Longrightarrow> b \<noteq> 0 \<Longrightarrow> view_ok Q (g(K_BAUD \<mapsto> dec_word (b :: u32)))"
  by (auto simp: view_ok_iff)

lemma view_ok_driver: "view_ok Q g \<Longrightarrow> driver_ok (Some d) \<Longrightarrow> view_ok Q (g(K_USBDRV \<mapsto> d))"
  by (auto simp: view_ok_iff driver_ok_def non_empty_def)

context kv_store
begin

lemma safe_set:
  assumes "\<And>g. view_ok Q g \<Longrightarrow> view_ok Q (g(k \<mapsto> v))"
  shows "safe Q S (st_set S k v)"
  unfolding safe_def
proof (intro allI impI)
  show "view_ok Q (view S (snd (st_set S k v s)))" if "view_ok Q (view S s)" for s
    using set_any [of k v s] that assms by auto
qed

lemma safe_remove [safe_intros]: "safe Q S (st_remove S k)"
  unfolding safe_def
proof (intro allI impI)
  show "view_ok Q (view S (snd (st_remove S k s)))" if "view_ok Q (view S s)" for s
    using remove_any [of k s] that view_ok_None by auto
qed

lemma safe_set_or_remove:
  "(\<And>v g. x = Some v \<Longrightarrow> view_ok Q g \<Longrightarrow> view_ok Q (g(k \<mapsto> v))) \<Longrightarrow> safe Q S (set_or_remove S k x)"
  by (cases x) (simp_all add: set_or_remove_def safe_set safe_ignoring safe_remove)

lemma safe_save_config:
  assumes q: "network_rule Q net" and "config_ok Q c"
  shows "safe Q S (save_config S c)"
proof -
  have c: "Q (sc_networks c)" "sc_tcp_port c \<noteq> Some 0" "sc_baud_rate c \<noteq> Some 0" "driver_ok (sc_usb_driver c)"
    using assms(2) by (simp_all add: config_ok_def)
  have last: "safe Q S (\<lambda>s. if b then and_then (ignoring (st_remove S KEY_REGISTERED)) (ignoring (st_remove S KEY_HOME_DERP)) s
                else (Inr (), s))" for b
    using safe_and_then [OF safe_ignoring [OF safe_remove [where k = KEY_REGISTERED]] safe_ignoring [OF safe_remove [where k = KEY_HOME_DERP]]]
    by (cases b) (simp_all add: safe_def)
  have "list_all (safe Q S)
           [st_set S K_NETS (format_networks (sc_networks c)), ignoring (st_remove S K_SSID), ignoring (st_remove S K_PASS),
            st_set S K_HOST (sc_hostname c), set_or_remove S K_AUTH (sc_auth_key c),
            set_or_remove S K_PORT (map_option dec_word (sc_tcp_port c)),
            set_or_remove S K_BAUD (map_option dec_word (sc_baud_rate c)),
            set_or_remove S K_USBIF (map_option dec_word (sc_usb_interface c)), set_or_remove S K_USBDRV (sc_usb_driver c)]"
    unfolding list.pred_inject
    by (intro conjI safe_intros safe_set safe_set_or_remove TrueI)
      (use c in \<open>auto intro: view_ok_nets [OF _ q] view_ok_other view_ok_port view_ok_baud view_ok_driver\<close>)
  from safe_foldr [OF this last] show ?thesis by (simp add: save_config_def safe_def Let_def)
qed

end

section \<open>Reading back\<close>

text \<open>What an operation does to the map of a store when it succeeds.\<close>

definition writes :: "'s store \<Rightarrow> ('s \<Rightarrow> (io_kind + unit) \<times> 's) \<Rightarrow> ((string \<rightharpoonup> string) \<Rightarrow> string \<rightharpoonup> string) \<Rightarrow> bool" where
  "writes S f d \<longleftrightarrow> (\<forall>s. fst (f s) = Inr () \<longrightarrow> view S (snd (f s)) = d (view S s))"

lemma writes_and_then: "writes S f a \<Longrightarrow> writes S g b \<Longrightarrow> writes S (and_then f g) (\<lambda>m. b (a m))"
proof -
  assume f: "writes S f a" and g: "writes S g b"
  have "view S (snd (and_then f g s)) = b (a (view S s))" if "fst (and_then f g s) = Inr ()" for s
  proof (cases "f s")
    case (Pair r t)
    then show ?thesis using that f [unfolded writes_def, rule_format, of s] g [unfolded writes_def, rule_format, of t]
      by (cases r) (simp_all add: and_then_def)
  qed
  then show ?thesis by (simp add: writes_def)
qed

definition reliable :: "'s store \<Rightarrow> bool" where
  "reliable S \<longleftrightarrow> (\<forall>k s. fst (st_remove S k s) = Inr ())"

definition saved_view :: "saved_config \<Rightarrow> (string \<rightharpoonup> string) \<Rightarrow> string \<rightharpoonup> string" where
  "saved_view c m =
     m(K_NETS \<mapsto> format_networks (sc_networks c), K_SSID := None, K_PASS := None, K_HOST \<mapsto> sc_hostname c,
       K_AUTH := sc_auth_key c, K_PORT := map_option dec_word (sc_tcp_port c),
       K_BAUD := map_option dec_word (sc_baud_rate c), K_USBIF := map_option dec_word (sc_usb_interface c),
       K_USBDRV := sc_usb_driver c)"

context kv_store
begin

lemma writes_set: "writes S (st_set S k v) (\<lambda>m. m(k \<mapsto> v))"
  by (simp add: writes_def set_ok)

lemma writes_remove: "reliable S \<Longrightarrow> writes S (ignoring (st_remove S k)) (\<lambda>m. m(k := None))"
  by (simp add: writes_def ignoring_def reliable_def remove_ok)

lemma writes_set_or_remove: "reliable S \<Longrightarrow> writes S (set_or_remove S k x) (\<lambda>m. m(k := x))"
  by (cases x) (simp_all add: set_or_remove_def writes_set writes_remove)

lemma writes_identity:
  "reliable S \<Longrightarrow>
   writes S (\<lambda>s. if b then and_then (ignoring (st_remove S KEY_REGISTERED)) (ignoring (st_remove S KEY_HOME_DERP)) s
                else (Inr (), s))
     (\<lambda>m. if b then m(KEY_REGISTERED := None, KEY_HOME_DERP := None) else m)"
  using writes_and_then [OF writes_remove writes_remove, of KEY_REGISTERED KEY_HOME_DERP]
  by (cases b) (simp_all add: writes_def)

lemma save_config_view:
  assumes "reliable S" "fst (save_config S c s) = Inr ()"
  shows "view S (snd (save_config S c s)) =
    (let m = saved_view c (view S s)
     in if identity_changed S c s then m(KEY_REGISTERED := None, KEY_HOME_DERP := None) else m)"
proof -
  note r = writes_remove [OF assms(1)] and w = writes_set_or_remove [OF assms(1)]
  note save = writes_and_then [OF writes_set writes_and_then [OF r writes_and_then [OF r writes_and_then [OF writes_set
    writes_and_then [OF w writes_and_then [OF w writes_and_then [OF w writes_and_then [OF w
    writes_and_then [OF w writes_identity [OF assms(1)]]]]]]]]], unfolded writes_def, rule_format]
  show ?thesis using assms(2) unfolding save_config_def Let_def foldr.simps comp_apply id_apply saved_view_def
    by (rule save)
qed

end

lemma load_networks_view:
  assumes "view S s K_NETS = Some (format_networks nets)" "view S s K_SSID = None"
    and "list_all (\<lambda>n. net_name (wn_ssid n) \<and> pw_ok (wn_password n)) nets"
  shows "load_networks S s = nets"
  using assms by (simp add: load_networks_def view_def non_empty_def parse_format_networks)

lemma bind_dec_word [simp]: "Option.bind (map_option dec_word x) parse_word = x"
  by (cases x) simp_all

lemma load_saved_view:
  assumes "config_good c" "sc_networks c \<noteq> []"
    and "\<And>k. k \<notin> {KEY_REGISTERED, KEY_HOME_DERP} \<Longrightarrow> view S s k = saved_view c m k"
  shows "load_config S s = Some c"
proof -
  have "load_networks S s = sc_networks c"
    using assms(1) assms(3) [of K_NETS] assms(3) [of K_SSID]
    by (intro load_networks_view) (simp_all add: saved_view_def config_good_def networks_good_def)
  then show ?thesis
    using assms(1,2) assms(3) [of K_HOST] assms(3) [of K_AUTH] assms(3) [of K_PORT] assms(3) [of K_BAUD] assms(3) [of K_USBIF] assms(3) [of K_USBDRV]
    by (cases c) (auto simp: load_config_def saved_view_def view_def config_good_def driver_ok_def unwrap_or_default_def non_empty_def
        split: option.split)
qed

lemma fs_reliable: "reliable (file_store_ops (\<lambda>_. FlushOk))"
  by (simp add: reliable_def file_store_ops_def fs_flush_def Let_def)

lemma and_then_ok: "fst (f s) = Inr () \<Longrightarrow> fst (and_then f g s) = fst (g (snd (f s)))"
  by (simp add: and_then_def case_prod_unfold)

lemma fs_ops_ok:
  "fst (st_set (file_store_ops (\<lambda>_. FlushOk)) k v s) = Inr ()" "fst (ignoring f s) = Inr ()"
  "fst (set_or_remove (file_store_ops (\<lambda>_. FlushOk)) k x s) = Inr ()"
  by (cases x; simp add: set_or_remove_def ignoring_def file_store_ops_def fs_flush_def Let_def)+

lemma fs_save_ok: "fst (save_config (file_store_ops (\<lambda>_. FlushOk)) c s) = Inr ()"
  by (simp add: save_config_def Let_def and_then_ok fs_ops_ok)

text \<open>
  C11: A saved configuration is read back: after a successful save of a well-formed configuration with at least one
  network, on any store that keeps the contract and whose removals succeed, loading returns exactly
  that configuration, whatever was stored before.
\<close>

theorem config_saved_and_loaded:
  assumes "kv_store S" "reliable S"
    and "config_good c" "sc_networks c \<noteq> []" "fst (save_config S c s) = Inr ()"
  shows "load_config S (snd (save_config S c s)) = Some c"
  using kv_store.save_config_view [OF assms(1,2,5)]
  by (intro load_saved_view [OF assms(3,4), where m = "view S s"]) (auto simp: Let_def)

definition demo_config :: saved_config where
  "demo_config =
     default_config\<lparr>sc_networks := [\<lparr>wn_ssid = ''home'', wn_password = ''secret123''\<rparr>, \<lparr>wn_ssid = ''guest'', wn_password = []\<rparr>],
       sc_hostname := ''my-host'', sc_tcp_port := Some 2301, sc_usb_driver := Some ''ftdi''\<rparr>"

definition demo_fs :: file_store where
  "demo_fs = \<lparr>fs_data = [(K_BAUD, ''9600''), (K_SSID, ''old'')], fs_disk = None, fs_count = 0\<rparr>"

theorem config_saved_and_loaded_witness:
  "load_config (file_store_ops (\<lambda>_. FlushOk)) (snd (save_config (file_store_ops (\<lambda>_. FlushOk)) demo_config demo_fs)) = Some demo_config"
proof (rule config_saved_and_loaded [OF fs.kv_store_axioms fs_reliable])
  show "config_good demo_config" by code_simp
  show "sc_networks demo_config \<noteq> []" by (simp add: demo_config_def)
  show "fst (save_config (file_store_ops (\<lambda>_. FlushOk)) demo_config demo_fs) = Inr ()"
    by (rule fs_save_ok)
qed

section \<open>The console on the device\<close>

text \<open>
  What the parameters of the device promise: the node's start touches none of the configuration keys, and erasing only removes
  entries. A scan may report any names; \<open>scans_clean\<close> says that none of them holds a tab or a line feed.
\<close>

definition config_keys :: "string set" where
  "config_keys = {K_SSID, K_PASS, K_NETS, K_AUTH, K_HOST, K_PORT, K_BAUD, K_USBIF, K_USBDRV}"

definition drivers_ok :: "'s store \<Rightarrow> ('s, 'w) drivers \<Rightarrow> bool" where
  "drivers_ok S D \<longleftrightarrow>
     (\<forall>cfg s. \<forall>k\<in>config_keys. view S (snd (dr_start_node D cfg s)) k = view S s k)
     \<and> (\<forall>s. view S (snd (dr_erase D s)) \<subseteq>\<^sub>m view S s)"

definition scans_clean :: "('s, 'w) drivers \<Rightarrow> bool" where
  "scans_clean D \<longleftrightarrow> (\<forall>w aps. fst (dr_scan D w) = Inr aps \<longrightarrow> (\<forall>a\<in>set aps. ap_ssid a \<noteq> [] \<longrightarrow> net_name (ap_ssid a)))"

lemma view_ok_cong: "\<forall>k\<in>config_keys. g k = h k \<Longrightarrow> view_ok Q g = view_ok Q h"
  by (simp add: view_ok_iff config_keys_def)

lemma view_ok_sub: "view_ok Q g \<Longrightarrow> h \<subseteq>\<^sub>m g \<Longrightarrow> view_ok Q h"
proof -
  assume g: "view_ok Q g" and h: "h \<subseteq>\<^sub>m g"
  have k: "h k = None \<or> h k = g k" for k using h by (auto simp: map_le_def dom_def)
  have n: "non_empty None = None" "unwrap_or_default None = []" "driver_ok None" "pw_ok []"
    by (simp_all add: non_empty_def unwrap_or_default_def driver_ok_def pw_ok_def)
  show ?thesis unfolding view_ok_iff
  proof (intro conjI allI impI)
    show "Q (parse_networks t)" if "h K_NETS = Some t" for t
      using g that k [of K_NETS] by (simp add: view_ok_iff)
    show "net_name ssid" "pw_ok (unwrap_or_default (h K_PASS))" if "non_empty (h K_SSID) = Some ssid" for ssid
      using g that k [of K_SSID] k [of K_PASS] n by (auto simp: view_ok_iff)
  qed (use g n k [of K_PORT] k [of K_BAUD] k [of K_USBDRV] in \<open>auto simp: view_ok_iff\<close>)
qed

context kv_store
begin

lemma safe_factory_reset:
  assumes "\<And>s. view S (snd (erase s)) \<subseteq>\<^sub>m view S s"
  shows "safe Q S (factory_reset S erase)"
proof -
  have "view_ok Q (view S (fold (\<lambda>k s. snd (st_remove S k s)) ks s))" if "view_ok Q (view S s)" for ks s
    using that safe_remove by (induction ks arbitrary: s) (simp_all add: safe_def)
  then have "view_ok Q (view S s) \<Longrightarrow> view_ok Q (view S (snd (erase (fold (\<lambda>k s. snd (st_remove S k s)) ALL_KEYS s))))" for s
    using view_ok_sub assms by blast
  then show ?thesis by (simp add: safe_def factory_reset_def case_prod_unfold split: bool.split)
qed

lemma esp_shell:
  fixes D :: "('s, 'w) drivers"
  assumes D: "drivers_ok S D" and q: "network_rule Q net"
    and scan: "\<And>w aps a. fst (dr_scan D w) = Inr aps \<Longrightarrow> a \<in> set aps \<Longrightarrow> ap_ssid a \<noteq> [] \<Longrightarrow> net (ap_ssid a)"
  shows "shell_invariant (esp_platform S D) (\<lambda>sh. view_ok Q (view S (dv_store (sh_plat sh)))) (config_ok Q) net"
proof
  note ok = D [unfolded drivers_ok_def]
  fix sh :: "('s, 'w) device shell"
  assume g: "view_ok Q (view S (dv_store (sh_plat sh)))"
  show "view_ok Q (view S (dv_store (sh_plat (sh\<lparr>sh_plat := snd (pl_start_node (esp_platform S D) (sh_plat sh))\<rparr>))))"
  proof -
    have "view_ok Q (view S (snd (dr_start_node D cfg (dv_store (sh_plat sh)))))" for cfg
      using g ok view_ok_cong by blast
    then show ?thesis using g by (simp add: esp_platform_def esp_start_node_def case_prod_unfold split: option.split sum.split)
  qed
  show "view_ok Q (view S (dv_store (sh_plat (sh\<lparr>sh_plat := snd (pl_factory_reset (esp_platform S D) (sh_plat sh))\<rparr>))))"
    using safe_factory_reset [of "dr_erase D" Q] ok g by (simp add: safe_def esp_platform_def esp_factory_reset_def case_prod_unfold Let_def)
  show "view_ok Q (view S (dv_store (sh_plat (sh\<lparr>sh_plat := snd (pl_save_config (esp_platform S D) c (sh_plat sh))\<rparr>))))"
    if "config_ok Q c" for c
    using safe_save_config [OF q that] g by (simp add: safe_def esp_platform_def esp_save_config_def case_prod_unfold split: sum.split)
  show "pl_config (esp_platform S D) (sh_plat sh) = Some c \<Longrightarrow> config_ok Q c" for c
    using load_config_ok [OF q g] by (simp add: esp_platform_def)
  show "fst (pl_scan_wifi (esp_platform S D) (sh_plat sh)) = Inr aps \<Longrightarrow> a \<in> set aps \<Longrightarrow> ap_ssid a \<noteq> [] \<Longrightarrow> net (ap_ssid a)" for aps a
    using scan by (auto simp: esp_platform_def case_prod_unfold Let_def)
qed (use q in \<open>auto simp: net_name_def esp_platform_def esp_reconnect_wifi_def Let_def case_prod_unfold config_ok_def default_config_def driver_ok_def network_rule_def
      dest: typed_chars\<close>)

lemma console_keeps:
  assumes "drivers_ok S D" "network_rule Q net"
    and "\<And>w aps a. fst (dr_scan D w) = Inr aps \<Longrightarrow> a \<in> set aps \<Longrightarrow> ap_ssid a \<noteq> [] \<Longrightarrow> net (ap_ssid a)"
    and "view_ok Q (view S (dv_store (sh_plat sh)))"
  shows "view_ok Q (view S (dv_store (sh_plat (snd (run (esp_platform S D) auto_wizard quiet sh)))))"
  by (rule keepsD [OF shell_invariant.keeps_run [OF esp_shell [OF assms(1-3)]] assms(4)])

end

text \<open>
  C23: Whatever is typed at the console of the device, whatever names a scan reports, and whenever a write of the store fails, the
  configuration that is read back afterwards can be used: every network has a name, free of separators, the port and the
  baud rate are not zero, the driver is one of those the device knows, and a key for authentication is not empty, as long as this was
  true of what was stored at the start. When moreover no scan reports a name with a tab or a line feed, and the stored networks
  were well formed, so are those read back: their names are distinct and their passwords are empty or 8 to 63
  printable characters.
\<close>

theorem console_keeps_config_good:
  assumes "kv_store S" "drivers_ok S D" "view_sane (view S (dv_store (sh_plat sh)))"
    and "load_config S (dv_store (sh_plat (snd (run (esp_platform S D) auto_wizard quiet sh)))) = Some c"
  shows "config_sane c \<and> (scans_clean D \<and> view_good (view S (dv_store (sh_plat sh))) \<longrightarrow> config_good c)"
proof
  note keeps = kv_store.console_keeps [OF assms(1,2)]
  have "view_sane (view S (dv_store (sh_plat (snd (run (esp_platform S D) auto_wizard quiet sh)))))"
    using keeps [OF network_rule_any TrueI] assms(3) by (simp add: view_sane_def)
  then show "config_sane c" by (rule load_config_sane [OF _ assms(4)])
  show "scans_clean D \<and> view_good (view S (dv_store (sh_plat sh))) \<longrightarrow> config_good c"
  proof
    assume a: "scans_clean D \<and> view_good (view S (dv_store (sh_plat sh)))"
    then have "view_ok networks_good (view S (dv_store (sh_plat (snd (run (esp_platform S D) auto_wizard quiet sh)))))"
      by (intro keeps [OF network_rule_good]) (auto simp: scans_clean_def view_good_def)
    from load_config_ok [OF network_rule_good this assms(4)] show "config_good c" by (simp add: config_good_ok)
  qed
qed

definition demo_drivers :: "(file_store, unit) drivers" where
  "demo_drivers =
     \<lparr>dr_status = (\<lambda>_. \<lparr>sn_firmware = ''t'', sn_setup_mode = True, sn_wifi = [], sn_node = None, sn_derp = [], sn_peers = [],
        sn_usb = [], sn_heap = []\<rparr>),
      dr_scan = (\<lambda>w. (Inr [], w)), dr_connect = (\<lambda>ssid pw w. (Inr ''192.168.1.42'', w)),
      dr_connect_best = (\<lambda>nets w. (Inl ''no radio'', w)), dr_start_node = (\<lambda>cfg s. (Inr (), s)), dr_erase = (\<lambda>s. (True, s\<lparr>fs_data := []\<rparr>)),
      dr_clock = (\<lambda>_. 0), dr_io_text = (\<lambda>_. ''io'')\<rparr>"

definition demo_shell :: "(string \<times> string) list \<Rightarrow> string \<Rightarrow> (file_store, unit) device shell" where
  "demo_shell data input =
     shell_new (map Some (str_bytes input)) []
       \<lparr>dv_store = \<lparr>fs_data = data, fs_disk = None, fs_count = 0\<rparr>, dv_wifi = (), dv_nets = [], dv_node = False\<rparr>"

lemma demo_drivers_ok: "drivers_ok (file_store_ops io) demo_drivers"
  by (simp add: drivers_ok_def demo_drivers_def view_def file_store_ops_def map_le_def)

text \<open>
  A port and a baud rate are typed; the fourth write of the store fails, which is the write of the host name in the first save, so
  the port is not saved.
\<close>

definition demo_flaky :: "file_store store" where
  "demo_flaky = file_store_ops (\<lambda>n. if n = 3 then WriteFailed OtherError 10 else FlushOk)"

definition demo_typed :: "(file_store, unit) device shell" where
  "demo_typed = demo_shell [(K_NETS, ''home'' @ [TAB] @ ''secret123'' @ [NL])] (''port 2301'' @ [CHR 0x0D] @ ''baud 9600'' @ [CHR 0x0D])"

definition demo_after :: "saved_config option" where
  "demo_after = load_config demo_flaky (dv_store (sh_plat (snd (run (esp_platform demo_flaky demo_drivers) False True demo_typed))))"

lemma demo_after_state:
  "map_option (\<lambda>c. (sc_networks c, sc_tcp_port c, sc_baud_rate c)) demo_after = Some ([\<lparr>wn_ssid = ''home'', wn_password = ''secret123''\<rparr>], None, Some 9600)"
  by code_simp

theorem console_keeps_config_good_witness:
  "\<exists>c. demo_after = Some c \<and> sc_tcp_port c = None \<and> sc_baud_rate c = Some 9600 \<and> config_sane c \<and> config_good c"
proof -
  obtain c where c: "demo_after = Some c" "sc_tcp_port c = None" "sc_baud_rate c = Some 9600" using demo_after_state by auto
  have v: "view_sane (view demo_flaky (dv_store (sh_plat demo_typed)))" "view_good (view demo_flaky (dv_store (sh_plat demo_typed)))"
    by code_simp+
  have d: "drivers_ok demo_flaky demo_drivers" "kv_store demo_flaky" "scans_clean demo_drivers"
    using demo_drivers_ok fs.kv_store_axioms by (simp_all add: demo_flaky_def scans_clean_def demo_drivers_def)
  show ?thesis using console_keeps_config_good [OF d(2,1) v(1) c(1) [unfolded demo_after_def]] c v(2) d(3) by blast
qed

text \<open>
  Settings made before a network is known are lost: while no network is stored, \<^verbatim>\<open>port\<close> answers
  that the setting is saved, but the save starts from the default configuration and so erases the host name, whatever it was.
\<close>

theorem settings_lost_without_network:
  assumes "kv_store S" "reliable S"
    and "load_config S (dv_store (sh_plat sh)) = None" "p \<noteq> 0"
    and "fst (save_config S (default_config\<lparr>sc_tcp_port := Some p\<rparr>) (dv_store (sh_plat sh))) = Inr ()"
  shows "\<exists>t. cmd_port (esp_platform S D) [dec_word p] sh = (Done (), t) \<and> sh_out t = sh_out sh @ ''saved'' @ crlf_text
    \<and> st_get S K_HOST (dv_store (sh_plat t)) = Some [] \<and> load_config S (dv_store (sh_plat t)) = None"
proof -
  let ?c = "default_config\<lparr>sc_tcp_port := Some p\<rparr>" and ?s = "dv_store (sh_plat sh)"
  obtain s where s: "save_config S ?c ?s = (Inr (), s)" using assms(5) by (cases "save_config S ?c ?s") auto
  have v: "k \<notin> {KEY_REGISTERED, KEY_HOME_DERP} \<Longrightarrow> view S s k = saved_view ?c (view S ?s) k" for k
    using kv_store.save_config_view [OF assms(1,2,5)] s by (auto simp: Let_def)
  have host: "st_get S K_HOST s = Some []"
    using v [of K_HOST] by (simp add: view_def saved_view_def default_config_def)
  have "load_networks S s = []"
    using v [of K_NETS] v [of K_SSID] by (intro load_networks_view) (simp_all add: saved_view_def default_config_def)
  then have none: "load_config S s = None" by (simp add: load_config_def)
  have arg: "first_arg (parse_uint 65536) [dec_word p] = Some (unat p)"
  proof -
    have "unat p < 65536" using unsigned_less [of p] by simp
    then show ?thesis by (simp add: first_arg_def dec_word_def parse_uint_dec)
  qed
  have "unat p \<noteq> 0" using assms(4) by (simp add: unat_eq_0)
  then have "cmd_port (esp_platform S D) [dec_word p] sh =
      line ''saved'' (sh\<lparr>sh_plat := (sh_plat sh)\<lparr>dv_store := s, dv_nets := []\<rparr>\<rparr>)"
    using s assms(3) by (simp add: cmd_port_def arg set_field_def sh_bind_def get_config_def query_def call_def
      esp_platform_def esp_save_config_def default_config_def)
  then show ?thesis using host none by (simp add: line_def out_def)
qed

theorem settings_lost_without_network_witness:
  "\<exists>t. cmd_port (esp_platform (file_store_ops (\<lambda>_. FlushOk)) demo_drivers) [dec_word (2301 :: u16)] (demo_shell [(K_HOST, ''my-host'')] []) = (Done (), t)
    \<and> sh_out t = sh_out (demo_shell [(K_HOST, ''my-host'')] []) @ ''saved'' @ crlf_text
    \<and> st_get (file_store_ops (\<lambda>_. FlushOk)) K_HOST (dv_store (sh_plat t)) = Some []
    \<and> load_config (file_store_ops (\<lambda>_. FlushOk)) (dv_store (sh_plat t)) = None"
  by (rule settings_lost_without_network [OF fs.kv_store_axioms fs_reliable _ _ fs_save_ok]) code_simp+

end
