(* ===== verification/Node_Props.thy ===== *)
theory Node_Props
  imports Node Key_Store_Props Magicsock_Props
begin

text \<open>
  Properties of the node: the packet filter in force is the one the map messages describe, the peers are those of
  the last full list, the identity survives a restart, and a silent control server is noticed.
\<close>

section \<open>What map messages leave alone\<close>

lemma drawn_filter [simp]: "sm_filter (drawn m) = sm_filter m"
  by (simp add: drawn_def)

lemma put_peer_filter [simp]: "sm_filter (put_peer k p m) = sm_filter m" "sm_peers (put_peer k p m) = AList.update k p (sm_peers m)"
  by (simp_all add: put_peer_def)

lemma connect_home_derp_frame [simp]:
  "sm_filter (connect_home_derp E r m) = sm_filter m" "sm_peers (connect_home_derp E r m) = sm_peers m"
  "mg_node_key (connect_home_derp E r m) = mg_node_key m"
  by (simp_all add: connect_home_derp_def drawn_def Let_def split: option.split)

lemma stun_maintenance_frame [simp]:
  "sm_filter (stun_maintenance E now m) = sm_filter m" "sm_peers (stun_maintenance E now m) = sm_peers m"
  "mg_node_key (stun_maintenance E now m) = mg_node_key m"
proof -
  have "sm_filter (fold (send_probe E now) ts m) = sm_filter m \<and> sm_peers (fold (send_probe E now) ts m) = sm_peers m
      \<and> mg_node_key (fold (send_probe E now) ts m) = mg_node_key m" for ts m
    by (induction ts arbitrary: m) (simp_all add: send_probe_def udp_send_def drawn_def Let_def split: prod.split)
  then show "sm_filter (stun_maintenance E now m) = sm_filter m" "sm_peers (stun_maintenance E now m) = sm_peers m"
    "mg_node_key (stun_maintenance E now m) = mg_node_key m"
    by (simp_all add: stun_maintenance_def Let_def)
qed

lemma probe_start_frame [simp]:
  "sm_filter (probe_start E now m) = sm_filter m" "sm_peers (probe_start E now m) = sm_peers m"
  "mg_node_key (probe_start E now m) = mg_node_key m"
  by (simp_all add: probe_start_def)

lemma set_peers_loop_filter [simp]:
  "sm_filter (set_peers_loop E loc ns old m) = sm_filter m"
  by (induction E loc ns old m rule: set_peers_loop.induct) (simp_all add: Let_def split: option.split)

lemma set_peers_filter [simp]: "sm_filter (set_peers E ns m) = sm_filter m"
  by (simp add: set_peers_def)

lemma peers_changed_filter [simp]: "sm_filter (peers_changed E ns m) = sm_filter m"
  unfolding peers_changed_def
  by (induction ns arbitrary: m) (simp_all add: peer_changed_def Let_def split: option.split)

lemma peers_removed_filter [simp]: "sm_filter (peers_removed ids is m) = sm_filter m"
  unfolding peers_removed_def
  by (induction "is" arbitrary: m) (simp_all add: peer_removed_def split: option.split)

lemma apply_patches_filter [simp]: "sm_filter (apply_patches H ids ps m) = sm_filter m"
  unfolding apply_patches_def
  by (induction ps arbitrary: m) (simp_all add: apply_patch_def Let_def split: option.split)

section \<open>The packet filter\<close>

definition bt_ok :: "(string \<times> 'v) list \<Rightarrow> bool" where
  "bt_ok m \<longleftrightarrow> sorted_wrt (\<lambda>x y. fst x < fst y) m"

lemma bt_insert_map: "map_of (bt_insert k v m) = (map_of m)(k \<mapsto> v)"
  by (induction k v m rule: bt_insert.induct) (auto simp: fun_eq_iff)

lemma bt_insert_keys: "set (map fst (bt_insert k v m)) = insert k (set (map fst m))"
  by (induction k v m rule: bt_insert.induct) auto

lemma bt_insert_ok: "bt_ok m \<Longrightarrow> bt_ok (bt_insert k v m)"
proof (induction k v m rule: bt_insert.induct)
  case (2 k v k' v' m)
  have "\<forall>x\<in>set (bt_insert k v m). k' < fst x" if "k' < k" "\<forall>x\<in>set m. k' < fst x"
  proof
    fix x assume "x \<in> set (bt_insert k v m)"
    then have "fst x \<in> insert k (fst ` set m)" using bt_insert_keys [of k v m] by (metis image_eqI set_map)
    then show "k' < fst x" using that by auto
  qed
  then show ?case using 2 by (auto simp: bt_ok_def)
qed (simp add: bt_ok_def)

lemma bt_delete_ok: "bt_ok m \<Longrightarrow> bt_ok (AList.delete k m)"
  by (simp add: bt_ok_def AList.delete_eq sorted_wrt_filter)

lemma bt_ok_values: "bt_ok m \<Longrightarrow> x \<in> set (concat (map snd m)) \<longleftrightarrow> (\<exists>k v. map_of m k = Some v \<and> x \<in> set v)"
proof -
  assume "bt_ok m"
  then have "distinct (map fst m)"
    unfolding bt_ok_def by (induction m) auto
  then have "map_of m k = Some v \<longleftrightarrow> (k, v) \<in> set m" for k v by simp
  moreover have "x \<in> set (concat (map snd m)) \<longleftrightarrow> (\<exists>k v. (k, v) \<in> set m \<and> x \<in> set v)" by (auto; force)
  ultimately show ?thesis by simp
qed

text \<open>What the messages say: the base set replaces all, the named sets are merged, a null entry deletes its set.\<close>

definition filter_spec :: "map_response \<Rightarrow> (string \<rightharpoonup> filter_rule list) \<Rightarrow> string \<rightharpoonup> filter_rule list" where
  "filter_spec r m =
     (if is_keep_alive r then m
      else
        (let m = (case mr_packet_filter r of Some rules \<Rightarrow> [''*'' \<mapsto> rules] | None \<Rightarrow> m)
         in case mr_packet_filters r of
              Some named \<Rightarrow> fold (\<lambda>(name, rules) m. m(name := rules)) named m
            | None \<Rightarrow> m))"

definition filter_message :: "map_response \<Rightarrow> bool" where
  "filter_message r \<longleftrightarrow> \<not> is_keep_alive r \<and> (mr_packet_filter r \<noteq> None \<or> mr_packet_filters r \<noteq> None)"

lemma merge_filters_spec:
  "bt_ok sets \<Longrightarrow> bt_ok (merge_filters named sets)
    \<and> map_of (merge_filters named sets) = fold (\<lambda>(name, rules) m. m(name := rules)) named (map_of sets)"
  unfolding merge_filters_def
proof (induction named arbitrary: sets)
  case (Cons x named)
  obtain name rules where x: "x = (name, rules)" by force
  show ?case
  proof (cases rules)
    case None
    then show ?thesis using Cons.IH [of "AList.delete name sets"] bt_delete_ok [OF Cons.prems, of name] map_of_delete [of name sets]
      by (simp add: x)
  next
    case (Some r)
    then show ?thesis using Cons.IH [of "bt_insert name r sets"] bt_insert_ok [OF Cons.prems, of name r] bt_insert_map [of name r sets]
      by (simp add: x)
  qed
qed simp

text \<open>The node's sets follow the messages, and the filter in force is compiled from them.\<close>

definition filters_rel :: "('s, 'w) node_inner \<Rightarrow> (string \<rightharpoonup> filter_rule list) \<Rightarrow> bool" where
  "filters_rel n spec \<longleftrightarrow> bt_ok (no_filter_sets n) \<and> map_of (no_filter_sets n) = spec"

definition filter_installed :: "('s, 'w) node_inner \<Rightarrow> bool" where
  "filter_installed n \<longleftrightarrow> sm_filter (no_ms n) = Some (filter_compile (concat (map snd (no_filter_sets n))))"

lemma note_control_time_frame:
  "note_control_time l t n = Some n' \<Longrightarrow> no_filter_sets n' = no_filter_sets n \<and> no_ms n' = no_ms n \<and> no_by_id n' = no_by_id n
    \<and> no_store n' = no_store n \<and> no_node_key n' = no_node_key n \<and> no_machine_key n' = no_machine_key n"
  by (auto simp: note_control_time_def split: option.splits)

lemma note_self_frame:
  "note_self nd n = Some n' \<Longrightarrow> no_filter_sets n' = no_filter_sets n \<and> no_ms n' = no_ms n \<and> no_by_id n' = no_by_id n
    \<and> no_store n' = no_store n \<and> no_node_key n' = no_node_key n \<and> no_machine_key n' = no_machine_key n"
  by (auto simp: note_self_def Let_def split: option.splits)

lemma note_derp_map_frame:
  assumes "\<And>m. sm_filter (mw m) = sm_filter m"
  shows "sm_filter (no_ms (note_derp_map E now mw dm n)) = sm_filter (no_ms n)"
    "no_filter_sets (note_derp_map E now mw dm n) = no_filter_sets n"
  using assms by (simp_all add: note_derp_map_def set_derp_map_def Let_def split: option.split)

lemma note_peers_frames [simp]:
  "sm_filter (no_ms (note_peers E ps n)) = sm_filter (no_ms n)" "no_filter_sets (note_peers E ps n) = no_filter_sets n"
  "sm_filter (no_ms (note_changed E cs n)) = sm_filter (no_ms n)" "no_filter_sets (note_changed E cs n) = no_filter_sets n"
  "sm_filter (no_ms (note_removed rs n)) = sm_filter (no_ms n)" "no_filter_sets (note_removed rs n) = no_filter_sets n"
  "sm_filter (no_ms (note_patches E pc n)) = sm_filter (no_ms n)" "no_filter_sets (note_patches E pc n) = no_filter_sets n"
  by (simp_all add: note_peers_def note_changed_def note_removed_def note_patches_def split: option.split)

lemma note_filters_rel:
  assumes "filters_rel n spec"
  shows "filters_rel (note_filters base named n)
      (let m = (case base of Some rules \<Rightarrow> [''*'' \<mapsto> rules] | None \<Rightarrow> spec)
       in case named of Some ns \<Rightarrow> fold (\<lambda>(name, rules) m. m(name := rules)) ns m | None \<Rightarrow> m)"
    "base \<noteq> None \<or> named \<noteq> None \<or> filter_installed n \<Longrightarrow> filter_installed (note_filters base named n)"
proof -
  let ?sets = "case base of Some rules \<Rightarrow> [(''*'', rules)] | None \<Rightarrow> no_filter_sets n"
  have "bt_ok ?sets" using assms by (simp add: filters_rel_def bt_ok_def split: option.split)
  moreover have "map_of ?sets = (case base of Some rules \<Rightarrow> [''*'' \<mapsto> rules] | None \<Rightarrow> spec)"
    using assms by (simp add: filters_rel_def split: option.split)
  ultimately show "filters_rel (note_filters base named n)
      (let m = (case base of Some rules \<Rightarrow> [''*'' \<mapsto> rules] | None \<Rightarrow> spec)
       in case named of Some ns \<Rightarrow> fold (\<lambda>(name, rules) m. m(name := rules)) ns m | None \<Rightarrow> m)"
    using merge_filters_spec [of ?sets] assms
    by (cases named; cases base) (simp_all add: note_filters_def filters_rel_def Let_def)
  show "base \<noteq> None \<or> named \<noteq> None \<or> filter_installed n \<Longrightarrow> filter_installed (note_filters base named n)"
    by (auto simp: note_filters_def filter_installed_def set_packet_filter_def Let_def)
qed

record msg_in =
  mi_local :: int
  mi_now :: instant
  mi_meanwhile :: "magicsock \<Rightarrow> magicsock"
  mi_resp :: map_response

fun handle_messages :: "'s node_env \<Rightarrow> msg_in list \<Rightarrow> ('s, 'w) node_inner \<Rightarrow> ('s, 'w) node_inner option" where
  "handle_messages E [] n = Some n"
| "handle_messages E (x # xs) n =
     Option.bind (handle_map_response E (mi_local x) (mi_now x) (mi_meanwhile x) (mi_resp x) n) (handle_messages E xs)"

text \<open>The parts of a handled message.\<close>

lemma handle_map_response_parts:
  assumes "handle_map_response E l now mw r n = Some n'" "\<not> is_keep_alive r"
  obtains n1 n2 where "no_filter_sets n2 = no_filter_sets n" "no_ms n2 = no_ms n" "no_by_id n2 = no_by_id n" "no_store n2 = no_store n"
    "no_node_key n2 = no_node_key n" "no_machine_key n2 = no_machine_key n"
    "n1 = note_derp_map E now mw (mr_derp_map r) n2"
    "n' = note_filters (mr_packet_filter r) (mr_packet_filters r) (note_patches E (mr_peers_changed_patch r)
        (note_removed (mr_peers_removed r) (note_changed E (mr_peers_changed r) (note_peers E (mr_peers r) n1))))"
proof -
  let ?n = "n\<lparr>no_status := (no_status n)\<lparr>nst_map_updates := nst_map_updates (no_status n) + 1\<rparr>\<rparr>"
  obtain na where a: "note_control_time l (mr_control_time r) ?n = Some na"
    using assms by (auto simp: handle_map_response_def split: bind_splits)
  obtain n2 where b: "note_self (mr_node r) na = Some n2"
    using assms a by (auto simp: handle_map_response_def split: bind_splits)
  show ?thesis
    using note_control_time_frame [OF a] note_self_frame [OF b] assms a b
    by (intro that [of n2 "note_derp_map E now mw (mr_derp_map r) n2"]) (simp_all add: handle_map_response_def)
qed

lemma handle_filters:
  assumes h: "handle_map_response E l now mw r n = Some n'" and mw: "\<And>m. sm_filter (mw m) = sm_filter m" and rel: "filters_rel n spec"
  shows "filters_rel n' (filter_spec r spec)" "filter_message r \<or> filter_installed n \<Longrightarrow> filter_installed n'"
proof -
  have "filters_rel n' (filter_spec r spec) \<and> (filter_message r \<or> filter_installed n \<longrightarrow> filter_installed n')"
  proof (cases "is_keep_alive r")
    case True
    then show ?thesis using h rel by (simp add: handle_map_response_def filter_spec_def filter_message_def)
  next
    case False
    obtain n1 n2 where n2: "no_filter_sets n2 = no_filter_sets n" "no_ms n2 = no_ms n" "n1 = note_derp_map E now mw (mr_derp_map r) n2"
      "n' = note_filters (mr_packet_filter r) (mr_packet_filters r) (note_patches E (mr_peers_changed_patch r)
        (note_removed (mr_peers_removed r) (note_changed E (mr_peers_changed r) (note_peers E (mr_peers r) n1))))"
      by (rule handle_map_response_parts [OF h False]) blast
    let ?m = "note_patches E (mr_peers_changed_patch r) (note_removed (mr_peers_removed r) (note_changed E (mr_peers_changed r) (note_peers E (mr_peers r) n1)))"
    have m: "filters_rel ?m spec" "filter_installed ?m = filter_installed n"
      using rel n2(1-3) note_derp_map_frame [of mw E now "mr_derp_map r" n2] mw by (simp_all add: filters_rel_def filter_installed_def)
    show ?thesis
      using note_filters_rel [OF m(1), of "mr_packet_filter r" "mr_packet_filters r"] m(2) n2(4) False
      by (auto simp: filter_spec_def filter_message_def)
  qed
  then show "filters_rel n' (filter_spec r spec)" "filter_message r \<or> filter_installed n \<Longrightarrow> filter_installed n'" by simp_all
qed

lemma handle_messages_filters:
  assumes "handle_messages E xs n = Some n'" "\<forall>x\<in>set xs. \<forall>m. sm_filter (mi_meanwhile x m) = sm_filter m" "filters_rel n spec"
  shows "filters_rel n' (fold (\<lambda>x. filter_spec (mi_resp x)) xs spec)
    \<and> (filter_installed n \<or> (\<exists>x\<in>set xs. filter_message (mi_resp x)) \<longrightarrow> filter_installed n')"
  using assms
proof (induction xs arbitrary: n spec)
  case (Cons x xs)
  obtain n1 where h: "handle_map_response E (mi_local x) (mi_now x) (mi_meanwhile x) (mi_resp x) n = Some n1" "handle_messages E xs n1 = Some n'"
    using Cons.prems(1) by (auto split: bind_splits)
  note s = handle_filters [OF h(1) _ Cons.prems(3)]
  have mw: "\<And>m. sm_filter (mi_meanwhile x m) = sm_filter m" using Cons.prems(2) by simp
  show ?case using Cons.IH [OF h(2) _ s(1) [OF mw]] s(2) [OF mw] Cons.prems(2) by auto
qed simp

text \<open>
  C18: The packet filter in force is the one the control server described: after any sequence of map messages with a filter among
  them, a packet passes exactly when it parses and is either a TCP segment without SYN or granted by a rule of one of the current
  sets, where a base filter replaces all sets, a named set replaces the set of its name and a null entry deletes it, in the order of
  the messages.
\<close>

theorem filter_in_force:
  assumes "handle_messages E xs n = Some n'" "no_filter_sets n = []"
    and "\<forall>x\<in>set xs. \<forall>m. sm_filter (mi_meanwhile x m) = sm_filter m" "\<exists>x\<in>set xs. filter_message (mi_resp x)"
  shows "\<exists>f. sm_filter (no_ms n') = Some f
    \<and> (\<forall>p. filter_allows f p \<longleftrightarrow> (\<exists>t. parse_tuple p = Some t
        \<and> (t_proto t = PROTO_TCP \<and> tcp_established t
          \<or> (\<exists>name rules r. fold (\<lambda>x. filter_spec (mi_resp x)) xs Map.empty name = Some rules \<and> r \<in> set rules \<and> granted r t))))"
proof -
  let ?spec = "fold (\<lambda>x. filter_spec (mi_resp x)) xs Map.empty"
  have "filters_rel n Map.empty" using assms(2) by (simp add: filters_rel_def bt_ok_def)
  from handle_messages_filters [OF assms(1,3) this] have rel: "filters_rel n' ?spec" and inst: "filter_installed n'"
    using assms(4) by blast+
  have rules: "(\<exists>r\<in>set (concat (map snd (no_filter_sets n'))). granted r t)
      \<longleftrightarrow> (\<exists>name rules r. ?spec name = Some rules \<and> r \<in> set rules \<and> granted r t)" for t
    using bt_ok_values [of "no_filter_sets n'"] rel unfolding filters_rel_def by metis
  show ?thesis
    using inst unfolding filter_installed_def by (intro exI conjI allI, assumption) (simp only: filter_allows_iff rules)
qed

definition demo_resp :: map_response where
  "demo_resp =
     \<lparr>mr_map_session_handle = [], mr_seq = 0, mr_keep_alive = False, mr_ping_request = None, mr_node = None, mr_derp_map = None,
      mr_peers = None, mr_peers_changed = None, mr_peers_removed = None, mr_peers_changed_patch = None, mr_packet_filter = None,
      mr_packet_filters = None, mr_online_change = None, mr_dns_domains = None, mr_domain = [], mr_user_profiles = None,
      mr_health = None, mr_control_time = None\<rparr>"

definition demo_nenv :: "file_store node_env" where
  "demo_nenv = \<lparr>ne_store = file_store_ops (\<lambda>_. FlushOk), ne_ms = demo_menv, ne_text = (\<lambda>_. [])\<rparr>"

definition demo_node :: "(file_store, unit) node_inner" where
  "demo_node =
     \<lparr>no_cfg = node_config_default ''0'', no_store = demo_fs, no_ms = demo_table, no_ns = netstack_start (),
      no_node_key = kp_from_secret demo_prims (replicate 32 2), no_machine_key = kp_from_secret demo_prims (replicate 32 4),
      no_status = status_new, no_shutdown = False, no_dirty = False, no_by_id = [(7, [1])], no_filter_sets = [], no_clock_offset = 0\<rparr>"

definition demo_rule :: filter_rule where
  "demo_rule = \<lparr>src_ips = [''*''], dst_ports = [], ip_proto = []\<rparr>"

definition demo_msgs :: "msg_in list" where
  "demo_msgs = map (\<lambda>r. \<lparr>mi_local = 0, mi_now = 0, mi_meanwhile = (\<lambda>m. m), mi_resp = r\<rparr>)
     [demo_resp\<lparr>mr_packet_filter := Some [demo_rule]\<rparr>, demo_resp\<lparr>mr_packet_filters := Some [(''a'', Some [demo_rule, demo_rule]), (''*'', None)]\<rparr>]"

theorem filter_in_force_witness:
  "map_option no_filter_sets (handle_messages demo_nenv demo_msgs demo_node) = Some [(''a'', [demo_rule, demo_rule])]
   \<and> (\<exists>n' f. handle_messages demo_nenv demo_msgs demo_node = Some n' \<and> sm_filter (no_ms n') = Some f)"
proof -
  have sets: "map_option no_filter_sets (handle_messages demo_nenv demo_msgs demo_node) = Some [(''a'', [demo_rule, demo_rule])]"
    by code_simp
  then obtain n' where n': "handle_messages demo_nenv demo_msgs demo_node = Some n'" by auto
  have "filter_message (demo_resp\<lparr>mr_packet_filter := Some [demo_rule]\<rparr>)" by code_simp
  then have "\<exists>x\<in>set demo_msgs. filter_message (mi_resp x)" by (simp add: demo_msgs_def)
  moreover have "\<forall>x\<in>set demo_msgs. \<forall>m. sm_filter (mi_meanwhile x m) = sm_filter m" by (simp add: demo_msgs_def)
  moreover have "no_filter_sets demo_node = []" by (simp add: demo_node_def)
  ultimately show ?thesis using filter_in_force [OF n'] sets n' by blast
qed

section \<open>The peers\<close>

definition parsed_keys :: "'s node_env \<Rightarrow> node list \<Rightarrow> bytes set" where
  "parsed_keys E ps = {k. \<exists>p\<in>set ps. parse_prefixed (me_hex (ne_ms E)) NODE_PUB_PREFIX (nd_key p) = Some k}"

lemma set_peers_loop_keys:
  "fst ` set (sm_peers (set_peers_loop E loc ns old m)) =
     fst ` set (sm_peers m) \<union> {k. \<exists>p\<in>set ns. parse_prefixed (me_hex E) NODE_PUB_PREFIX (nd_key p) = Some k}"
proof (induction E loc ns old m rule: set_peers_loop.induct)
  case (2 E loc n ns old m)
  show ?case
  proof (cases "parse_prefixed (me_hex E) NODE_PUB_PREFIX (nd_key n)")
    case None
    then show ?thesis using 2(1) [OF None] by auto
  next
    case (Some key)
    let ?p = "apply_node (me_hex E) n (case map_of old key of Some p \<Rightarrow> p | None \<Rightarrow> new_peer (me_prims E) loc key)"
    show ?thesis using 2(2) [OF Some refl refl] Some by (auto simp: Let_def dom_update)
  qed
qed simp

lemma set_peers_keys: "fst ` set (sm_peers (set_peers (ne_ms E) ps m)) = parsed_keys E ps"
  by (simp add: set_peers_def set_peers_loop_keys parsed_keys_def)

lemma apply_patches_keys: "fst ` set (sm_peers (apply_patches H ids ps m)) = fst ` set (sm_peers m)"
  unfolding apply_patches_def
proof (induction ps arbitrary: m)
  case (Cons pc ps)
  have "fst ` set (sm_peers (apply_patch H ids pc m)) = fst ` set (sm_peers m)"
    by (auto simp: apply_patch_def Let_def dom_update insert_absorb weak_map_of_SomeI split: option.split)
      (metis domI dom_map_of_conv_image_fst)+
  then show ?case using Cons.IH by simp
qed simp

lemma note_filters_peers [simp]:
  "sm_peers (no_ms (note_filters b ns n)) = sm_peers (no_ms n)" "no_by_id (note_filters b ns n) = no_by_id n"
  by (simp_all add: note_filters_def set_packet_filter_def Let_def)

lemma note_patches_by_id [simp]: "no_by_id (note_patches E ps n) = no_by_id n"
  by (simp add: note_patches_def split: option.split)

lemma index_nodes_keys:
  "map_of (index_nodes (me_hex (ne_ms E)) ps m) i = Some k \<Longrightarrow> k \<in> parsed_keys E ps \<or> map_of m i = Some k"
  unfolding index_nodes_def
proof (induction ps arbitrary: m)
  case (Cons p ps)
  then show ?case
    by (cases "parse_prefixed (me_hex (ne_ms E)) NODE_PUB_PREFIX (nd_key p)")
      (force simp: parsed_keys_def update_conv' split: if_splits)+
qed simp

text \<open>
  After a map message with a full list of peers the packet mover knows exactly the peers of that list whose key is well
  formed, whatever it knew before, and the table from node numbers to keys names only those.
\<close>

theorem full_map_sets_peers:
  assumes "handle_map_response E l now mw r n = Some n'"
    and "mr_peers r = Some ps" "mr_peers_changed r = None" "mr_peers_removed r = None"
  shows "fst ` set (sm_peers (no_ms n')) = parsed_keys E ps
    \<and> (\<forall>i k. map_of (no_by_id n') i = Some k \<longrightarrow> k \<in> parsed_keys E ps)"
proof -
  have "\<not> is_keep_alive r" using assms(2) by (simp add: is_keep_alive_def)
  from handle_map_response_parts [OF assms(1) this] obtain n1 where
    n': "n' = note_filters (mr_packet_filter r) (mr_packet_filters r) (note_patches E (mr_peers_changed_patch r)
        (note_removed (mr_peers_removed r) (note_changed E (mr_peers_changed r) (note_peers E (mr_peers r) n1))))" by metis
  have "fst ` set (sm_peers (no_ms (note_patches E pc n))) = fst ` set (sm_peers (no_ms n))" for pc and n :: "('a, 'b) node_inner"
    by (simp add: note_patches_def apply_patches_keys split: option.split)
  then show ?thesis
    using index_nodes_keys [of E ps "[]"] by (simp add: n' assms(2-4) note_peers_def note_changed_def note_removed_def set_peers_keys)
qed

definition demo_nd :: node where
  "demo_nd =
     \<lparr>nd_id = 7, nd_stable_id = [], nd_name = ''peer'', nd_user = 0, nd_key = fmt_node_pub demo_hex (replicate 32 9), nd_key_expiry = [],
      nd_machine = [], nd_disco_key = [], nd_addresses = [], nd_allowed_ips = [], nd_endpoints = [], nd_derp = [], nd_home_derp = 0,
      nd_hostinfo = hostinfo_new [] [] 0, nd_online = None, nd_machine_authorized = True\<rparr>"

lemma demo_nd_key: "parse_prefixed (me_hex (ne_ms demo_nenv)) NODE_PUB_PREFIX (nd_key demo_nd) = Some (replicate 32 9)"
  by code_simp

theorem full_map_sets_peers_witness:
  "\<exists>n'. handle_map_response demo_nenv 0 0 (\<lambda>m. m) (demo_resp\<lparr>mr_peers := Some [demo_nd]\<rparr>) demo_node = Some n'
    \<and> fst ` set (sm_peers (no_ms n')) = {replicate 32 9}"
proof -
  let ?r = "demo_resp\<lparr>mr_peers := Some [demo_nd]\<rparr>"
  obtain n' where h: "handle_map_response demo_nenv 0 0 (\<lambda>m. m) ?r demo_node = Some n'"
    by (simp add: handle_map_response_def is_keep_alive_def note_control_time_def note_self_def demo_resp_def)
  then show ?thesis using full_map_sets_peers [OF h, of "[demo_nd]"] demo_nd_key by (simp add: parsed_keys_def demo_resp_def)
qed

lemma peer_changed_other:
  assumes "parse_prefixed (me_hex E) NODE_PUB_PREFIX (nd_key nd) = Some new" "new \<noteq> old"
  shows "map_of (sm_peers (peer_changed E nd m)) old = map_of (sm_peers m) old"
  using assms by (simp add: peer_changed_def Let_def update_conv')

lemma peer_removed_other:
  assumes "map_of ids i = Some new" "new \<noteq> old"
  shows "map_of (sm_peers (peer_removed ids i m)) old = map_of (sm_peers m) old"
  using assms by (simp add: peer_removed_def delete_conv' split: option.split)

text \<open>
  A peer whose key is rotated stays under its old key: when a map message changes the node with number \<open>i\<close> to a new key and a
  later one removes node \<open>i\<close>, the entry of the old key, its tunnel and its addresses included, is still in the table of peers.
\<close>

theorem rotated_key_stays:
  assumes "handle_map_response E l1 now1 mw1 r1 n = Some n1" "handle_map_response E l2 now2 mw2 r2 n1 = Some n2"
    and "map_of (no_by_id n) i = Some old" "map_of (sm_peers (no_ms n)) old = Some p"
    and "r1 = r\<lparr>mr_keep_alive := False, mr_derp_map := None, mr_peers := None, mr_peers_changed := Some [nd], mr_peers_removed := None,
      mr_peers_changed_patch := None\<rparr>"
    and "r2 = r\<lparr>mr_keep_alive := False, mr_derp_map := None, mr_peers := None, mr_peers_changed := None, mr_peers_removed := Some [i],
      mr_peers_changed_patch := None\<rparr>"
    and "nd_id nd = i" "parse_prefixed (me_hex (ne_ms E)) NODE_PUB_PREFIX (nd_key nd) = Some new" "new \<noteq> old"
  shows "map_of (sm_peers (no_ms n2)) old = Some p \<and> map_of (no_by_id n2) i = None"
proof -
  have "\<not> is_keep_alive r1" "\<not> is_keep_alive r2" using assms(5,6) by (simp_all add: is_keep_alive_def)
  note ka = this
  obtain a where a: "no_ms a = no_ms n" "no_by_id a = no_by_id n"
    "n1 = note_filters (mr_packet_filter r1) (mr_packet_filters r1) (note_changed E (Some [nd]) a)"
    by (rule handle_map_response_parts [OF assms(1) ka(1)])
      (simp add: assms(5) note_derp_map_def note_peers_def note_removed_def note_patches_def)
  obtain b where b: "no_ms b = no_ms n1" "no_by_id b = no_by_id n1"
    "n2 = note_filters (mr_packet_filter r2) (mr_packet_filters r2) (note_removed (Some [i]) b)"
    by (rule handle_map_response_parts [OF assms(2) ka(2)])
      (simp add: assms(6) note_derp_map_def note_peers_def note_changed_def note_patches_def)
  have n1: "map_of (sm_peers (no_ms n1)) old = Some p" "map_of (no_by_id n1) i = Some new"
    using assms(4,7-9) a peer_changed_other [OF assms(8,9)]
    by (simp_all add: note_changed_def peers_changed_def index_nodes_def update_conv')
  have "map_of (sm_peers (no_ms n2)) old = Some p"
    using n1 b peer_removed_other [OF n1(2) assms(9)] by (simp add: note_removed_def peers_removed_def)
  moreover have "map_of (no_by_id n2) i = None" using b by (simp add: note_removed_def delete_conv')
  ultimately show ?thesis by simp
qed

theorem rotated_key_stays_witness:
  "\<exists>n1 n2. handle_map_response demo_nenv 0 0 (\<lambda>m. m) (demo_resp\<lparr>mr_peers_changed := Some [demo_nd]\<rparr>) demo_node = Some n1
    \<and> handle_map_response demo_nenv 0 0 (\<lambda>m. m) (demo_resp\<lparr>mr_peers_removed := Some [7]\<rparr>) n1 = Some n2
    \<and> map_of (sm_peers (no_ms n2)) [1] \<noteq> None \<and> map_of (no_by_id n2) 7 = None"
proof -
  let ?r1 = "demo_resp\<lparr>mr_peers_changed := Some [demo_nd]\<rparr>" and ?r2 = "demo_resp\<lparr>mr_peers_removed := Some [7]\<rparr>"
  obtain n1 where h1: "handle_map_response demo_nenv 0 0 (\<lambda>m. m) ?r1 demo_node = Some n1"
    by (simp add: handle_map_response_def is_keep_alive_def note_control_time_def note_self_def demo_resp_def)
  obtain n2 where h2: "handle_map_response demo_nenv 0 0 (\<lambda>m. m) ?r2 n1 = Some n2"
    by (simp add: handle_map_response_def is_keep_alive_def note_control_time_def note_self_def demo_resp_def)
  obtain p where p: "map_of (sm_peers (no_ms demo_node)) [1] = Some p" by (simp add: demo_node_def demo_table_def)
  have "?r1 = demo_resp\<lparr>mr_keep_alive := False, mr_derp_map := None, mr_peers := None, mr_peers_changed := Some [demo_nd], mr_peers_removed := None,
      mr_peers_changed_patch := None\<rparr>" "?r2 = demo_resp\<lparr>mr_keep_alive := False, mr_derp_map := None, mr_peers := None, mr_peers_changed := None,
      mr_peers_removed := Some [7], mr_peers_changed_patch := None\<rparr>" by (simp_all add: demo_resp_def)
  note r = this
  have "map_of (no_by_id demo_node) 7 = Some [1]" "nd_id demo_nd = 7" "replicate 32 9 \<noteq> [1 :: u8]"
    by (simp_all add: demo_node_def demo_nd_def numeral_eq_Suc)
  from rotated_key_stays [OF h1 h2 this(1) p r this(2) demo_nd_key this(3)] show ?thesis using h1 h2 by auto
qed

section \<open>A silent control server\<close>

definition silent :: "stream_in \<Rightarrow> bool" where
  "silent i \<longleftrightarrow> (\<exists>msg. si_next i = Inl \<lparr>ie_kind = TimedOut, ie_msg = msg\<rparr>)"

lemma lite_update_frame [simp]:
  "sg_last_msg (lite_update i g) = sg_last_msg g" "no_shutdown (sg_node (lite_update i g)) = no_shutdown (sg_node g)"
  by (simp_all add: lite_update_def)

text \<open>
  C35: The stream loop does not wait for ever: when the server sends nothing, every read times out and the clock passes the last
  message by more than 150 seconds, the loop ends with a time-out error (and the control thread connects anew).
\<close>

theorem silent_stream_ends:
  assumes "list_all silent is" "MAP_KEEPALIVE_TIMEOUT < duration_since (si_now (last is)) (sg_last_msg g)" "is \<noteq> []"
    and "\<not> no_shutdown (sg_node g)"
  shows "\<exists>n. stream_loop E is g = Some (Inl (Inl \<lparr>ie_kind = TimedOut, ie_msg = ''no keep-alive from control''\<rparr>, n))"
  using assms
proof (induction "is" arbitrary: g)
  case (Cons i "is")
  obtain msg where i: "si_next i = Inl \<lparr>ie_kind = TimedOut, ie_msg = msg\<rparr>" using Cons.prems(1) by (auto simp: silent_def)
  show ?case
  proof (cases "MAP_KEEPALIVE_TIMEOUT < duration_since (si_now i) (sg_last_msg g)")
    case True
    then show ?thesis using i Cons.prems(4) by (simp add: stream_turn_def Let_def)
  next
    case False
    then have ne: "is \<noteq> []" using Cons.prems(2) by auto
    let ?g = "lite_update i (g\<lparr>sg_node := (sg_node g)\<lparr>no_dirty := (no_dirty (sg_node g) \<or> si_dirty i)\<rparr>\<rparr>)"
    have "stream_loop E (i # is) g = stream_loop E is ?g"
      using i False Cons.prems(4) by (simp add: stream_turn_def Let_def)
    moreover have "\<exists>n. stream_loop E is ?g = Some (Inl (Inl \<lparr>ie_kind = TimedOut, ie_msg = ''no keep-alive from control''\<rparr>, n))"
      using Cons.prems ne by (intro Cons.IH) simp_all
    ultimately show ?thesis by simp
  qed
qed simp

definition demo_tick :: "instant \<Rightarrow> stream_in" where
  "demo_tick now = \<lparr>si_next = Inl \<lparr>ie_kind = TimedOut, ie_msg = []\<rparr>, si_now = now, si_local = 0, si_meanwhile = (\<lambda>m. m), si_dirty = True,
     si_lite = Inr ()\<rparr>"

theorem silent_stream_ends_witness:
  "\<exists>n. stream_loop demo_nenv (map demo_tick [from_secs 5, from_secs 151]) \<lparr>sg_node = demo_node, sg_last_lite = 0, sg_last_msg = 0\<rparr>
    = Some (Inl (Inl \<lparr>ie_kind = TimedOut, ie_msg = ''no keep-alive from control''\<rparr>, n))"
  by (rule silent_stream_ends)
    (simp_all add: silent_def demo_tick_def demo_node_def MAP_KEEPALIVE_TIMEOUT_def duration_since_def from_secs_def)

section \<open>The identity survives a restart\<close>

definition stored_key :: "'s node_env \<Rightarrow> string \<Rightarrow> 's \<Rightarrow> key_pair option" where
  "stored_key E name st = Option.bind (st_get (ne_store E) name st) (from_secret_hex (me_hex (ne_ms E)) (me_prims (ne_ms E)))"

definition identity_stored :: "'s node_env \<Rightarrow> ('s, 'w) node_inner \<Rightarrow> bool" where
  "identity_stored E n \<longleftrightarrow>
     stored_key E KEY_MACHINE (no_store n) = Some (no_machine_key n) \<and> stored_key E KEY_NODE (no_store n) = Some (no_node_key n)
     \<and> stored_key E KEY_DISCO (no_store n) = Some (mg_disco_key (no_ms n)) \<and> mg_node_key (no_ms n) = no_node_key n"

text \<open>A store whose writes succeed, and text forms that can be read back.\<close>

definition store_works :: "'s node_env \<Rightarrow> bool" where
  "store_works E \<longleftrightarrow> kv_store (ne_store E) \<and> (\<forall>k v s. fst (st_set (ne_store E) k v s) = Inr ()) \<and> hex_ok (me_hex (ne_ms E))"

lemmas key_names = KEY_MACHINE_def KEY_NODE_def KEY_DISCO_def KEY_REGISTERED_def KEY_HOME_DERP_def

lemma store_set:
  assumes "store_works E"
  shows "st_get (ne_store E) k' (snd (st_set (ne_store E) k v s)) = (if k' = k then Some v else st_get (ne_store E) k' s)"
  using kv_store.set_ok [of "ne_store E" k v s] assms by (auto simp: store_works_def view_def fun_upd_def dest: fun_cong [of _ _ k'])

lemma store_remove:
  assumes "store_works E" "k' \<noteq> k"
  shows "st_get (ne_store E) k' (snd (st_remove (ne_store E) k s)) = st_get (ne_store E) k' s"
  using kv_store.remove_any [of "ne_store E" k s] assms by (auto simp: store_works_def view_def fun_upd_def dest: fun_cong [of _ _ k'])

lemma generated_key_text:
  assumes "store_works E" "length rnd = 32"
  shows "from_secret_hex (me_hex (ne_ms E)) P (secret_hex (me_hex (ne_ms E)) (kp_generate P rnd)) = Some (kp_generate P rnd)"
  using key_text_roundtrip [of "me_hex (ne_ms E)" "replicate 32 0" "x25519_generate rnd" "[]" P] assms
  by (simp add: store_works_def kp_generate_def x25519_generate_def Let_def)

lemma load_or_create_key_stored:
  assumes ok: "store_works E" "length rnd = 32" and l: "load_or_create_key E rnd name st = (r, st')"
  shows "\<exists>k. r = Inr k \<and> stored_key E name st' = Some k" "name' \<noteq> name \<Longrightarrow> stored_key E name' st' = stored_key E name' st"
    "stored_key E name st = Some k \<Longrightarrow> r = Inr k \<and> st' = st"
proof -
  have set: "fst (st_set (ne_store E) k v s) = Inr ()" for k v s using ok(1) by (simp add: store_works_def)
  have "(\<exists>k. r = Inr k \<and> stored_key E name st' = Some k) \<and> (name' \<noteq> name \<longrightarrow> stored_key E name' st' = stored_key E name' st)
      \<and> (stored_key E name st = Some k \<longrightarrow> r = Inr k \<and> st' = st)"
  proof (cases "stored_key E name st")
    case None
    let ?k = "kp_generate (me_prims (ne_ms E)) rnd"
    obtain st1 where s: "st_set (ne_store E) name (secret_hex (me_hex (ne_ms E)) ?k) st = (Inr (), st1)"
      using set by (metis prod.collapse)
    then have "r = Inr ?k \<and> st' = st1" using None l by (simp add: load_or_create_key_def stored_key_def)
    moreover have "st_get (ne_store E) x st1 = (if x = name then Some (secret_hex (me_hex (ne_ms E)) ?k) else st_get (ne_store E) x st)" for x
      using store_set [OF ok(1), of x name "secret_hex (me_hex (ne_ms E)) ?k" st] s by simp
    ultimately show ?thesis using None generated_key_text [OF ok] by (simp add: stored_key_def)
  next
    case (Some k0)
    then have "r = Inr k0 \<and> st' = st" using l by (simp add: load_or_create_key_def stored_key_def)
    then show ?thesis using Some by simp
  qed
  then show "\<exists>k. r = Inr k \<and> stored_key E name st' = Some k" "name' \<noteq> name \<Longrightarrow> stored_key E name' st' = stored_key E name' st"
    "stored_key E name st = Some k \<Longrightarrow> r = Inr k \<and> st' = st" by blast+
qed

lemma node_start_stored:
  assumes ok: "store_works E" and len: "length (fst rnds) = 32" "length (fst (snd rnds)) = 32" "length (snd (snd rnds)) = 32"
    and s: "node_start E rnds bound spawned w cfg st = (Inr n, st')"
  shows "identity_stored E n"
proof -
  obtain r1 s1 where a: "load_or_create_key E (fst rnds) KEY_MACHINE st = (r1, s1)" by fastforce
  note A = load_or_create_key_stored [OF ok len(1) a]
  obtain r2 s2 where b: "load_or_create_key E (fst (snd rnds)) KEY_NODE s1 = (r2, s2)" by fastforce
  note B = load_or_create_key_stored [OF ok len(2) b]
  obtain r3 s3 where c: "load_or_create_key E (snd (snd rnds)) KEY_DISCO s2 = (r3, s3)" by fastforce
  note C = load_or_create_key_stored [OF ok len(3) c]
  obtain k1 k2 k3 where k: "r1 = Inr k1" "r2 = Inr k2" "r3 = Inr k3" using A(1) B(1) C(1) by blast
  have key: "stored_key E KEY_MACHINE s3 = Some k1" "stored_key E KEY_NODE s3 = Some k2" "stored_key E KEY_DISCO s3 = Some k3"
    using A(1) B(1) C(1) k B(2) [of KEY_MACHINE] C(2) [of KEY_MACHINE] C(2) [of KEY_NODE] by (auto simp: key_names)
  have "no_store n = s3 \<and> no_machine_key n = k1 \<and> no_node_key n = k2 \<and> mg_disco_key (no_ms n) = k3 \<and> mg_node_key (no_ms n) = k2"
    using s a b c k
    by (auto simp: node_start_def set_endpoints_changed_def set_ip_sink_def ms_start_def split: sum.splits prod.splits)
  then show ?thesis using key by (simp add: identity_stored_def)
qed

definition ms_keys :: "magicsock \<Rightarrow> key_pair \<times> key_pair" where
  "ms_keys m = (mg_node_key m, mg_disco_key m)"

lemma ms_keys_simps [simp]:
  "ms_keys (drawn m) = ms_keys m" "ms_keys (put_peer k p m) = ms_keys m" "ms_keys (connect_home_derp E r m) = ms_keys m"
  "ms_keys (set_derp_map dm m) = ms_keys m" "ms_keys (set_packet_filter f m) = ms_keys m"
  by (simp_all add: ms_keys_def drawn_def put_peer_def connect_home_derp_def set_derp_map_def set_packet_filter_def Let_def split: option.split)

lemma ms_keys_probe [simp]: "ms_keys (probe_start E now m) = ms_keys m"
proof -
  have "ms_keys (fold (send_probe E now) ts m) = ms_keys m" for ts m
    by (induction ts arbitrary: m) (simp_all add: send_probe_def udp_send_def drawn_def Let_def ms_keys_def split: prod.split)
  then have "ms_keys (stun_maintenance E now m) = ms_keys m" for m
    by (simp add: stun_maintenance_def Let_def) (simp add: ms_keys_def)
  then show ?thesis by (simp add: probe_start_def) (simp add: ms_keys_def)
qed

lemma ms_keys_peers [simp]:
  "ms_keys (set_peers E ns m) = ms_keys m" "ms_keys (peers_changed E ns m) = ms_keys m"
  "ms_keys (peers_removed ids is m) = ms_keys m" "ms_keys (apply_patches H ids ps m) = ms_keys m"
proof -
  have upd: "ms_keys (m\<lparr>sm_by_disco := d\<rparr>) = ms_keys m" "ms_keys (m\<lparr>sm_by_index := x\<rparr>) = ms_keys m" "ms_keys (m\<lparr>sm_peers := p\<rparr>) = ms_keys m"
    for d x p and m :: magicsock by (simp_all add: ms_keys_def)
  have "ms_keys (set_peers_loop E l ns old m) = ms_keys m" for l ns old and m :: magicsock
    by (induction E l ns old m rule: set_peers_loop.induct) (simp_all add: Let_def upd split: option.split)
  then show "ms_keys (set_peers E ns m) = ms_keys m" by (simp add: set_peers_def upd)
  show "ms_keys (peers_changed E ns m) = ms_keys m" unfolding peers_changed_def
    by (induction ns arbitrary: m) (simp_all add: peer_changed_def Let_def upd split: option.split)
  show "ms_keys (peers_removed ids is m) = ms_keys m" unfolding peers_removed_def
    by (induction "is" arbitrary: m) (simp_all add: peer_removed_def upd split: option.split)
  show "ms_keys (apply_patches H ids ps m) = ms_keys m" unfolding apply_patches_def
    by (induction ps arbitrary: m) (simp_all add: apply_patch_def Let_def upd split: option.split)
qed

text \<open>What the steps of the control thread keep of the identity.\<close>

definition same_identity :: "'s node_env \<Rightarrow> ('s, 'w) node_inner \<Rightarrow> ('s, 'w) node_inner \<Rightarrow> bool" where
  "same_identity E n n' \<longleftrightarrow>
     ms_keys (no_ms n') = ms_keys (no_ms n) \<and> no_node_key n' = no_node_key n \<and> no_machine_key n' = no_machine_key n
     \<and> (\<forall>name\<in>{KEY_MACHINE, KEY_NODE, KEY_DISCO}. st_get (ne_store E) name (no_store n') = st_get (ne_store E) name (no_store n))"

lemma same_identity_stored: "same_identity E n n' \<Longrightarrow> identity_stored E n \<Longrightarrow> identity_stored E n'"
  by (simp add: same_identity_def identity_stored_def stored_key_def ms_keys_def)

lemma same_identity_refl [simp]: "same_identity E n n"
  by (simp add: same_identity_def)

lemma same_identity_trans: "same_identity E n n' \<Longrightarrow> same_identity E n' n'' \<Longrightarrow> same_identity E n n''"
  by (simp add: same_identity_def)

lemma same_identity_fields:
  "ms_keys (no_ms n') = ms_keys (no_ms n) \<Longrightarrow> no_node_key n' = no_node_key n \<Longrightarrow> no_machine_key n' = no_machine_key n \<Longrightarrow>
   no_store n' = no_store n \<Longrightarrow> same_identity E n n'"
  by (simp add: same_identity_def)

lemma set_state_identity: "same_identity E n (set_state s n)"
  by (simp add: set_state_def same_identity_def)

lemma restore_home_identity: "same_identity E n (restore_home_derp E n)"
  by (simp add: restore_home_derp_def same_identity_def split: option.split)

lemma handle_map_identity:
  assumes ok: "store_works E" and h: "handle_map_response E l now mw r n = Some n'" and mw: "\<And>m. ms_keys (mw m) = ms_keys m"
  shows "same_identity E n n'"
proof (cases "is_keep_alive r")
  case True
  then show ?thesis using h by (simp add: handle_map_response_def)
next
  case False
  obtain n1 n2 where n2: "no_ms n2 = no_ms n" "no_store n2 = no_store n" "no_node_key n2 = no_node_key n" "no_machine_key n2 = no_machine_key n"
    "n1 = note_derp_map E now mw (mr_derp_map r) n2"
    "n' = note_filters (mr_packet_filter r) (mr_packet_filters r) (note_patches E (mr_peers_changed_patch r)
      (note_removed (mr_peers_removed r) (note_changed E (mr_peers_changed r) (note_peers E (mr_peers r) n1))))"
    by (rule handle_map_response_parts [OF h False]) blast
  have "same_identity E n n2" using n2(1-4) by (intro same_identity_fields) simp_all
  moreover have "same_identity E n2 n1"
    unfolding n2(5) note_derp_map_def same_identity_def Let_def
    by (auto simp: mw store_set [OF ok] key_names split: option.split)
  moreover have "same_identity E n1 n'"
    unfolding n2(6) by (rule same_identity_fields)
      (simp_all add: note_filters_def note_patches_def note_removed_def note_changed_def note_peers_def Let_def split: option.split)
  ultimately show ?thesis by (blast intro: same_identity_trans)
qed

text \<open>Inputs as they can occur: keys of 32 random bytes, other threads that leave the keys alone.\<close>

definition stream_in_ok :: "stream_in \<Rightarrow> bool" where
  "stream_in_ok i \<longleftrightarrow> (\<forall>m. ms_keys (si_meanwhile i m) = ms_keys m)"

definition control_in_ok :: "control_in \<Rightarrow> bool" where
  "control_in_ok c \<longleftrightarrow> length (ci_rnd c) = 32 \<and> list_all stream_in_ok (ci_stream c)"

lemma lite_update_identity: "same_identity E (sg_node g) (sg_node (lite_update i g))"
  by (simp add: lite_update_def same_identity_def)

lemma stream_turn_identity:
  assumes ok: "store_works E" and i: "stream_in_ok i" and t: "stream_turn E i g = Some x"
  shows "same_identity E (sg_node g) (case x of Inl (r, n) \<Rightarrow> n | Inr g' \<Rightarrow> sg_node g')"
proof -
  let ?n = "(sg_node g)\<lparr>no_dirty := (no_dirty (sg_node g) \<or> si_dirty i)\<rparr>"
  have n: "same_identity E (sg_node g) ?n" by (simp add: same_identity_def)
  have h: "same_identity E ?n n'" if "handle_map_response E (si_local i) (si_now i) (si_meanwhile i) r ?n = Some n'" for r n'
    using handle_map_identity [OF ok that] i by (simp add: stream_in_ok_def)
  show ?thesis
  proof (cases "no_shutdown (sg_node g)")
    case True
    then show ?thesis using t by (auto simp: stream_turn_def)
  next
    case False
    show ?thesis
    proof (cases "si_next i")
      case (Inl e)
      then show ?thesis using t n False lite_update_identity [of E "g\<lparr>sg_node := ?n\<rparr>" i]
        by (auto simp: stream_turn_def Let_def split: if_splits intro: same_identity_trans)
    next
      case (Inr o1)
      show ?thesis
      proof (cases o1)
        case None
        then show ?thesis using t n False Inr by (auto simp: stream_turn_def Let_def)
      next
        case (Some r)
        obtain n' where n': "handle_map_response E (si_local i) (si_now i) (si_meanwhile i) r ?n = Some n'"
          "x = Inr (lite_update i (g\<lparr>sg_node := n', sg_last_msg := si_now i\<rparr>))"
          using t False Inr Some by (auto simp: stream_turn_def Let_def)
        have "same_identity E n' (sg_node (lite_update i (g\<lparr>sg_node := n', sg_last_msg := si_now i\<rparr>)))"
          using lite_update_identity [of E "g\<lparr>sg_node := n', sg_last_msg := si_now i\<rparr>" i] by simp
        then show ?thesis using n h [OF n'(1)] n'(2) by (auto intro: same_identity_trans)
      qed
    qed
  qed
qed

lemma stream_loop_identity:
  assumes ok: "store_works E" and "list_all stream_in_ok is" "stream_loop E is g = Some x"
  shows "same_identity E (sg_node g) (case x of Inl (r, n) \<Rightarrow> n | Inr g' \<Rightarrow> sg_node g')"
  using assms(2,3)
proof (induction "is" arbitrary: g)
  case (Cons i "is")
  obtain y where y: "stream_turn E i g = Some y" using Cons.prems(2) by (cases "stream_turn E i g") simp_all
  have i: "stream_in_ok i" using Cons.prems(1) by simp
  note t = stream_turn_identity [OF ok i y]
  show ?case
  proof (cases y)
    case (Inl r)
    then have "x = Inl r" using y Cons.prems(2) by simp
    then show ?thesis using t Inl by simp
  next
    case (Inr g')
    then have "same_identity E (sg_node g') (case x of Inl (r, n) \<Rightarrow> n | Inr g' \<Rightarrow> sg_node g')"
      using Cons.IH [of g'] Cons.prems y by simp
    then show ?thesis using t Inr by (auto intro: same_identity_trans)
  qed
qed auto

lemma stream_ended_identity:
  assumes "store_works E" "stream_ended E r n b = (b', n')"
  shows "same_identity E n n'"
proof (cases r)
  case (Inl e)
  show ?thesis
  proof (cases "registration_lost (ie_msg e)")
    case True
    then have "n' = n\<lparr>no_store := snd (st_remove (ne_store E) KEY_REGISTERED (no_store n))\<rparr>" using assms(2) Inl by (simp add: stream_ended_def)
    then show ?thesis using store_remove [OF assms(1), of _ KEY_REGISTERED] by (simp add: same_identity_def key_names)
  next
    case False
    then show ?thesis using assms(2) Inl set_state_identity [of E n] by (auto simp: stream_ended_def)
  qed
qed (use assms(2) in \<open>simp add: stream_ended_def\<close>)

lemma node_register_identity:
  assumes ok: "store_works E" "length rnd = 32" and id: "identity_stored E n" and r: "node_register E reply rnd n = (x, n')"
  shows "identity_stored E n'"
proof -
  let ?key = "kp_generate (me_prims (ne_ms E)) rnd"
  obtain st where s: "st_set (ne_store E) KEY_NODE (secret_hex (me_hex (ne_ms E)) ?key) (no_store n) = (Inr (), st)"
    using ok(1) unfolding store_works_def by (metis prod.collapse)
  let ?m = "n\<lparr>no_store := st, no_ms := set_node_key (ne_ms E) ?key (no_ms n), no_node_key := ?key\<rparr>"
  have g: "st_get (ne_store E) y st = (if y = KEY_NODE then Some (secret_hex (me_hex (ne_ms E)) ?key) else st_get (ne_store E) y (no_store n))" for y
    using store_set [OF ok(1), of y KEY_NODE "secret_hex (me_hex (ne_ms E)) ?key" "no_store n"] s by simp
  have "identity_stored E ?m"
    using id generated_key_text [OF ok, of "me_prims (ne_ms E)"]
    by (simp add: identity_stored_def stored_key_def g key_names set_node_key_def)
  moreover have "identity_stored E (set_state y n)" for y by (rule same_identity_stored [OF set_state_identity id])
  ultimately show ?thesis
    using r id s by (auto simp: node_register_def Let_def split: sum.splits if_splits)
qed

definition thread_node :: "duration \<times> ('s, 'w) node_inner + duration \<times> ('s, 'w) streaming \<Rightarrow> ('s, 'w) node_inner" where
  "thread_node t = (case t of Inl (b, n) \<Rightarrow> n | Inr (b, g) \<Rightarrow> sg_node g)"

lemma after_stream_identity:
  assumes "store_works E" "list_all stream_in_ok is" "identity_stored E (sg_node g)"
    and "(case stream_loop E is g of
            None \<Rightarrow> None
          | Some (Inl (r, n)) \<Rightarrow> Some (Inl (stream_ended E r n b))
          | Some (Inr g) \<Rightarrow> Some (Inr (b, g))) = Some t"
  shows "identity_stored E (thread_node t)"
proof -
  obtain x where x: "stream_loop E is g = Some x" using assms(4) by (cases "stream_loop E is g") simp_all
  note l = same_identity_stored [OF stream_loop_identity [OF assms(1,2) x] assms(3)]
  show ?thesis
  proof (cases x)
    case (Inl rn)
    obtain r n where rn: "rn = (r, n)" by fastforce
    obtain b' n' where e: "stream_ended E r n b = (b', n')" by fastforce
    have "identity_stored E n'" using same_identity_stored [OF stream_ended_identity [OF assms(1) e]] l Inl rn by simp
    then show ?thesis using assms(4) x Inl rn e by (auto simp: thread_node_def)
  next
    case (Inr g')
    then show ?thesis using assms(4) x l by (auto simp: thread_node_def)
  qed
qed

lemma run_map_stream_identity:
  assumes ok: "store_works E" and "list_all stream_in_ok is" and id: "identity_stored E n"
    and "(case run_map_stream E opened now is n of
            None \<Rightarrow> None
          | Some (Inl (r, n)) \<Rightarrow> Some (Inl (stream_ended E r n b))
          | Some (Inr g) \<Rightarrow> Some (Inr (b, g))) = Some t"
  shows "identity_stored E (thread_node t)"
proof (cases opened)
  case (Inl e)
  obtain b' n' where s: "stream_ended E (Inl e) (restore_home_derp E n) b = (b', n')" by fastforce
  have "identity_stored E n'"
    using same_identity_stored [OF same_identity_trans [OF restore_home_identity stream_ended_identity [OF ok s]] id] .
  then show ?thesis using assms(4) Inl s by (auto simp: run_map_stream_def thread_node_def)
next
  case (Inr u)
  let ?n = "(set_state Running (restore_home_derp E n))\<lparr>no_dirty := False\<rparr>"
  have "same_identity E (set_state Running (restore_home_derp E n)) ?n" by (simp add: same_identity_def)
  then have "identity_stored E ?n"
    by (metis same_identity_stored same_identity_trans restore_home_identity set_state_identity id)
  then show ?thesis
    using after_stream_identity [OF ok assms(2), of "\<lparr>sg_node = ?n, sg_last_lite = now, sg_last_msg = now\<rparr>" b t] assms(4) Inr
    by (simp add: run_map_stream_def)
qed

lemma control_turn_identity:
  assumes ok: "store_works E" and c: "control_in_ok c" and id: "identity_stored E n" and t: "control_turn E c b n = Some t"
  shows "identity_stored E (thread_node t)"
proof -
  have st: "identity_stored E m \<Longrightarrow> identity_stored E (set_state s m)" for s and m :: "('a, 'b) node_inner"
    by (rule same_identity_stored [OF set_state_identity])
  let ?n = "set_state ConnectingControl n"
  have run: "identity_stored E (thread_node t)"
    if "identity_stored E m" "(case run_map_stream E (ci_opened c) (ci_opened_at c) (ci_stream c) m of
            None \<Rightarrow> None
          | Some (Inl (r, n)) \<Rightarrow> Some (Inl (stream_ended E r n b))
          | Some (Inr g) \<Rightarrow> Some (Inr (b, g))) = Some t" for m
    using run_map_stream_identity [OF ok _ that] c by (simp add: control_in_ok_def)
  show ?thesis
  proof (cases "\<exists>e. ci_connect c = Inl e")
    case True
    then show ?thesis using t st [OF st [OF id]] by (auto simp: control_turn_def Let_def thread_node_def)
  next
    case False
    then obtain u where conn: "ci_connect c = Inr u" by (cases "ci_connect c") auto
    show ?thesis
    proof (cases "st_get (ne_store E) KEY_REGISTERED (no_store ?n) = Some ''1''")
      case True
      then show ?thesis using t conn run [OF st [OF id]] by (simp add: control_turn_def Let_def)
    next
      case no: False
      obtain x m where r: "node_register E (ci_ask c) (ci_rnd c) (set_state Registering ?n) = (x, m)" by fastforce
      have m: "identity_stored E m" using node_register_identity [OF ok _ st [OF st [OF id]] r] c by (simp add: control_in_ok_def)
      let ?m = "m\<lparr>no_store := snd (st_set (ne_store E) KEY_REGISTERED ''1'' (no_store m))\<rparr>"
      have "same_identity E m ?m" using store_set [OF ok, of _ KEY_REGISTERED] by (simp add: same_identity_def key_names)
      then have "identity_stored E ?m" using m by (rule same_identity_stored)
      then show ?thesis using t conn no r run [of ?m] m st [OF m]
        by (cases x) (auto simp: control_turn_def Let_def thread_node_def split: if_splits bool.splits)
    qed
  qed
qed

lemma control_loop_identity:
  assumes ok: "store_works E" and "control_in_ok c" "identity_stored E (thread_node t)" "control_loop E c (Some t) = Some t'"
  shows "identity_stored E (thread_node t')"
proof (cases t)
  case (Inl bn)
  obtain b n where bn: "bn = (b, n)" by fastforce
  then show ?thesis using assms(3,4) Inl control_turn_identity [OF ok assms(2), of n b t']
    by (auto simp: control_loop_def thread_node_def split: if_splits)
next
  case (Inr bg)
  obtain b g where bg: "bg = (b, g)" by fastforce
  have "identity_stored E (sg_node g)" "list_all stream_in_ok (ci_stream c)"
    using assms(2,3) Inr bg by (simp_all add: thread_node_def control_in_ok_def)
  then show ?thesis using after_stream_identity [OF ok, of "ci_stream c" g b t'] assms(4) Inr bg by (simp add: control_loop_def)
qed

lemma control_loop_none: "fold (control_loop E) cs None = None"
  by (induction cs) (simp_all add: control_loop_def)

lemma control_run_identity:
  assumes ok: "store_works E"
  shows "list_all control_in_ok cs \<Longrightarrow> identity_stored E (thread_node t) \<Longrightarrow> fold (control_loop E) cs (Some t) = Some t' \<Longrightarrow>
    identity_stored E (thread_node t')"
proof (induction cs arbitrary: t)
  case (Cons c cs)
  obtain t1 where t1: "control_loop E c (Some t) = Some t1"
    using Cons.prems(3) by (cases "control_loop E c (Some t)") (simp_all add: control_loop_none)
  then show ?case using Cons control_loop_identity [OF ok, of c t t1] by simp
qed simp

lemma node_start_succeeds:
  assumes ok: "store_works E" and len: "length (fst rnds) = 32" "length (fst (snd rnds)) = 32" "length (snd (snd rnds)) = 32"
  shows "\<exists>n st'. node_start E rnds (Inr port) (Inr (), Inr ()) w cfg st = (Inr n, st')"
proof -
  have load: "\<exists>k st'. load_or_create_key E rnd name st = (Inr k, st')" if "length rnd = 32" for rnd name st
    using load_or_create_key_stored(1) [OF ok that] by (metis surj_pair)
  obtain k1 s1 where a: "load_or_create_key E (fst rnds) KEY_MACHINE st = (Inr k1, s1)" using load [OF len(1)] by blast
  obtain k2 s2 where b: "load_or_create_key E (fst (snd rnds)) KEY_NODE s1 = (Inr k2, s2)" using load [OF len(2)] by blast
  obtain k3 s3 where c: "load_or_create_key E (snd (snd rnds)) KEY_DISCO s2 = (Inr k3, s3)" using load [OF len(3)] by blast
  show ?thesis using a b c by (simp add: node_start_def)
qed

lemma load_stored_key: "stored_key E name st = Some k \<Longrightarrow> load_or_create_key E rnd name st = (Inr k, st)"
  by (simp add: load_or_create_key_def stored_key_def)

text \<open>
  C12: The identity of the node survives a restart: whatever the control server answers and whenever connections fail, a node that is
  started again from the store the control thread left, after a rotation of the node key too, has the machine key, the node key and
  the disco key the old one was using, and writes nothing.
\<close>

theorem node_identity_persistent:
  assumes "store_works E" "length (fst rnds) = 32" "length (fst (snd rnds)) = 32" "length (snd (snd rnds)) = 32"
    and "node_start E rnds bound spawned w cfg st = (Inr n0, st')" "list_all control_in_ok cs"
    and "fold (control_loop E) cs (control_start n0) = Some t" "n = thread_node t"
  shows "\<exists>n2. node_start E rnds2 (Inr port) (Inr (), Inr ()) w2 cfg2 (no_store n) = (Inr n2, no_store n)
    \<and> no_machine_key n2 = no_machine_key n \<and> no_node_key n2 = no_node_key n \<and> mg_disco_key (no_ms n2) = mg_disco_key (no_ms n)"
proof -
  have "identity_stored E n0" by (rule node_start_stored [OF assms(1-5)])
  then have "identity_stored E n"
    using control_run_identity [OF assms(1,6), of "Inl (from_secs 2, n0)" t] assms(7,8) by (simp add: control_start_def thread_node_def)
  then show ?thesis
    by (simp add: identity_stored_def node_start_def load_stored_key set_endpoints_changed_def set_ip_sink_def ms_start_def)
qed

definition demo_answer :: "bool \<Rightarrow> register_response" where
  "demo_answer rotated =
     \<lparr>rr_login = \<lparr>up_id = 0, up_login_name = [], up_display_name = []\<rparr>, rr_node_key_expired = (\<not> rotated), rr_machine_authorized = rotated,
      rr_auth_url = [], rr_error = []\<rparr>"

text \<open>A server that finds the node key expired: the first turn rotates it, then the stream is refused.\<close>

definition demo_control :: control_in where
  "demo_control =
     \<lparr>ci_connect = Inr (), ci_ask = (\<lambda>rq. Inr (demo_answer (rq_old_node_key rq \<noteq> fmt_node_pub demo_hex (replicate 32 0)))),
      ci_rnd = replicate 32 5, ci_opened = Inl \<lparr>ie_kind = OtherError, ie_msg = ''HTTP 500''\<rparr>, ci_opened_at = 0, ci_stream = []\<rparr>"

lemma demo_store_works: "store_works demo_nenv"
proof -
  have "kv_store (file_store_ops (\<lambda>_. FlushOk))" by (rule fs.kv_store_axioms)
  then show ?thesis
    by (simp add: store_works_def demo_nenv_def demo_menv_def demo_hex_ok) (simp add: file_store_ops_def fs_flush_def Let_def)
qed

definition demo_rnds :: "bytes \<times> bytes \<times> bytes" where
  "demo_rnds = (replicate 32 1, replicate 32 2, replicate 32 3)"

lemma refused_turn: "ci_opened c = Inl e \<Longrightarrow> \<exists>t. control_turn E c b n = Some t"
  unfolding control_turn_def run_map_stream_def Let_def
  by (simp split: sum.split prod.split bool.split)

theorem node_identity_persistent_witness:
  "\<exists>n0 st t n2. node_start demo_nenv demo_rnds (Inr 1) (Inr (), Inr ()) () (node_config_default []) demo_fs = (Inr n0, st)
    \<and> fold (control_loop demo_nenv) [demo_control] (control_start n0) = Some t
    \<and> node_start demo_nenv ([], [], []) (Inr 1) (Inr (), Inr ()) () (node_config_default []) (no_store (thread_node t))
        = (Inr n2, no_store (thread_node t))
    \<and> no_node_key n2 = no_node_key (thread_node t)"
proof -
  let ?s = "node_start demo_nenv demo_rnds (Inr 1) (Inr (), Inr ()) () (node_config_default []) demo_fs"
  obtain n0 st where s: "?s = (Inr n0, st)"
    using node_start_succeeds [OF demo_store_works, of demo_rnds] by (fastforce simp: demo_rnds_def)
  obtain t where t: "fold (control_loop demo_nenv) [demo_control] (control_start n0) = Some t"
    using refused_turn [of demo_control _ demo_nenv "from_secs 2" n0]
    by (cases "no_shutdown n0") (auto simp: control_start_def control_loop_def demo_control_def)
  have "control_in_ok demo_control" by (simp add: control_in_ok_def demo_control_def)
  then show ?thesis
    using node_identity_persistent [OF demo_store_works _ _ _ s _ t refl, of "([], [], [])" 1 "()" "node_config_default []"] s t
    by (auto simp: demo_rnds_def)
qed

end
