(* ===== verification/Shell_Props.thy ===== *)
theory Shell_Props
  imports Shell
begin

text \<open>
  Properties of the console shell: lines are edited and delivered the same for every convention of line
  ends, what is typed without echo does not show, and the list of networks can name one twice.
\<close>

section \<open>The platform of the unit tests\<close>

text \<open>\<^verbatim>\<open>FakePlatform\<close> of the test module: two networks, one of which accepts one password.\<close>

record fake_state =
  fk_cfg :: "saved_config option"
  fk_node_started :: bool

definition fake_ap :: "string \<Rightarrow> int \<Rightarrow> ap_info" where
  "fake_ap ssid rssi = \<lparr>ap_ssid = ssid, ap_rssi = rssi, ap_secure = True\<rparr>"

definition fake_platform :: "fake_state platform" where
  "fake_platform =
     \<lparr>pl_status = (\<lambda>_. \<lparr>sn_firmware = ''t'', sn_setup_mode = True, sn_wifi = [], sn_node = None, sn_derp = [], sn_peers = [],
        sn_usb = [], sn_heap = []\<rparr>),
      pl_scan_wifi = (\<lambda>p. (Inr [fake_ap ''weak'' (- 80), fake_ap ''home'' (- 50), fake_ap ''home'' (- 60)], p)),
      pl_connect_wifi = (\<lambda>ssid pw p.
        (if ssid = ''home'' \<and> pw = ''secret123'' then Inr ''192.168.1.42'' else Inl ''auth failed'', p)),
      pl_reconnect_wifi = (\<lambda>p. (Inl ''no radio'', p)),
      pl_config = fk_cfg,
      pl_save_config = (\<lambda>c p. (Inr (), p\<lparr>fk_cfg := Some c\<rparr>)),
      pl_start_node = (\<lambda>p. (Inr (), p\<lparr>fk_node_started := True\<rparr>)),
      pl_is_registered = (\<lambda>_. False),
      pl_factory_reset = (\<lambda>p. (Inr (), p)),
      pl_clock = (\<lambda>_. 0), pl_um = 2 ^ 64\<rparr>"

definition fake_shell :: "u8 option list \<Rightarrow> node_state list \<Rightarrow> fake_state shell" where
  "fake_shell inp polls = shell_new inp polls \<lparr>fk_cfg = None, fk_node_started = False\<rparr>"

text \<open>The test of the wizard: a wrong password, the right one, the default host name, no reboot.\<close>

definition wizard_input :: bytes where
  "wizard_input = str_bytes ''1'' @ [CR] @ str_bytes ''wrongpass'' @ [CR, CR] @ str_bytes ''1'' @ [CR] @ str_bytes ''secret123'' @ [CR, CR]
     @ str_bytes ''n'' @ [CR]"

lemma wizard_end_to_end:
  "case wizard fake_platform False (fake_shell (map Some wizard_input)
       [Connecting, NeedsLogin ''https://login.tailscale.com/a/abc'', Running [''100.64.0.9''] ''target-console.example.ts.net'']) of
     (r, t) \<Rightarrow> r = Done () \<and> sh_in t = [] \<and> fk_node_started (sh_plat t)
       \<and> fk_cfg (sh_plat t) = Some (default_config\<lparr>sc_networks := [\<lparr>wn_ssid = ''home'', wn_password = ''secret123''\<rparr>], sc_hostname := ''target-console''\<rparr>)"
  by code_simp

section \<open>Line editing\<close>

text \<open>The reference: the effect of one key on the line. \<open>keys_of\<close> are the bytes a script of reads delivers.\<close>

definition edit :: "bytes \<Rightarrow> u8 \<Rightarrow> bytes" where
  "edit l b =
     (if b = 0x08 \<or> b = 0x7f then butlast l
      else if printable b \<and> length l < 200 then l @ [b]
      else l)"

definition plain_key :: "u8 \<Rightarrow> bool" where
  "plain_key b \<longleftrightarrow> b \<noteq> CR \<and> b \<noteq> LF \<and> b \<noteq> 0x03"

definition keys_of :: "u8 option list \<Rightarrow> bytes" where
  "keys_of xs = List.map_filter (\<lambda>x. x) xs"

lemma keys_of_simps [simp]: "keys_of [] = []" "keys_of (None # xs) = keys_of xs" "keys_of (Some b # xs) = b # keys_of xs"
  by (simp_all add: keys_of_def List.map_filter_simps)

lemma edit_printable: "list_all printable l \<Longrightarrow> list_all printable (edit l b)"
  by (auto simp: edit_def list_all_iff dest: in_set_butlastD)

lemma key_press_plain: "plain_key b \<Longrightarrow> \<exists>msg. key_press echo w l b = Editing (edit l b) msg"
  by (auto simp: key_press_def edit_def plain_key_def printable_def)

lemma key_press_end:
  "b \<in> {CR, LF} \<Longrightarrow> \<not> (b = LF \<and> w) \<Longrightarrow> list_all printable l \<Longrightarrow> key_press echo w l b = Entered (trim (bytes_str l)) crlf_text"
  by (auto simp: key_press_def from_utf8_lossy_ascii)

lemma emit_swallow [simp]: "sh_swallow_lf (emit msg sh) = sh_swallow_lf sh"
  by (simp add: emit_def)

lemma read_loop_line:
  assumes "list_all plain_key keys" "b \<in> {CR, LF}" "keys_of xs = keys @ b # rest" "list_all printable l"
    and "keys = [] \<Longrightarrow> \<not> (b = LF \<and> sh_swallow_lf sh)"
  shows "\<exists>t. read_loop E echo None xs l sh = (Done (Some (trim (bytes_str (foldl edit l keys)))), t)
    \<and> keys_of (sh_in t) = rest \<and> sh_swallow_lf t = (b = CR)"
  using assms(1,3,4,5)
proof (induction xs arbitrary: keys l sh)
  case (Cons x xs)
  show ?case
  proof (cases x)
    case None
    then show ?thesis using Cons.IH [of keys l "sh\<lparr>sh_in := xs\<rparr>"] Cons.prems by simp
  next
    case (Some c)
    show ?thesis
    proof (cases keys)
      case Nil
      then show ?thesis using Some Cons.prems key_press_end [OF assms(2), of "sh_swallow_lf sh" l echo] by simp
    next
      case k: (Cons k ks)
      then have c: "c = k" "plain_key c" "keys_of xs = ks @ b # rest" using Some Cons.prems by simp_all
      obtain msg where m: "key_press echo (sh_swallow_lf sh) l c = Editing (edit l c) msg" using key_press_plain [OF c(2)] by blast
      have "c \<noteq> CR" using c(2) by (simp add: plain_key_def)
      then show ?thesis
        using Cons.IH [of ks "edit l c" "emit msg (sh\<lparr>sh_in := xs, sh_swallow_lf := False\<rparr>)"] Cons.prems k c Some m
        by (simp add: edit_printable)
    qed
  qed
qed simp

lemma read_loop_skip:
  assumes "keys_of xs = LF # ys" "sh_swallow_lf sh"
  shows "\<exists>xs' sh'. read_loop E echo None xs [] sh = read_loop E echo None xs' [] sh' \<and> keys_of xs' = ys \<and> \<not> sh_swallow_lf sh'"
  using assms
proof (induction xs arbitrary: sh)
  case (Cons x xs)
  show ?case
  proof (cases x)
    case None
    then show ?thesis using Cons.IH [of "sh\<lparr>sh_in := xs\<rparr>"] Cons.prems by simp
  next
    case (Some c)
    then have "c = LF" "keys_of xs = ys" using Cons.prems by simp_all
    then show ?thesis using Some Cons.prems(2)
      by (intro exI [of _ xs] exI [of _ "emit [] (sh\<lparr>sh_in := xs, sh_swallow_lf := False\<rparr>)"]) (simp add: key_press_def CR_def LF_def)
  qed
qed simp

fun read_lines :: "'p platform \<Rightarrow> bool \<Rightarrow> nat \<Rightarrow> 'p shell \<Rightarrow> string option list outcome \<times> 'p shell" where
  "read_lines E echo 0 = sh_return []"
| "read_lines E echo (Suc n) =
     sh_bind (read_line E echo None) (\<lambda>l. sh_bind (read_lines E echo n) (\<lambda>ls. sh_return (l # ls)))"

lemma fst_read_lines_Suc:
  "read_line E echo None sh = (Done l, t) \<Longrightarrow> fst (read_lines E echo n t) = Done ls \<Longrightarrow> fst (read_lines E echo (Suc n) sh) = Done (l # ls)"
  by (cases "read_lines E echo n t") (simp add: sh_bind_def sh_return_def)

text \<open>Where the shell stands between two lines: after CR LF the line feed is still to be read.\<close>

definition between :: "bytes \<Rightarrow> bytes \<Rightarrow> 'p shell \<Rightarrow> bool" where
  "between eol input sh \<longleftrightarrow>
     (if eol = [CR, LF] \<and> sh_swallow_lf sh then keys_of (sh_in sh) = LF # input
      else keys_of (sh_in sh) = input \<and> (eol = [LF] \<longrightarrow> \<not> sh_swallow_lf sh))"

lemma read_line_between:
  assumes "list_all plain_key keys" "eol \<in> {[CR], [LF], [CR, LF]}" "between eol (keys @ eol @ rest) sh"
  shows "\<exists>t. read_line E echo None sh = (Done (Some (trim (bytes_str (foldl edit [] keys)))), t) \<and> between eol rest t"
proof -
  obtain b where b: "b \<in> {CR, LF}" "eol = [b] \<or> eol = [CR, LF] \<and> b = CR" using assms(2) by auto
  define more where "more = tl eol @ rest"
  have e: "keys @ eol @ rest = keys @ b # more" using b by (auto simp: more_def)
  have ne: "CR \<noteq> LF" by (simp add: CR_def LF_def)
  show ?thesis
  proof (cases "eol = [CR, LF] \<and> sh_swallow_lf sh")
    case True
    then have "keys_of (sh_in sh) = LF # keys @ b # more" using assms(3) e by (simp add: between_def)
    then obtain xs sh' where s: "read_loop E echo None (sh_in sh) [] sh = read_loop E echo None xs [] sh'"
        "keys_of xs = keys @ b # more" "\<not> sh_swallow_lf sh'"
      using read_loop_skip True by blast
    then obtain t where "read_line E echo None sh = (Done (Some (trim (bytes_str (foldl edit [] keys)))), t)"
        "keys_of (sh_in t) = more" "sh_swallow_lf t = (b = CR)"
      using read_loop_line [OF assms(1) b(1) s(2), of "[]" sh' E echo] by (auto simp: read_line_def)
    then show ?thesis using True b ne by (auto simp: between_def more_def)
  next
    case False
    then have k: "keys_of (sh_in sh) = keys @ b # more" "b = LF \<longrightarrow> \<not> sh_swallow_lf sh"
      using assms(3) e b ne by (auto simp: between_def)
    then obtain t where "read_line E echo None sh = (Done (Some (trim (bytes_str (foldl edit [] keys)))), t)"
        "keys_of (sh_in t) = more" "sh_swallow_lf t = (b = CR)"
      using read_loop_line [OF assms(1) b(1) k(1), of "[]" sh E echo] by (auto simp: read_line_def)
    then show ?thesis using b ne by (auto simp: between_def more_def)
  qed
qed

lemma read_lines_between:
  assumes "eol \<in> {[CR], [LF], [CR, LF]}"
  shows "list_all (list_all plain_key) ls \<Longrightarrow> between eol (concat (map (\<lambda>l. l @ eol) ls) @ rest) sh \<Longrightarrow>
    fst (read_lines E echo (length ls) sh) = Done (map (\<lambda>l. Some (trim (bytes_str (foldl edit [] l)))) ls)"
proof (induction ls arbitrary: sh)
  case Nil
  show ?case by (simp add: sh_return_def)
next
  case (Cons l ls)
  obtain t where t: "read_line E echo None sh = (Done (Some (trim (bytes_str (foldl edit [] l)))), t)"
      "between eol (concat (map (\<lambda>l. l @ eol) ls) @ rest) t"
    using read_line_between [OF _ assms, of l "concat (map (\<lambda>l. l @ eol) ls) @ rest" sh E echo] Cons.prems by auto
  show ?case using fst_read_lines_Suc [OF t(1) Cons.IH [OF _ t(2)]] Cons.prems by simp
qed

text \<open>
  C30: Typed lines arrive edited and complete for each convention of line ends: when lines of plain keys are typed, each
  ended by CR, by LF or by CR LF, with any pauses between the bytes, successive reads return exactly the lines as edited
  by the reference (printable keys up to 200 are kept, backspace and delete remove the last one), with white space trimmed at the ends; CR LF
  produces no empty line.
\<close>

theorem typed_lines_read:
  assumes "eol \<in> {[CR], [LF], [CR, LF]}" "list_all (list_all plain_key) ls" "\<not> sh_swallow_lf sh"
    and "keys_of (sh_in sh) = concat (map (\<lambda>l. l @ eol) ls) @ rest"
  shows "fst (read_lines E echo (length ls) sh) = Done (map (\<lambda>l. Some (trim (bytes_str (foldl edit [] l)))) ls)"
  using assms by (intro read_lines_between) (simp_all add: between_def)

definition demo_script :: "u8 option list" where
  "demo_script = map Some (str_bytes ''abd'') @ [None, Some 0x7f] @ map Some (str_bytes ''c '' @ [CR, LF, CR, LF] @ str_bytes ''two'' @ [CR, LF])"

definition demo_lines :: "bytes list" where
  "demo_lines = [str_bytes ''abd'' @ [0x7f] @ str_bytes ''c '', [], str_bytes ''two'']"

theorem typed_lines_read_witness:
  "fst (read_lines fake_platform True 3 (fake_shell demo_script [])) = Done [Some ''abc'', Some [], Some ''two'']"
proof -
  have "fst (read_lines fake_platform True (length demo_lines) (fake_shell demo_script [])) =
      Done (map (\<lambda>l. Some (trim (bytes_str (foldl edit [] l)))) demo_lines)"
  proof (rule typed_lines_read [where eol = "[CR, LF]" and rest = "[]"])
    show "list_all (list_all plain_key) demo_lines" by code_simp
    show "keys_of (sh_in (fake_shell demo_script [])) = concat (map (\<lambda>l. l @ [CR, LF]) demo_lines) @ []" by code_simp
  qed (simp_all add: fake_shell_def shell_new_def)
  moreover have "map (\<lambda>l. Some (trim (bytes_str (foldl edit [] l)))) demo_lines = [Some ''abc'', Some [], Some ''two'']" by code_simp
  moreover have "length demo_lines = 3" by (simp add: demo_lines_def)
  ultimately show ?thesis by (simp del: read_lines.simps)
qed

section \<open>Passwords\<close>

text \<open>Every printable key replaced by the same one.\<close>

definition mask_key :: "u8 \<Rightarrow> u8" where
  "mask_key b = (if printable b then 0x78 else b)"

lemma key_press_mask:
  assumes "length l = length l'"
  shows "(\<exists>k k' msg. key_press False w l b = Editing k msg \<and> key_press False w l' (mask_key b) = Editing k' msg \<and> length k = length k')
    \<or> (\<exists>r r' msg. key_press False w l b = Entered r msg \<and> key_press False w l' (mask_key b) = Entered r' msg)"
proof (cases "printable b")
  case True
  then have "b \<noteq> CR" "b \<noteq> LF" "b \<noteq> 8" "b \<noteq> 0x7f" "b \<noteq> 3" by (auto simp: printable_def CR_def LF_def)
  then show ?thesis using True assms by (simp add: key_press_def mask_key_def printable_def CR_def LF_def)
next
  case False
  then show ?thesis using assms by (auto simp: key_press_def mask_key_def printable_def)
qed

lemma mask_CR: "mask_key b = CR \<longleftrightarrow> b = CR"
  by (auto simp: mask_key_def printable_def CR_def)

lemma read_loop_mask:
  "length l = length l' \<Longrightarrow> sh_out sh = sh_out sh' \<Longrightarrow> sh_swallow_lf sh = sh_swallow_lf sh' \<Longrightarrow> sh_reads sh = sh_reads sh' \<Longrightarrow>
   sh_out (snd (read_loop E False dl (map (map_option mask_key) xs) l' sh')) = sh_out (snd (read_loop E False dl xs l sh))"
proof (induction xs arbitrary: dl l l' sh sh')
  case (Cons x xs)
  have nil: "l' = [] \<longleftrightarrow> l = []" using Cons.prems(1) by auto
  show ?case
  proof (cases x)
    case None
    then show ?thesis using Cons.prems nil by (auto simp: Let_def intro!: Cons.IH)
  next
    case (Some b)
    show ?thesis using key_press_mask [OF Cons.prems(1), of "sh_swallow_lf sh" b] Cons.prems nil Some
      by (auto simp: Let_def emit_def mask_CR intro!: Cons.IH)
  qed
qed simp

text \<open>
  C33: A password does not show: what a read without echo writes to the console is the same when every
  printable key is replaced by one fixed key, so the console shows the length of the input and nothing else of it.
\<close>

theorem password_not_shown:
  "sh_out (snd (read_line E False idle (sh\<lparr>sh_in := map (map_option mask_key) xs\<rparr>)))
   = sh_out (snd (read_line E False idle (sh\<lparr>sh_in := xs\<rparr>)))"
proof (cases idle)
  case None
  then show ?thesis
    using read_loop_mask [of "[]" "[]" "sh\<lparr>sh_in := xs\<rparr>" "sh\<lparr>sh_in := map (map_option mask_key) xs\<rparr>" E None xs]
    by (simp add: read_line_def)
next
  case (Some d)
  then show ?thesis
    using read_loop_mask [of "[]" "[]" "sh\<lparr>sh_in := xs, sh_reads := Suc (sh_reads sh)\<rparr>"
        "sh\<lparr>sh_in := map (map_option mask_key) xs, sh_reads := Suc (sh_reads sh)\<rparr>" E "Some (pl_clock E (sh_reads sh) + d)" xs]
    by (simp add: read_line_def)
qed

section \<open>The list of networks\<close>

text \<open>
  The list a scan shows can name a network twice: the access points are sorted by strength and only
  neighbours of the same name are merged, so a network with a stronger one of another name in between is listed again.
\<close>

theorem scan_list_repeats: "\<exists>aps. \<not> distinct (map ap_ssid (scan_list aps))"
proof -
  let ?ap = "\<lambda>s r. \<lparr>ap_ssid = s, ap_rssi = r, ap_secure = True\<rparr>"
  have "\<not> distinct (map ap_ssid (scan_list [?ap ''home'' (- 50), ?ap ''office'' (- 55), ?ap ''home'' (- 60)]))"
    by code_simp
  then show ?thesis by blast
qed

end
