(* ===== verification/Usb_Host.thy ===== *)
theory Usb_Host
  imports Usb_Serial Control_Base
begin

text \<open>
  firmware/src/usb_host.rs: the USB serial device. The driver below (ESP-IDF's CDC-ACM host driver, in C) opens
  devices, sends requests and calls back; its results and callbacks are the events of the model. A handle is a number;
  the calls of \<^verbatim>\<open>cdc_acm_host_close\<close> and the control requests are recorded. Every critical section of the open thread, of
  the writers and of the callbacks is one step.
\<close>

section \<open>Drivers\<close>

definition OUT_BUFFER :: nat where "OUT_BUFFER = 512"
definition IN_BUFFER :: nat where "IN_BUFFER = 512"
definition RX_QUEUE_LIMIT :: nat where "RX_QUEUE_LIMIT = 16 * 1024"
definition VID_FTDI :: u16 where "VID_FTDI = 0x0403"
definition VID_SILABS :: u16 where "VID_SILABS = 0x10c4"
definition VID_WCH :: u16 where "VID_WCH = 0x1a86"
definition PID_CH34X :: "u16 list" where "PID_CH34X = [0x5512, 0x5523, 0x5584, 0x7522, 0x7523]"

datatype driver = Cdc | Ftdi nat ftdi_chip | Cp210x | Ch34x

fun driver_name :: "driver \<Rightarrow> string" where
  "driver_name Cdc = ''CDC ACM''"
| "driver_name (Ftdi _ _) = ''FTDI''"
| "driver_name Cp210x = ''CP210x''"
| "driver_name Ch34x = ''CH34x''"

definition ftdi_for :: "u16 \<Rightarrow> driver" where
  "ftdi_for bcd_device = Ftdi 64 (from_bcd_device bcd_device)"

definition driver_parse :: "string \<Rightarrow> driver option option" where
  "driver_parse name =
     (if name = ''auto'' then Some None
      else if name = ''cdc'' then Some (Some Cdc)
      else if name = ''ftdi'' then Some (Some (Ftdi 64 (from_bcd_device 0x0800)))
      else if name = ''cp210x'' then Some (Some Cp210x)
      else if name = ''ch34x'' then Some (Some Ch34x)
      else None)"

definition driver_detect :: "u16 \<Rightarrow> u16 \<Rightarrow> u16 \<Rightarrow> driver" where
  "driver_detect vid pid bcd_device =
     (if vid = VID_FTDI then ftdi_for bcd_device
      else if vid = VID_SILABS then Cp210x
      else if vid = VID_WCH \<and> pid \<in> set PID_CH34X then Ch34x
      else Cdc)"

fun driver_refine :: "u16 \<Rightarrow> driver \<Rightarrow> driver" where
  "driver_refine bcd_device (Ftdi _ _) = ftdi_for bcd_device"
| "driver_refine bcd_device d = d"

section \<open>Control requests\<close>

definition FTDI_REQ_TYPE_OUT :: u8 where "FTDI_REQ_TYPE_OUT = 0x40"
definition FTDI_SIO_RESET :: u8 where "FTDI_SIO_RESET = 0x00"
definition FTDI_SIO_SET_MODEM_CTRL :: u8 where "FTDI_SIO_SET_MODEM_CTRL = 0x01"
definition FTDI_SIO_SET_FLOW_CTRL :: u8 where "FTDI_SIO_SET_FLOW_CTRL = 0x02"
definition FTDI_SIO_SET_BAUDRATE :: u8 where "FTDI_SIO_SET_BAUDRATE = 0x03"
definition FTDI_SIO_SET_DATA :: u8 where "FTDI_SIO_SET_DATA = 0x04"
definition FTDI_SIO_SET_LATENCY_TIMER :: u8 where "FTDI_SIO_SET_LATENCY_TIMER = 0x09"
definition FTDI_LATENCY_MS :: u16 where "FTDI_LATENCY_MS = 2"
definition CP210X_REQ_TYPE_OUT :: u8 where "CP210X_REQ_TYPE_OUT = 0x41"
definition CP210X_IFC_ENABLE :: u8 where "CP210X_IFC_ENABLE = 0x00"
definition CP210X_SET_LINE_CTL :: u8 where "CP210X_SET_LINE_CTL = 0x03"
definition CP210X_SET_MHS :: u8 where "CP210X_SET_MHS = 0x07"
definition CP210X_SET_BAUDRATE :: u8 where "CP210X_SET_BAUDRATE = 0x1e"
definition CH34X_REQ_TYPE_OUT :: u8 where "CH34X_REQ_TYPE_OUT = 0x40"
definition CH34X_REQ_TYPE_IN :: u8 where "CH34X_REQ_TYPE_IN = 0xc0"
definition CH34X_REQ_READ_VERSION :: u8 where "CH34X_REQ_READ_VERSION = 0x5f"
definition CH34X_REQ_WRITE_REG :: u8 where "CH34X_REQ_WRITE_REG = 0x9a"
definition CH34X_REQ_SERIAL_INIT :: u8 where "CH34X_REQ_SERIAL_INIT = 0xa1"
definition CH34X_REQ_MODEM_CTRL :: u8 where "CH34X_REQ_MODEM_CTRL = 0xa4"
definition CH34X_REG_PRESCALER :: u16 where "CH34X_REG_PRESCALER = 0x12"
definition CH34X_REG_DIVISOR :: u16 where "CH34X_REG_DIVISOR = 0x13"
definition CH34X_REG_LCR :: u16 where "CH34X_REG_LCR = 0x18"
definition CH34X_REG_LCR2 :: u16 where "CH34X_REG_LCR2 = 0x25"
definition CH34X_LCR_8N1 :: u16 where "CH34X_LCR_8N1 = 0x80 OR 0x40 OR 0x03"
definition CH34X_MCR_DTR_RTS :: u16 where "CH34X_MCR_DTR_RTS = push_bit 6 1 OR push_bit 5 1"

datatype usb_request =
    LineCoding u32 u8 u8 u8
  | LineState bool bool
  | Custom u8 u8 u16 u16 bytes

definition configure_cp210x :: "u32 \<Rightarrow> u8 \<Rightarrow> usb_request list" where
  "configure_cp210x baud interface =
     (let send = (\<lambda>req value data. Custom CP210X_REQ_TYPE_OUT req value (ucast interface) data)
      in [send CP210X_IFC_ENABLE 1 [], send CP210X_SET_BAUDRATE 0 (u32_to_le baud),
          send CP210X_SET_LINE_CTL 0x0800 [], send CP210X_SET_MHS 0x0303 []])"

text \<open>The first request reads two bytes; \<open>None\<close> is the panic of the divisor search on an empty table.\<close>

definition configure_ch34x :: "u32 \<Rightarrow> usb_request list option" where
  "configure_ch34x baud =
     (let out = (\<lambda>req value index. Custom CH34X_REQ_TYPE_OUT req value index [])
      in map_option (\<lambda>regs.
           [Custom CH34X_REQ_TYPE_IN CH34X_REQ_READ_VERSION 0 0 [0, 0],
            out CH34X_REQ_SERIAL_INIT 0 0,
            out CH34X_REQ_WRITE_REG (push_bit 8 CH34X_REG_DIVISOR OR CH34X_REG_PRESCALER) regs,
            out CH34X_REQ_WRITE_REG (push_bit 8 CH34X_REG_LCR2 OR CH34X_REG_LCR) CH34X_LCR_8N1,
            out CH34X_REQ_MODEM_CTRL (NOT CH34X_MCR_DTR_RTS) 0]) (ch34x_baud_registers baud))"

definition configure_ftdi :: "u32 \<Rightarrow> u8 \<Rightarrow> ftdi_chip \<Rightarrow> usb_request list" where
  "configure_ftdi baud interface chip =
     (let port = port_index chip interface; req = ftdi_baud_request baud chip interface
      in map (\<lambda>(r, value, index). Custom FTDI_REQ_TYPE_OUT r value index [])
           [(FTDI_SIO_RESET, 0, port), (FTDI_SIO_SET_FLOW_CTRL, 0, port),
            (FTDI_SIO_SET_BAUDRATE, fb_value req, fb_index req), (FTDI_SIO_SET_DATA, 0x0008, port),
            (FTDI_SIO_SET_LATENCY_TIMER, FTDI_LATENCY_MS, port), (FTDI_SIO_SET_MODEM_CTRL, 0x0303, port)])"

text \<open>The requests of a driver; what the device answers is only reported, so configuring never fails.\<close>

fun configure :: "u32 \<Rightarrow> u8 \<Rightarrow> driver \<Rightarrow> usb_request list option" where
  "configure baud interface Cdc = Some [LineCoding baud 0 0 8, LineState True True]"
| "configure baud interface (Ftdi _ chip) = Some (configure_ftdi baud interface chip)"
| "configure baud interface Cp210x = Some (configure_cp210x baud interface)"
| "configure baud interface Ch34x = configure_ch34x baud"

lemma configure_total: "configure baud interface d \<noteq> None"
  using ch34x_best_clock [of baud] by (cases d) (auto simp: configure_ch34x_def Let_def)

section \<open>State\<close>

text \<open>The position of the open thread and the writers that are inside their transfer, with the handle each is using.\<close>

datatype opener = OpIdle | Opened nat | Configuring nat

record usb =
  us_handle :: "nat option"
  us_in_use :: bool
  us_pending_close :: "nat option"
  us_rx :: bytes
  us_attached :: bool
  us_vid :: u32
  us_pid :: u32
  us_bcd_device :: u32
  us_baud :: u32
  us_interface :: u8
  us_driver :: driver
  us_forced :: "driver option"
  us_opener :: opener
  us_writers :: "nat list"
  us_opened :: "nat list"
  us_closed :: "nat list"
  us_requests :: "(nat \<times> usb_request) list"

definition usb_start :: "u32 \<Rightarrow> u8 \<Rightarrow> driver option \<Rightarrow> usb" where
  "usb_start baud interface forced =
     \<lparr>us_handle = None, us_in_use = False, us_pending_close = None, us_rx = [], us_attached = False, us_vid = 0, us_pid = 0,
      us_bcd_device = 0, us_baud = baud, us_interface = interface, us_driver = Cdc, us_forced = forced, us_opener = OpIdle,
      us_writers = [], us_opened = [], us_closed = [], us_requests = []\<rparr>"

definition host_close :: "nat \<Rightarrow> usb \<Rightarrow> usb" where
  "host_close h u = u\<lparr>us_closed := us_closed u @ [h]\<rparr>"

section \<open>Callbacks\<close>

text \<open>FTDI chips send two status bytes at the head of every packet.\<close>

definition strip_status :: "nat \<Rightarrow> bytes \<Rightarrow> bytes" where
  "strip_status packet_size raw = concat (map (drop 2) (chunks packet_size raw))"

definition payload :: "driver \<Rightarrow> bytes \<Rightarrow> bytes" where
  "payload d raw = (case d of Ftdi packet_size _ \<Rightarrow> strip_status packet_size raw | _ \<Rightarrow> raw)"

definition push_rx :: "bytes \<Rightarrow> bytes \<Rightarrow> bytes" where
  "push_rx data q =
     (let q = (if RX_QUEUE_LIMIT < length q + length data
               then drop (min (length q + length data - RX_QUEUE_LIMIT) (length q)) q else q)
      in q @ data)"

definition data_cb :: "bytes \<Rightarrow> usb \<Rightarrow> usb" where
  "data_cb raw u =
     (let data = payload (us_driver u) raw
      in if data = [] then u else u\<lparr>us_rx := push_rx data (us_rx u)\<rparr>)"

definition disconnect_cb :: "usb \<Rightarrow> usb" where
  "disconnect_cb u =
     (let u = u\<lparr>us_attached := False\<rparr>
      in case us_handle u of
           None \<Rightarrow> u
         | Some h \<Rightarrow>
             (let u = u\<lparr>us_handle := None\<rparr>
              in if us_in_use u then u\<lparr>us_pending_close := Some h\<rparr> else host_close h u))"

definition new_dev_cb :: "u16 \<Rightarrow> u16 \<Rightarrow> u16 \<Rightarrow> usb \<Rightarrow> usb" where
  "new_dev_cb vid pid bcd u = u\<lparr>us_vid := ucast vid, us_pid := ucast pid, us_bcd_device := ucast bcd\<rparr>"

section \<open>The open thread\<close>

text \<open>\<^verbatim>\<open>cdc_acm_host_open_v2\<close> returned a handle; the thread only tries while nothing is attached.\<close>

definition open_device :: "nat \<Rightarrow> usb \<Rightarrow> usb" where
  "open_device h u =
     (if us_opener u = OpIdle \<and> \<not> us_attached u then u\<lparr>us_opener := Opened h, us_opened := us_opened u @ [h]\<rparr> else u)"

text \<open>The handle is published before the device is configured, marked in use.\<close>

definition publish_handle :: "usb \<Rightarrow> usb" where
  "publish_handle u =
     (case us_opener u of
        Opened h \<Rightarrow>
          (let u = (case us_pending_close u of
                      Some stale \<Rightarrow> host_close stale (u\<lparr>us_pending_close := None\<rparr>)
                    | None \<Rightarrow> u)
           in u\<lparr>us_handle := Some h, us_in_use := True, us_opener := Configuring h\<rparr>)
      | _ \<Rightarrow> u)"

definition choose_driver :: "usb \<Rightarrow> driver" where
  "choose_driver u =
     (let vid = ucast (us_vid u); pid = ucast (us_pid u); bcd = ucast (us_bcd_device u)
      in case us_forced u of Some d \<Rightarrow> driver_refine bcd d | None \<Rightarrow> driver_detect vid pid bcd)"

definition configure_device :: "usb \<Rightarrow> usb" where
  "configure_device u =
     (case us_opener u of
        Configuring h \<Rightarrow>
          (let d = choose_driver u
           in case configure (us_baud u) (us_interface u) d of
                Some rs \<Rightarrow> u\<lparr>us_driver := d, us_requests := us_requests u @ map (Pair h) rs\<rparr>
              | None \<Rightarrow> u\<lparr>us_driver := d\<rparr>)
      | _ \<Rightarrow> u)"

definition finish_open :: "usb \<Rightarrow> usb" where
  "finish_open u =
     (case us_opener u of
        Configuring _ \<Rightarrow>
          (let u = u\<lparr>us_in_use := False, us_opener := OpIdle\<rparr>
           in case us_pending_close u of
                Some h \<Rightarrow> host_close h (u\<lparr>us_pending_close := None, us_handle := None\<rparr>)
              | None \<Rightarrow> u\<lparr>us_rx := [], us_attached := True\<rparr>)
      | _ \<Rightarrow> u)"

section \<open>Reading and writing\<close>

definition usb_read :: "nat \<Rightarrow> usb \<Rightarrow> bytes \<times> usb" where
  "usb_read cap u = (take cap (us_rx u), u\<lparr>us_rx := drop cap (us_rx u)\<rparr>)"

datatype write_result = WriteOk | WriteBusy | WriteDetached | WriteFailed

definition write_begin :: "usb \<Rightarrow> (write_result + nat) \<times> usb" where
  "write_begin u =
     (if us_in_use u then (Inl WriteBusy, u)
      else case us_handle u of
        Some h \<Rightarrow> (Inr h, u\<lparr>us_in_use := True, us_writers := h # us_writers u\<rparr>)
      | None \<Rightarrow> (Inl WriteDetached, u))"

text \<open>The transfers, in pieces of the buffer's size, up to the first that fails; \<open>tx\<close> is the driver's result.\<close>

fun transfer :: "(bytes \<Rightarrow> bool) \<Rightarrow> bytes list \<Rightarrow> bytes \<times> write_result" where
  "transfer tx [] = ([], WriteOk)"
| "transfer tx (c # cs) =
     (if tx c then (let (b, r) = transfer tx cs in (c @ b, r)) else ([], WriteFailed))"

definition usb_transfer :: "(bytes \<Rightarrow> bool) \<Rightarrow> bytes \<Rightarrow> bytes \<times> write_result" where
  "usb_transfer tx data = transfer tx (chunks OUT_BUFFER data)"

definition write_end :: "nat \<Rightarrow> write_result \<Rightarrow> usb \<Rightarrow> write_result \<times> usb" where
  "write_end h r u =
     (if h \<in> set (us_writers u) then
        (let u = u\<lparr>us_in_use := False, us_writers := remove1 h (us_writers u)\<rparr>
         in case us_pending_close u of
              Some p \<Rightarrow> (WriteDetached, host_close p (u\<lparr>us_pending_close := None\<rparr>))
            | None \<Rightarrow> (r, u))
      else (r, u))"

section \<open>Reports\<close>

text \<open>The formats \<^verbatim>\<open>{:x}\<close> and \<^verbatim>\<open>{:04x}\<close>.\<close>

function hex_string :: "nat \<Rightarrow> string" where
  "hex_string n =
     (if n < 16 then [''0123456789abcdef'' ! n] else hex_string (n div 16) @ [''0123456789abcdef'' ! (n mod 16)])"
  by pat_completeness auto
termination
  by (relation "measure id") auto

declare hex_string.simps [simp del]

definition hex4 :: "u32 \<Rightarrow> string" where
  "hex4 w = (let s = hex_string (unat w) in replicate (4 - length s) (CHR ''0'') @ s)"

definition usb_describe :: "usb \<Rightarrow> string" where
  "usb_describe u =
     (if us_attached u
      then driver_name (us_driver u) @ '' '' @ hex4 (us_vid u) @ '':'' @ hex4 (us_pid u) @ '' if''
        @ dec_string (unat (us_interface u))
      else ''detached'')"

definition speed_name :: "nat \<Rightarrow> string" where
  "speed_name speed = (if speed = 0 then ''high'' else if speed = 1 then ''full'' else if speed = 2 then ''low'' else ''?'')"

text \<open>The arguments are the values of the registers HPRT, RTC\_CNTL\_USB\_CONF and USB\_WRAP\_OTG\_CONF.\<close>

definition root_port_state :: "u32 \<Rightarrow> u32 \<Rightarrow> u32 \<Rightarrow> string" where
  "root_port_state v rtc wrap =
     (let b = (\<lambda>n w :: u32. dec_string (unat (drop_bit n w AND 1))); flag = (\<lambda>c. if c then ''1'' else ''0'');
          conn = v AND 1 \<noteq> 0; enabled = v AND push_bit 2 1 \<noteq> 0; power = v AND push_bit 12 1 \<noteq> 0;
          speed = unat (drop_bit 17 v AND 0x3)
      in concat
          [''port power='', flag power, '' connected='', flag conn, '' enabled='', flag enabled, '' speed='', speed_name speed,
           ''; rtc_usb_conf=0x'', hex_string (unat rtc), '' (sw_hw_sel='', b 20 rtc, '' sw_sel='', b 19 rtc,
           '') otg_conf=0x'', hex_string (unat wrap), '' (phy_sel='', b 2 wrap, '' pad_en='', b 18 wrap, '' pull_ovr='', b 12 wrap,
           '' dp_pu='', b 13 wrap, '' dp_pd='', b 14 wrap, '' dm_pu='', b 15 wrap, '' dm_pd='', b 16 wrap, '')''])"

end
