(* ===== verification/Usb_Host_Props.thy ===== *)
theory Usb_Host_Props
  imports Usb_Host "HOL-Library.Multiset"
begin

text \<open>
  Properties of the USB serial device (firmware/src/usb_host.rs): the life of the handles of the driver below under every
  interleaving of the open thread, the writers and the callbacks, and the bytes received from an FTDI bridge.
\<close>

section \<open>Interleavings\<close>

text \<open>
  One critical section or callback each. A read without data within its time limit returns nothing and changes nothing, so
  it is \<open>EvRead 0\<close>.
\<close>

datatype usb_event =
    EvNewDev u16 u16 u16
  | EvOpen nat
  | EvPublish
  | EvConfigure
  | EvFinish
  | EvData bytes
  | EvDisconnect
  | EvRead nat
  | EvWriteBegin
  | EvWriteEnd nat write_result

fun usb_step :: "usb_event \<Rightarrow> usb \<Rightarrow> usb" where
  "usb_step (EvNewDev vid pid bcd) u = new_dev_cb vid pid bcd u"
| "usb_step (EvOpen h) u = open_device h u"
| "usb_step EvPublish u = publish_handle u"
| "usb_step EvConfigure u = configure_device u"
| "usb_step EvFinish u = finish_open u"
| "usb_step (EvData raw) u = data_cb raw u"
| "usb_step EvDisconnect u = disconnect_cb u"
| "usb_step (EvRead cap) u = snd (usb_read cap u)"
| "usb_step EvWriteBegin u = snd (write_begin u)"
| "usb_step (EvWriteEnd h r) u = snd (write_end h r u)"

text \<open>
  What the driver promises: a handle it returns is a new one (a number stands for one opening of a device), and it delivers at most
  one of its buffers at a time.
\<close>

fun driver_event :: "usb \<Rightarrow> usb_event \<Rightarrow> bool" where
  "driver_event u (EvOpen h) \<longleftrightarrow> h \<notin> set (us_opened u)"
| "driver_event u (EvData raw) \<longleftrightarrow> length raw \<le> IN_BUFFER"
| "driver_event u _ \<longleftrightarrow> True"

text \<open>The open thread publishes its handle while a transfer on an earlier one is still in flight.\<close>

fun overlaps :: "usb \<Rightarrow> usb_event \<Rightarrow> bool" where
  "overlaps u EvPublish \<longleftrightarrow> us_in_use u \<and> us_opener u \<noteq> OpIdle"
| "overlaps u _ \<longleftrightarrow> False"

text \<open>The states of every interleaving, with whether none of its steps overlapped a transfer in this way.\<close>

inductive usb_reach :: "usb \<Rightarrow> bool \<Rightarrow> usb \<Rightarrow> bool" for u0 where
  start: "usb_reach u0 True u0"
| step: "usb_reach u0 clean u \<Longrightarrow> driver_event u e \<Longrightarrow> usb_reach u0 (clean \<and> \<not> overlaps u e) (usb_step e u)"

text \<open>The handles that threads are sending on, and those the device state will close or pass on.\<close>

definition handles_in_use :: "usb \<Rightarrow> nat list" where
  "handles_in_use u = us_writers u @ (case us_opener u of Configuring h \<Rightarrow> [h] | _ \<Rightarrow> [])"

definition handles_held :: "usb \<Rightarrow> nat list" where
  "handles_held u =
     (case us_handle u of Some h \<Rightarrow> [h] | None \<Rightarrow> []) @ (case us_pending_close u of Some h \<Rightarrow> [h] | None \<Rightarrow> [])
     @ (case us_opener u of Opened h \<Rightarrow> [h] | _ \<Rightarrow> [])"

definition users_ok :: "usb \<Rightarrow> bool" where
  "users_ok u \<longleftrightarrow>
     (us_in_use u \<longleftrightarrow> handles_in_use u \<noteq> []) \<and> length (handles_in_use u) \<le> 1
     \<and> (\<forall>h \<in> set (handles_in_use u). us_handle u = Some h \<or> us_pending_close u = Some h)
     \<and> (us_pending_close u \<noteq> None \<longrightarrow> us_in_use u \<and> us_handle u = None)"

definition attach_ok :: "usb \<Rightarrow> bool" where
  "attach_ok u \<longleftrightarrow>
     (us_attached u \<longrightarrow> us_handle u \<noteq> None \<and> us_opener u = OpIdle)
     \<and> (\<not> us_attached u \<longrightarrow> us_handle u \<noteq> None \<longrightarrow> (\<exists>h. us_opener u = Configuring h))"

definition handles_ok :: "usb \<Rightarrow> bool" where
  "handles_ok u \<longleftrightarrow> distinct (us_opened u) \<and> mset (us_opened u) = mset (us_closed u @ handles_held u)"

definition usb_inv :: "usb \<Rightarrow> bool" where
  "usb_inv u \<longleftrightarrow> users_ok u \<and> attach_ok u \<and> handles_ok u \<and> length (us_rx u) \<le> RX_QUEUE_LIMIT"

text \<open>What is left when a publication did overlap a transfer: the account of the handles.\<close>

definition ledger_inv :: "usb \<Rightarrow> bool" where
  "ledger_inv u \<longleftrightarrow>
     (us_pending_close u \<noteq> None \<longrightarrow> us_handle u = None) \<and> (us_opener u \<noteq> OpIdle \<longrightarrow> \<not> us_attached u)
     \<and> (\<not> us_attached u \<longrightarrow> (\<forall>h. us_opener u \<noteq> Configuring h) \<longrightarrow> us_handle u = None)
     \<and> handles_ok u \<and> length (us_rx u) \<le> RX_QUEUE_LIMIT"

lemmas usb_inv_defs = usb_inv_def users_ok_def attach_ok_def handles_ok_def handles_in_use_def handles_held_def

lemma usb_inv_start: "usb_inv (usb_start baud interface forced)"
  by (simp add: usb_inv_defs usb_start_def)

section \<open>Every step keeps the invariant\<close>

lemma push_rx_newest:
  assumes "length d \<le> RX_QUEUE_LIMIT"
  shows "push_rx d q = drop (length (q @ d) - RX_QUEUE_LIMIT) (q @ d)"
  using assms by (auto simp: push_rx_def Let_def min_def)

lemma inv_ledger: "usb_inv u \<Longrightarrow> ledger_inv u"
  by (auto simp: usb_inv_def ledger_inv_def users_ok_def attach_ok_def)

lemma inv_open:
  assumes "usb_inv u" "h \<notin> set (us_opened u)"
  shows "usb_inv (open_device h u)"
  using assms by (auto simp: usb_inv_defs open_device_def split: if_splits opener.splits)

lemma inv_publish:
  assumes "usb_inv u" "\<not> us_in_use u \<or> us_opener u = OpIdle"
  shows "usb_inv (publish_handle u)"
  using assms
  by (auto simp: usb_inv_defs publish_handle_def Let_def host_close_def split: if_splits opener.splits option.splits)

lemma inv_finish:
  assumes "usb_inv u"
  shows "usb_inv (finish_open u)"
  using assms
  by (auto simp: usb_inv_defs finish_open_def Let_def host_close_def split: if_splits opener.splits option.splits)

lemma inv_disconnect:
  assumes "usb_inv u"
  shows "usb_inv (disconnect_cb u)"
  using assms
  by (auto simp: usb_inv_defs disconnect_cb_def Let_def host_close_def split: if_splits opener.splits option.splits)

lemma inv_configure: "usb_inv u \<Longrightarrow> usb_inv (configure_device u)"
  by (auto simp: usb_inv_defs configure_device_def Let_def split: opener.splits option.splits)

lemma inv_new_dev: "usb_inv u \<Longrightarrow> usb_inv (new_dev_cb vid pid bcd u)"
  by (auto simp: usb_inv_defs new_dev_cb_def)

lemma inv_write_begin: "usb_inv u \<Longrightarrow> usb_inv (snd (write_begin u))"
  by (auto simp: usb_inv_defs write_begin_def split: if_splits opener.splits option.splits)

lemma sole_writer:
  assumes "usb_inv u" "h \<in> set (us_writers u)"
  shows "us_writers u = [h]" "us_opener u = OpIdle \<or> (\<exists>k. us_opener u = Opened k)"
proof -
  obtain w ws where w: "us_writers u = w # ws" using assms(2) by (cases "us_writers u") auto
  have "length (handles_in_use u) \<le> 1" using assms(1) by (simp add: usb_inv_def users_ok_def)
  then show "us_writers u = [h]" "us_opener u = OpIdle \<or> (\<exists>k. us_opener u = Opened k)"
    using w assms(2) by (cases "us_opener u"; simp add: handles_in_use_def)+
qed

lemma inv_write_end:
  assumes "usb_inv u"
  shows "usb_inv (snd (write_end h r u))"
proof (cases "h \<in> set (us_writers u)")
  case True
  note sole_writer [OF assms True]
  then show ?thesis using assms
    by (auto simp: usb_inv_defs write_end_def Let_def host_close_def split: if_splits option.splits)
next
  case False
  then show ?thesis using assms by (simp add: write_end_def)
qed

lemma inv_read: "usb_inv u \<Longrightarrow> usb_inv (snd (usb_read cap u))"
  by (auto simp: usb_inv_defs usb_read_def)

text \<open>The data callback is given at most one buffer of the driver.\<close>

lemma concat_drop_le: "length (concat (map (drop n) xss)) \<le> length (concat xss)"
  by (induction xss) auto

lemma strip_status_le: "length (strip_status n raw) \<le> length raw"
proof (cases "n = 0")
  case True
  then show ?thesis by (simp add: strip_status_def chunks.simps)
next
  case False
  then show ?thesis
    using concat_drop_le [of 2 "chunks n raw"] by (simp add: strip_status_def chunks_concat del: length_concat)
qed

lemma payload_le: "length (payload d raw) \<le> length raw"
  by (cases d) (simp_all add: payload_def strip_status_le)

lemma push_rx_le: "length d \<le> RX_QUEUE_LIMIT \<Longrightarrow> length (push_rx d q) \<le> RX_QUEUE_LIMIT"
  by (simp add: push_rx_newest)

lemma payload_fits:
  assumes "length raw \<le> IN_BUFFER"
  shows "length (push_rx (payload d raw) q) \<le> RX_QUEUE_LIMIT"
  using payload_le [of d raw] assms by (intro push_rx_le) (simp add: IN_BUFFER_def RX_QUEUE_LIMIT_def)

lemma inv_data: "usb_inv u \<Longrightarrow> length raw \<le> IN_BUFFER \<Longrightarrow> usb_inv (data_cb raw u)"
  by (auto simp: usb_inv_defs data_cb_def Let_def payload_fits)

lemma inv_step: "usb_inv u \<Longrightarrow> driver_event u e \<Longrightarrow> \<not> overlaps u e \<Longrightarrow> usb_inv (usb_step e u)"
  by (cases e) (simp_all add: inv_new_dev inv_open inv_publish inv_configure inv_finish inv_data inv_disconnect inv_read
      inv_write_begin inv_write_end)

lemmas ledger_defs = ledger_inv_def handles_ok_def handles_held_def

lemma ledger_open_thread:
  assumes "ledger_inv u"
  shows "h \<notin> set (us_opened u) \<Longrightarrow> ledger_inv (open_device h u)" "ledger_inv (publish_handle u)" "ledger_inv (configure_device u)"
    "ledger_inv (finish_open u)"
proof -
  show "h \<notin> set (us_opened u) \<Longrightarrow> ledger_inv (open_device h u)"
    using assms by (auto simp: ledger_defs open_device_def split: if_splits opener.splits)
  show "ledger_inv (publish_handle u)"
    using assms by (auto simp: ledger_defs publish_handle_def host_close_def Let_def split: opener.splits option.splits)
  show "ledger_inv (configure_device u)"
    using assms by (auto simp: ledger_defs configure_device_def Let_def split: opener.splits option.splits)
  show "ledger_inv (finish_open u)"
    using assms by (auto simp: ledger_defs finish_open_def host_close_def Let_def split: opener.splits option.splits)
qed

lemma ledger_others:
  assumes "ledger_inv u"
  shows "ledger_inv (new_dev_cb vid pid bcd u)" "length raw \<le> IN_BUFFER \<Longrightarrow> ledger_inv (data_cb raw u)"
    "ledger_inv (disconnect_cb u)" "ledger_inv (snd (usb_read cap u))" "ledger_inv (snd (write_begin u))"
    "ledger_inv (snd (write_end h r u))"
proof -
  show "ledger_inv (new_dev_cb vid pid bcd u)" "ledger_inv (snd (usb_read cap u))"
    using assms by (auto simp: ledger_defs new_dev_cb_def usb_read_def)
  show "length raw \<le> IN_BUFFER \<Longrightarrow> ledger_inv (data_cb raw u)"
    using assms by (auto simp: ledger_defs data_cb_def Let_def payload_fits)
  show "ledger_inv (disconnect_cb u)"
    using assms by (auto simp: ledger_defs disconnect_cb_def host_close_def Let_def split: option.splits)
  show "ledger_inv (snd (write_begin u))"
    using assms by (auto simp: ledger_defs write_begin_def split: option.splits)
  show "ledger_inv (snd (write_end h r u))"
    using assms by (auto simp: ledger_defs write_end_def host_close_def Let_def split: option.splits)
qed

lemma ledger_step: "ledger_inv u \<Longrightarrow> driver_event u e \<Longrightarrow> ledger_inv (usb_step e u)"
  by (cases e) (simp_all add: ledger_open_thread ledger_others)

lemma usb_reach_inv: "usb_reach u0 clean u \<Longrightarrow> usb_inv u0 \<Longrightarrow> ledger_inv u \<and> (clean \<longrightarrow> usb_inv u)"
  by (induction rule: usb_reach.induct) (auto simp: inv_step ledger_step inv_ledger)

lemma usb_inv_not_closed:
  assumes "usb_inv u" "h \<in> set (handles_in_use u)"
  shows "h \<notin> set (us_closed u)"
proof -
  have "h \<in> set (handles_held u)"
    using assms by (auto simp: usb_inv_def users_ok_def handles_held_def)
  moreover have "distinct (us_closed u @ handles_held u)"
    using assms(1) by (metis usb_inv_def handles_ok_def mset_eq_imp_distinct_iff)
  ultimately show ?thesis by auto
qed

section \<open>Handles\<close>

text \<open>
  C15: The account of the handles of firmware/src/usb_host.rs holds under every interleaving of the open thread, the writers and
  the callbacks, the driver returning a new handle for each opening and delivering at most one buffer at a time: every handle that
  was opened is closed exactly once or is still held (as the device's, waiting for its close, or about to be published), and not
  closed, so that none is lost and none is closed twice; and the receive queue stays within its limit. As long as moreover no
  handle was published while a transfer on an earlier one was in flight, the deferred close works: at most one thread sends on
  a device, no handle a thread is sending on is closed, and a device reported as attached has a handle.
\<close>

theorem usb_handles_safe:
  assumes "usb_reach (usb_start baud interface forced) clean u"
  shows "distinct (us_closed u @ handles_held u) \<and> set (us_opened u) = set (us_closed u @ handles_held u)
    \<and> length (us_rx u) \<le> RX_QUEUE_LIMIT
    \<and> (clean \<longrightarrow> length (handles_in_use u) \<le> 1 \<and> set (handles_in_use u) \<inter> set (us_closed u) = {}
         \<and> (us_attached u \<longrightarrow> us_handle u \<noteq> None))"
proof -
  have inv: "ledger_inv u" "clean \<Longrightarrow> usb_inv u" using usb_reach_inv [OF assms usb_inv_start] by auto
  have m: "distinct (us_opened u)" "mset (us_opened u) = mset (us_closed u @ handles_held u)"
    using inv(1) by (simp_all add: ledger_inv_def handles_ok_def)
  have "distinct (us_closed u @ handles_held u)" using m by (metis mset_eq_imp_distinct_iff)
  moreover have "set (us_opened u) = set (us_closed u @ handles_held u)" using m(2) by (metis set_mset_mset)
  moreover have "clean \<Longrightarrow> set (handles_in_use u) \<inter> set (us_closed u) = {}" using usb_inv_not_closed inv(2) by auto
  moreover have "clean \<Longrightarrow> length (handles_in_use u) \<le> 1 \<and> (us_attached u \<longrightarrow> us_handle u \<noteq> None)"
    using inv(2) by (simp add: usb_inv_def users_ok_def attach_ok_def)
  ultimately show ?thesis using inv(1) by (auto simp: ledger_inv_def)
qed

text \<open>
  A device that leaves during a write, with a second device behind it; then a third device that is published while a write to
  the second one is still in flight.
\<close>

definition demo_events :: "usb_event list" where
  "demo_events = [EvNewDev VID_SILABS 1 1, EvOpen 7, EvPublish, EvConfigure, EvFinish, EvData [1, 2, 3], EvWriteBegin,
     EvDisconnect, EvWriteEnd 7 WriteOk, EvOpen 8, EvPublish, EvConfigure, EvFinish, EvWriteBegin]"

definition demo_race :: "usb_event list" where
  "demo_race = [EvDisconnect, EvOpen 9, EvPublish, EvWriteEnd 8 WriteOk, EvDisconnect, EvFinish]"

fun usb_run :: "usb_event list \<Rightarrow> bool \<times> usb \<Rightarrow> (bool \<times> usb) option" where
  "usb_run [] s = Some s"
| "usb_run (e # es) (clean, u) = (if driver_event u e then usb_run es (clean \<and> \<not> overlaps u e, usb_step e u) else None)"

lemma usb_run_reach: "usb_run es (clean, u) = Some (clean', u') \<Longrightarrow> usb_reach u0 clean u \<Longrightarrow> usb_reach u0 clean' u'"
proof (induction es arbitrary: clean u)
  case (Cons e es)
  have d: "driver_event u e" using Cons.prems(1) by (auto split: if_splits)
  then show ?case using Cons.IH [of "clean \<and> \<not> overlaps u e" "usb_step e u"] Cons.prems usb_reach.step [OF Cons.prems(2) d] by simp
qed simp

definition demo_usb :: usb where
  "demo_usb = fold usb_step demo_events (usb_start 115200 0 None)"

definition demo_raced :: usb where
  "demo_raced = fold usb_step demo_race demo_usb"

lemma demo_usb_state:
  "usb_run demo_events (True, usb_start 115200 0 None) = Some (True, demo_usb)" "handles_in_use demo_usb = [8]" "us_closed demo_usb = [7]"
  "usb_run demo_race (True, demo_usb) = Some (False, demo_raced)" "us_closed demo_raced = [7, 8, 9]" "us_attached demo_raced"
  "us_handle demo_raced = None"
  by code_simp+

theorem usb_handles_safe_witness:
  "handles_in_use demo_usb = [8] \<and> us_closed demo_usb = [7] \<and> set (us_opened demo_usb) = set ([7] @ handles_held demo_usb)
   \<and> us_closed demo_raced = [7, 8, 9] \<and> set (us_opened demo_raced) = set ([7, 8, 9] @ handles_held demo_raced)
   \<and> us_attached demo_raced \<and> us_handle demo_raced = None"
proof -
  note r = usb_run_reach [OF demo_usb_state(1) usb_reach.start]
  from usb_handles_safe [OF r] usb_handles_safe [OF usb_run_reach [OF demo_usb_state(4) r]]
  show ?thesis using demo_usb_state by simp
qed

text \<open>
  C39: The close of a stale handle when the open thread publishes a new one (try_open) is not safe: when a device leaves while
  a write is in flight on its handle, and the open thread opens the next device before that write returns, the handle is
  closed while the write still uses it, and the end of that write then marks the new device as unused while it is still
  being configured, so that a second disconnect closes the new handle under the open thread too.
\<close>

theorem stale_handle_closed_in_use:
  assumes "us_handle u = Some h" "us_in_use u" "us_pending_close u = None" "us_opener u = OpIdle" "us_writers u = [h]"
  shows "let u1 = publish_handle (open_device h2 (disconnect_cb u));
             u2 = disconnect_cb (snd (write_end h r u1))
         in h \<in> set (us_writers u1) \<inter> set (us_closed u1) \<and> us_opener u2 = Configuring h2 \<and> h2 \<in> set (us_closed u2)"
  using assms
  by (simp add: Let_def publish_handle_def open_device_def disconnect_cb_def write_end_def host_close_def)

definition demo_writing :: usb where
  "demo_writing = fold usb_step [EvOpen 7, EvPublish, EvConfigure, EvFinish, EvWriteBegin] (usb_start 115200 0 None)"

theorem stale_handle_closed_in_use_witness:
  "us_handle demo_writing = Some 7 \<and> us_in_use demo_writing \<and> us_writers demo_writing = [7]
   \<and> (let u1 = publish_handle (open_device 8 (disconnect_cb demo_writing))
      in 7 \<in> set (us_writers u1) \<inter> set (us_closed u1))"
proof -
  have a: "us_handle demo_writing = Some 7" "us_in_use demo_writing" "us_pending_close demo_writing = None"
    "us_opener demo_writing = OpIdle" "us_writers demo_writing = [7]"
    by code_simp+
  from stale_handle_closed_in_use [OF a, of 8 WriteOk] show ?thesis unfolding Let_def using a(1,2,5) by blast
qed

text \<open>
  A disconnect between the opening of a device and the publication of its handle is lost: the device is reported as attached,
  with the handle of a device that is gone, and the open thread never tries again.
\<close>

theorem early_disconnect_lost:
  assumes "us_opener u = Opened h" "us_handle u = None" "us_pending_close u = None"
  defines "u' \<equiv> finish_open (configure_device (publish_handle (disconnect_cb u)))"
  shows "us_attached u' \<and> us_handle u' = Some h \<and> (\<forall>k. open_device k u' = u')"
proof -
  let ?p = "publish_handle (disconnect_cb u)" and ?q = "configure_device (publish_handle (disconnect_cb u))"
  have p: "us_opener ?p = Configuring h" "us_handle ?p = Some h" "us_pending_close ?p = None"
    using assms(1-3) by (simp_all add: publish_handle_def disconnect_cb_def Let_def)
  have q: "us_opener ?q = Configuring h" "us_handle ?q = Some h" "us_pending_close ?q = None"
    using p by (simp_all add: configure_device_def Let_def split: option.splits)
  then show ?thesis by (simp add: u'_def finish_open_def Let_def open_device_def)
qed

section \<open>Bytes received from an FTDI bridge\<close>

text \<open>A transfer of the bridge: packets of two status bytes and data, all but the last one full.\<close>

definition ftdi_transfer :: "(u8 \<times> u8) list \<Rightarrow> bytes list \<Rightarrow> bytes" where
  "ftdi_transfer st ds = concat (map2 (\<lambda>(m, l) d. m # l # d) st ds)"

fun ftdi_packets_ok :: "bytes list \<Rightarrow> bool" where
  "ftdi_packets_ok [] \<longleftrightarrow> True"
| "ftdi_packets_ok [d] \<longleftrightarrow> length d \<le> 62"
| "ftdi_packets_ok (d # ds) \<longleftrightarrow> length d = 62 \<and> ftdi_packets_ok ds"

lemma strip_status_transfer:
  assumes "length st = length ds" "ftdi_packets_ok ds"
  shows "strip_status 64 (ftdi_transfer st ds) = concat ds"
  using assms
proof (induction ds arbitrary: st rule: ftdi_packets_ok.induct)
  case 1
  then show ?case by (simp add: strip_status_def ftdi_transfer_def chunks.simps)
next
  case (2 d)
  then obtain m l where "st = [(m, l)]" by (cases st) auto
  then show ?case using 2
    by (simp add: strip_status_def ftdi_transfer_def) (simp add: chunks.simps)
next
  case (3 d d' ds)
  then obtain m l st' where st: "st = (m, l) # st'" "length st' = length (d' # ds)" by (cases st) auto
  have d: "length d = 62" using 3 by simp
  let ?rest = "ftdi_transfer st' (d' # ds)"
  have "chunks 64 (m # l # d @ ?rest) = (m # l # d) # chunks 64 ?rest"
    using d by (subst chunks.simps) simp
  moreover have "ftdi_transfer st (d # d' # ds) = m # l # d @ ?rest"
    using st(1) by (simp add: ftdi_transfer_def)
  ultimately have "strip_status 64 (ftdi_transfer st (d # d' # ds)) = d @ strip_status 64 ?rest"
    by (simp add: strip_status_def)
  then show ?case using 3 st by simp
qed

definition newest :: "nat \<Rightarrow> 'a list \<Rightarrow> 'a list" where
  "newest n xs = drop (length xs - n) xs"

lemma newest_newest: "newest n (newest n xs @ ys) = newest n (xs @ ys)"
proof (cases "length xs \<le> n")
  case True
  then show ?thesis by (simp add: newest_def)
next
  case False
  then have "length xs + length ys - (length xs - n + n) + (length xs - n) = length xs + length ys - n" by simp
  then show ?thesis by (simp add: newest_def)
qed

definition transfer_ok :: "(u8 \<times> u8) list \<times> bytes list \<Rightarrow> bool" where
  "transfer_ok t \<longleftrightarrow> length (fst t) = length (snd t) \<and> ftdi_packets_ok (snd t) \<and> length (concat (snd t)) \<le> IN_BUFFER"

lemma data_cb_ftdi:
  assumes "us_driver u = Ftdi 64 chip" "transfer_ok (st, ds)" "length (us_rx u) \<le> RX_QUEUE_LIMIT"
  shows "us_rx (data_cb (ftdi_transfer st ds) u) = newest RX_QUEUE_LIMIT (us_rx u @ concat ds)"
    "us_driver (data_cb (ftdi_transfer st ds) u) = Ftdi 64 chip"
proof -
  have p: "payload (us_driver u) (ftdi_transfer st ds) = concat ds"
    using assms(1,2) by (simp add: payload_def strip_status_transfer transfer_ok_def del: length_concat)
  have l: "length (concat ds) \<le> RX_QUEUE_LIMIT"
    using assms(2) by (simp add: transfer_ok_def IN_BUFFER_def RX_QUEUE_LIMIT_def del: length_concat)
  show "us_rx (data_cb (ftdi_transfer st ds) u) = newest RX_QUEUE_LIMIT (us_rx u @ concat ds)"
    using p l assms(3)
    by (simp add: data_cb_def Let_def push_rx_newest newest_def del: length_concat concat_eq_Nil_conv)
  show "us_driver (data_cb (ftdi_transfer st ds) u) = Ftdi 64 chip"
    using assms(1) by (simp add: data_cb_def Let_def)
qed

text \<open>
  C28: The data callback of firmware/src/usb_host.rs recovers the serial stream of an FTDI bridge: after any sequence of
  transfers of the bridge, each of packets of two status bytes and data with all packets but the last full, the receive
  queue holds the data bytes in order without any status byte, and when there are more than the limit of the queue, exactly
  the newest ones.
\<close>

theorem ftdi_stream_received:
  assumes "us_driver u = Ftdi 64 chip" "list_all transfer_ok ts" "length (us_rx u) \<le> RX_QUEUE_LIMIT"
  shows "us_rx (fold data_cb (map (\<lambda>(st, ds). ftdi_transfer st ds) ts) u)
    = newest RX_QUEUE_LIMIT (us_rx u @ concat (concat (map snd ts)))"
  using assms
proof (induction ts arbitrary: u)
  case Nil
  then show ?case by (simp add: newest_def)
next
  case (Cons t ts)
  obtain st ds where t: "t = (st, ds)" by (cases t)
  note step = data_cb_ftdi [of u chip st ds]
  have rx: "us_rx (data_cb (ftdi_transfer st ds) u) = newest RX_QUEUE_LIMIT (us_rx u @ concat ds)"
    "us_driver (data_cb (ftdi_transfer st ds) u) = Ftdi 64 chip"
    using step Cons.prems t by simp_all
  have "length (us_rx (data_cb (ftdi_transfer st ds) u)) \<le> RX_QUEUE_LIMIT"
    unfolding rx(1) by (simp add: newest_def del: length_concat)
  then have "us_rx (fold data_cb (map (\<lambda>(st, ds). ftdi_transfer st ds) ts) (data_cb (ftdi_transfer st ds) u))
      = newest RX_QUEUE_LIMIT (newest RX_QUEUE_LIMIT (us_rx u @ concat ds) @ concat (concat (map snd ts)))"
    using Cons.IH [OF rx(2)] Cons.prems(2) rx(1) by simp
  then show ?case by (simp add: t newest_newest)
qed

theorem ftdi_stream_received_witness:
  "us_rx (fold data_cb [ftdi_transfer [(1, 0x60), (1, 0x60)] [replicate 62 65, [10]], ftdi_transfer [(1, 0x60)] [[66]]]
     ((usb_start 115200 0 None)\<lparr>us_driver := ftdi_for 0x0800\<rparr>)) = replicate 62 65 @ [10, 66]"
proof -
  let ?u = "(usb_start 115200 0 None)\<lparr>us_driver := ftdi_for 0x0800\<rparr>"
  let ?ts = "[([(1, 0x60), (1, 0x60)], [replicate 62 65, [10]]), ([(1, 0x60)], [[66]])] :: ((u8 \<times> u8) list \<times> bytes list) list"
  have "us_driver ?u = Ftdi 64 (from_bcd_device 0x0800)" "length (us_rx ?u) \<le> RX_QUEUE_LIMIT"
    by (simp_all add: ftdi_for_def usb_start_def)
  moreover have "list_all transfer_ok ?ts" by (simp add: transfer_ok_def IN_BUFFER_def)
  ultimately show ?thesis
    using ftdi_stream_received [of ?u "from_bcd_device 0x0800" ?ts] by (simp add: newest_def usb_start_def RX_QUEUE_LIMIT_def)
qed

end
