(* ===== verification/Bridge.thy ===== *)
theory Bridge
  imports Netstack Usb_Host
begin

text \<open>
  firmware/src/bridge.rs: the bridge between one TCP client on the tailnet and the USB serial device, over the models of the
  TCP endpoint and of the device. Three threads run: the accept thread, the main thread, which serves one client at a time,
  and during a session a thread that forwards what the device sends. The position of each thread is part of the state, and
  every access to shared state is one step. \<open>br_taken\<close>, \<open>br_log\<close> record what a session did.
\<close>

section \<open>State\<close>

datatype accept_pos = AcListen | AcGot nat | AcReject nat bytes | AcClose nat | AcSend nat | AcEnded

datatype main_pos =
    MnRecv
  | MnRead nat
  | MnWrite nat bytes
  | MnSend nat bytes nat
  | MnEnd nat bytes nat bytes write_result
  | MnStop nat
  | MnWait nat
  | MnFree nat
  | MnFailed nat

datatype rx_pos = RxOff | RxTop nat | RxRead nat | RxWrite nat bytes | RxCheck nat | RxEnd nat

record 'w bridge =
  br_net :: "'w netstack"
  br_usb :: usb
  br_listener :: nat
  br_busy :: bool
  br_queue :: "nat list"
  br_accept :: accept_pos
  br_main :: main_pos
  br_rx :: rx_pos
  br_stop :: bool
  br_rx_done :: bool
  br_dropped_warned :: bool
  br_taken :: bytes
  br_log :: "(bytes \<times> bytes \<times> write_result) list"

definition bridge_run :: "u16 \<Rightarrow> 'w netstack \<Rightarrow> usb \<Rightarrow> 'w bridge" where
  "bridge_run port net serial =
     (case listen port net of
        (l, net) \<Rightarrow>
          \<lparr>br_net = net, br_usb = serial, br_listener = l, br_busy = False, br_queue = [], br_accept = AcListen, br_main = MnRecv,
           br_rx = RxOff, br_stop = False, br_rx_done = False, br_dropped_warned = False, br_taken = [], br_log = []\<rparr>)"

section \<open>The accept thread\<close>

definition busy_text :: bytes where
  "busy_text = map (\<lambda>c. word_of_nat (of_char c)) (''busy: another client is connected'' @ [CHR 0x0D, CHR 0x0A])"

text \<open>
  \<^verbatim>\<open>BUSY.swap\<close>, the rejection and the hand-over. The channel holds one stream; sending fails when the main thread is gone,
  which drops the stream and the listener.
\<close>

definition accept_step :: "instant \<Rightarrow> instant \<Rightarrow> 'w bridge \<Rightarrow> 'w bridge" where
  "accept_step deadline now b =
     (case br_accept b of
        AcListen \<Rightarrow>
          (case accept_turn (br_listener b) deadline now (br_net b) of
             (Done (Some c), net) \<Rightarrow> b\<lparr>br_net := net, br_accept := AcGot c\<rparr>
           | (_, net) \<Rightarrow> b\<lparr>br_net := net\<rparr>)
      | AcGot c \<Rightarrow>
          (if br_busy b then b\<lparr>br_accept := AcReject c busy_text\<rparr> else b\<lparr>br_busy := True, br_accept := AcSend c\<rparr>)
      | AcReject c rest \<Rightarrow>
          (case write_turn c rest (br_net b) of
             (Wait, net) \<Rightarrow> b\<lparr>br_net := net\<rparr>
           | (Done (Inl _), net) \<Rightarrow> b\<lparr>br_net := net, br_accept := AcClose c\<rparr>
           | (Done (Inr n), net) \<Rightarrow>
               b\<lparr>br_net := net, br_accept := (if drop n rest = [] then AcClose c else AcReject c (drop n rest))\<rparr>)
      | AcClose c \<Rightarrow> b\<lparr>br_net := close_stream c (br_net b), br_accept := AcListen\<rparr>
      | AcSend c \<Rightarrow>
          (case br_main b of
             MnFailed _ \<Rightarrow> b\<lparr>br_net := drop_listener (br_listener b) (close_stream c (br_net b)), br_accept := AcEnded\<rparr>
           | _ \<Rightarrow> (if br_queue b = [] then b\<lparr>br_queue := [c], br_accept := AcListen\<rparr> else b))
      | AcEnded \<Rightarrow> b)"

section \<open>A session\<close>

text \<open>
  The start of \<^verbatim>\<open>serve\<close>; when the thread for the other direction cannot be created, \<^verbatim>\<open>serve\<close> and with it \<^verbatim>\<open>run\<close> return the
  error and the stream is dropped.
\<close>

definition serve_start :: "bool \<Rightarrow> nat \<Rightarrow> 'w bridge \<Rightarrow> 'w bridge" where
  "serve_start spawned c b =
     (if spawned
      then b\<lparr>br_main := MnRead c, br_rx := RxTop c, br_stop := False, br_rx_done := False, br_dropped_warned := False,
             br_taken := [], br_log := []\<rparr>
      else b\<lparr>br_main := MnFailed c, br_net := close_stream c (br_net b)\<rparr>)"

text \<open>The result of a write to the device: an error is reported once per run of errors, and the data is gone.\<close>

definition note_write :: "nat \<Rightarrow> bytes \<Rightarrow> bytes \<Rightarrow> write_result \<Rightarrow> 'w bridge \<Rightarrow> 'w bridge" where
  "note_write c data sent r b =
     b\<lparr>br_main := MnRead c, br_dropped_warned := (r \<noteq> WriteOk), br_log := br_log b @ [(data, sent, r)]\<rparr>"

text \<open>\<open>spawned\<close>: the thread was created; \<open>tx\<close>: the results of the transfers.\<close>

definition main_step :: "bool \<Rightarrow> (bytes \<Rightarrow> bool) \<Rightarrow> instant \<Rightarrow> instant \<Rightarrow> 'w bridge \<Rightarrow> 'w bridge" where
  "main_step spawned tx deadline now b =
     (case br_main b of
        MnRecv \<Rightarrow> (case br_queue b of [] \<Rightarrow> b | c # q \<Rightarrow> serve_start spawned c (b\<lparr>br_queue := q\<rparr>))
      | MnRead c \<Rightarrow>
          (case read_turn c 512 deadline now (br_net b) of
             (Done (Inr []), net) \<Rightarrow> b\<lparr>br_net := net, br_main := MnStop c\<rparr>
           | (Done (Inr data), net) \<Rightarrow> b\<lparr>br_net := net, br_main := MnWrite c data\<rparr>
           | (Done (Inl e), net) \<Rightarrow> b\<lparr>br_net := net, br_main := (if e = TimedOut then MnRead c else MnStop c)\<rparr>
           | (Wait, net) \<Rightarrow> b\<lparr>br_net := net\<rparr>)
      | MnWrite c data \<Rightarrow>
          (case write_begin (br_usb b) of
             (Inl r, u) \<Rightarrow> note_write c data [] r (b\<lparr>br_usb := u\<rparr>)
           | (Inr h, u) \<Rightarrow> b\<lparr>br_usb := u, br_main := MnSend c data h\<rparr>)
      | MnSend c data h \<Rightarrow> (case usb_transfer tx data of (sent, r) \<Rightarrow> b\<lparr>br_main := MnEnd c data h sent r\<rparr>)
      | MnEnd c data h sent r \<Rightarrow>
          (case write_end h r (br_usb b) of (r, u) \<Rightarrow> note_write c data sent r (b\<lparr>br_usb := u\<rparr>))
      | MnStop c \<Rightarrow> b\<lparr>br_stop := True, br_main := MnWait c\<rparr>
      | MnWait c \<Rightarrow>
          (if br_rx_done b then b\<lparr>br_net := close_stream c (br_net b), br_main := MnFree c\<rparr> else b)
      | MnFree c \<Rightarrow> b\<lparr>br_busy := False, br_main := MnRecv\<rparr>
      | MnFailed c \<Rightarrow> b)"

text \<open>The thread from the device to the client.\<close>

definition rx_step :: "instant \<Rightarrow> instant \<Rightarrow> 'w bridge \<Rightarrow> 'w bridge" where
  "rx_step deadline now b =
     (case br_rx b of
        RxOff \<Rightarrow> b
      | RxTop c \<Rightarrow> b\<lparr>br_rx := (if br_stop b then RxEnd c else RxRead c)\<rparr>
      | RxRead c \<Rightarrow>
          (if us_rx (br_usb b) = [] then (if deadline \<le> now then b\<lparr>br_rx := RxCheck c\<rparr> else b)
           else (case usb_read 512 (br_usb b) of
                   (data, u) \<Rightarrow> b\<lparr>br_usb := u, br_rx := RxWrite c data, br_taken := br_taken b @ data\<rparr>))
      | RxWrite c rest \<Rightarrow>
          (case write_turn c rest (br_net b) of
             (Wait, net) \<Rightarrow> b\<lparr>br_net := net\<rparr>
           | (Done (Inl _), net) \<Rightarrow> b\<lparr>br_net := net, br_rx := RxEnd c\<rparr>
           | (Done (Inr n), net) \<Rightarrow>
               b\<lparr>br_net := net, br_rx := (if drop n rest = [] then RxCheck c else RxWrite c (drop n rest))\<rparr>)
      | RxCheck c \<Rightarrow> b\<lparr>br_rx := (if is_closed c (br_net b) then RxEnd c else RxTop c)\<rparr>
      | RxEnd c \<Rightarrow> b\<lparr>br_rx_done := True, br_rx := RxOff\<rparr>)"

end
