(* ===== verification/Bridge_Props.thy ===== *)
theory Bridge_Props
  imports Bridge Netstack_Props Usb_Host_Props
begin

text \<open>
  Properties of the bridge (firmware/src/bridge.rs) under every interleaving of its threads with the TCP endpoint and the USB
  device: one client at a time, and the bytes of a session in both directions.
\<close>

section \<open>Interleavings\<close>

text \<open>The bridge is the only user of its streams and the only reader and writer of the device.\<close>

fun other_net :: "ns_ev \<Rightarrow> bool" where
  "other_net (Accept _ _ _) \<longleftrightarrow> False"
| "other_net (ReadTurn _ _ _ _) \<longleftrightarrow> False"
| "other_net (WriteTurn _ _) \<longleftrightarrow> False"
| "other_net (CloseStream _) \<longleftrightarrow> False"
| "other_net (AbortStream _) \<longleftrightarrow> False"
| "other_net _ \<longleftrightarrow> True"

fun other_usb :: "usb_event \<Rightarrow> bool" where
  "other_usb (EvRead _) \<longleftrightarrow> False"
| "other_usb EvWriteBegin \<longleftrightarrow> False"
| "other_usb (EvWriteEnd _ _) \<longleftrightarrow> False"
| "other_usb _ \<longleftrightarrow> True"

datatype bridge_ev =
    BAccept instant instant
  | BMain bool "bytes \<Rightarrow> bool" instant instant
  | BRx instant instant
  | BNet ns_ev
  | BUsb usb_event

fun bridge_step :: "('k, 'w) smol \<Rightarrow> bridge_ev \<Rightarrow> 'w bridge \<Rightarrow> 'w bridge" where
  "bridge_step L (BAccept dl now) b = accept_step dl now b"
| "bridge_step L (BMain spawned tx dl now) b = main_step spawned tx dl now b"
| "bridge_step L (BRx dl now) b = rx_step dl now b"
| "bridge_step L (BNet ev) b = (if other_net ev then b\<lparr>br_net := ns_step L ev (br_net b)\<rparr> else b)"
| "bridge_step L (BUsb ev) b = (if other_usb ev then b\<lparr>br_usb := usb_step ev (br_usb b)\<rparr> else b)"

section \<open>One client\<close>

fun main_client :: "main_pos \<Rightarrow> nat list" where
  "main_client MnRecv = []"
| "main_client (MnRead c) = [c]"
| "main_client (MnWrite c _) = [c]"
| "main_client (MnSend c _ _) = [c]"
| "main_client (MnEnd c _ _ _ _) = [c]"
| "main_client (MnStop c) = [c]"
| "main_client (MnWait c) = [c]"
| "main_client (MnFree c) = []"
| "main_client (MnFailed c) = []"

fun rx_client :: "rx_pos \<Rightarrow> nat option" where
  "rx_client RxOff = None"
| "rx_client (RxTop c) = Some c"
| "rx_client (RxRead c) = Some c"
| "rx_client (RxWrite c _) = Some c"
| "rx_client (RxCheck c) = Some c"
| "rx_client (RxEnd c) = Some c"

definition in_session :: "main_pos \<Rightarrow> bool" where
  "in_session m \<longleftrightarrow> (case m of MnRecv \<Rightarrow> False | MnFree _ \<Rightarrow> False | MnFailed _ \<Rightarrow> False | _ \<Rightarrow> True)"

text \<open>
  The main thread has closed the stream of its client and not cleared BUSY: it is about to, or it has failed and never will.
\<close>

fun finishing :: "main_pos \<Rightarrow> bool" where
  "finishing (MnFree _) \<longleftrightarrow> True"
| "finishing (MnFailed _) \<longleftrightarrow> True"
| "finishing _ \<longleftrightarrow> False"

text \<open>The clients that were let in and whose stream was not closed.\<close>

definition clients :: "'w bridge \<Rightarrow> nat list" where
  "clients b = (case br_accept b of AcSend c \<Rightarrow> [c] | _ \<Rightarrow> []) @ br_queue b @ main_client (br_main b)"

definition client_inv :: "'w bridge \<Rightarrow> bool" where
  "client_inv b \<longleftrightarrow> (if finishing (br_main b) then clients b = [] else length (clients b) \<le> 1) \<and> br_accept b \<noteq> AcEnded
     \<and> (br_busy b \<longleftrightarrow> clients b \<noteq> [] \<or> finishing (br_main b))"

definition rx_inv :: "'w bridge \<Rightarrow> bool" where
  "rx_inv b \<longleftrightarrow>
     (case rx_client (br_rx b) of
        None \<Rightarrow> in_session (br_main b) \<longrightarrow> br_rx_done b
      | Some c \<Rightarrow> in_session (br_main b) \<and> main_client (br_main b) = [c] \<and> \<not> br_rx_done b)"

lemmas bridge_inv_defs = client_inv_def rx_inv_def clients_def in_session_def

lemma client_inv_accept: "client_inv b \<Longrightarrow> client_inv (accept_step dl now b)"
  by (cases "br_accept b"; cases "br_main b")
    (auto simp: client_inv_def clients_def accept_step_def Let_def split: prod.splits turn.splits option.splits sum.splits)

lemma rx_inv_accept: "rx_inv b \<Longrightarrow> rx_inv (accept_step dl now b)"
  by (auto simp: rx_inv_def accept_step_def Let_def split: accept_pos.splits main_pos.splits prod.splits turn.splits option.splits sum.splits)

lemma client_inv_main: "client_inv b \<Longrightarrow> client_inv (main_step spawned tx dl now b)"
  by (cases "br_main b"; cases "br_accept b"; cases "br_queue b")
    (auto simp: client_inv_def clients_def main_step_def serve_start_def note_write_def split: prod.splits turn.splits list.splits sum.splits)

lemma rx_inv_main: "rx_inv b \<Longrightarrow> rx_inv (main_step spawned tx dl now b)"
  by (cases "br_main b"; cases "br_rx b")
    (auto simp: rx_inv_def in_session_def main_step_def serve_start_def note_write_def split: prod.splits turn.splits list.splits sum.splits)

lemma client_inv_rx: "client_inv b \<Longrightarrow> client_inv (rx_step dl now b)"
  by (auto simp: client_inv_def clients_def rx_step_def split: rx_pos.splits prod.splits turn.splits sum.splits)

lemma rx_inv_rx: "rx_inv b \<Longrightarrow> rx_inv (rx_step dl now b)"
  by (auto simp: rx_inv_def rx_step_def split: rx_pos.splits prod.splits turn.splits sum.splits)

lemma bridge_inv_other [simp]:
  "client_inv (b\<lparr>br_net := n\<rparr>) = client_inv b" "client_inv (b\<lparr>br_usb := u\<rparr>) = client_inv b"
  "rx_inv (b\<lparr>br_net := n\<rparr>) = rx_inv b" "rx_inv (b\<lparr>br_usb := u\<rparr>) = rx_inv b"
  by (simp_all add: client_inv_def clients_def rx_inv_def cong: option.case_cong)

lemma bridge_run_inv: "client_inv (bridge_run port net serial)" "rx_inv (bridge_run port net serial)"
  by (simp_all add: bridge_inv_defs bridge_run_def listen_def Let_def)

interpretation brc: step_invariant "\<lambda>b. \<exists>port net serial. b = bridge_run port net serial" "bridge_step L" "\<lambda>b. client_inv b \<and> rx_inv b"
  for L :: "('k, 'w) smol"
proof
  show "\<exists>port net serial. b = bridge_run port net serial \<Longrightarrow> client_inv b \<and> rx_inv b" for b :: "'w bridge"
    using bridge_run_inv by blast
  show "client_inv b \<and> rx_inv b \<Longrightarrow> client_inv (bridge_step L ev b) \<and> rx_inv (bridge_step L ev b)" for ev and b :: "'w bridge"
    by (cases ev)
      (simp_all add: client_inv_accept rx_inv_accept client_inv_main rx_inv_main client_inv_rx rx_inv_rx)
qed

text \<open>
  C13: The bridge serves one client at a time, whatever the order in which its threads, the network and the device act: at most
  one client is let in and not closed (on its way to the main thread or being served); BUSY is set exactly while there is one,
  or while the main thread has closed the last one and has not cleared BUSY: between the close and the store at the end of a
  session, or for good when it has failed to start a session; then there is no client. The accept thread never waits for the
  channel to the main thread, and the thread that forwards the output of the device runs only for the client that is being
  served.
\<close>

theorem bridge_one_client:
  assumes "b = fold (bridge_step L) evs (bridge_run port net serial)"
  shows "length (clients b) \<le> 1
    \<and> (br_busy b \<longleftrightarrow> clients b \<noteq> [] \<or> (\<exists>c. br_main b = MnFree c \<or> br_main b = MnFailed c))
    \<and> (\<forall>c. br_main b = MnFree c \<or> br_main b = MnFailed c \<longrightarrow> clients b = [])
    \<and> (\<forall>c. br_accept b = AcSend c \<longrightarrow> br_queue b = [])
    \<and> (\<forall>c. rx_client (br_rx b) = Some c \<longrightarrow> in_session (br_main b) \<and> clients b = [c])"
proof -
  have inv: "client_inv b" "rx_inv b" using brc.run_from_init [of "bridge_run port net serial" L evs] assms by auto
  have one: "length (clients b) \<le> 1" using inv(1) by (auto simp: client_inv_def split: if_splits)
  have "rx_client (br_rx b) = Some c \<Longrightarrow> in_session (br_main b) \<and> clients b = [c]" for c
    using inv(2) one by (cases "br_accept b") (auto simp: rx_inv_def clients_def)
  moreover have "br_accept b = AcSend c \<Longrightarrow> br_queue b = []" for c
    using one by (simp add: clients_def)
  moreover have "finishing (br_main b) \<longleftrightarrow> (\<exists>c. br_main b = MnFree c \<or> br_main b = MnFailed c)" by (cases "br_main b") simp_all
  ultimately show ?thesis using inv(1) one by (auto simp: client_inv_def)
qed

section \<open>Streams on their way to the bridge\<close>

definition queued :: "'w netstack \<Rightarrow> nat multiset" where
  "queued s = mset (concat (map ls_queue (ns_listener_store s)))"

lemma mset_concat_update:
  "j < length xs \<Longrightarrow> mset (concat (map f (xs[j := x]))) + mset (f (xs ! j)) = mset (concat (map f xs)) + mset (f x)"
proof -
  assume j: "j < length xs"
  have "mset (concat (map f xs)) = mset (concat (map f (take j xs @ xs ! j # drop (Suc j) xs)))"
    using j by (simp only: id_take_nth_drop [symmetric])
  then show ?thesis using j by (simp add: upd_conv_take_nth_drop)
qed

lemma queued_update:
  assumes "ls_queue x = ls_queue (xs ! j)"
  shows "mset (concat (map ls_queue (xs[j := x]))) = mset (concat (map ls_queue xs))"
proof (cases "j < length xs")
  case True
  then show ?thesis using mset_concat_update [OF True, of ls_queue x] assms by simp
qed (simp add: list_update_beyond)

text \<open>A step of the stack queues at most one stream, a new one; it takes streams out of a queue only when it drops them.\<close>

definition queues_new :: "'w netstack \<Rightarrow> 'w netstack \<Rightarrow> bool" where
  "queues_new s s' \<longleftrightarrow>
     length (ns_listener_store s) \<le> length (ns_listener_store s') \<and> length (ns_conn_store s) \<le> length (ns_conn_store s')
     \<and> (queued s' \<subseteq># queued s \<or> queued s' = add_mset (length (ns_conn_store s)) (queued s)
          \<and> length (ns_conn_store s) < length (ns_conn_store s'))"

lemma queues_new_same:
  "ns_listener_store s' = ns_listener_store s \<Longrightarrow> length (ns_conn_store s') = length (ns_conn_store s) \<Longrightarrow> queues_new s s'"
  by (simp add: queues_new_def queued_def)

lemma queues_new_hand_over: "queues_new s (hand_over L j k s)"
proof -
  define le where "le = ns_listeners s ! j"
  define sh where "sh = ns_listener_store s ! le_shared le"
  define i where "i = length (ns_conn_store s)"
  obtain c where st: "ns_listener_store (hand_over L j k s) = (ns_listener_store s)[le_shared le := sh\<lparr>ls_queue := ls_queue sh @ [i]\<rparr>]"
    "ns_conn_store (hand_over L j k s) = ns_conn_store s @ [c]"
    by (simp add: hand_over_def Let_def le_def sh_def i_def split: prod.splits)
  show ?thesis
  proof (cases "le_shared le < length (ns_listener_store s)")
    case True
    have "queued (hand_over L j k s) + mset (ls_queue sh) = queued s + mset (ls_queue sh @ [i])"
      using mset_concat_update [OF True, of ls_queue "sh\<lparr>ls_queue := ls_queue sh @ [i]\<rparr>"] by (simp add: queued_def st sh_def)
    then have "queued (hand_over L j k s) = add_mset i (queued s)" by simp
    then show ?thesis by (simp add: queues_new_def st i_def)
  next
    case False
    then show ?thesis by (simp add: queues_new_def queued_def st list_update_beyond)
  qed
qed

lemma queues_new_at [simp]: "queues_new s (s'\<lparr>ns_at := p\<rparr>) = queues_new s s'"
  by (simp add: queues_new_def queued_def)

lemma queues_new_drop_queue:
  assumes "ns_listener_store s' = ns_listener_store s" "length (ns_conn_store s') = length (ns_conn_store s)"
  shows "queues_new s (drop_queue l s')"
proof -
  have "queued (drop_queue l s') \<subseteq># queued s"
  proof (cases "l < length (ns_listener_store s)")
    case True
    let ?sh = "ns_listener_store s ! l"
    have "queued (drop_queue l s') + mset (ls_queue ?sh) = queued s"
      using mset_concat_update [OF True, of ls_queue "?sh\<lparr>ls_queue := []\<rparr>"] assms(1) by (simp add: queued_def drop_queue_def Let_def)
    then show ?thesis by (metis mset_subset_eq_add_left)
  qed (simp add: queued_def drop_queue_def Let_def assms(1) list_update_beyond)
  then show ?thesis using assms by (simp add: queues_new_def) (simp add: drop_queue_def Let_def)
qed

lemma queues_new_serve_listener: "queues_new s (serve_listener L j s)"
  by (auto simp: serve_listener_def Let_def stack_panic_def intro: queues_new_same queues_new_hand_over queues_new_drop_queue
      split: option.splits tcp_state.splits)

lemma queues_new_thread: "queues_new s (thread_step L e s)"
proof (cases "ns_at s")
  case (AtConnects cs)
  then show ?thesis
    by (cases cs) (auto simp: thread_step_def open_connection_def put_conn_def intro!: queues_new_same split: prod.splits bool.splits)
next
  case (AtConn j)
  then show ?thesis
    by (auto simp: thread_step_def serve_conn_def stack_panic_def put_conn_def Let_def intro!: queues_new_same split: option.splits prod.splits)
next
  case (AtListener j)
  then show ?thesis using queues_new_serve_listener by (auto simp: thread_step_def intro: queues_new_same)
qed (auto simp: thread_step_def pull_work_def flush_out_def Let_def intro!: queues_new_same split: prod.splits)

lemma queues_new_other:
  assumes "other_net ev"
  shows "queues_new s (ns_step L ev s)"
proof (cases ev)
  case (OpenListener port)
  then show ?thesis by (simp add: queues_new_def queued_def listen_def wake_def Let_def)
next
  case (DropListener l)
  then show ?thesis
    by (simp add: queues_new_def queued_def drop_listener_def wake_def queued_update)
next
  case (Connect a)
  then show ?thesis by (simp add: queues_new_def queued_def connect_def wake_def Let_def)
next
  case (ThreadStep e)
  then show ?thesis by (simp add: queues_new_thread)
qed (use assms in \<open>auto simp: inject_def set_addresses_def shutdown_stack_def wake_def intro!: queues_new_same split: option.splits\<close>)

section \<open>The bytes of a session\<close>

text \<open>The calls on the TCP endpoint that a step of the bridge makes.\<close>

fun net_calls :: "bridge_ev \<Rightarrow> 'w bridge \<Rightarrow> ns_ev list" where
  "net_calls (BAccept dl now) b =
     (case br_accept b of
        AcListen \<Rightarrow> [Accept (br_listener b) dl now]
      | AcReject c rest \<Rightarrow> [WriteTurn c rest]
      | AcClose c \<Rightarrow> [CloseStream c]
      | AcSend c \<Rightarrow> (case br_main b of MnFailed _ \<Rightarrow> [CloseStream c, DropListener (br_listener b)] | _ \<Rightarrow> [])
      | _ \<Rightarrow> [])"
| "net_calls (BMain spawned tx dl now) b =
     (case br_main b of
        MnRecv \<Rightarrow> (case br_queue b of [] \<Rightarrow> [] | c # q \<Rightarrow> if spawned then [] else [CloseStream c])
      | MnRead c \<Rightarrow> [ReadTurn c 512 dl now]
      | MnWait c \<Rightarrow> if br_rx_done b then [CloseStream c] else []
      | _ \<Rightarrow> [])"
| "net_calls (BRx dl now) b = (case br_rx b of RxWrite c rest \<Rightarrow> [WriteTurn c rest] | _ \<Rightarrow> [])"
| "net_calls (BNet ev) b = (if other_net ev then [ev] else [])"
| "net_calls (BUsb ev) b = []"

text \<open>A run with the bytes written to and read from each stream so far.\<close>

type_synonym 'w bridge_history = "'w bridge \<times> (nat \<Rightarrow> bytes) \<times> (nat \<Rightarrow> bytes)"

definition bridge_hist_step :: "('k, 'w) smol \<Rightarrow> bridge_ev \<Rightarrow> 'w bridge_history \<Rightarrow> 'w bridge_history" where
  "bridge_hist_step L ev =
     (\<lambda>(b, W, R). (bridge_step L ev b, snd (fold (hist_step L) (net_calls ev b) (br_net b, W, R))))"

definition bridge_hist_start :: "u16 \<Rightarrow> 'w \<Rightarrow> usb \<Rightarrow> 'w bridge_history" where
  "bridge_hist_start port w serial = (bridge_run port (netstack_start w) serial, \<lambda>_. [], \<lambda>_. [])"

text \<open>Every stream the bridge holds, and those of them that nothing was read from or written to.\<close>

definition held :: "'w bridge \<Rightarrow> nat list" where
  "held b =
     (case br_accept b of AcGot c \<Rightarrow> [c] | AcReject c _ \<Rightarrow> [c] | AcClose c \<Rightarrow> [c] | AcSend c \<Rightarrow> [c] | _ \<Rightarrow> [])
     @ br_queue b @ main_client (br_main b)"

definition untouched :: "'w bridge \<Rightarrow> nat list" where
  "untouched b = (case br_accept b of AcGot c \<Rightarrow> [c] | AcSend c \<Rightarrow> [c] | _ \<Rightarrow> []) @ br_queue b"

text \<open>What a thread has taken from one side and not yet passed to the other.\<close>

fun rx_serving :: "rx_pos \<Rightarrow> (nat \<times> bytes) option" where
  "rx_serving (RxTop c) = Some (c, [])"
| "rx_serving (RxRead c) = Some (c, [])"
| "rx_serving (RxWrite c rest) = Some (c, rest)"
| "rx_serving (RxCheck c) = Some (c, [])"
| "rx_serving _ = None"

fun main_serving :: "main_pos \<Rightarrow> (nat \<times> bytes) option" where
  "main_serving (MnRead c) = Some (c, [])"
| "main_serving (MnWrite c data) = Some (c, data)"
| "main_serving (MnSend c data _) = Some (c, data)"
| "main_serving (MnEnd c data _ _ _) = Some (c, data)"
| "main_serving _ = None"

definition net_inv :: "'w history \<Rightarrow> nat list \<Rightarrow> nat list \<Rightarrow> bool" where
  "net_inv = (\<lambda>(s, W, R) H U.
     (\<forall>i. count (queued s) i \<le> 1) \<and> (\<forall>i \<in># queued s. i < length (ns_conn_store s) \<and> i \<notin> set H)
     \<and> (\<forall>i \<in> set H. i < length (ns_conn_store s))
     \<and> (\<forall>i. length (ns_conn_store s) \<le> i \<or> i \<in># queued s \<or> i \<in> set U \<longrightarrow> W i = [] \<and> R i = []))"

definition log_ok :: "bytes \<times> bytes \<times> write_result \<Rightarrow> bool" where
  "log_ok = (\<lambda>(data, sent, r). take (length sent) data = sent \<and> (r = WriteOk \<longrightarrow> sent = data))"

definition session_inv :: "'w bridge_history \<Rightarrow> bool" where
  "session_inv = (\<lambda>(b, W, R).
     (\<forall>c rest. rx_serving (br_rx b) = Some (c, rest) \<longrightarrow> W c @ rest = br_taken b)
     \<and> (\<forall>c rest. main_serving (br_main b) = Some (c, rest) \<longrightarrow> R c = concat (map fst (br_log b)) @ rest)
     \<and> list_all log_ok (br_log b)
     \<and> (\<forall>c data h sent r. br_main b = MnEnd c data h sent r \<longrightarrow> log_ok (data, sent, r)))"

definition flow_inv :: "'w bridge_history \<Rightarrow> bool" where
  "flow_inv = (\<lambda>(b, W, R).
     br_listener b < length (ns_listener_store (br_net b)) \<and> distinct (held b)
     \<and> net_inv (br_net b, W, R) (held b) (untouched b) \<and> session_inv (b, W, R))"

lemma flow_inv_start: "flow_inv (bridge_hist_start port w serial)"
  by (simp add: flow_inv_def bridge_hist_start_def bridge_run_def listen_def netstack_start_def wake_def Let_def held_def untouched_def
      net_inv_def queued_def session_inv_def)

lemma net_inv_mono: "net_inv h H U \<Longrightarrow> set H' \<subseteq> set H \<Longrightarrow> set U' \<subseteq> set U \<Longrightarrow> net_inv h H' U'"
  by (cases h) (auto simp: net_inv_def)

lemma net_inv_other:
  assumes "queues_new s s'" "net_inv (s, W, R) H U"
  shows "net_inv (s', W, R) H U"
proof -
  have le: "length (ns_conn_store s) \<le> length (ns_conn_store s')" using assms(1) by (simp add: queues_new_def)
  consider "queued s' \<subseteq># queued s"
    | "queued s' = add_mset (length (ns_conn_store s)) (queued s)" "length (ns_conn_store s) < length (ns_conn_store s')"
    using assms(1) by (auto simp: queues_new_def)
  then show ?thesis
  proof cases
    case 1
    then have sub: "i \<in># queued s' \<Longrightarrow> i \<in># queued s" for i by (rule mset_subset_eqD)
    have "count (queued s') i \<le> count (queued s) i" for i using 1 by (rule mset_subset_eq_count)
    moreover have "\<forall>i. count (queued s) i \<le> 1" using assms(2) by (simp add: net_inv_def)
    ultimately have "\<forall>i. count (queued s') i \<le> 1" by (metis order.trans)
    then show ?thesis using assms(2) le sub by (fastforce simp: net_inv_def)
  next
    case 2
    have "length (ns_conn_store s) \<notin># queued s" using assms(2) by (auto simp: net_inv_def)
    then show ?thesis using assms(2) le 2 by (auto simp: net_inv_def not_in_iff)
  qed
qed

lemma net_inv_touch:
  assumes "net_inv (s, W, R) H U" "ns_listener_store s' = ns_listener_store s" "length (ns_conn_store s') = length (ns_conn_store s)"
    "c \<in> set H" "c \<notin> set U" "\<forall>i. i \<noteq> c \<longrightarrow> W' i = W i \<and> R' i = R i"
  shows "net_inv (s', W', R') H U"
proof -
  have q: "queued s' = queued s" using assms(2) by (simp add: queued_def)
  have c: "c < length (ns_conn_store s)" "c \<notin># queued s" using assms(1,4) by (auto simp: net_inv_def)
  have "i \<noteq> c" if "length (ns_conn_store s) \<le> i \<or> i \<in># queued s \<or> i \<in> set U" for i
    using that c assms(5) by auto
  then show ?thesis using assms(1,3,6) by (auto simp: net_inv_def q)
qed

lemma net_inv_accept:
  assumes "net_inv (s, W, R) H U" "accept_turn l dl now s = (Done (Some c), s')" "l < length (ns_listener_store s)"
  shows "net_inv (s', W, R) (c # H) (c # U)" "c \<notin> set H" "length (ns_listener_store s') = length (ns_listener_store s)"
proof -
  let ?sh = "ns_listener_store s ! l"
  obtain q where q: "ls_queue ?sh = c # q" "s' = s\<lparr>ns_listener_store := (ns_listener_store s)[l := ?sh\<lparr>ls_queue := q\<rparr>]\<rparr>"
    using assms(2) by (auto simp: accept_turn_def Let_def split: list.splits if_splits)
  have "queued s' + mset (c # q) = queued s + mset q"
    using mset_concat_update [OF assms(3), of ls_queue "?sh\<lparr>ls_queue := q\<rparr>"] q by (simp add: queued_def)
  then have m: "queued s = add_mset c (queued s')" by simp
  have c1: "count (queued s') c = 0" using assms(1) m by (auto simp: net_inv_def dest: spec [of _ c])
  have cnt: "count (queued s') i \<le> 1" for i
    using assms(1) m c1 by (cases "i = c") (auto simp: net_inv_def dest: spec [of _ i] split: if_splits)
  show "c \<notin> set H" "length (ns_listener_store s') = length (ns_listener_store s)" using assms(1) m q by (auto simp: net_inv_def)
  have len: "length (ns_conn_store s') = length (ns_conn_store s)" using q(2) by simp
  have "c \<notin># queued s'" using c1 by (simp add: not_in_iff)
  then show "net_inv (s', W, R) (c # H) (c # U)"
    using assms(1) cnt by (auto simp: net_inv_def m len)
qed

text \<open>The calls of a step are the changes it makes to the TCP endpoint.\<close>

lemma fst_hist_fold: "fst (fold (hist_step L) evs h) = fold (ns_step L) evs (fst h)"
  by (induction evs arbitrary: h) (auto simp: hist_step_def split: prod.splits)

lemma accept_net_calls:
  assumes "\<forall>i \<in> set (held b). i < length (ns_conn_store (br_net b))"
  shows "fold (ns_step L) (net_calls (BAccept dl now) b) (br_net b) = br_net (accept_step dl now b)"
proof (cases "br_accept b")
  case AcListen
  then show ?thesis by (auto simp: accept_step_def split: prod.splits turn.splits option.splits)
next
  case (AcReject c rest)
  then show ?thesis using assms by (auto simp: held_def accept_step_def split: prod.splits turn.splits sum.splits)
next
  case (AcSend c)
  then show ?thesis using assms by (cases "br_main b") (auto simp: held_def accept_step_def)
qed (use assms in \<open>auto simp: held_def accept_step_def\<close>)

lemma main_net_calls:
  assumes "\<forall>i \<in> set (held b). i < length (ns_conn_store (br_net b))"
  shows "fold (ns_step L) (net_calls (BMain spawned tx dl now) b) (br_net b) = br_net (main_step spawned tx dl now b)"
proof (cases "br_main b")
  case (MnRead c)
  then show ?thesis using assms by (auto simp: held_def main_step_def split: prod.splits turn.splits sum.splits list.splits)
next
  case MnRecv
  then show ?thesis using assms by (auto simp: held_def main_step_def serve_start_def split: list.splits)
qed (use assms in \<open>auto simp: held_def main_step_def note_write_def split: prod.splits sum.splits\<close>)

lemma bridge_net_calls:
  assumes "flow_inv (b, W, R)" "rx_inv b"
  shows "fst (fold (hist_step L) (net_calls ev b) (br_net b, W, R)) = br_net (bridge_step L ev b)"
proof -
  have v: "\<forall>i \<in> set (held b). i < length (ns_conn_store (br_net b))"
    using assms(1) by (auto simp: flow_inv_def net_inv_def)
  have "rx_client (br_rx b) = Some c \<Longrightarrow> c \<in> set (held b)" for c
    using assms(2) by (auto simp: rx_inv_def held_def)
  then have "fold (ns_step L) (net_calls (BRx dl now) b) (br_net b) = br_net (rx_step dl now b)" for dl now
    using v by (cases "br_rx b") (auto simp: rx_step_def split: prod.splits turn.splits sum.splits)
  then show ?thesis
    unfolding fst_hist_fold using accept_net_calls [OF v] main_net_calls [OF v]
    by (cases ev) (simp_all del: net_calls.simps(1-3), simp_all)
qed

section \<open>Every step keeps the flow\<close>

lemma serving_client:
  "rx_inv b \<Longrightarrow> rx_serving (br_rx b) = Some (c, rest) \<Longrightarrow> main_client (br_main b) = [c]"
  "main_serving (br_main b) = Some (c, rest) \<Longrightarrow> main_client (br_main b) = [c]"
  by (cases "br_rx b"; auto simp: rx_inv_def) (cases "br_main b"; simp)

lemma session_inv_cong:
  assumes "session_inv (b, W, R)" "rx_inv b" "\<forall>c \<in> set (main_client (br_main b)). W' c = W c \<and> R' c = R c"
    "br_rx b' = br_rx b" "br_main b' = br_main b" "br_taken b' = br_taken b" "br_log b' = br_log b"
  shows "session_inv (b', W', R')"
proof -
  have "W' c = W c" if "rx_serving (br_rx b) = Some (c, rest)" for c rest
    using assms(3) serving_client(1) [OF assms(2) that] by simp
  moreover have "R' c = R c" if "main_serving (br_main b) = Some (c, rest)" for c rest
    using assms(3) serving_client(2) [OF that] by simp
  ultimately show ?thesis using assms(1) by (auto simp: session_inv_def assms(4-7))
qed

text \<open>A call on one of the streams, and a step that makes none.\<close>

lemma flow_inv_touch:
  assumes f: "flow_inv (b, W, R)" and c: "c \<in> set (held b)" "c \<notin> set (untouched b)"
    and s: "ns_listener_store (br_net b') = ns_listener_store (br_net b)"
      "length (ns_conn_store (br_net b')) = length (ns_conn_store (br_net b))"
    and W: "\<forall>i. i \<noteq> c \<longrightarrow> W' i = W i \<and> R' i = R i"
    and b': "br_listener b' = br_listener b" "distinct (held b')" "set (held b') \<subseteq> set (held b)"
      "set (untouched b') \<subseteq> set (untouched b)" "session_inv (b', W', R')"
  shows "flow_inv (b', W', R')"
proof -
  have n: "net_inv (br_net b, W, R) (held b) (untouched b)" "br_listener b < length (ns_listener_store (br_net b))"
    using f by (auto simp: flow_inv_def)
  have "net_inv (br_net b', W', R') (held b) (untouched b)" by (rule net_inv_touch [OF n(1) s c W])
  then have "net_inv (br_net b', W', R') (held b') (untouched b')" by (rule net_inv_mono) (fact b')+
  then show ?thesis using n(2) b' by (simp add: flow_inv_def s)
qed

lemma flow_inv_position:
  assumes "flow_inv (b, W, R)" "br_net b' = br_net b" "br_listener b' = br_listener b" "session_inv (b', W, R)"
    "distinct (held b')" "set (held b') \<subseteq> set (held b)" "set (untouched b') \<subseteq> set (untouched b)"
  shows "flow_inv (b', W, R)"
  using assms net_inv_mono [of "(br_net b, W, R)" "held b" "untouched b"] by (auto simp: flow_inv_def)

lemma hist_calls:
  "snd (hist_step L (WriteTurn c d) (s, W, R)) = ((\<lambda>i. W i @ wrote (WriteTurn c d) s i), R)"
  "snd (hist_step L (CloseStream c) (s, W, R)) = (W, R)" "snd (hist_step L (Accept l dl now) (s, W, R)) = (W, R)"
  "snd (hist_step L (ReadTurn c n dl now) (s, W, R)) = (W, \<lambda>i. R i @ got (ReadTurn c n dl now) s i)"
  by (simp_all add: hist_step_def)

lemma held_parts:
  assumes "flow_inv (b, W, R)"
  shows "distinct (held b)" "set (untouched b) \<subseteq> set (held b)"
    "c \<in> set (main_client (br_main b)) \<Longrightarrow> c \<in> set (held b) \<and> c \<notin> set (untouched b)"
proof -
  show d: "distinct (held b)" using assms by (simp add: flow_inv_def)
  show "set (untouched b) \<subseteq> set (held b)" by (auto simp: held_def untouched_def split: accept_pos.splits)
  show "c \<in> set (main_client (br_main b)) \<Longrightarrow> c \<in> set (held b) \<and> c \<notin> set (untouched b)"
    using d by (auto simp: held_def untouched_def split: accept_pos.splits)
qed

lemma flow_inv_listen:
  assumes f: "flow_inv (b, W, R)" and rx: "rx_inv b" and a: "br_accept b = AcListen"
  shows "flow_inv (accept_step dl now b, W, R)"
proof (cases "\<exists>c. fst (accept_turn (br_listener b) dl now (br_net b)) = Done (Some c)")
  case True
  then obtain c s' where t: "accept_turn (br_listener b) dl now (br_net b) = (Done (Some c), s')" by (metis surj_pair fst_conv)
  have n: "net_inv (br_net b, W, R) (held b) (untouched b)" "br_listener b < length (ns_listener_store (br_net b))"
    "session_inv (b, W, R)" using f by (auto simp: flow_inv_def)
  have "session_inv (b\<lparr>br_net := s', br_accept := AcGot c\<rparr>, W, R)" by (rule session_inv_cong [OF n(3) rx]) simp_all
  then show ?thesis using net_inv_accept [OF n(1) t n(2)] f a t
    by (simp add: accept_step_def flow_inv_def held_def untouched_def)
next
  case False
  then have "accept_step dl now b = b"
    using a by (auto simp: accept_step_def accept_turn_def Let_def split: list.splits)
  then show ?thesis using f by simp
qed

lemma flow_inv_reject:
  assumes f: "flow_inv (b, W, R)" and rx: "rx_inv b" and a: "br_accept b = AcReject c rest"
  shows "flow_inv (accept_step dl now b, (\<lambda>i. W i @ wrote (WriteTurn c rest) (br_net b) i), R)"
proof -
  let ?b = "accept_step dl now b" and ?W = "\<lambda>i. W i @ wrote (WriteTurn c rest) (br_net b) i"
  have b: "br_net ?b = snd (write_turn c rest (br_net b))" "br_main ?b = br_main b" "br_rx ?b = br_rx b" "br_taken ?b = br_taken b"
    "br_log ?b = br_log b" "br_listener ?b = br_listener b" "br_queue ?b = br_queue b"
    "br_accept ?b = AcClose c \<or> (\<exists>r. br_accept ?b = AcReject c r)"
    using a by (auto simp: accept_step_def split: prod.splits turn.splits sum.splits)
  have c: "c \<in> set (held b)" "c \<notin> set (untouched b)" "c \<notin> set (main_client (br_main b))" "held ?b = held b" "untouched ?b = untouched b"
    using b(2,7,8) a held_parts(1) [OF f] by (auto simp: held_def untouched_def)
  have "session_inv (?b, ?W, R)"
    by (rule session_inv_cong [of b W R]) (use f rx b c in \<open>auto simp: flow_inv_def\<close>)
  then show ?thesis
    by (intro flow_inv_touch [OF f c(1,2)]) (use b c held_parts(1) [OF f] in auto)
qed

lemma flow_inv_accept:
  assumes f: "flow_inv (b, W, R)" and rx: "rx_inv b" and cl: "client_inv b"
  shows "flow_inv (bridge_hist_step L (BAccept dl now) (b, W, R))"
proof -
  let ?b = "accept_step dl now b"
  have sess: "session_inv (b, W, R)" using f by (simp add: flow_inv_def)
  note d = held_parts(1) [OF f]
  show ?thesis
  proof (cases "br_accept b")
    case (AcGot c)
    have "session_inv (?b, W, R)" by (rule session_inv_cong [OF sess rx]) (simp_all add: accept_step_def AcGot)
    then have "flow_inv (?b, W, R)"
      by (intro flow_inv_position [OF f]) (use d AcGot in \<open>auto simp: accept_step_def held_def untouched_def\<close>)
    then show ?thesis using AcGot by (simp add: bridge_hist_step_def)
  next
    case (AcClose c)
    have "session_inv (?b, W, R)" by (rule session_inv_cong [OF sess rx]) (simp_all add: accept_step_def AcClose)
    then have "flow_inv (?b, W, R)"
      by (intro flow_inv_touch [OF f, of c]) (use d AcClose in \<open>auto simp: accept_step_def held_def untouched_def\<close>)
    then show ?thesis using AcClose by (simp add: bridge_hist_step_def hist_calls)
  next
    case (AcSend c)
    have m: "br_main b = MnRecv" "br_queue b = []"
      using cl AcSend by (cases "br_main b"; simp add: client_inv_def clients_def)+
    have "session_inv (?b, W, R)" by (rule session_inv_cong [OF sess rx]) (simp_all add: accept_step_def AcSend m)
    then have "flow_inv (?b, W, R)"
      by (intro flow_inv_position [OF f]) (use d AcSend m in \<open>auto simp: accept_step_def held_def untouched_def\<close>)
    then show ?thesis using AcSend m by (simp add: bridge_hist_step_def)
  next
    case AcListen
    then show ?thesis using flow_inv_listen [OF f rx AcListen] by (simp add: bridge_hist_step_def hist_calls)
  next
    case (AcReject c rest)
    then show ?thesis using flow_inv_reject [OF f rx AcReject] by (simp add: bridge_hist_step_def hist_calls)
  next
    case AcEnded
    then show ?thesis using f by (simp add: bridge_hist_step_def accept_step_def)
  qed
qed

text \<open>The thread from the device to the client.\<close>

lemma flow_inv_rx:
  assumes f: "flow_inv (b, W, R)" and rx: "rx_inv b"
  shows "flow_inv (bridge_hist_step L (BRx dl now) (b, W, R))"
proof -
  let ?b = "rx_step dl now b"
  have sess: "session_inv (b, W, R)" using f by (simp add: flow_inv_def)
  note d = held_parts [OF f]
  have same: "held ?b = held b" "untouched ?b = untouched b" "br_listener ?b = br_listener b" "br_main ?b = br_main b" "br_log ?b = br_log b"
    by (auto simp: rx_step_def held_def untouched_def split: rx_pos.splits prod.splits turn.splits sum.splits)
  show ?thesis
  proof (cases "\<exists>c rest. br_rx b = RxWrite c rest")
    case True
    then obtain c rest where r: "br_rx b = RxWrite c rest" by blast
    let ?W = "\<lambda>i. W i @ wrote (WriteTurn c rest) (br_net b) i"
    have c: "main_client (br_main b) = [c]" using rx r by (simp add: rx_inv_def)
    then have h: "c \<in> set (held b)" "c \<notin> set (untouched b)" using d(3) [of c] by simp_all
    then have lt: "c < length (ns_conn_store (br_net b))" using f by (auto simp: flow_inv_def net_inv_def)
    have n: "br_net ?b = snd (write_turn c rest (br_net b))" "br_taken ?b = br_taken b"
      using r by (auto simp: rx_step_def split: prod.splits turn.splits sum.splits)
    have "rx_serving (br_rx ?b) = Some (c', q) \<Longrightarrow> c' = c \<and> wrote (WriteTurn c rest) (br_net b) c @ q = rest" for c' q
      using r lt by (auto simp: rx_step_def split: prod.splits turn.splits sum.splits if_splits)
    moreover have "W c @ rest = br_taken b" using sess r by (simp add: session_inv_def)
    ultimately have "session_inv (?b, ?W, R)" using sess by (auto simp: session_inv_def same n)
    then have "flow_inv (?b, ?W, R)" by (intro flow_inv_touch [OF f h]) (use same n d in auto)
    then show ?thesis using r by (simp add: bridge_hist_step_def hist_calls)
  next
    case False
    then have "br_net ?b = br_net b" "session_inv (?b, W, R)"
      using sess by (auto simp: rx_step_def session_inv_def usb_read_def split: rx_pos.splits if_splits)
    then have "flow_inv (?b, W, R)" by (intro flow_inv_position [OF f]) (use same d in auto)
    then show ?thesis using False by (cases "br_rx b") (simp_all add: bridge_hist_step_def)
  qed
qed

text \<open>The main thread.\<close>

lemma transfer_prefix: "transfer tx cs = (sent, r) \<Longrightarrow> take (length sent) (concat cs) = sent \<and> (r = WriteOk \<longrightarrow> sent = concat cs)"
  by (induction tx cs arbitrary: sent r rule: transfer.induct) (auto split: if_splits prod.splits)

lemma usb_transfer_ok: "usb_transfer tx data = (sent, r) \<Longrightarrow> log_ok (data, sent, r)"
  using transfer_prefix [of tx "chunks OUT_BUFFER data" sent r] chunks_concat [of OUT_BUFFER data]
  by (simp add: usb_transfer_def log_ok_def OUT_BUFFER_def)

lemma write_end_result: "write_end h r u = (r', u') \<Longrightarrow> r' = WriteOk \<Longrightarrow> r = WriteOk"
  by (auto simp: write_end_def Let_def split: if_splits option.splits)

lemma write_begin_fails: "write_begin u = (Inl r, u') \<Longrightarrow> r \<noteq> WriteOk"
  by (auto simp: write_begin_def split: if_splits option.splits)

text \<open>A session starts with a stream that nothing was written to or read from.\<close>

lemma flow_inv_recv:
  assumes f: "flow_inv (b, W, R)" and rx: "rx_inv b" and m: "br_main b = MnRecv"
  shows "flow_inv (main_step spawned tx dl now b, W, R)"
proof (cases "br_queue b")
  case Nil
  then show ?thesis using f m by (simp add: main_step_def)
next
  case (Cons c q)
  let ?b = "main_step spawned tx dl now b"
  note d = held_parts [OF f]
  have r: "br_rx b = RxOff" using rx m by (cases "br_rx b") (simp_all add: rx_inv_def in_session_def)
  have h: "distinct (held ?b)" "set (held ?b) \<subseteq> set (held b)" "set (untouched ?b) \<subseteq> set (untouched b)" "c \<in> set (untouched b)"
    "c \<notin> set (untouched ?b)"
    using d(1) m Cons by (auto simp: main_step_def serve_start_def held_def untouched_def split: accept_pos.splits)
  have e: "W c = []" "R c = []" using f h(4) by (auto simp: flow_inv_def net_inv_def)
  have s: "session_inv (?b, W, R)"
    using f e m r Cons by (auto simp: main_step_def serve_start_def session_inv_def flow_inv_def)
  have n: "net_inv (br_net b, W, R) (held b) (untouched b)" using f by (simp add: flow_inv_def)
  have "net_inv (br_net b, W, R) (held b) (untouched ?b)" by (rule net_inv_mono [OF n]) (use h in auto)
  then have "net_inv (br_net ?b, W, R) (held b) (untouched ?b)"
    using net_inv_touch [of "br_net b" W R "held b" "untouched ?b" "br_net ?b" c W R] d(2) h(4,5) m Cons
    by (auto simp: main_step_def serve_start_def)
  then have "net_inv (br_net ?b, W, R) (held ?b) (untouched ?b)" by (rule net_inv_mono) (use h in auto)
  then show ?thesis using f s h(1) m Cons by (simp add: flow_inv_def main_step_def serve_start_def)
qed

lemma flow_inv_read:
  assumes f: "flow_inv (b, W, R)" and rx: "rx_inv b" and m: "br_main b = MnRead c"
  shows "flow_inv (main_step spawned tx dl now b, W, \<lambda>i. R i @ got (ReadTurn c 512 dl now) (br_net b) i)"
proof -
  let ?b = "main_step spawned tx dl now b" and ?R = "\<lambda>i. R i @ got (ReadTurn c 512 dl now) (br_net b) i"
  have h: "c \<in> set (held b)" "c \<notin> set (untouched b)" using held_parts(3) [OF f, of c] m by simp_all
  then have lt: "c < length (ns_conn_store (br_net b))" using f by (auto simp: flow_inv_def net_inv_def)
  have b: "br_net ?b = snd (read_turn c 512 dl now (br_net b))" "br_taken ?b = br_taken b" "br_log ?b = br_log b" "br_rx ?b = br_rx b"
    "br_listener ?b = br_listener b" "held ?b = held b" "untouched ?b = untouched b"
    "\<And>c' rest. main_serving (br_main ?b) = Some (c', rest) \<Longrightarrow> c' = c \<and> rest = got (ReadTurn c 512 dl now) (br_net b) c"
    "\<And>c data h sent r. br_main ?b \<noteq> MnEnd c data h sent r"
    using m lt by (auto simp: main_step_def held_def untouched_def split: prod.splits turn.splits sum.splits list.splits if_splits)
  have "session_inv (?b, W, ?R)" using f m b(2-4,8,9) by (auto simp: flow_inv_def session_inv_def)
  then show ?thesis using b held_parts(1) [OF f] by (intro flow_inv_touch [OF f h]) auto
qed

lemma flow_inv_note:
  assumes "flow_inv (b, W, R)" "main_serving (br_main b) = Some (c, data)" "log_ok (data, sent, r)"
  shows "flow_inv (note_write c data sent r (b\<lparr>br_usb := u\<rparr>), W, R)"
proof (rule flow_inv_position [OF assms(1)])
  have "main_client (br_main b) = [c]" using serving_client(2) [OF assms(2)] .
  then have "held (note_write c data sent r (b\<lparr>br_usb := u\<rparr>)) = held b" by (simp add: held_def note_write_def)
  then show "distinct (held (note_write c data sent r (b\<lparr>br_usb := u\<rparr>)))" "set (held (note_write c data sent r (b\<lparr>br_usb := u\<rparr>))) \<subseteq> set (held b)"
    using held_parts(1) [OF assms(1)] by simp_all
qed (use assms in \<open>auto simp: note_write_def untouched_def session_inv_def flow_inv_def\<close>)

lemma flow_inv_main:
  assumes f: "flow_inv (b, W, R)" and rx: "rx_inv b"
  shows "flow_inv (bridge_hist_step L (BMain spawned tx dl now) (b, W, R))"
proof -
  let ?b = "main_step spawned tx dl now b"
  note d = held_parts [OF f]
  have sess: "session_inv (b, W, R)" using f by (simp add: flow_inv_def)
  show ?thesis
  proof (cases "br_main b")
    case MnRecv
    then show ?thesis using flow_inv_recv [OF f rx MnRecv]
      by (auto simp: bridge_hist_step_def hist_calls split: list.splits)
  next
    case (MnRead c)
    then show ?thesis using flow_inv_read [OF f rx MnRead] by (simp add: bridge_hist_step_def hist_calls)
  next
    case (MnWrite c data)
    show ?thesis
    proof (cases "write_begin (br_usb b)")
      case (Pair x u)
      have "flow_inv (?b, W, R)"
      proof (cases x)
        case (Inl r)
        then have "log_ok (data, [], r)" using write_begin_fails Pair by (auto simp: log_ok_def)
        then show ?thesis using flow_inv_note [OF f] MnWrite Pair Inl by (simp add: main_step_def)
      next
        case (Inr h)
        then show ?thesis using MnWrite Pair sess d(1)
          by (intro flow_inv_position [OF f]) (auto simp: main_step_def session_inv_def held_def untouched_def)
      qed
      then show ?thesis using MnWrite by (simp add: bridge_hist_step_def)
    qed
  next
    case (MnSend c data h)
    obtain sent r where t: "usb_transfer tx data = (sent, r)" by (cases "usb_transfer tx data")
    have "flow_inv (?b, W, R)" using MnSend t sess d(1) usb_transfer_ok [OF t]
      by (intro flow_inv_position [OF f]) (auto simp: main_step_def session_inv_def held_def untouched_def)
    then show ?thesis using MnSend by (simp add: bridge_hist_step_def)
  next
    case (MnEnd c data h sent r)
    obtain r' u where t: "write_end h r (br_usb b) = (r', u)" by (cases "write_end h r (br_usb b)")
    have "log_ok (data, sent, r')" using sess MnEnd write_end_result [OF t] by (auto simp: session_inv_def log_ok_def)
    then have "flow_inv (?b, W, R)" using flow_inv_note [OF f] MnEnd t by (simp add: main_step_def)
    then show ?thesis using MnEnd by (simp add: bridge_hist_step_def)
  next
    case (MnWait c)
    then have "flow_inv (?b, W, R)" using sess d(1) d(3) [of c]
      by (cases "br_rx_done b"; intro flow_inv_touch [OF f, of c])
        (auto simp: main_step_def session_inv_def held_def untouched_def)
    then show ?thesis using MnWait by (simp add: bridge_hist_step_def hist_calls)
  qed (use sess d(1) in \<open>auto simp: bridge_hist_step_def main_step_def session_inv_def held_def untouched_def intro!: flow_inv_position [OF f]\<close>)
qed

lemma flow_inv_net:
  assumes f: "flow_inv (b, W, R)" and rx: "rx_inv b"
  shows "flow_inv (bridge_hist_step L (BNet ev) (b, W, R))"
proof (cases "other_net ev")
  case True
  let ?b = "b\<lparr>br_net := ns_step L ev (br_net b)\<rparr>"
  note q = queues_new_other [OF True, of "br_net b" L]
  have n: "net_inv (br_net b, W, R) (held b) (untouched b)" "br_listener b < length (ns_listener_store (br_net b))" "session_inv (b, W, R)"
    using f by (auto simp: flow_inv_def)
  have "net_inv (br_net ?b, W, R) (held ?b) (untouched ?b)"
    using net_inv_other [OF q n(1)] by (simp add: held_def untouched_def)
  moreover have "session_inv (?b, W, R)" by (rule session_inv_cong [OF n(3) rx]) simp_all
  moreover have "br_listener b < length (ns_listener_store (ns_step L ev (br_net b)))" using q n(2) by (simp add: queues_new_def)
  ultimately have "flow_inv (?b, W, R)" using held_parts(1) [OF f] by (simp add: flow_inv_def held_def)
  moreover have "snd (hist_step L ev (br_net b, W, R)) = (W, R)" using True by (cases ev) (simp_all add: hist_step_def)
  ultimately show ?thesis using True by (simp add: bridge_hist_step_def)
next
  case False
  then show ?thesis using f by (simp add: bridge_hist_step_def)
qed

lemma flow_inv_usb:
  assumes "flow_inv (b, W, R)"
  shows "flow_inv (bridge_hist_step L (BUsb ev) (b, W, R))"
  using assms by (simp add: bridge_hist_step_def flow_inv_def held_def untouched_def session_inv_def)

section \<open>Clients that are turned away\<close>

text \<open>What was written to the stream of a client that the accept thread rejects.\<close>

definition reject_inv :: "'w bridge_history \<Rightarrow> bool" where
  "reject_inv = (\<lambda>(b, W, R).
     case br_accept b of
       AcReject i rest \<Rightarrow> W i @ rest = busy_text
     | AcClose i \<Rightarrow> W i = busy_text \<or> unwritable i (br_net b)
     | _ \<Rightarrow> True)"

lemma unwritable_calls: "unwritable i s \<Longrightarrow> unwritable i (fold (ns_step L) evs s)"
  by (induction evs arbitrary: s) (simp_all add: unwritable_step)

lemma unwritable_bridge_step:
  assumes "flow_inv (b, W, R)" "rx_inv b" "unwritable i (br_net b)"
  shows "unwritable i (br_net (bridge_step L ev b))"
  using unwritable_calls [OF assms(3), of L "net_calls ev b"] bridge_net_calls [OF assms(1,2), of L ev] by (simp add: fst_hist_fold)

text \<open>Only the accept thread writes to a stream that is not the client's of the main thread.\<close>

lemma others_keep_accept: "\<forall>dl now. ev \<noteq> BAccept dl now \<Longrightarrow> br_accept (bridge_step L ev b) = br_accept b"
  by (cases ev) (auto simp: main_step_def serve_start_def note_write_def rx_step_def
      split: main_pos.splits rx_pos.splits prod.splits turn.splits list.splits sum.splits)

lemma others_leave_stream:
  assumes "\<forall>dl now. ev \<noteq> BAccept dl now" "rx_inv b" "i \<notin> set (main_client (br_main b))"
  shows "fst (snd (bridge_hist_step L ev (b, W, R))) i = W i"
proof (cases ev)
  case (BRx dl now)
  have "rx_client (br_rx b) = Some c \<Longrightarrow> c \<noteq> i" for c using assms(2,3) by (auto simp: rx_inv_def)
  then show ?thesis using BRx by (cases "br_rx b") (auto simp: bridge_hist_step_def hist_step_def)
next
  case (BMain spawned tx dl now)
  then show ?thesis by (cases "br_main b") (auto simp: bridge_hist_step_def hist_step_def split: list.splits)
next
  case (BNet e)
  then show ?thesis by (cases e) (simp_all add: bridge_hist_step_def hist_step_def)
qed (use assms(1) in \<open>simp_all add: bridge_hist_step_def\<close>)

lemma reject_inv_accept:
  assumes f: "flow_inv (b, W, R)" and v: "reject_inv (b, W, R)"
  shows "reject_inv (bridge_hist_step L (BAccept dl now) (b, W, R))"
proof (cases "br_accept b")
  case (AcGot c)
  then have "W c = []" using f by (auto simp: flow_inv_def net_inv_def untouched_def)
  then show ?thesis using AcGot by (simp add: bridge_hist_step_def accept_step_def reject_inv_def)
next
  case (AcReject c rest)
  have c: "c < length (ns_conn_store (br_net b))" using f AcReject by (auto simp: flow_inv_def net_inv_def held_def)
  have w: "W c @ rest = busy_text" using v AcReject by (simp add: reject_inv_def)
  show ?thesis
  proof (cases "\<exists>e. fst (write_turn c rest (br_net b)) = turn.Done (Inl e)")
    case True
    then obtain e where "write_turn c rest (br_net b) = (turn.Done (Inl e), snd (write_turn c rest (br_net b)))"
      by (metis prod.collapse)
    then show ?thesis using AcReject c write_turn_unwritable [of c rest "br_net b"]
      by (auto simp: bridge_hist_step_def hist_calls accept_step_def reject_inv_def split: prod.splits)
  next
    case False
    then show ?thesis using AcReject w c
      by (auto simp: bridge_hist_step_def hist_calls accept_step_def reject_inv_def split: prod.splits turn.splits sum.splits)
  qed
qed (auto simp: bridge_hist_step_def hist_step_def accept_step_def reject_inv_def split: prod.splits turn.splits option.splits main_pos.splits)

lemma reject_inv_step:
  assumes f: "flow_inv (b, W, R)" and rx: "rx_inv b" and v: "reject_inv (b, W, R)"
  shows "reject_inv (bridge_hist_step L ev (b, W, R))"
proof (cases "\<exists>dl now. ev = BAccept dl now")
  case True
  then show ?thesis using reject_inv_accept [OF f v] by blast
next
  case False
  obtain W' R' where h: "bridge_hist_step L ev (b, W, R) = (bridge_step L ev b, W', R')"
    by (simp add: bridge_hist_step_def) (metis surj_pair)
  have "i \<notin> set (main_client (br_main b)) \<Longrightarrow> W' i = W i" for i
    using others_leave_stream [of ev b i L W R] False rx by (simp add: h)
  moreover have "br_accept (bridge_step L ev b) = br_accept b" using others_keep_accept False by blast
  ultimately show ?thesis using v unwritable_bridge_step [OF f rx, of _ L ev] held_parts(1) [OF f]
    by (auto simp: reject_inv_def h held_def split: accept_pos.splits)
qed

definition bridge_inv :: "('k, 'w) smol \<Rightarrow> ('k \<Rightarrow> bytes) \<Rightarrow> ('k \<Rightarrow> bytes) \<Rightarrow> 'w bridge_history \<Rightarrow> bool" where
  "bridge_inv L rxs txs = (\<lambda>(b, W, R).
     client_inv b \<and> rx_inv b \<and> flow_inv (b, W, R) \<and> reject_inv (b, W, R) \<and> (smol_ok L rxs txs \<longrightarrow> stack_inv L rxs txs (br_net b, W, R)))"

lemma bridge_inv_start: "bridge_inv L rxs txs (bridge_hist_start port w serial)"
proof -
  have "stack_inv L rxs txs (snd (listen port (netstack_start w)), \<lambda>_. [], \<lambda>_. [])"
    by (simp add: listen_def wake_def Let_def stack_inv_def netstack_start_def handles_def stream_ids_def pending_def)
  moreover have "br_net (bridge_run port (netstack_start w) serial) = snd (listen port (netstack_start w))"
    by (simp add: bridge_run_def split: prod.splits)
  moreover have "reject_inv (bridge_hist_start port w serial)"
    by (simp add: bridge_hist_start_def reject_inv_def bridge_run_def split: prod.splits)
  ultimately show ?thesis using bridge_run_inv flow_inv_start [of port w serial]
    by (auto simp: bridge_inv_def bridge_hist_start_def)
qed

lemma stack_inv_calls:
  "smol_ok L rxs txs \<Longrightarrow> stack_inv L rxs txs h \<Longrightarrow> stack_inv L rxs txs (fold (hist_step L) evs h)"
  by (induction evs arbitrary: h) (simp_all add: stack_inv_hist_step)

lemma bridge_inv_step:
  assumes "bridge_inv L rxs txs h"
  shows "bridge_inv L rxs txs (bridge_hist_step L ev h)"
proof -
  obtain b W R where h: "h = (b, W, R)" by (metis surj_pair)
  have i: "client_inv b" "rx_inv b" "flow_inv (b, W, R)" "smol_ok L rxs txs \<Longrightarrow> stack_inv L rxs txs (br_net b, W, R)"
    "reject_inv (b, W, R)"
    using assms by (auto simp: bridge_inv_def h)
  let ?n = "fold (hist_step L) (net_calls ev b) (br_net b, W, R)"
  have "client_inv (bridge_step L ev b) \<and> rx_inv (bridge_step L ev b)" using brc.step_inv i(1,2) by blast
  moreover have "flow_inv (bridge_hist_step L ev (b, W, R))"
    by (cases ev) (simp_all add: flow_inv_accept flow_inv_main flow_inv_rx flow_inv_net flow_inv_usb i(1-3))
  moreover have "smol_ok L rxs txs \<Longrightarrow> stack_inv L rxs txs (br_net (bridge_step L ev b), snd ?n)"
    using stack_inv_calls i(4) bridge_net_calls [OF i(3,2), of L ev] by (metis prod.collapse)
  moreover have "reject_inv (bridge_hist_step L ev (b, W, R))" using reject_inv_step i by blast
  ultimately show ?thesis unfolding h bridge_hist_step_def by (cases "snd ?n") (simp add: bridge_inv_def)
qed

interpretation brh: step_invariant "\<lambda>h. \<exists>port w serial. h = bridge_hist_start port w serial" "bridge_hist_step L" "bridge_inv L rxs txs"
  for L :: "('k, 'w) smol" and rxs txs
  by unfold_locales (auto intro: bridge_inv_start bridge_inv_step)

section \<open>What the two sides can rely on\<close>

text \<open>
  C4: The bridge forwards the bytes of a session unchanged and in order, in both directions, under every interleaving of its
  threads with the TCP endpoint and the USB device. While the forwarding thread serves a client, the bytes its socket has accepted,
  those queued for the socket and those in the hand of the thread are together exactly the bytes taken from the receive queue
  of the device in this session; while the main thread serves a client, the bytes its socket has handed out are exactly those passed to
  the writes of the device, in order, followed by those in the hand of the thread and those still buffered, and a write that
  reported success has sent all of its bytes, any other a prefix of them.
\<close>

theorem bridge_forwards_unchanged:
  assumes "smol_ok L rxs txs" "fold (bridge_hist_step L) evs (bridge_hist_start port w serial) = (b, W, R)"
    "ce \<in> set (ns_conns (br_net b))" "sl_get L (ce_handle ce) (ns_stack (br_net b)) = Some k"
  shows "(\<forall>rest. rx_serving (br_rx b) = Some (ce_shared ce, rest) \<longrightarrow>
      txs k @ cs_tx (ns_conn_store (br_net b) ! ce_shared ce) @ rest = br_taken b)
    \<and> (\<forall>rest. main_serving (br_main b) = Some (ce_shared ce, rest) \<longrightarrow>
      concat (map fst (br_log b)) @ rest @ cs_rx (ns_conn_store (br_net b) ! ce_shared ce) = rxs k)
    \<and> list_all log_ok (br_log b)"
proof -
  have "bridge_inv L rxs txs (b, W, R)"
    using brh.run_from_init [of "bridge_hist_start port w serial" L rxs txs evs] assms(2) by auto
  then have i: "flow_inv (b, W, R)" "stack_inv L rxs txs (br_net b, W, R)" using assms(1) by (auto simp: bridge_inv_def)
  let ?c = "ce_shared ce" and ?st = "ns_conn_store (br_net b) ! ce_shared ce"
  have "conn_flow L rxs txs (br_net b, W, R) ce" using i(2) assms(3) by (auto simp: stack_inv_def)
  then have k: "txs k @ cs_tx ?st = W ?c" "R ?c @ cs_rx ?st = rxs k" using assms(4) by (auto simp: conn_flow_def)
  have s: "session_inv (b, W, R)" using i(1) by (simp add: flow_inv_def)
  have "rx_serving (br_rx b) = Some (?c, rest) \<Longrightarrow> txs k @ cs_tx ?st @ rest = br_taken b" for rest
    using s k(1) by (auto simp: session_inv_def simp flip: append_assoc)
  moreover have "main_serving (br_main b) = Some (?c, rest) \<Longrightarrow> concat (map fst (br_log b)) @ rest @ cs_rx ?st = rxs k" for rest
    using s k(2) by (auto simp: session_inv_def)
  moreover have "list_all log_ok (br_log b)" using s by (simp add: session_inv_def)
  ultimately show ?thesis by blast
qed

section \<open>A thread that cannot be created\<close>

lemma failed_step: "br_main (bridge_step L ev b) = MnFailed c" if "br_main b = MnFailed c"
  using that by (cases ev) (auto simp: accept_step_def main_step_def rx_step_def
      split: accept_pos.splits rx_pos.splits prod.splits turn.splits option.splits sum.splits)

lemma failed_run: "br_main (fst h) = MnFailed c \<Longrightarrow> br_main (fst (fold (bridge_hist_step L) evs h)) = MnFailed c"
proof (induction evs arbitrary: h)
  case (Cons ev evs)
  have "fst (bridge_hist_step L ev h) = bridge_step L ev (fst h)" by (simp add: bridge_hist_step_def split: prod.split)
  then show ?case using Cons failed_step by (simp add: failed_step)
qed simp

text \<open>
  C40: When the thread of a session cannot be created, the bridge never serves a client again. The error ends the main thread
  with BUSY still set; after that, whatever happens, the main thread stays ended, no client is handed to it and none is on its way,
  and the accept thread goes on: every stream it accepts it begins to reject with the whole busy text, while it does so the bytes
  written to the stream and those left to write are together that text, and when it comes to close the stream the whole text
  was written, or the stream could not be written to any more.
\<close>

theorem bridge_dead_after_spawn_failure:
  assumes "fold (bridge_hist_step L) evs (bridge_hist_start port w serial) = (b, W, R)" "br_main b = MnRecv" "br_queue b = [c]"
    "fold (bridge_hist_step L) (BMain False tx dl now # evs') (b, W, R) = (b', W', R')"
  shows "br_busy b' \<and> br_main b' = MnFailed c \<and> br_queue b' = [] \<and> br_accept b' \<noteq> AcEnded \<and> (\<forall>i. br_accept b' \<noteq> AcSend i)
    \<and> (\<forall>i dl now. br_accept b' = AcGot i \<longrightarrow> br_accept (accept_step dl now b') = AcReject i busy_text)
    \<and> (\<forall>i rest. br_accept b' = AcReject i rest \<longrightarrow> W' i @ rest = busy_text)
    \<and> (\<forall>i. br_accept b' = AcClose i \<longrightarrow> W' i = busy_text \<or> unwritable i (br_net b'))"
proof -
  let ?ev = "BMain False tx dl now"
  have "fold (bridge_hist_step L) (evs @ ?ev # evs') (bridge_hist_start port w serial) = (b', W', R')" using assms(1,4) by simp
  then have "bridge_inv L undefined undefined (b', W', R')"
    using brh.run_from_init [of "bridge_hist_start port w serial" L undefined undefined "evs @ ?ev # evs'"] by auto
  then have i: "client_inv b'" "reject_inv (b', W', R')" by (auto simp: bridge_inv_def)
  have "br_main (fst (bridge_hist_step L ?ev (b, W, R))) = MnFailed c"
    using assms(2,3) by (simp add: bridge_hist_step_def main_step_def serve_start_def)
  from failed_run [OF this, of L evs'] have m: "br_main b' = MnFailed c" using assms(4) by simp
  then have q: "br_busy b'" "br_queue b' = []" "br_accept b' \<noteq> AcEnded" "\<forall>i. br_accept b' \<noteq> AcSend i"
    using i(1) by (auto simp: client_inv_def clients_def)
  have "br_accept b' = AcGot i \<Longrightarrow> br_accept (accept_step dl now b') = AcReject i busy_text" for i dl now
    using q(1) by (simp add: accept_step_def)
  then show ?thesis using m q i(2) by (auto simp: reject_inv_def)
qed

section \<open>A run\<close>

text \<open>One client is served while a second one is turned away; bytes pass in both directions.\<close>

definition demo_serial :: usb where
  "demo_serial = fold usb_step [EvOpen 7, EvPublish, EvConfigure, EvFinish, EvData [65, 66]] (usb_start 115200 0 None)"

definition demo_bridge_evs :: "bridge_ev list" where
  "demo_bridge_evs =
     (let t = BNet (ThreadStep \<lparr>se_now = 0, se_rnd = 0, se_lay = (\<lambda>_. 2)\<rparr>); a = BAccept 0 0; m = BMain True (\<lambda>_. True) 0 0; r = BRx 0 0
      in replicate 4 t @ replicate 3 a @ [m, r, r, BNet (Inject [72, 73]), r] @ replicate 10 t @ replicate 2 a @ replicate 4 m)"

definition demo_bridge :: "(nat \<times> demo_socket) list bridge_history" where
  "demo_bridge = fold (bridge_hist_step demo_smol) demo_bridge_evs (bridge_hist_start 23 [] demo_serial)"

lemma demo_bridge_state:
  "ns_conns (br_net (fst demo_bridge)) = [\<lparr>ce_handle = 1, ce_shared = 0\<rparr>, \<lparr>ce_handle = 2, ce_shared = 1\<rparr>]"
  "rx_serving (br_rx (fst demo_bridge)) = Some (0, [])" "main_serving (br_main (fst demo_bridge)) = Some (0, [])"
  "br_taken (fst demo_bridge) = [65, 66]" "br_log (fst demo_bridge) = [([72, 73], [72, 73], WriteOk)]"
  "map_option (\<lambda>k. (sk_tx k, sk_rx k)) (sl_get demo_smol 1 (ns_stack (br_net (fst demo_bridge)))) = Some ([65, 66], [72, 73])"
  by code_simp+

theorem bridge_forwards_unchanged_witness:
  "br_taken (fst demo_bridge) = [65, 66] \<and> br_log (fst demo_bridge) = [([72, 73], [72, 73], WriteOk)]
   \<and> (\<exists>k. sl_get demo_smol 1 (ns_stack (br_net (fst demo_bridge))) = Some k
        \<and> sk_tx k @ cs_tx (ns_conn_store (br_net (fst demo_bridge)) ! 0) = [65, 66]
        \<and> [72, 73] @ cs_rx (ns_conn_store (br_net (fst demo_bridge)) ! 0) = sk_rx k)"
proof -
  obtain b W R where h: "demo_bridge = (b, W, R)" by (metis surj_pair)
  note st = demo_bridge_state [unfolded h fst_conv]
  obtain k where k: "sl_get demo_smol 1 (ns_stack (br_net b)) = Some k" using st(6) by auto
  have "\<lparr>ce_handle = 1, ce_shared = 0\<rparr> \<in> set (ns_conns (br_net b))" by (simp add: st(1))
  from bridge_forwards_unchanged [OF demo_smol_ok h [unfolded demo_bridge_def] this] k
  show ?thesis using st(2-5) by (simp add: h)
qed

definition demo_two :: "(nat \<times> demo_socket) list bridge" where
  "demo_two = fold (bridge_step demo_smol) demo_bridge_evs (bridge_run 23 (netstack_start []) demo_serial)"

lemma demo_two_state: "br_accept demo_two = AcReject 1 busy_text" "clients demo_two = [0]" "rx_client (br_rx demo_two) = Some 0"
  by code_simp+

theorem bridge_one_client_witness:
  "br_accept demo_two = AcReject 1 busy_text \<and> clients demo_two = [0] \<and> br_busy demo_two \<and> in_session (br_main demo_two)"
  using bridge_one_client [OF demo_two_def] demo_two_state by simp

text \<open>After the failure of the thread for the first client the next one is turned away.\<close>

definition demo_failed_evs :: "bridge_ev list" where
  "demo_failed_evs = drop 8 demo_bridge_evs @ [BAccept 0 0]"

definition demo_waiting :: "(nat \<times> demo_socket) list bridge_history" where
  "demo_waiting = fold (bridge_hist_step demo_smol) (take 7 demo_bridge_evs) (bridge_hist_start 23 [] demo_serial)"

definition demo_failed :: "(nat \<times> demo_socket) list bridge_history" where
  "demo_failed = fold (bridge_hist_step demo_smol) (BMain False (\<lambda>_. True) 0 0 # demo_failed_evs) demo_waiting"

theorem bridge_dead_after_spawn_failure_witness:
  "br_main (fst demo_waiting) = MnRecv \<and> br_queue (fst demo_waiting) = [0] \<and> br_accept (fst demo_failed) = AcClose 1
   \<and> br_busy (fst demo_failed) \<and> br_main (fst demo_failed) = MnFailed 0 \<and> br_queue (fst demo_failed) = []
   \<and> fst (snd demo_failed) 1 = busy_text"
proof -
  have w: "br_main (fst demo_waiting) = MnRecv" "br_queue (fst demo_waiting) = [0]" "br_accept (fst demo_failed) = AcClose 1"
    "\<not> unwritable 1 (br_net (fst demo_failed))" by code_simp+
  obtain b W R where h: "demo_waiting = (b, W, R)" by (metis surj_pair)
  obtain b' W' R' where h': "demo_failed = (b', W', R')" by (metis surj_pair)
  have "br_busy b' \<and> br_main b' = MnFailed 0 \<and> br_queue b' = [] \<and> (\<forall>i. br_accept b' = AcClose i \<longrightarrow> W' i = busy_text \<or> unwritable i (br_net b'))"
    using bridge_dead_after_spawn_failure [OF h [unfolded demo_waiting_def] _ _ h' [unfolded demo_failed_def h]] w by (simp add: h)
  then show ?thesis using w by (simp add: h')
qed

end
