(* ===== verification/Device.thy ===== *)
theory Device
  imports Node Usb_Host Key_Store_Props
begin

text \<open>
  The firmware around the node: firmware/src/main.rs (boot), button.rs, wifi.rs, console.rs and the parts of platform.rs that need the
  node. The drivers of ESP-IDF are parameters: their results are arguments or members of a record.
\<close>

section \<open>Addresses as text\<close>

text \<open>\<^verbatim>\<open>Display\<close> of the address types of the standard library.\<close>

definition fmt_v4 :: "u32 \<Rightarrow> string" where
  "fmt_v4 a = join ''.'' (map (\<lambda>n. dec_string (unat (take_bit 8 (drop_bit n a)))) [24, 16, 8, 0])"

definition v6_segments :: "u128 \<Rightarrow> nat list" where
  "v6_segments a = map (\<lambda>n. unat (take_bit 16 (drop_bit n a))) [112, 96, 80, 64, 48, 32, 16, 0]"

fun longest_zeros :: "nat \<Rightarrow> nat \<times> nat \<Rightarrow> nat \<times> nat \<Rightarrow> nat list \<Rightarrow> nat \<times> nat" where
  "longest_zeros i cur best [] = best"
| "longest_zeros i cur best (seg # segs) =
     (if seg = 0 then
        (let cur = (if snd cur = 0 then i else fst cur, Suc (snd cur))
         in longest_zeros (Suc i) cur (if snd best < snd cur then cur else best) segs)
      else longest_zeros (Suc i) (0, 0) best segs)"

definition fmt_v6 :: "u128 \<Rightarrow> string" where
  "fmt_v6 a =
     (let segs = v6_segments a; hex = (\<lambda>ss. join '':'' (map hex_string ss))
      in if take 6 segs = [0, 0, 0, 0, 0, 0xffff] then ''::ffff:'' @ fmt_v4 (ucast a)
         else case longest_zeros 0 (0, 0) (0, 0) segs of
           (start, len) \<Rightarrow>
             (if 1 < len then hex (take start segs) @ ''::'' @ hex (drop (start + len) segs) else hex segs))"

definition fmt_ip :: "ip_addr \<Rightarrow> string" where
  "fmt_ip ip = (case ip of V4 a \<Rightarrow> fmt_v4 a | V6 a \<Rightarrow> fmt_v6 a)"

definition fmt_socket_addr :: "socket_addr \<Rightarrow> string" where
  "fmt_socket_addr a =
     (case sa_ip a of
        V4 ip \<Rightarrow> fmt_v4 ip @ '':'' @ dec_word (sa_port a)
      | V6 ip \<Rightarrow> ''['' @ fmt_v6 ip @ (if sa_scope a = 0 then [] else ''%'' @ dec_word (sa_scope a)) @ '']:'' @ dec_word (sa_port a))"

section \<open>The platform\<close>

definition esp_node_config :: "string \<Rightarrow> saved_config \<Rightarrow> node_config" where
  "esp_node_config firmware_version cfg =
     \<lparr>nc_control_url = ''https://controlplane.tailscale.com'', nc_auth_key = sc_auth_key cfg,
      nc_hostname = (if sc_hostname cfg = [] then ''target-console'' else sc_hostname cfg), nc_version = firmware_version,
      nc_udp_port = 41641, nc_local_ip = None, nc_worker_stack = 20 * 1024, nc_control_stack = 40 * 1024,
      nc_fallback_region_code = ''tok''\<rparr>"

definition esp_node_state :: "node_status option \<Rightarrow> Shell.node_state" where
  "esp_node_state st =
     (case st of
        None \<Rightarrow> Off
      | Some s \<Rightarrow>
          (case nst_state s of
             Starting \<Rightarrow> Connecting
           | ConnectingControl \<Rightarrow> Connecting
           | Registering \<Rightarrow> Connecting
           | Node.NeedsLogin url \<Rightarrow> Shell.NeedsLogin url
           | Node.Running \<Rightarrow> Shell.Running (map fmt_ip (nst_addresses s)) (nst_dns_name s)
           | NodeError e \<Rightarrow> Shell.Error e))"

definition derp_text :: "node_status \<Rightarrow> string" where
  "derp_text s =
     (if nst_home_derp s = 0 then ''none''
      else ''region '' @ i32_string (nst_home_derp s) @ (if nst_derp_connected s then '' (connected)'' else '' (down)''))"

definition peer_text :: "peer_status \<Rightarrow> string" where
  "peer_text p = ps_name p @ (case ps_direct p of Some d \<Rightarrow> ''@'' @ fmt_socket_addr d | None \<Rightarrow> ''@derp'')"

definition active_peers :: "node_status \<Rightarrow> string list" where
  "active_peers s = map peer_text (filter (\<lambda>p. ps_active p \<or> ps_has_session p) (nst_peers s))"

definition peers_text :: "node_status \<Rightarrow> string" where
  "peers_text s =
     (let active = active_peers s
      in dec_string (length (nst_peers s)) @ '' known, active: '' @ (if active = [] then ''-'' else join '', '' active))"

text \<open>\<open>regs\<close> are the registers of the USB port, \<open>heap\<close> the three counters of the allocator.\<close>

definition esp_status ::
    "string \<Rightarrow> bool \<Rightarrow> string \<Rightarrow> node_status option \<Rightarrow> usb option \<Rightarrow> u32 \<times> u32 \<times> u32 \<Rightarrow> nat \<times> nat \<times> nat \<Rightarrow> status_snapshot" where
  "esp_status firmware_version setup_mode wifi st serial regs heap =
     \<lparr>sn_firmware = firmware_version, sn_setup_mode = setup_mode, sn_wifi = wifi, sn_node = Some (esp_node_state st),
      sn_derp = (case st of Some s \<Rightarrow> derp_text s | None \<Rightarrow> ''-''), sn_peers = (case st of Some s \<Rightarrow> peers_text s | None \<Rightarrow> ''-''),
      sn_usb = (case serial of
          Some u \<Rightarrow> usb_describe u @ '' ('' @ (case regs of (v, rtc, wrap) \<Rightarrow> root_port_state v rtc wrap) @ '')''
        | None \<Rightarrow> ''device mode (setup console)''),
      sn_heap = (case heap of (free, least, internal) \<Rightarrow>
        ''free '' @ dec_string (free div 1024) @ '' KB, min '' @ dec_string (least div 1024) @ '' KB, internal ''
        @ dec_string (internal div 1024) @ '' KB'')\<rparr>"

text \<open>The thread that removes the auth key from the store: one look at the state of the node.\<close>

definition authkey_scrub :: "'s store \<Rightarrow> node_status \<Rightarrow> 's \<Rightarrow> bool \<times> 's" where
  "authkey_scrub S st s = (if nst_state st = Node.Running then (True, snd (forget_auth_key S s)) else (False, s))"

text \<open>The stack of a thread is in PSRAM unless the thread may write flash.\<close>

definition stack_in_psram :: "string \<Rightarrow> bool" where
  "stack_in_psram name \<longleftrightarrow> name \<noteq> ''control''"

section \<open>The button\<close>

text \<open>The readings of the loop: the time since its start and whether the button was pressed then.\<close>

fun held_at_boot :: "(duration \<times> bool) list \<Rightarrow> bool option" where
  "held_at_boot [] = None"
| "held_at_boot ((elapsed, pressed) # rs) =
     (if elapsed < from_millis 50 then (if pressed then held_at_boot rs else Some False) else Some True)"

section \<open>Boot\<close>

definition DEFAULT_TCP_PORT :: u16 where "DEFAULT_TCP_PORT = 35932"
definition DEFAULT_BAUD :: u32 where "DEFAULT_BAUD = 115200"

definition setup_mode_of :: "bool \<Rightarrow> saved_config option \<Rightarrow> bool \<Rightarrow> bool" where
  "setup_mode_of setup_requested config registered \<longleftrightarrow> setup_requested \<or> config = None \<or> \<not> registered"

definition boot_text :: "bool \<Rightarrow> saved_config option \<Rightarrow> bool \<Rightarrow> string" where
  "boot_text setup_requested config registered =
     (if setup_requested then ''setup (button)''
      else if config = None then ''setup (no Wi-Fi configured)''
      else if \<not> registered then ''setup (Tailscale login not completed)''
      else ''normal'')"

definition boot_serial :: "saved_config option \<Rightarrow> usb" where
  "boot_serial config =
     (let baud = (case Option.bind config sc_baud_rate of Some b \<Rightarrow> b | None \<Rightarrow> DEFAULT_BAUD);
          iface = (case Option.bind config sc_usb_interface of Some i \<Rightarrow> i | None \<Rightarrow> 0);
          forced = Option.bind (Option.bind (Option.bind config sc_usb_driver) driver_parse) id
      in usb_start baud iface forced)"

definition boot_port :: "saved_config option \<Rightarrow> u16" where
  "boot_port config = (case Option.bind config sc_tcp_port of Some p \<Rightarrow> p | None \<Rightarrow> DEFAULT_TCP_PORT)"

text \<open>
  What \<^verbatim>\<open>main\<close> starts, each with whether it could be started: the Wi-Fi manager, the USB host driver (normal mode), the console on the
  USB port (setup mode), and the threads that connect to Wi-Fi and run the shells.
\<close>

record boot_parts =
  bp_wifi :: bool
  bp_usb_host :: bool
  bp_usb_console :: bool
  bp_wifi_thread :: bool
  bp_usb_shell :: bool
  bp_uart_shell :: bool

text \<open>
  The end of \<^verbatim>\<open>main\<close>: the setup shell, the bridge on a port with its serial device, or the error of a part that does not
  start; \<open>BootPanic\<close> is the panic when there is no node in normal mode. Without the console on the USB port there is only a
  warning, and no shell on it.
\<close>

datatype boot_end = SetupShell | RunBridge u16 usb | BootError string | BootPanic

definition boot :: "'s store \<Rightarrow> ('s, 'w) drivers \<Rightarrow> boot_parts \<Rightarrow> bool \<Rightarrow> ('s, 'w) device \<Rightarrow> boot_end \<times> ('s, 'w) device" where
  "boot S D parts setup_requested d =
     (let config = load_config S (dv_store d); registered = is_registered S (dv_store d);
          setup_mode = setup_mode_of setup_requested config registered
      in if \<not> bp_wifi parts then (BootError ''wifi'', d)
         else if \<not> setup_mode \<and> \<not> bp_usb_host parts then (BootError ''usb host'', d)
         else
           (let d = (case config of Some cfg \<Rightarrow> d\<lparr>dv_nets := sc_networks cfg\<rparr> | None \<Rightarrow> d)
            in if config \<noteq> None \<and> \<not> bp_wifi_thread parts then (BootError ''wifi-connect'', d)
               else
                 (let (r, d) = (if config \<noteq> None \<and> \<not> setup_mode then esp_start_node S D d else (Inr (), d))
                  in case r of
                       Inl e \<Rightarrow> (BootError e, d)
                     | Inr _ \<Rightarrow>
                         (if setup_mode \<and> bp_usb_console parts \<and> \<not> bp_usb_shell parts then (BootError ''shell-usb'', d)
                          else if \<not> bp_uart_shell parts then (BootError ''shell-uart'', d)
                          else if setup_mode then (SetupShell, d)
                          else if dv_node d then (RunBridge (boot_port config) (boot_serial config), d)
                          else (BootPanic, d)))))"

section \<open>Consoles\<close>

text \<open>The results of the writes of the USB driver; a write that accepts nothing or fails ends the loop.\<close>

fun console_loop :: "nat option list \<Rightarrow> bytes \<Rightarrow> bytes" where
  "console_loop _ [] = []"
| "console_loop [] rest = []"
| "console_loop (Some n # rs) rest = (if 0 < n then take n rest @ console_loop rs (drop n rest) else [])"
| "console_loop (None # rs) rest = []"

definition console_write :: "bool \<Rightarrow> nat option list \<Rightarrow> bytes \<Rightarrow> bytes" where
  "console_write terminal_open rs s = (if terminal_open then console_loop rs s else [])"

definition console_read_byte :: "bytes option \<Rightarrow> u8 option" where
  "console_read_byte r = (case r of Some [b] \<Rightarrow> Some b | _ \<Rightarrow> None)"

section \<open>Wi-Fi\<close>

text \<open>The station of ESP-IDF; an access point without an authentication method is open.\<close>

datatype auth_method = AuthNone | WPA2Personal | OtherAuth

record raw_ap =
  ra_ssid :: string
  ra_signal_strength :: int
  ra_auth_method :: "auth_method option"

record 'e esp_wifi =
  ew_scan :: "'e \<Rightarrow> (string + raw_ap list) \<times> 'e"
  ew_ssid_fits :: "string \<Rightarrow> bool"
  ew_password_fits :: "string \<Rightarrow> bool"
  ew_is_connected :: "'e \<Rightarrow> bool"
  ew_disconnect :: "'e \<Rightarrow> 'e"
  ew_set_configuration :: "string \<Rightarrow> string \<Rightarrow> auth_method \<Rightarrow> 'e \<Rightarrow> (string + unit) \<times> 'e"
  ew_connect :: "'e \<Rightarrow> (string + unit) \<times> 'e"

record 'e wifi_mgr =
  wm_wifi :: 'e
  wm_networks :: "wifi_network list"
  wm_current :: "string option"

definition set_networks :: "wifi_network list \<Rightarrow> 'e wifi_mgr \<Rightarrow> 'e wifi_mgr" where
  "set_networks nets m = m\<lparr>wm_networks := nets\<rparr>"

definition ap_of :: "raw_ap \<Rightarrow> ap_info" where
  "ap_of a =
     \<lparr>ap_ssid = ra_ssid a, ap_rssi = ra_signal_strength a,
      ap_secure = (ra_auth_method a \<noteq> Some AuthNone \<and> ra_auth_method a \<noteq> None)\<rparr>"

definition wifi_scan :: "'e esp_wifi \<Rightarrow> 'e wifi_mgr \<Rightarrow> (string + ap_info list) \<times> 'e wifi_mgr" where
  "wifi_scan E m =
     (case ew_scan E (wm_wifi m) of
        (Inl e, w) \<Rightarrow> (Inl e, m\<lparr>wm_wifi := w\<rparr>)
      | (Inr aps, w) \<Rightarrow> (Inr (map ap_of aps), m\<lparr>wm_wifi := w\<rparr>))"

text \<open>\<^verbatim>\<open>ip()\<close>: the address of the interface unless it is 0.0.0.0.\<close>

definition usable_ip :: "u32 option \<Rightarrow> u32 option" where
  "usable_ip r = (case r of Some a \<Rightarrow> if a = 0 then None else Some a | None \<Rightarrow> None)"

text \<open>The readings of clock and address while waiting, 200 ms apart.\<close>

fun wait_ip :: "instant \<Rightarrow> (instant \<times> u32 option) list \<Rightarrow> u32 option option" where
  "wait_ip deadline [] = None"
| "wait_ip deadline ((now, r) # rs) =
     (if now < deadline then (case usable_ip r of Some ip \<Rightarrow> Some (Some ip) | None \<Rightarrow> wait_ip deadline rs) else Some None)"

text \<open>The first step gives the driver the credentials; \<open>None\<close>: the loop is still waiting.\<close>

definition join_network :: "'e esp_wifi \<Rightarrow> string \<Rightarrow> string \<Rightarrow> 'e wifi_mgr \<Rightarrow> (string + unit) \<times> 'e wifi_mgr" where
  "join_network E ssid password m =
     (if \<not> ew_ssid_fits E ssid then (Inl ''ssid too long'', m)
      else if \<not> ew_password_fits E password then (Inl ''password too long'', m)
      else
        (let w = (if ew_is_connected E (wm_wifi m) then ew_disconnect E (wm_wifi m) else wm_wifi m)
         in case ew_set_configuration E ssid password (if password = [] then AuthNone else WPA2Personal) w of
              (Inl e, w) \<Rightarrow> (Inl e, m\<lparr>wm_wifi := w\<rparr>)
            | (Inr _, w) \<Rightarrow>
                (case ew_connect E w of
                   (Inl e, w) \<Rightarrow> (Inl e, m\<lparr>wm_wifi := w\<rparr>)
                 | (Inr _, w) \<Rightarrow> (Inr (), m\<lparr>wm_wifi := w, wm_current := Some ssid\<rparr>))))"

definition wifi_connect ::
    "'e esp_wifi \<Rightarrow> string \<Rightarrow> string \<Rightarrow> nat \<Rightarrow> instant \<Rightarrow> (instant \<times> u32 option) list \<Rightarrow> 'e wifi_mgr
      \<Rightarrow> (string + u32) option \<times> 'e wifi_mgr" where
  "wifi_connect E ssid password secs now rs m =
     (case join_network E ssid password m of
        (Inl e, m) \<Rightarrow> (Some (Inl e), m)
      | (Inr _, m) \<Rightarrow>
          (case wait_ip (now + from_secs secs) rs of
             None \<Rightarrow> (None, m)
           | Some (Some ip) \<Rightarrow> (Some (Inr ip), m)
           | Some None \<Rightarrow>
               (Some (Inl (''no IP address after '' @ dec_string secs @ ''s (wrong password or out of range?)'')), m)))"

text \<open>The strongest access point whose name is known, with the first entry of that name.\<close>

definition choose_network :: "wifi_network list \<Rightarrow> ap_info list \<Rightarrow> (wifi_network \<times> int) option" where
  "choose_network known aps =
     (let hit = (\<lambda>a. map_option (\<lambda>n. (n, ap_rssi a)) (List.find (\<lambda>n. wn_ssid n = ap_ssid a) known))
      in case List.find (\<lambda>a. hit a \<noteq> None) (sort_key (\<lambda>a. - ap_rssi a) aps) of
           Some a \<Rightarrow> hit a
         | None \<Rightarrow> None)"

definition connect_best ::
    "'e esp_wifi \<Rightarrow> nat \<Rightarrow> instant \<Rightarrow> (instant \<times> u32 option) list \<Rightarrow> 'e wifi_mgr \<Rightarrow> (string + u32) option \<times> 'e wifi_mgr" where
  "connect_best E secs now rs m =
     (let known = wm_networks m
      in if known = [] then (Some (Inl ''no known networks''), m)
         else case wifi_scan E m of
           (Inl e, m) \<Rightarrow> (Some (Inl e), m)
         | (Inr aps, m) \<Rightarrow>
             (case choose_network known aps of
                None \<Rightarrow> (Some (Inl (''none of the known networks ('' @ join '', '' (map wn_ssid known) @ '') is in range'')), m)
              | Some (n, _) \<Rightarrow> wifi_connect E (wn_ssid n) (wn_password n) secs now rs m))"

text \<open>One turn of the monitor; \<open>up\<close> is what the driver reports, \<open>rs\<close> the readings of a reconnect.\<close>

record monitor =
  mo_was_up :: bool
  mo_last_attempt :: instant

definition monitor_turn ::
    "'e esp_wifi \<Rightarrow> bool \<Rightarrow> instant \<Rightarrow> (instant \<times> u32 option) list \<Rightarrow> monitor \<times> 'e wifi_mgr \<Rightarrow> monitor \<times> 'e wifi_mgr" where
  "monitor_turn E up now rs = (\<lambda>(mo, m).
     if wm_networks m = [] then (mo, m)
     else
       (let mo = mo\<lparr>mo_was_up := up\<rparr>
        in if \<not> up \<and> from_secs 20 \<le> now - mo_last_attempt mo
           then (mo\<lparr>mo_last_attempt := now\<rparr>, snd (connect_best E 15 now rs m))
           else (mo, m)))"

definition wifi_describe :: "u32 option \<Rightarrow> 'e wifi_mgr \<Rightarrow> string" where
  "wifi_describe r m =
     (case (wm_current m, usable_ip r) of
        (None, _) \<Rightarrow> ''not connected''
      | (Some ssid, Some ip) \<Rightarrow> ''connected to '' @ ssid @ '' ('' @ fmt_v4 ip @ '')''
      | (Some ssid, None) \<Rightarrow> ''connecting to '' @ ssid)"

end
