(* ===== verification/Device_Props.thy ===== *)
theory Device_Props
  imports Device
begin

text \<open>
  Properties of the firmware: the network it joins, the settings it boots with, and the auth key it forgets.
\<close>

section \<open>The network that is joined\<close>

lemma find_sorted_least:
  "sorted (map f xs) \<Longrightarrow> List.find P xs = Some a \<Longrightarrow> b \<in> set xs \<Longrightarrow> P b \<Longrightarrow> f a \<le> f b"
  by (induction xs) (auto split: if_splits)

text \<open>
  C32: The device joins the strongest known network in range: the network that connect_best of firmware/src/wifi.rs chooses
  is one of the known networks, some access point of its name was found, no access point of a known network was received
  stronger, and none is chosen exactly when no access point of a known network was found.
\<close>

theorem strongest_known_network:
  "case choose_network known aps of
     Some (n, r) \<Rightarrow> n \<in> set known \<and> (\<exists>a \<in> set aps. ap_ssid a = wn_ssid n \<and> ap_rssi a = r)
       \<and> list_all (\<lambda>a. ap_ssid a \<in> wn_ssid ` set known \<longrightarrow> ap_rssi a \<le> r) aps
   | None \<Rightarrow> list_all (\<lambda>a. ap_ssid a \<notin> wn_ssid ` set known) aps"
proof -
  define hit where "hit = (\<lambda>a :: ap_info. map_option (\<lambda>n. (n, ap_rssi a)) (List.find (\<lambda>n. wn_ssid n = ap_ssid a) known))"
  have hit: "hit a \<noteq> None \<longleftrightarrow> ap_ssid a \<in> wn_ssid ` set known" for a
    unfolding hit_def find_None_iff [symmetric] by (auto simp: find_None_iff) (metis image_eqI)+
  let ?aps = "sort_key (\<lambda>a. - ap_rssi a) aps"
  have choose: "choose_network known aps = (case List.find (\<lambda>a. hit a \<noteq> None) ?aps of Some a \<Rightarrow> hit a | None \<Rightarrow> None)"
    unfolding choose_network_def hit_def Let_def ..
  show ?thesis
  proof (cases "List.find (\<lambda>a. hit a \<noteq> None) ?aps")
    case None
    then have "choose_network known aps = None" by (simp add: choose)
    moreover have "ap_ssid a \<notin> wn_ssid ` set known" if "a \<in> set aps" for a
      using None that hit [of a] unfolding find_None_iff by auto
    ultimately show ?thesis by (simp add: list_all_iff)
  next
    case (Some a)
    then have "a \<in> set ?aps" "hit a \<noteq> None" unfolding find_Some_iff by (metis nth_mem)+
    then have a: "a \<in> set aps" "hit a \<noteq> None" by simp_all
    then obtain n where n: "hit a = Some (n, ap_rssi a)" "List.find (\<lambda>n. wn_ssid n = ap_ssid a) known = Some n"
      by (auto simp: hit_def)
    have "n \<in> set known" "wn_ssid n = ap_ssid a" using n(2) by (auto simp: find_Some_iff)
    moreover have "ap_rssi b \<le> ap_rssi a" if "b \<in> set aps" "ap_ssid b \<in> wn_ssid ` set known" for b
      using find_sorted_least [OF sorted_sort_key Some, of b] that hit [of b] by simp
    moreover have "choose_network known aps = Some (n, ap_rssi a)" unfolding choose Some by (simp add: n(1))
    ultimately show ?thesis using a(1) by (auto simp: list_all_iff)
  qed
qed

definition demo_aps :: "ap_info list" where
  "demo_aps = [\<lparr>ap_ssid = ''home'', ap_rssi = -70, ap_secure = True\<rparr>, \<lparr>ap_ssid = ''other'', ap_rssi = -30, ap_secure = True\<rparr>,
     \<lparr>ap_ssid = ''guest'', ap_rssi = -50, ap_secure = False\<rparr>]"

theorem strongest_known_network_witness:
  "case choose_network (sc_networks demo_config) demo_aps of
     Some (n, r) \<Rightarrow> wn_ssid n = ''guest'' \<and> -70 \<le> r \<and> -50 \<le> r
   | None \<Rightarrow> False"
proof -
  have "choose_network (sc_networks demo_config) demo_aps = Some (\<lparr>wn_ssid = ''guest'', wn_password = []\<rparr>, -50)" by code_simp
  with strongest_known_network [of "sc_networks demo_config" demo_aps] show ?thesis
    by (simp add: demo_aps_def demo_config_def)
qed

section \<open>The settings of a boot\<close>

lemma driver_parse_ok: "driver_ok (Some name) \<Longrightarrow> \<exists>d. driver_parse name = Some (Some d)"
  by (auto simp: driver_ok_def driver_parse_def)

lemma kv_load_registered:
  assumes "kv_store S" "reliable S" "config_good c" "sc_networks c \<noteq> []" "fst (save_config S c s) = Inr ()"
    "fst (st_set S KEY_REGISTERED ''1'' (snd (save_config S c s))) = Inr ()"
  defines "s' \<equiv> snd (st_set S KEY_REGISTERED ''1'' (snd (save_config S c s)))"
  shows "load_config S s' = Some c" "is_registered S s'"
proof -
  have v: "view S s' = (view S (snd (save_config S c s)))(KEY_REGISTERED \<mapsto> ''1'')"
    unfolding s'_def using kv_store.set_ok [OF assms(1,6)] .
  then have "view S s' KEY_REGISTERED = Some ''1''" by simp
  then show "is_registered S s'" by (simp add: is_registered_def view_def)
  show "load_config S s' = Some c"
    using kv_store.save_config_view [OF assms(1,2,5)]
    by (intro load_saved_view [OF assms(3,4), where m = "view S s"]) (auto simp: v Let_def)
qed

definition all_parts :: boot_parts where
  "all_parts = \<lparr>bp_wifi = True, bp_usb_host = True, bp_usb_console = True, bp_wifi_thread = True, bp_usb_shell = True, bp_uart_shell = True\<rparr>"

text \<open>
  C14: The device boots with what was set up: after a well-formed configuration with a network was saved and the registration
  noted, a boot without the button held in which every part and the node can be started runs the bridge (no panic) on the
  configured port with the configured baud rate, interface and driver, each with its default when not set, and every driver
  name that can be stored is known to the USB host.
\<close>

theorem boot_uses_saved_config:
  assumes "kv_store S" "reliable S" "config_good c" "sc_networks c \<noteq> []" "fst (save_config S c s) = Inr ()"
    "fst (st_set S KEY_REGISTERED ''1'' (snd (save_config S c s))) = Inr ()"
    "dv_store d = snd (st_set S KEY_REGISTERED ''1'' (snd (save_config S c s)))"
    "dr_start_node D c (dv_store d) = (Inr (), st)" "\<not> dv_node d"
  shows "\<exists>d'. boot S D all_parts False d =
      (RunBridge (case sc_tcp_port c of Some p \<Rightarrow> p | None \<Rightarrow> DEFAULT_TCP_PORT)
         (usb_start (case sc_baud_rate c of Some b \<Rightarrow> b | None \<Rightarrow> DEFAULT_BAUD) (case sc_usb_interface c of Some i \<Rightarrow> i | None \<Rightarrow> 0)
            (case sc_usb_driver c of Some name \<Rightarrow> the (driver_parse name) | None \<Rightarrow> None)), d')
      \<and> dv_node d' \<and> dv_nets d' = sc_networks c
      \<and> (case sc_usb_driver c of Some name \<Rightarrow> driver_parse name \<noteq> None | None \<Rightarrow> True)"
proof -
  have l: "load_config S (dv_store d) = Some c" "is_registered S (dv_store d)"
    unfolding assms(7) by (rule kv_load_registered [OF assms(1-6)])+
  have drv: "\<exists>x. driver_parse name = Some (Some x)" if "sc_usb_driver c = Some name" for name
    using assms(3) that by (intro driver_parse_ok) (simp add: config_good_def)
  have start: "esp_start_node S D (d\<lparr>dv_nets := sc_networks c\<rparr>) = (Inr (), d\<lparr>dv_store := st, dv_nets := sc_networks c, dv_node := True\<rparr>)"
    using l assms(8,9) by (simp add: esp_start_node_def)
  have "boot_serial (Some c) = usb_start (case sc_baud_rate c of Some b \<Rightarrow> b | None \<Rightarrow> DEFAULT_BAUD)
      (case sc_usb_interface c of Some i \<Rightarrow> i | None \<Rightarrow> 0) (case sc_usb_driver c of Some name \<Rightarrow> the (driver_parse name) | None \<Rightarrow> None)"
    using drv by (cases "sc_usb_driver c") (force simp: boot_serial_def Let_def)+
  then have "boot S D all_parts False d = (RunBridge (boot_port (Some c)) (usb_start (case sc_baud_rate c of Some b \<Rightarrow> b | None \<Rightarrow> DEFAULT_BAUD)
      (case sc_usb_interface c of Some i \<Rightarrow> i | None \<Rightarrow> 0) (case sc_usb_driver c of Some name \<Rightarrow> the (driver_parse name) | None \<Rightarrow> None)),
      d\<lparr>dv_store := st, dv_nets := sc_networks c, dv_node := True\<rparr>)"
    using l start by (simp add: boot_def setup_mode_of_def all_parts_def Let_def)
  moreover have "case sc_usb_driver c of Some name \<Rightarrow> driver_parse name \<noteq> None | None \<Rightarrow> True"
    using drv by (auto split: option.split)
  ultimately show ?thesis by (simp add: boot_port_def)
qed

definition demo_device :: "(file_store, unit) device" where
  "demo_device =
     \<lparr>dv_store = snd (st_set (file_store_ops (\<lambda>_. FlushOk)) KEY_REGISTERED ''1''
        (snd (save_config (file_store_ops (\<lambda>_. FlushOk)) demo_config demo_fs))), dv_wifi = (), dv_nets = [], dv_node = False\<rparr>"

theorem boot_uses_saved_config_witness:
  "\<exists>d'. boot (file_store_ops (\<lambda>_. FlushOk)) demo_drivers all_parts False demo_device
     = (RunBridge 2301 (usb_start 115200 0 (Some (Ftdi 64 (from_bcd_device 0x0800)))), d') \<and> dv_node d'"
proof -
  let ?S = "file_store_ops (\<lambda>_. FlushOk)"
  have g: "config_good demo_config" "sc_networks demo_config \<noteq> []" by code_simp+
  have d: "dv_store demo_device = snd (st_set ?S KEY_REGISTERED ''1'' (snd (save_config ?S demo_config demo_fs)))" "\<not> dv_node demo_device"
    by (simp_all add: demo_device_def)
  have st: "dr_start_node demo_drivers demo_config (dv_store demo_device) = (Inr (), dv_store demo_device)" by (simp add: demo_drivers_def)
  have "driver_parse ''ftdi'' = Some (Some (Ftdi 64 (from_bcd_device 0x0800)))" by (simp add: driver_parse_def)
  with boot_uses_saved_config [OF fs.kv_store_axioms fs_reliable g fs_save_ok fs_ops_ok(1) d(1) st d(2)]
  show ?thesis by (auto simp: demo_config_def default_config_def DEFAULT_BAUD_def)
qed

section \<open>The auth key\<close>

text \<open>
  The auth key is forgotten once the node runs: a look of the scrub thread at a running node that removes the key leaves
  every other setting as it was.
\<close>

theorem auth_key_forgotten:
  assumes "kv_store S" "reliable S" "nst_state st = Node.Running" "load_config S s = Some c"
  shows "load_config S (snd (authkey_scrub S st s)) = Some (c\<lparr>sc_auth_key := None\<rparr>)"
proof -
  let ?s = "snd (authkey_scrub S st s)"
  have "view S ?s = (view S s)(K_AUTH := None)"
    using kv_store.remove_ok [OF assms(1)] assms(2,3) by (simp add: authkey_scrub_def forget_auth_key_def reliable_def)
  then have g: "st_get S k ?s = (if k = K_AUTH then None else st_get S k s)" for k
    by (metis fun_upd_apply view_def)
  have v: "st_get S K_PASS ?s = st_get S K_PASS s" "st_get S K_NETS ?s = st_get S K_NETS s" "st_get S K_SSID ?s = st_get S K_SSID s"
    by (simp_all add: g store_keys)
  have "load_networks S ?s = load_networks S s" unfolding load_networks_def v ..
  then show ?thesis using assms(4)
    by (auto simp: load_config_def Let_def g store_keys non_empty_def split: if_splits)
qed

section \<open>The setup console\<close>

text \<open>What the setup console sends is a prefix of what it was given, all of it when the driver accepts it all.\<close>

lemma console_loop_prefix: "\<exists>rest. s = console_loop rs s @ rest"
proof (induction rs s rule: console_loop.induct)
  case (3 n rs v va)
  then show ?case
  proof (cases "0 < n")
    case True
    then obtain rest where "drop n (v # va) = console_loop rs (drop n (v # va)) @ rest" using 3 by blast
    then have "v # va = (take n (v # va) @ console_loop rs (drop n (v # va))) @ rest" by (metis append_assoc append_take_drop_id)
    then show ?thesis using True by auto
  qed simp
qed simp_all

end
