(* ===== verification/Host_Tool.thy ===== *)
theory Host_Tool
  imports Node Key_Store_Props Netstack_Props
begin

text \<open>
  tools/hostnode/src/main.rs: the reader of the state file (its writer is in Key_Store), the command line, the request of the
  probe, and the thread of an echo client over the model of the TCP endpoint.
\<close>

section \<open>Reading the state file\<close>

text \<open>\<^verbatim>\<open>split_once\<close> and \<^verbatim>\<open>replace\<close> with patterns of several characters.\<close>

fun split_once_str :: "string \<Rightarrow> string \<Rightarrow> (string \<times> string) option" where
  "split_once_str pat [] = (if pat = [] then Some ([], []) else None)"
| "split_once_str pat (c # cs) =
     (case strip_prefix pat (c # cs) of
        Some r \<Rightarrow> Some ([], r)
      | None \<Rightarrow> map_option (\<lambda>(a, b). (c # a, b)) (split_once_str pat cs))"

fun replace2 :: "char \<Rightarrow> char \<Rightarrow> string \<Rightarrow> string \<Rightarrow> string" where
  "replace2 a b by (x # y # r) = (if x = a \<and> y = b then by @ replace2 a b by r else x # replace2 a b by (y # r))"
| "replace2 a b by s = s"

definition QUOTE :: char where "QUOTE = CHR 0x22"
definition BSL :: char where "BSL = CHR 0x5C"

definition json_unesc :: "string \<Rightarrow> string" where
  "json_unesc s = replace2 BSL BSL [BSL] (replace2 BSL QUOTE [QUOTE] s)"

definition trim_start_matches :: "char \<Rightarrow> string \<Rightarrow> string" where
  "trim_start_matches c s = dropWhile (\<lambda>x. x = c) s"

fun parse_lines :: "string list \<Rightarrow> (string \<times> string) list \<Rightarrow> (string \<times> string) list option" where
  "parse_lines [] m = Some m"
| "parse_lines (l # ls) m =
     (let line = trim_end_matches CHR '','' (trim l)
      in if \<not> (line \<noteq> [] \<and> hd line = QUOTE) then parse_lines ls m
         else case split_once_str ([QUOTE] @ '': '' @ [QUOTE]) line of
           None \<Rightarrow> None
         | Some (k, v) \<Rightarrow>
             parse_lines ls (AList.update (json_unesc (trim_start_matches QUOTE k)) (json_unesc (trim_end_matches QUOTE v)) m))"

definition parse_map :: "string \<Rightarrow> (string \<times> string) list option" where
  "parse_map s = parse_lines (str_lines s) []"

text \<open>The argument is the text of the file, when it can be read.\<close>

definition fs_open :: "string option \<Rightarrow> file_store" where
  "fs_open file =
     \<lparr>fs_data = (case Option.bind file parse_map of Some m \<Rightarrow> m | None \<Rightarrow> []), fs_disk = file, fs_count = 0\<rparr>"

section \<open>The command line\<close>

record host_args =
  ha_cfg :: node_config
  ha_port :: u16
  ha_state :: string

definition args_default :: "string \<Rightarrow> host_args" where
  "args_default pkg_version =
     \<lparr>ha_cfg = (node_config_default pkg_version)\<lparr>nc_hostname := ''hostnode'', nc_worker_stack := 256 * 1024, nc_control_stack := 1024 * 1024\<rparr>,
      ha_port = 2300, ha_state = ''hostnode-state.json''\<rparr>"

text \<open>One option with the argument after it; \<open>None\<close> is the exit with code 2.\<close>

definition run_arg :: "string \<Rightarrow> string option \<Rightarrow> host_args \<Rightarrow> host_args option" where
  "run_arg opt v a =
     (let cfg = ha_cfg a
      in if opt = ''--authkey'' then Some (a\<lparr>ha_cfg := cfg\<lparr>nc_auth_key := v\<rparr>\<rparr>)
         else if opt = ''--hostname'' then Some (a\<lparr>ha_cfg := cfg\<lparr>nc_hostname := unwrap_or_default v\<rparr>\<rparr>)
         else if opt = ''--control'' then Some (a\<lparr>ha_cfg := cfg\<lparr>nc_control_url := unwrap_or_default v\<rparr>\<rparr>)
         else if opt = ''--port'' then Some (a\<lparr>ha_port := (case Option.bind v parse_word of Some p \<Rightarrow> p | None \<Rightarrow> 35932)\<rparr>)
         else if opt = ''--state'' then Some (a\<lparr>ha_state := unwrap_or_default v\<rparr>)
         else if opt = ''--udp-port''
           then Some (a\<lparr>ha_cfg := cfg\<lparr>nc_udp_port := (case Option.bind v parse_word of Some p \<Rightarrow> p | None \<Rightarrow> 41641)\<rparr>\<rparr>)
         else None)"

function run_args :: "string list \<Rightarrow> host_args \<Rightarrow> host_args option" where
  "run_args [] a = Some a"
| "run_args (opt # rest) a =
     (case run_arg opt (case rest of [] \<Rightarrow> None | v # _ \<Rightarrow> Some v) a of
        None \<Rightarrow> None
      | Some a \<Rightarrow> run_args (drop 1 rest) a)"
  by pat_completeness auto
termination
  by (relation "measure (\<lambda>(args, _). length args)") auto

datatype host_command = ProbeControl string | RunNode "string list" | Usage

definition host_main :: "string list \<Rightarrow> host_command" where
  "host_main args =
     (case drop 1 args of
        [] \<Rightarrow> Usage
      | cmd # rest \<Rightarrow>
          (if cmd = ''probe-control''
           then ProbeControl (case rest of [] \<Rightarrow> ''https://controlplane.tailscale.com'' | url # _ \<Rightarrow> url)
           else if cmd = ''run'' then RunNode rest else Usage))"

definition probe_request :: "hex_lib \<Rightarrow> string \<Rightarrow> bytes \<Rightarrow> register_request" where
  "probe_request H pkg_version node_public =
     \<lparr>rq_version = CAPABILITY_VERSION, rq_node_key = fmt_node_pub H node_public, rq_old_node_key = fmt_node_pub H (replicate 32 0),
      rq_auth = None, rq_expiry = ZERO_TIME, rq_followup = [], rq_hostinfo = hostinfo_new ''tsnode-probe'' pkg_version 0,
      rq_ephemeral = False\<rparr>"

section \<open>An echo client\<close>

definition greeting :: bytes where
  "greeting = map (\<lambda>c. word_of_nat (of_char c)) (''hostnode echo: type and it comes back'' @ [CHR 0x0D, CHR 0x0A])"

datatype echo_pos = EcGreet bytes | EcRead | EcWrite bytes | EcDrop | EcEnd

text \<open>One turn of a wait or one call; at the end the stream is dropped, which closes it.\<close>

definition echo_step :: "nat \<Rightarrow> instant \<Rightarrow> instant \<Rightarrow> echo_pos \<times> 'w netstack \<Rightarrow> echo_pos \<times> 'w netstack" where
  "echo_step i deadline now = (\<lambda>(p, s).
     (case p of
        EcGreet rest \<Rightarrow>
          (case write_turn i rest s of
             (Wait, s) \<Rightarrow> (p, s)
           | (turn.Done (Inl _), s) \<Rightarrow> (EcRead, s)
           | (turn.Done (Inr n), s) \<Rightarrow> (if drop n rest = [] then EcRead else EcGreet (drop n rest), s))
      | EcRead \<Rightarrow>
          (case read_turn i 1024 deadline now s of
             (turn.Done (Inr []), s) \<Rightarrow> (EcDrop, s)
           | (turn.Done (Inr data), s) \<Rightarrow> (EcWrite data, s)
           | (turn.Done (Inl e), s) \<Rightarrow> (if e = TimedOut then EcRead else EcDrop, s)
           | (Wait, s) \<Rightarrow> (EcRead, s))
      | EcWrite rest \<Rightarrow>
          (case write_turn i rest s of
             (Wait, s) \<Rightarrow> (p, s)
           | (turn.Done (Inl _), s) \<Rightarrow> (EcDrop, s)
           | (turn.Done (Inr n), s) \<Rightarrow> (if drop n rest = [] then EcRead else EcWrite (drop n rest), s))
      | EcDrop \<Rightarrow> (EcEnd, close_stream i s)
      | EcEnd \<Rightarrow> (EcEnd, s)))"

section \<open>What was written is read back\<close>

lemma json_esc_cons [simp]:
  "json_esc [] = []"
  "json_esc (c # s) = (if c = BSL then [BSL, BSL] else if c = QUOTE then [BSL, QUOTE] else [c]) @ json_esc s"
  by (simp_all add: json_esc_def replace_char_def BSL_def QUOTE_def)

lemma json_esc_no_quote_head: "json_esc s \<noteq> QUOTE # r"
  by (cases s) (auto simp: BSL_def QUOTE_def)

lemma unesc_quotes:
  "replace2 BSL QUOTE [QUOTE] (json_esc s) = concat (map (\<lambda>c. if c = BSL then [BSL, BSL] else [c]) s)"
proof (induction s)
  case Nil
  then show ?case by simp
next
  case (Cons c s)
  have skip: "replace2 BSL QUOTE [QUOTE] (x # json_esc s) = x # replace2 BSL QUOTE [QUOTE] (json_esc s)" for x
    using json_esc_no_quote_head [of s] by (cases "json_esc s") auto
  show ?case
  proof (cases "c = BSL")
    case True
    moreover have "BSL \<noteq> QUOTE" by (simp add: BSL_def QUOTE_def)
    ultimately show ?thesis using Cons skip by simp
  next
    case False
    then show ?thesis using Cons skip by simp
  qed
qed

lemma json_unesc_esc: "json_unesc (json_esc s) = s"
proof -
  have "replace2 BSL BSL [BSL] (concat (map (\<lambda>c. if c = BSL then [BSL, BSL] else [c]) s)) = s"
  proof (induction s)
    case (Cons c s)
    have "c \<noteq> BSL \<Longrightarrow> replace2 BSL BSL [BSL] (c # r) = c # replace2 BSL BSL [BSL] r" for r
      by (cases r) auto
    then show ?case using Cons by simp
  qed simp
  then show ?thesis by (simp add: json_unesc_def unesc_quotes)
qed

text \<open>The separator of a line is found after the key, when the key has no quote.\<close>

lemma json_esc_no_quote: "QUOTE \<notin> set k \<Longrightarrow> QUOTE \<notin> set (json_esc k)"
  by (induction k) (auto simp: BSL_def QUOTE_def)

lemma split_once_str_first: "p \<notin> set k \<Longrightarrow> split_once_str (p # ps) (k @ (p # ps) @ v) = Some (k, v)"
  by (induction k) simp_all

text \<open>A value that does not end in a quote survives the removal of the quotes at the end.\<close>

lemma trim_end_last: "s = [] \<or> last s \<noteq> c \<Longrightarrow> trim_end_matches c s = s"
  by (cases s rule: rev_cases) (auto simp: trim_end_matches_def)

lemma trim_end_snoc [simp]: "trim_end_matches c (s @ [c]) = trim_end_matches c s"
  by (simp add: trim_end_matches_def)

lemma json_esc_last: "s \<noteq> [] \<Longrightarrow> json_esc s \<noteq> [] \<and> last (json_esc s) = last s"
  by (induction s) auto

lemma json_esc_set: "set (json_esc s) \<subseteq> insert BSL (set s)"
  by (induction s) (auto simp: BSL_def QUOTE_def)

definition entry_ok :: "string \<times> string \<Rightarrow> bool" where
  "entry_ok = (\<lambda>(k, v). QUOTE \<notin> set k \<and> CHR '':'' \<notin> set k \<and> NL \<notin> set k \<and> NL \<notin> set v \<and> (v = [] \<or> last v \<noteq> QUOTE))"

definition entry_text :: "string \<Rightarrow> string \<Rightarrow> bool \<Rightarrow> string" where
  "entry_text k v comma = [QUOTE] @ json_esc k @ [QUOTE] @ '': '' @ [QUOTE] @ json_esc v @ [QUOTE] @ (if comma then '','' else [])"

lemma trim_outer: "s \<noteq> [] \<Longrightarrow> \<not> is_ws (hd s) \<Longrightarrow> \<not> is_ws (last s) \<Longrightarrow> trim ('' '' @ '' '' @ s) = s"
proof -
  assume a: "s \<noteq> []" "\<not> is_ws (hd s)" "\<not> is_ws (last s)"
  have "dropWhile is_ws ('' '' @ '' '' @ s) = s" using a(1,2) by (cases s) (simp_all, simp add: is_ws_def)
  moreover have "dropWhile is_ws (rev s) = rev s" using a(1,3) by (cases s rule: rev_cases) simp_all
  ultimately show ?thesis by (simp add: trim_def)
qed

lemma trim_entry: "trim ('' '' @ '' '' @ entry_text k v comma) = entry_text k v comma"
  by (rule trim_outer) (simp_all add: entry_text_def is_ws_def QUOTE_def Let_def)

lemma parse_entry:
  assumes "entry_ok (k, v)"
  shows "parse_lines (('' '' @ '' '' @ entry_text k v comma) # ls) m = parse_lines ls (AList.update k v m)"
proof -
  let ?line = "[QUOTE] @ json_esc k @ ([QUOTE] @ '': '' @ [QUOTE]) @ json_esc v @ [QUOTE]"
  have line: "trim_end_matches CHR '','' (entry_text k v comma) = ?line"
  proof -
    have "trim_end_matches CHR '','' ?line = ?line" by (rule trim_end_last) (simp add: QUOTE_def)
    then show ?thesis using trim_end_snoc [of "CHR '',''" ?line] by (cases comma) (simp_all add: entry_text_def)
  qed
  have k: "QUOTE \<notin> set (json_esc k)" using assms by (auto simp: entry_ok_def dest: json_esc_no_quote)
  have sep: "split_once_str ([QUOTE] @ '': '' @ [QUOTE]) ?line = Some ([QUOTE] @ json_esc k, json_esc v @ [QUOTE])"
  proof -
    have "CHR '':'' \<notin> set (json_esc k)" using assms json_esc_set [of k] by (auto simp: entry_ok_def BSL_def)
    then have "strip_prefix (QUOTE # '': '' @ [QUOTE]) (QUOTE # json_esc k @ QUOTE # r) = None" for r
      by (cases "json_esc k") (auto simp: QUOTE_def)
    then show ?thesis using split_once_str_first [OF k, of "'': '' @ [QUOTE]" "json_esc v @ [QUOTE]"] by simp
  qed
  have key: "trim_start_matches QUOTE ([QUOTE] @ json_esc k) = json_esc k"
    using k by (cases "json_esc k") (auto simp: trim_start_matches_def)
  have val: "trim_end_matches QUOTE (json_esc v @ [QUOTE]) = json_esc v"
    using assms json_esc_last [of v] by (simp add: entry_ok_def) (metis trim_end_last json_esc_cons(1))
  show ?thesis
    unfolding parse_lines.simps trim_entry line Let_def sep using key val by (simp add: json_unesc_esc)
qed

lemma json_line_text: "json_line m comma k = '' '' @ '' '' @ entry_text k (the (map_of m k)) comma @ [NL]"
  by (simp add: json_line_def entry_text_def QUOTE_def NL_def)

lemma entry_text_no_newline:
  assumes "NL \<notin> set k" "NL \<notin> set v"
  shows "NL \<notin> set ('' '' @ '' '' @ entry_text k v comma)"
proof -
  have "NL \<noteq> BSL" "NL \<noteq> QUOTE" by (simp_all add: NL_def BSL_def QUOTE_def)
  then have "NL \<notin> set (json_esc k)" "NL \<notin> set (json_esc v)" using assms json_esc_set [of k] json_esc_set [of v] by auto
  then show ?thesis using \<open>NL \<noteq> QUOTE\<close> by (auto simp: entry_text_def NL_def)
qed

lemma entry_text_keeps_cr: "strip_cr ('' '' @ '' '' @ entry_text k v comma) = '' '' @ '' '' @ entry_text k v comma"
  by (simp add: strip_cr_def entry_text_def QUOTE_def)

lemma parse_json_lines:
  assumes "\<forall>k \<in> set ks. entry_ok (k, the (map_of d k))"
  shows "parse_lines (str_lines (json_lines d ks @ ''}'')) m = Some (fold (\<lambda>k. AList.update k (the (map_of d k))) ks m)"
  using assms
proof (induction ks arbitrary: m)
  case Nil
  have "str_lines ''}'' = [''}'']" by (simp add: str_lines.simps NL_def)
  then show ?case by (simp add: trim_def trim_end_matches_def is_ws_def QUOTE_def)
next
  case (Cons k ks)
  let ?t = "'' '' @ '' '' @ entry_text k (the (map_of d k)) (ks \<noteq> [])"
  have ok: "entry_ok (k, the (map_of d k))" using Cons.prems by simp
  then have nl: "NL \<notin> set ?t" by (intro entry_text_no_newline) (auto simp: entry_ok_def)
  have "str_lines (json_lines d (k # ks) @ ''}'') = ?t # str_lines (json_lines d ks @ ''}'')"
    using str_lines_line [OF nl, of "json_lines d ks @ ''}''"] by (simp add: json_line_text entry_text_keeps_cr [simplified])
  then show ?case using Cons parse_entry [OF ok] by simp
qed

lemma map_of_fold_update:
  "map_of (fold (\<lambda>k. AList.update k (f k)) ks m) k = (if k \<in> set ks then Some (f k) else map_of m k)"
  by (induction ks arbitrary: m) (auto simp: update_conv')

lemma parse_json_map:
  assumes "\<forall>k v. map_of d k = Some v \<longrightarrow> entry_ok (k, v)"
  shows "\<exists>m. parse_map (json_map d) = Some m \<and> map_of m = map_of d"
proof -
  let ?ks = "sort (remdups (map fst d))"
  have ks: "set ?ks = dom (map_of d)" by (simp add: dom_map_of_conv_image_fst)
  have "\<forall>k \<in> set ?ks. entry_ok (k, the (map_of d k))" using assms unfolding ks by auto
  note body = parse_json_lines [OF this, of "[]"]
  have "NL \<notin> set ''{''" by (simp add: NL_def)
  from str_lines_line [OF this] have "str_lines (json_map d) = ''{'' # str_lines (json_lines d ?ks @ ''}'')"
    by (simp add: json_map_def NL_def strip_cr_def)
  then have "parse_map (json_map d) = Some (fold (\<lambda>k. AList.update k (the (map_of d k))) ?ks [])"
    using body by (simp add: parse_map_def trim_def trim_end_matches_def is_ws_def QUOTE_def)
  moreover have "map_of (fold (\<lambda>k. AList.update k (the (map_of d k))) ?ks []) = map_of d"
  proof
    fix k
    show "map_of (fold (\<lambda>k. AList.update k (the (map_of d k))) ?ks []) k = map_of d k"
      unfolding map_of_fold_update ks by (cases "map_of d k") auto
  qed
  ultimately show ?thesis by blast
qed

text \<open>
  C29: The state of the host tool survives a restart: after a write of the file store that reported success, opening the file
  again gives the same entries, for every set of entries whose keys have no quote, colon or line feed and whose values have no
  line feed and do not end in a quote (every other character, backslashes and inner quotes included, is kept).
\<close>

theorem file_store_reopened:
  assumes "st_set (file_store_ops io) k v s = (Inr u, s')"
    "\<forall>k v. map_of (fs_data s') k = Some v \<longrightarrow> entry_ok (k, v)"
  shows "map_of (fs_data (fs_open (fs_disk s'))) = map_of (fs_data s') \<and> map_of (fs_data s') k = Some v"
proof -
  have d: "fs_disk s' = Some (json_map (fs_data s'))" "fs_data s' = AList.update k v (fs_data s)"
    using assms(1) by (auto simp: file_store_ops_def fs_flush_def Let_def split: flush_result.splits)
  then show ?thesis using parse_json_map [OF assms(2)] by (auto simp: fs_open_def update_conv')
qed

definition demo_files :: file_store where
  "demo_files = \<lparr>fs_data = [(KEY_NODE, [BSL, QUOTE, CHR ''a''])], fs_disk = None, fs_count = 0\<rparr>"

theorem file_store_reopened_witness:
  "map_of (fs_data (fs_open (fs_disk (snd (st_set (file_store_ops (\<lambda>_. FlushOk)) KEY_REGISTERED ''1'' demo_files))))) KEY_NODE
     = Some [BSL, QUOTE, CHR ''a'']"
proof -
  let ?r = "st_set (file_store_ops (\<lambda>_. FlushOk)) KEY_REGISTERED ''1'' demo_files"
  have r: "?r = (Inr (), snd ?r)" by (simp add: file_store_ops_def fs_flush_def Let_def)
  have d: "fs_data (snd ?r) = [(KEY_NODE, [BSL, QUOTE, CHR ''a'']), (KEY_REGISTERED, ''1'')]"
    by (simp add: file_store_ops_def fs_flush_def Let_def demo_files_def store_keys)
  have "\<forall>k v. map_of (fs_data (snd ?r)) k = Some v \<longrightarrow> entry_ok (k, v)"
    unfolding d by (simp add: entry_ok_def store_keys QUOTE_def BSL_def NL_def)
  from file_store_reopened [OF r this] show ?thesis by (simp add: d)
qed

text \<open>
  A value that ends in a quote comes back with a backslash in its place: \<^verbatim>\<open>trim_end_matches\<close> removes the quote of the value with the
  one that closes the string.
\<close>

theorem file_store_quote_lost:
  "parse_map (json_map [(''k'', [CHR ''a'', QUOTE])]) = Some [(''k'', [CHR ''a'', BSL])]"
  by code_simp

section \<open>The echo client gets back what it sent\<close>

lemma ns_step_store_grows: "length (ns_conn_store s) \<le> length (ns_conn_store (ns_step L ev s))"
proof (cases ev)
  case (ThreadStep e)
  then show ?thesis
    by (cases "ns_at s")
      (auto simp: thread_step_def pull_work_def flush_out_def open_connection_def serve_listener_def hand_over_def serve_conn_def
        stack_panic_def put_conn_def Let_def split: prod.splits list.splits bool.splits option.splits tcp_state.splits)
qed (auto simp: inject_def set_addresses_def listen_def connect_def shutdown_stack_def drop_listener_def accept_turn_def read_turn_def
    write_turn_def close_stream_def abort_stream_def put_conn_def Let_def wake_def split: list.split)

text \<open>The thread of the client on stream \<open>i\<close> among all other calls; only it reads from and writes to its stream.\<close>

datatype echo_ev = EchoTurn instant instant | Elsewhere ns_ev

fun elsewhere :: "nat \<Rightarrow> ns_ev \<Rightarrow> bool" where
  "elsewhere i (ReadTurn j _ _ _) \<longleftrightarrow> j \<noteq> i"
| "elsewhere i (WriteTurn j _) \<longleftrightarrow> j \<noteq> i"
| "elsewhere i _ \<longleftrightarrow> True"

fun echo_call :: "nat \<Rightarrow> instant \<Rightarrow> instant \<Rightarrow> echo_pos \<Rightarrow> ns_ev list" where
  "echo_call i dl now (EcGreet rest) = [WriteTurn i rest]"
| "echo_call i dl now EcRead = [ReadTurn i 1024 dl now]"
| "echo_call i dl now (EcWrite rest) = [WriteTurn i rest]"
| "echo_call i dl now EcDrop = [CloseStream i]"
| "echo_call i dl now EcEnd = []"

fun echo_run :: "('k, 'w) smol \<Rightarrow> nat \<Rightarrow> echo_ev \<Rightarrow> echo_pos \<times> 'w history \<Rightarrow> echo_pos \<times> 'w history" where
  "echo_run L i (EchoTurn dl now) (p, s, W, R) =
     (fst (echo_step i dl now (p, s)), snd (echo_step i dl now (p, s)), snd (fold (hist_step L) (echo_call i dl now p) (s, W, R)))"
| "echo_run L i (Elsewhere ev) (p, h) = (p, if elsewhere i ev then hist_step L ev h else h)"

definition echo_inv :: "nat \<Rightarrow> echo_pos \<times> 'w history \<Rightarrow> bool" where
  "echo_inv i = (\<lambda>(p, s, W, R).
     i < length (ns_conn_store s) \<and>
     (case p of
        EcGreet rest \<Rightarrow> R i = [] \<and> W i @ rest = greeting
      | EcRead \<Rightarrow> W i = greeting @ R i \<or> unwritable i s \<and> prefix (W i) (greeting @ R i)
      | EcWrite rest \<Rightarrow> rest \<noteq> [] \<and> (W i @ rest = greeting @ R i \<or> unwritable i s \<and> prefix (W i) (greeting @ R i))
      | _ \<Rightarrow> prefix (W i) (greeting @ R i)))"

lemma echo_inv_write:
  assumes i: "i < length (ns_conn_store s)" and r: "rest \<noteq> []"
    and W: "W i @ rest = greeting @ R i \<or> unwritable i s \<and> prefix (W i) (greeting @ R i)"
  shows "echo_inv i (echo_run L i (EchoTurn dl now) (EcWrite rest, s, W, R))"
proof (cases "unwritable i s")
  case True
  have "prefix (W i) (greeting @ R i)" using W by (metis prefixI)
  then show ?thesis using True i unwritable_write [OF True r] by (simp add: echo_inv_def echo_step_def hist_step_def)
next
  case False
  then have W: "W i @ rest = greeting @ R i" using W by simp
  then have "prefix (W i) (greeting @ R i)" by (metis prefixI)
  then show ?thesis using i W r turn_stores(2) [of i rest s]
    by (cases "write_turn i rest s") (auto simp: echo_inv_def echo_step_def hist_step_def split: turn.splits sum.splits)
qed

lemma echo_inv_greet:
  assumes i: "i < length (ns_conn_store s)" and W: "W i @ rest = greeting" "R i = []"
  shows "echo_inv i (echo_run L i (EchoTurn dl now) (EcGreet rest, s, W, R))"
proof -
  have "prefix (W i) greeting" using W by (metis prefixI)
  then show ?thesis using i W turn_stores(2) [of i rest s] write_turn_unwritable [of i rest s]
    by (cases "write_turn i rest s") (auto simp: echo_inv_def echo_step_def hist_step_def split: turn.splits sum.splits)
qed

lemma echo_inv_read:
  assumes i: "i < length (ns_conn_store s)"
    and W: "W i = greeting @ R i \<or> unwritable i s \<and> prefix (W i) (greeting @ R i)"
  shows "echo_inv i (echo_run L i (EchoTurn dl now) (EcRead, s, W, R))"
proof -
  obtain t s' where t: "read_turn i 1024 dl now s = (t, s')" by (cases "read_turn i 1024 dl now s")
  have s': "length (ns_conn_store s') = length (ns_conn_store s)" "unwritable i s \<Longrightarrow> unwritable i s'"
    using turn_stores(4) [of i 1024 dl now s] unwritable_step [of i s undefined "ReadTurn i 1024 dl now"] i t by simp_all
  have "prefix (W i) (greeting @ R i)" using W by auto
  then have p: "prefix (W i) (greeting @ R i)" "prefix (W i) (greeting @ R i @ d)" for d
    by (auto simp: prefix_append)
  show ?thesis using i W s' t p
    by (auto simp: echo_inv_def echo_step_def hist_step_def split: turn.splits sum.splits list.splits)
qed

lemma echo_inv_step: "echo_inv i h \<Longrightarrow> echo_inv i (echo_run L i ev h)"
proof -
  assume inv: "echo_inv i h"
  obtain p s W R where h: "h = (p, s, W, R)" by (metis surj_pair)
  show ?thesis
  proof (cases ev)
    case (EchoTurn dl now)
    show ?thesis
    proof (cases p)
      case (EcGreet rest)
      then show ?thesis using inv echo_inv_greet [of i s W rest R L dl now] by (simp add: EchoTurn h echo_inv_def)
    next
      case EcRead
      then show ?thesis using inv echo_inv_read [of i s W R L dl now] by (simp add: EchoTurn h echo_inv_def)
    next
      case (EcWrite rest)
      then show ?thesis using inv echo_inv_write [of i s rest W R L dl now] by (simp add: EchoTurn h echo_inv_def)
    qed (use inv in \<open>simp_all add: EchoTurn h echo_inv_def echo_step_def hist_step_def\<close>)
  next
    case (Elsewhere e)
    have "elsewhere i e \<Longrightarrow> wrote e s i = [] \<and> got e s i = []" by (cases e) auto
    then show ?thesis using inv unwritable_step [of i s L e] ns_step_store_grows [of s L e]
      by (auto simp: h Elsewhere echo_inv_def hist_step_def split: echo_pos.splits)
  qed
qed

interpretation ech: step_invariant "echo_inv i" "echo_run L i" "echo_inv i" for L :: "('k, 'w) smol" and i
  by unfold_locales (auto intro: echo_inv_step)

text \<open>
  The echo service of the host tool sends back what it receives: at every moment, whatever the rest of the stack does, the
  bytes written to the stream of a client are a prefix of the greeting followed by the bytes read from it, and whenever the thread is
  about to read and the stream can still be written to, they are all of them.
\<close>

theorem echo_returns_input:
  assumes "i < length (ns_conn_store s)" "W i = []" "R i = []"
    "fold (echo_run L i) evs (EcGreet greeting, s, W, R) = (p, s', W', R')"
  shows "prefix (W' i) (greeting @ R' i) \<and> (p = EcRead \<and> \<not> unwritable i s' \<longrightarrow> W' i = greeting @ R' i)"
proof -
  have "echo_inv i (EcGreet greeting, s, W, R)" using assms(1-3) by (simp add: echo_inv_def)
  from ech.run_inv [OF this, of L evs] have "echo_inv i (p, s', W', R')" by (simp add: assms(4))
  then show ?thesis by (auto simp: echo_inv_def split: echo_pos.splits) (metis prefixI)+
qed

definition demo_echo :: "echo_pos \<times> (nat \<times> demo_socket) list history" where
  "demo_echo = fold (echo_run demo_smol 0) (EchoTurn 0 0 # EchoTurn 0 0 # EchoTurn 0 0 # [])
     (EcGreet greeting, (netstack_start [])\<lparr>ns_conn_store := [(conn_state_new (SocketAddr (V4 1) 23))\<lparr>cs_rx := [72, 73]\<rparr>]\<rparr>, \<lambda>_. [], \<lambda>_. [])"

lemma demo_echo_state:
  "fst demo_echo = EcRead" "\<not> unwritable 0 (fst (snd demo_echo))" "snd (snd (snd demo_echo)) 0 = [72, 73]"
  by code_simp+

theorem echo_returns_input_witness: "fst (snd (snd demo_echo)) 0 = greeting @ [72, 73]"
proof -
  obtain p s W R where h: "demo_echo = (p, s, W, R)" by (metis surj_pair)
  from echo_returns_input [OF _ _ _ h [unfolded demo_echo_def]] show ?thesis using demo_echo_state by (simp add: h)
qed

end
