(* ===== verification/Dialers.thy ===== *)
theory Dialers
  imports Device Derp
begin

text \<open>
  The two implementations of the trait Dialer: firmware/src/tls.rs over esp-tls and tools/hostnode/src/tls.rs over rustls. The
  TLS libraries, the resolver and the connects are parameters; a TLS connection is the sequence of the results of its reads.
\<close>

section \<open>The dialer of the device\<close>

definition DIAL_TIMEOUT :: duration where "DIAL_TIMEOUT = from_secs 15"

record tls_codes =
  tc_want_read :: int
  tc_want_write :: int
  tc_timeout :: int

definition esp_map_err :: "tls_codes \<Rightarrow> int \<Rightarrow> io_kind" where
  "esp_map_err C code =
     (if code = tc_want_read C \<or> code = tc_want_write C then WouldBlock
      else if code = tc_timeout C then TimedOut else OtherError)"

text \<open>Reads and writes of the library with its error codes mapped.\<close>

definition esp_conn :: "tls_codes \<Rightarrow> (int + bytes) list \<Rightarrow> int option \<Rightarrow> conn" where
  "esp_conn C reads werr =
     \<lparr>cn_in = map (\<lambda>r. case r of Inl code \<Rightarrow> RdErr (esp_map_err C code) | Inr b \<Rightarrow> RdOk b) reads, cn_out = [],
      cn_werr = map_option (esp_map_err C) werr\<rparr>"

text \<open>Seconds and microseconds of a timeout; zero stands for no timeout.\<close>

definition timeval :: "duration option \<Rightarrow> nat \<times> nat" where
  "timeval timeout =
     (let t = (case timeout of Some t \<Rightarrow> t | None \<Rightarrow> 0) in (t div from_secs 1, t mod from_secs 1 div (from_millis 1 div 1000)))"

definition esp_set_read_timeout :: "int option \<Rightarrow> (int \<Rightarrow> nat \<times> nat \<Rightarrow> bool) \<Rightarrow> duration option \<Rightarrow> io_kind + unit" where
  "esp_set_read_timeout fd setsockopt timeout =
     (case fd of
        None \<Rightarrow> Inl OtherError
      | Some fd \<Rightarrow> (if fd \<ge> 0 \<and> setsockopt fd (timeval timeout) then Inr () else Inl OtherError))"

record esp_tls =
  et_codes :: tls_codes
  et_new :: "int option"
  et_connect :: "string \<Rightarrow> u16 \<Rightarrow> string \<Rightarrow> nat \<Rightarrow> int + (int + bytes) list \<times> int option"

definition esp_dial_tls :: "esp_tls \<Rightarrow> string \<Rightarrow> ip_addr option \<Rightarrow> u16 \<Rightarrow> io_kind + conn" where
  "esp_dial_tls T sni addr port =
     (case et_new T of
        Some code \<Rightarrow> Inl (esp_map_err (et_codes T) code)
      | None \<Rightarrow>
          (let target = (case addr of Some a \<Rightarrow> fmt_ip a | None \<Rightarrow> sni)
           in case et_connect T target port sni (DIAL_TIMEOUT div from_millis 1) of
                Inl _ \<Rightarrow> Inl ConnectionRefused
              | Inr (reads, werr) \<Rightarrow> Inr (esp_conn (et_codes T) reads werr)))"

definition esp_dialer ::
    "(string \<Rightarrow> u16 \<Rightarrow> io_kind + socket_addr list) \<Rightarrow> (socket_addr \<Rightarrow> io_kind + conn) \<Rightarrow> esp_tls \<Rightarrow> dialer" where
  "esp_dialer resolve tcp T =
     \<lparr>dial_tcp = connect_tcp resolve tcp, dial_tls = esp_dial_tls T, ip_to_string = fmt_ip\<rparr>"

section \<open>The dialer of the host tool\<close>

text \<open>
  \<open>rt_client\<close>: the connection for a name over a TCP stream, or the errors of the name and of the library; \<open>rt_handshake\<close>: the
  results of the calls that complete the handshake.
\<close>

record rustls =
  rt_name_ok :: "string \<Rightarrow> bool"
  rt_client :: "string \<Rightarrow> conn \<Rightarrow> conn option"
  rt_set_timeout :: "conn \<Rightarrow> io_kind option"
  rt_handshake :: "conn \<Rightarrow> (io_kind + unit) list"

fun complete_handshake :: "(io_kind + unit) list \<Rightarrow> io_kind option" where
  "complete_handshake [] = None"
| "complete_handshake (Inl e # rs) = Some e"
| "complete_handshake (Inr _ # rs) = complete_handshake rs"

definition host_dial_tls ::
    "(string \<Rightarrow> u16 \<Rightarrow> io_kind + socket_addr list) \<Rightarrow> (socket_addr \<Rightarrow> io_kind + conn) \<Rightarrow> rustls
      \<Rightarrow> string \<Rightarrow> ip_addr option \<Rightarrow> u16 \<Rightarrow> io_kind + conn" where
  "host_dial_tls resolve tcp T sni addr port =
     (case connect_tcp resolve tcp (case addr of Some ip \<Rightarrow> fmt_ip ip | None \<Rightarrow> sni) port of
        Inl e \<Rightarrow> Inl e
      | Inr c \<Rightarrow>
          (if \<not> rt_name_ok T sni then Inl InvalidInput
           else case rt_client T sni c of
             None \<Rightarrow> Inl OtherError
           | Some tls \<Rightarrow>
               (case rt_set_timeout T c of
                  Some e \<Rightarrow> Inl e
                | None \<Rightarrow>
                    (case complete_handshake (rt_handshake T tls) of Some e \<Rightarrow> Inl e | None \<Rightarrow> Inr tls))))"

definition host_dialer ::
    "(string \<Rightarrow> u16 \<Rightarrow> io_kind + socket_addr list) \<Rightarrow> (socket_addr \<Rightarrow> io_kind + conn) \<Rightarrow> rustls \<Rightarrow> dialer" where
  "host_dialer resolve tcp T =
     \<lparr>dial_tcp = connect_tcp resolve tcp, dial_tls = host_dial_tls resolve tcp T, ip_to_string = fmt_ip\<rparr>"

section \<open>Timeouts\<close>

text \<open>
  The read timeout of the device is the given one, rounded down to microseconds, and every timeout the protocol code sets (at
  least a millisecond) stays one: it is never the zero that waits for ever.
\<close>

theorem read_timeout_kept:
  assumes "from_millis 1 \<le> t"
  shows "timeval (Some t) \<noteq> (0, 0)
    \<and> (case timeval (Some t) of (sec, usec) \<Rightarrow> usec < 1000000 \<and> (sec * 1000000 + usec) * 1000 \<le> t \<and> t < (sec * 1000000 + usec + 1) * 1000)"
proof -
  let ?s = "1000000000 :: nat"
  have t: "timeval (Some t) = (t div ?s, t mod ?s div 1000)" by (simp add: timeval_def from_secs_def from_millis_def)
  define q where "q = t div ?s"
  define u where "u = t mod ?s div 1000"
  define v where "v = t mod ?s mod 1000"
  have r: "t mod ?s = u * 1000 + v" "t = q * ?s + t mod ?s" "t mod ?s < ?s" "v < 1000"
    by (simp_all add: q_def u_def v_def del: mod_mod_trivial)
  then have e: "t = q * ?s + u * 1000 + v" "u * 1000 + v < ?s" "v < 1000" by simp_all
  have "1000000 \<le> t" using assms by (simp add: from_millis_def)
  then have "q \<noteq> 0 \<or> u \<noteq> 0" using e by auto
  moreover have "u < 1000000" "(q * 1000000 + u) * 1000 \<le> t" "t < (q * 1000000 + u + 1) * 1000" 
    using e by (simp_all add: algebra_simps)
  ultimately show ?thesis unfolding t by (simp add: q_def [symmetric] u_def [symmetric])
qed

end
