(* ===== verification/Spec2Isabelle.thy ===== *)
theory Spec2Isabelle
  imports WireGuard_Ops Packet_Filter Stun Disco Http1 Derp Control_Types Usb_Serial H2_Flow Control_Base Control_Props
    Magicsock_Props Derp_Worker Netstack_Props Node_Props Shell_Props Key_Store_Props Usb_Host_Props Bridge_Props Device_Props Host_Tool Dialers
begin

text \<open>
  \<^bold>\<open>Verification of usb-over-tailscale.\<close>

  The program makes a USB serial adapter reachable over a tailnet. crates/tsnode is a Tailscale node
  of its own: it registers with the control plane (Noise IK, HTTP/2, JSON), learns its peers, and
  moves IP packets through WireGuard tunnels over UDP or DERP relays. crates/adapter-core holds what
  the device adds (a console shell, baud-rate arithmetic), firmware the bindings to the ESP32, and
  tools/hostnode a host program for the node.

  \<^bold>\<open>Theories and the code they model\<close> (paths under src/)

  \<^item> Prelude: machine integers, byte order, durations and instants, error kinds, results of reads; the
    locale \<open>step_invariant\<close> (an invariant kept by every operation holds after every run).
  \<^item> Framing: the locale \<open>frame_codec\<close> (a buffer from which whole frames are taken), instantiated by
    the frame readers of Derp, H2 and the map stream.
  \<^item> Net_Addr, Packet_Filter: filter.rs, with the address parsers of the standard library.
  \<^item> Crypto: crypto.rs, noise.rs, keys.rs over third-party primitives (record \<open>prims\<close>) whose laws
    (\<open>aead_ok\<close>, \<open>dh_ok\<close>, \<open>box_ok\<close>, \<open>digest_ok\<close>) are hypotheses; \<open>demo_prims\<close> satisfies them.
  \<^item> Replay_Window, WireGuard, WireGuard_Transport, WireGuard_Handshake, WireGuard_Ops: wireguard.rs.
  \<^item> Stun, Disco: stun.rs, disco.rs.
  \<^item> Conn, Http1, Derp: net.rs, http1.rs, derp.rs. A connection is the list of the results its reads
    will return and the bytes written so far.
  \<^item> H2, H2_Flow: h2.rs over an hpack codec that is a parameter.
  \<^item> Control_Base: controlbase.rs (handshake, upgrade, record layer).
  \<^item> Control_Types, Control, Control_Props: types.rs, control.rs; JSON codecs are parameters.
  \<^item> Magicsock, Magicsock_Inv, Magicsock_Props: magicsock.rs. \<^verbatim>\<open>State\<close> and \<^verbatim>\<open>Inner\<close> are the records
    \<open>ms_state\<close> and \<open>magicsock\<close>; a handler runs under the lock and is a function on them.
  \<^item> Derp_Worker: the thread derp_loop of magicsock.rs that owns one DERP connection; its life is a
    sequence of attempts to connect, turns of the pause after a failed one and turns of the inner loop, with the operations of the
    other threads in between; it takes its commands from the queue of the region's handle.
  \<^item> Netstack, Netstack_Props: netstack.rs over the third-party stack smoltcp (record \<open>smol\<close>, its laws
    \<open>smol_ok\<close>, satisfied by \<open>demo_smol\<close>). The objects behind \<^verbatim>\<open>Arc\<close> are entries of stores; every critical
    section of the poll thread is a step, so that the calls of the users come between any two. The streams left in
    the queue of a listener are closed when the thread lets go of it.
  \<^item> Control_Time, Node, Node_Props: node.rs. \<^verbatim>\<open>Inner\<close> is the record \<open>node_inner\<close> over the states of the
    parts; each field of a map message has its own function, composed in the order of the code; the
    answers of the control client, with the error texts the control loop inspects, are arguments.
  \<^item> Usb_Serial: adapter-core/src/usbserial.rs.
  \<^item> Usb_Host, Usb_Host_Props: firmware/src/usb_host.rs. The CDC-ACM host driver below (C) opens devices and
    calls back; its results and callbacks are events, every critical section is a step, and the handles it
    was asked to close are recorded.
  \<^item> Bridge, Bridge_Props: firmware/src/bridge.rs over Netstack and Usb_Host, with the positions of its three
    threads as part of the state.
  \<^item> Device, Device_Props: the rest of the firmware, main.rs (boot, with every part that can fail to
    start), button.rs, wifi.rs, console.rs and the
    parts of platform.rs that need the node, over the drivers of ESP-IDF as parameters.
  \<^item> Dialers: firmware/src/tls.rs and tools/hostnode/src/tls.rs, the two implementations of the trait Dialer over
    esp-tls and rustls as parameters.
  \<^item> Host_Tool: tools/hostnode/src/main.rs, state file, command line and echo thread.
  \<^item> Shell, Shell_Props: adapter-core/src/shell.rs over the traits Console and Platform.
  \<^item> Key_Store, Key_Store_Props: the trait Store of node.rs, its implementations in
    tools/hostnode/src/main.rs and firmware/src/nvs_store.rs, the device configuration kept in it, and
    the methods of firmware/src/platform.rs that the shell calls.

  \<^bold>\<open>Conventions.\<close> A struct is a record, an enum a datatype, an integer a word or, where the code never
  relies on its width, a natural number or an integer. An error is \<open>Inl\<close>, a panic the result \<open>None\<close>.
  Random draws, clock readings and what other threads decide are arguments, indexed by a counter or
  given as a list. Loops are total functions; where a loop of the code waits for input its model ends
  when the list of future inputs is used up. No fuel is chosen by hand: \<open>noise_fuel\<close> is the size of
  the pending input, which bounds the number of reads that can still return something.

  \<^bold>\<open>Interfaces\<close> are locales: \<open>step_invariant\<close> (tunnel, HTTP/2 connection, packet mover, DERP thread, TCP
  endpoint, bridge, echo client), \<open>byte_source\<close> (reads deliver the pending bytes in order), \<open>replay_guard\<close> (a window never
  accepts twice), \<open>frame_codec\<close> (three frame readers), \<open>shell_invariant\<close> (the operations of the shell keep every
  predicate the platform's methods keep; instantiated for the input left, and by the store of the
  device for the configuration), \<open>kv_store\<close> (what a store shows after a write).

  \<^bold>\<open>What is shown.\<close> Two tunnels that complete a handshake hold matching sessions, sealed packets are
  opened to the same packet, nothing is accepted twice; a packet from the stack of one node reaches
  the stack of another exactly, and only authenticated packets with an allowed source and an
  admitting filter ever do; routing is longest-prefix match; direct paths are learnt from evidence
  only. The control channel delivers what is written and the map stream its messages, for every
  segmentation of the streams below. Parsers invert printers. The filter decides as the fields of the packet and the rules say
  (left out: rules that list only protocols out of range, which the code reads as rules that list none, and IPv6 extension headers).
  Flow control and queues stay within their bounds; the frame size of HTTP/2 is the one announced, and for
  announcements the protocol forbids within the clamp of the code, whose upper end is one too large.
  The console delivers lines as a reference editor
  makes them, hides passwords, and keeps the stored configuration usable, and well formed as long as scanned names hold no tab or line
  feed; a saved configuration is read back. The bytes of every TCP stream pass between user and socket complete and in order under
  every interleaving, and the bridge passes the bytes of its one client and of the serial device on
  unchanged; no USB handle is lost or closed twice, and none is closed while a thread uses it unless a new device is
  published during a write, which the code does not prevent. A packet queued for a relay is sent by the next turn of its thread.
  A configured device boots into the bridge with its saved settings and joins the
  strongest network it knows. The filter in force is the one the map messages describe, time stamps are
  read as the calendar defines them, the identity of the node survives restarts and key rotation, and a silent
  control server is noticed. Several theorems prove behaviour that the code does not intend.

  \<^bold>\<open>Not modelled.\<close> Third-party and vendor libraries (smoltcp, esp-tls, rustls, the drivers of ESP-IDF) are parameters;
  derived JSON codecs, the creation of threads, the installation of the drivers of ESP-IDF, socket options,
  the watchdog and log lines are library calls. The timing of the threads is not modelled: an interleaving is any
  sequence of steps, so that liveness is claimed only where a loop ends by its own clock.
\<close>

end
